(* ===== verification/Prelude.thy ===== *)
theory Prelude
  imports Main "HOL-Library.Word"
begin

text \<open>
  Shared vocabulary of the development.

  C++ integers are modelled as follows: \<open>uint32_t\<close> and \<open>uint8_t\<close> are \<open>32 word\<close> and
  \<open>8 word\<close>, so their arithmetic wraps; \<open>int\<close> is HOL \<open>int\<close> (signed overflow has no
  defined result in C++, so executions that overflow an \<open>int\<close> are outside the model);
  \<open>(int)x\<close> on a \<open>uint32_t\<close> is \<open>sint x\<close> and the conversion back is \<open>word_of_int\<close>.
  A failed \<open>assert\<close> ends the process and is the value \<open>Aborted\<close> of \<open>outcome\<close>; an
  operation whose behaviour C++ or POSIX leaves undefined is \<open>Unspecified\<close>. A loop that
  may not end takes the number of iterations it is run for; when that is too small the value
  is \<open>Running\<close>, so \<open>Running\<close> for every number is the loop that never ends.
\<close>

type_synonym u8 = "8 word"
type_synonym u32 = "32 word"

named_theorems decafs_inv "preservation of component invariants"

datatype 'a outcome = Aborted | Unspecified | Running | Returned 'a

fun outcome_bind :: "'a outcome \<Rightarrow> ('a \<Rightarrow> 'b outcome) \<Rightarrow> 'b outcome" where
  "outcome_bind Aborted f = Aborted"
| "outcome_bind Unspecified f = Unspecified"
| "outcome_bind Running f = Running"
| "outcome_bind (Returned x) f = f x"

lemma outcome_bind_assoc: "outcome_bind (outcome_bind m f) g = outcome_bind m (\<lambda>x. outcome_bind (f x) g)"
  by (cases m) simp_all

lemma outcome_bind_eq_Returned [simp]:
  "outcome_bind m f = Returned y \<longleftrightarrow> (\<exists>x. m = Returned x \<and> f x = Returned y)"
  by (cases m) auto

definition guard_assert :: "bool \<Rightarrow> 'a outcome \<Rightarrow> 'a outcome" where
  "guard_assert b m = (if b then m else Aborted)"

lemma guard_assert_simps [simp]:
  "guard_assert True m = m"
  "guard_assert False m = Aborted"
  by (simp_all add: guard_assert_def)

definition guard_defined :: "bool \<Rightarrow> 'a outcome \<Rightarrow> 'a outcome" where
  "guard_defined b m = (if b then m else Unspecified)"

lemma guard_defined_simps [simp]:
  "guard_defined True m = m"
  "guard_defined False m = Unspecified"
  by (simp_all add: guard_defined_def)

lemma guard_defined_eq_Returned [simp]:
  "guard_defined b m = Returned y \<longleftrightarrow> b \<and> m = Returned y"
  by (simp add: guard_defined_def)

lemma guard_assert_eq_Returned [simp]:
  "guard_assert b m = Returned y \<longleftrightarrow> b \<and> m = Returned y"
  by (simp add: guard_assert_def)

subsection \<open>Lists split by a predicate\<close>

lemma takeWhile_dropWhile_set:
  "x \<in> set xs \<longleftrightarrow> x \<in> set (takeWhile P xs) \<or> x \<in> set (dropWhile P xs)"
  by (metis UnE UnI1 UnI2 set_append takeWhile_dropWhile_id)

lemma dropWhile_hd_not: "dropWhile P xs = y # ys \<Longrightarrow> \<not> P y"
  by (metis hd_dropWhile list.discI list.sel(1))

lemma sum_list_map_remove:
  "xs = ys @ z # zs \<Longrightarrow> sum_list (map f xs) = f z + sum_list (map f (ys @ zs))"
  for f :: "'a \<Rightarrow> 'b::comm_monoid_add"
  by (simp add: ac_simps)

lemma sorted_wrt_linear:
  "sorted_wrt P xs \<Longrightarrow> a \<in> set xs \<Longrightarrow> b \<in> set xs \<Longrightarrow> a = b \<or> P a b \<or> P b a"
  by (induction xs) auto

subsection \<open>Association lists\<close>

lemma map_of_mid:
  "k \<notin> fst ` set xs \<Longrightarrow> map_of (xs @ (k, v) # ys) = (map_of (xs @ ys))(k \<mapsto> v)"
  by (induction xs) (auto simp: fun_eq_iff)

lemma map_of_mid_None:
  "k \<notin> fst ` set xs \<Longrightarrow> k \<notin> fst ` set ys \<Longrightarrow> map_of (xs @ ys) k = None"
  by (metis Un_iff image_Un map_of_eq_None_iff set_append)

lemma map_of_insert_set:
  assumes "distinct (map fst m')" and "set m' = insert (k, v) (set m)"
    and "distinct (map fst m)" and "k \<notin> fst ` set m"
  shows "map_of m' = (map_of m)(k \<mapsto> v)"
proof -
  have "distinct (map fst ((k, v) # m))" using assms(3,4) by simp
  with assms(1,2) have "map_of m' = map_of ((k, v) # m)"
    by (metis list.simps(15) map_of_inject_set)
  then show ?thesis by simp
qed

subsection \<open>Words\<close>

lemma word_less_succ: "x \<noteq> - 1 \<Longrightarrow> x < x + 1" for x :: "'a::len word"
  using inc_less_eq_self_iff_eq[of x] by (simp only: not_le[symmetric] simp_thms)

lemma u32_sint_uint: "uint x < 2 ^ 31 \<Longrightarrow> sint x = uint x" for x :: u32
  using order.trans[OF _ uint_nonnegative[of x], of "- (2 ^ 31)"]
  by (simp add: sint_uint signed_take_bit_int_eq_self_iff)

lemma u32_add_int:
  fixes x :: u32
  assumes "0 \<le> uint x + d" "uint x + d < 2 ^ 32"
  shows "uint (x + word_of_int d) = uint x + d"
proof -
  have "x + word_of_int d = word_of_int (uint x + d)" by simp
  then show ?thesis using assms by (simp only: uint_word_of_int) simp
qed

lemma u32_not_max: "uint x + 1 < 2 ^ 31 \<Longrightarrow> x \<noteq> - 1" for x :: u32
  by (auto simp: unsigned_minus_1_eq_mask mask_eq_exp_minus_1)

lemma u32_sint_of_int: "- (2 ^ 31) \<le> x \<Longrightarrow> x < 2 ^ 31 \<Longrightarrow> sint (word_of_int x :: u32) = x"
  by (simp add: sint_sbintrunc' signed_take_bit_int_eq_self)

lemma uint_of_nat_small: "n < 2 ^ 31 \<Longrightarrow> uint (of_nat n :: u32) = int n"
  by (simp add: uint_nat unat_of_nat)

lemma u32_add_uint: "uint a + uint b < 2 ^ 32 \<Longrightarrow> uint (a + b) = uint a + uint b" for a b :: u32
  using uint_add_lem[of a b] by simp

lemma unat_less_int: "unat w < n \<longleftrightarrow> uint w < int n" for w :: "'a::len word"
  by (simp flip: of_nat_less_iff[where 'a=int])

lemma unat_le_int: "unat w \<le> n \<longleftrightarrow> uint w \<le> int n" for w :: "'a::len word"
  by (simp flip: of_nat_le_iff[where 'a=int])

end
