(* ===== verification/Ordered_Containers.thy ===== *)
theory Ordered_Containers
  imports Prelude
begin

text \<open>
  \<open>std::map\<close> and \<open>std::set\<close> with an explicit comparator. A container is the list of its
  elements in iteration order; \<open>key\<close> projects an element to its key (\<open>fst\<close> for a map, the
  identity for a set). As the standard says, \<open>lower_bound k\<close> is the first element that is
  not less than \<open>k\<close>, and \<open>find\<close> returns it when \<open>k\<close> is not less than it either, so two
  keys are the same entry when neither is less than the other.

  The comparator's contract is a locale, \<open>strict_weak_order\<close>, on the set \<open>K\<close> of the keys
  in use; \<open>strict_total_order\<close> is the contract under which a container is a finite map.
\<close>

section \<open>Operations\<close>

type_synonym 'k cmp = "'k \<Rightarrow> 'k \<Rightarrow> bool"

definition oc_before :: "'k cmp \<Rightarrow> ('e \<Rightarrow> 'k) \<Rightarrow> 'k \<Rightarrow> 'e list \<Rightarrow> 'e list" where
  "oc_before lt key k xs = takeWhile (\<lambda>e. lt (key e) k) xs"

definition oc_lower_bound :: "'k cmp \<Rightarrow> ('e \<Rightarrow> 'k) \<Rightarrow> 'k \<Rightarrow> 'e list \<Rightarrow> 'e list" where
  "oc_lower_bound lt key k xs = dropWhile (\<lambda>e. lt (key e) k) xs"

definition oc_find :: "'k cmp \<Rightarrow> ('e \<Rightarrow> 'k) \<Rightarrow> 'k \<Rightarrow> 'e list \<Rightarrow> 'e option" where
  "oc_find lt key k xs =
     (case oc_lower_bound lt key k xs of
        [] \<Rightarrow> None
      | e # _ \<Rightarrow> if lt k (key e) then None else Some e)"

text \<open>\<open>insert\<close> does nothing when an equivalent key is present.\<close>

definition oc_insert :: "'k cmp \<Rightarrow> ('e \<Rightarrow> 'k) \<Rightarrow> 'e \<Rightarrow> 'e list \<Rightarrow> 'e list" where
  "oc_insert lt key x xs =
     (if oc_find lt key (key x) xs = None
      then oc_before lt key (key x) xs @ x # oc_lower_bound lt key (key x) xs
      else xs)"

definition oc_erase :: "'k cmp \<Rightarrow> ('e \<Rightarrow> 'k) \<Rightarrow> 'k \<Rightarrow> 'e list \<Rightarrow> 'e list" where
  "oc_erase lt key k xs =
     (if oc_find lt key k xs = None then xs
      else oc_before lt key k xs @ tl (oc_lower_bound lt key k xs))"

text \<open>
  Maps: \<open>m[k] = v\<close> replaces the value of the entry found (the stored key stays) or inserts
  a new entry.
\<close>

definition om_find :: "'k cmp \<Rightarrow> 'k \<Rightarrow> ('k \<times> 'v) list \<Rightarrow> 'v option" where
  "om_find lt k m = map_option snd (oc_find lt fst k m)"

definition om_update :: "'k cmp \<Rightarrow> 'k \<Rightarrow> 'v \<Rightarrow> ('k \<times> 'v) list \<Rightarrow> ('k \<times> 'v) list" where
  "om_update lt k v m =
     (case oc_find lt fst k m of
        None \<Rightarrow> oc_insert lt fst (k, v) m
      | Some (k', _) \<Rightarrow>
          oc_before lt fst k m @ (k', v) # tl (oc_lower_bound lt fst k m))"

definition om_erase :: "'k cmp \<Rightarrow> 'k \<Rightarrow> ('k \<times> 'v) list \<Rightarrow> ('k \<times> 'v) list" where
  "om_erase lt k m = oc_erase lt fst k m"

definition oc_sorted :: "'k cmp \<Rightarrow> 'k set \<Rightarrow> ('e \<Rightarrow> 'k) \<Rightarrow> 'e list \<Rightarrow> bool" where
  "oc_sorted lt K key xs \<longleftrightarrow>
     sorted_wrt (\<lambda>a b. lt (key a) (key b)) xs \<and> key ` set xs \<subseteq> K"

section \<open>The comparator contract\<close>

locale strict_weak_order =
  fixes lt :: "'k cmp" and K :: "'k set"
  assumes lt_irrefl: "x \<in> K \<Longrightarrow> \<not> lt x x"
    and lt_trans: "x \<in> K \<Longrightarrow> y \<in> K \<Longrightarrow> z \<in> K \<Longrightarrow> lt x y \<Longrightarrow> lt y z \<Longrightarrow> lt x z"
    and incomp_trans: "x \<in> K \<Longrightarrow> y \<in> K \<Longrightarrow> z \<in> K \<Longrightarrow>
      \<not> lt x y \<Longrightarrow> \<not> lt y x \<Longrightarrow> \<not> lt y z \<Longrightarrow> \<not> lt z y \<Longrightarrow> \<not> lt x z \<and> \<not> lt z x"
begin

lemma lt_asym: "x \<in> K \<Longrightarrow> y \<in> K \<Longrightarrow> lt x y \<Longrightarrow> \<not> lt y x"
  using lt_irrefl lt_trans by blast

lemma not_lt_trans:
  assumes "x \<in> K" "y \<in> K" "z \<in> K" "\<not> lt x y" "\<not> lt y z"
  shows "\<not> lt x z"
  using assms incomp_trans lt_trans by blast

lemma sorted_lower_bound_not_less:
  assumes "oc_sorted lt K key xs" and "k \<in> K" and "e \<in> set (oc_lower_bound lt key k xs)"
  shows "\<not> lt (key e) k"
  using assms
proof (induction xs)
  case Nil
  then show ?case by (simp add: oc_lower_bound_def)
next
  case (Cons x xs)
  show ?case
  proof (cases "lt (key x) k")
    case True
    with Cons show ?thesis by (simp add: oc_lower_bound_def oc_sorted_def)
  next
    case False
    with Cons.prems have "e = x \<or> lt (key x) (key e)" and K: "key x \<in> K" "key e \<in> K"
      by (auto simp: oc_lower_bound_def oc_sorted_def)
    with False Cons.prems(2) show ?thesis using lt_trans by metis
  qed
qed

lemma sorted_before_less:
  "e \<in> set (oc_before lt key k xs) \<Longrightarrow> lt (key e) k"
  by (auto simp: oc_before_def dest: set_takeWhileD)

lemma find_Some_iff:
  assumes "oc_sorted lt K key xs" and "k \<in> K"
  shows "oc_find lt key k xs = Some e \<longleftrightarrow> e \<in> set xs \<and> \<not> lt (key e) k \<and> \<not> lt k (key e)"
proof (cases "oc_lower_bound lt key k xs")
  case Nil
  then have "\<forall>e \<in> set xs. lt (key e) k"
    by (auto simp: oc_lower_bound_def dropWhile_eq_Nil_conv)
  with Nil show ?thesis by (auto simp: oc_find_def)
next
  case (Cons y ys)
  have y: "y \<in> set xs" using Cons set_dropWhileD[of y]
    by (metis list.set_intros(1) oc_lower_bound_def)
  have xs: "xs = oc_before lt key k xs @ y # ys"
    using Cons by (metis oc_before_def oc_lower_bound_def takeWhile_dropWhile_id)
  have ny: "\<not> lt (key y) k"
    using Cons by (auto simp: oc_lower_bound_def dest: dropWhile_hd_not)
  have ys: "lt (key y) (key e)" if "e \<in> set ys" for e
    using assms(1) that xs unfolding oc_sorted_def
    by (metis list.set_intros(1) sorted_wrt.simps(2) sorted_wrt_append)
  have K: "key ` set xs \<subseteq> K" using assms(1) by (simp add: oc_sorted_def)
  show ?thesis
  proof
    assume "oc_find lt key k xs = Some e"
    with Cons y ny show "e \<in> set xs \<and> \<not> lt (key e) k \<and> \<not> lt k (key e)"
      by (auto simp: oc_find_def split: if_splits)
  next
    assume e: "e \<in> set xs \<and> \<not> lt (key e) k \<and> \<not> lt k (key e)"
    then have "e \<notin> set (oc_before lt key k xs)" by (metis sorted_before_less)
    with e xs have "e = y \<or> e \<in> set ys" by (metis UnE set_ConsD set_append)
    moreover have "e \<notin> set ys"
      using ys ny e y assms(2) K not_lt_trans by (metis image_subset_iff)
    ultimately have "e = y" by simp
    with e Cons show "oc_find lt key k xs = Some e"
      by (auto simp: oc_find_def)
  qed
qed

lemma find_None_iff:
  assumes "oc_sorted lt K key xs" and "k \<in> K"
  shows "oc_find lt key k xs = None \<longleftrightarrow> (\<forall>e \<in> set xs. lt (key e) k \<or> lt k (key e))"
  using find_Some_iff[OF assms] by (metis not_None_eq)

lemma split_at:
  "xs = oc_before lt key k xs @ oc_lower_bound lt key k xs"
  by (simp add: oc_before_def oc_lower_bound_def)

lemma lower_bound_less:
  assumes "oc_sorted lt K key xs" "k \<in> K" "oc_find lt key k xs = None"
    and "e \<in> set (oc_lower_bound lt key k xs)"
  shows "lt k (key e)"
  using assms find_None_iff sorted_lower_bound_not_less
  by (metis oc_lower_bound_def set_dropWhileD)

lemma sorted_insert:
  assumes "oc_sorted lt K key xs" and "key x \<in> K"
  shows "oc_sorted lt K key (oc_insert lt key x xs)"
proof (cases "oc_find lt key (key x) xs")
  case None
  let ?a = "oc_before lt key (key x) xs" and ?b = "oc_lower_bound lt key (key x) xs"
  have s: "sorted_wrt (\<lambda>a b. lt (key a) (key b)) (?a @ ?b)" and K: "key ` set (?a @ ?b) \<subseteq> K"
    using assms(1) split_at[of xs key "key x"] by (simp_all add: oc_sorted_def)
  show ?thesis
    using s K assms None lower_bound_less[OF assms(1,2) None] sorted_before_less[of _ key "key x" xs]
    by (auto simp: oc_insert_def oc_sorted_def sorted_wrt_append)
next
  case (Some e)
  with assms show ?thesis by (simp add: oc_insert_def)
qed

lemma set_insert_new:
  "oc_find lt key (key x) xs = None \<Longrightarrow> set (oc_insert lt key x xs) = insert x (set xs)"
  using split_at[of xs key "key x"] by (simp add: oc_insert_def) (metis set_append)

lemma find_Some_split:
  assumes "oc_find lt key k xs = Some e"
  shows "oc_lower_bound lt key k xs = e # tl (oc_lower_bound lt key k xs)"
    and "xs = oc_before lt key k xs @ e # tl (oc_lower_bound lt key k xs)"
proof -
  show "oc_lower_bound lt key k xs = e # tl (oc_lower_bound lt key k xs)"
    using assms by (auto simp: oc_find_def split: list.splits if_splits)
  then show "xs = oc_before lt key k xs @ e # tl (oc_lower_bound lt key k xs)"
    using split_at by metis
qed

lemma sorted_erase:
  assumes "oc_sorted lt K key xs"
  shows "oc_sorted lt K key (oc_erase lt key k xs)"
proof (cases "oc_find lt key k xs")
  case (Some e)
  from assms find_Some_split(2)[OF Some] have
    "oc_sorted lt K key (oc_before lt key k xs @ e # tl (oc_lower_bound lt key k xs))" by simp
  with Some show ?thesis by (auto simp: oc_erase_def oc_sorted_def sorted_wrt_append)
qed (use assms in \<open>simp add: oc_erase_def\<close>)

lemma sorted_distinct:
  assumes "oc_sorted lt K key xs"
  shows "distinct xs"
  using assms lt_irrefl by (induction xs) (auto simp: oc_sorted_def)

lemma set_erase:
  assumes "oc_sorted lt K key xs" and "oc_find lt key k xs = Some e"
  shows "set (oc_erase lt key k xs) = set xs - {e}"
proof -
  have xs: "xs = oc_before lt key k xs @ e # tl (oc_lower_bound lt key k xs)"
    by (rule find_Some_split(2)[OF assms(2)])
  have "distinct (oc_before lt key k xs @ e # tl (oc_lower_bound lt key k xs))"
    using sorted_distinct[OF assms(1)] xs by simp
  then have "set (oc_before lt key k xs @ e # tl (oc_lower_bound lt key k xs)) - {e} =
      set (oc_before lt key k xs @ tl (oc_lower_bound lt key k xs))" by auto
  with xs assms(2) show ?thesis by (simp add: oc_erase_def)
qed

lemma sorted_om_update:
  assumes "oc_sorted lt K fst m" and "k \<in> K"
  shows "oc_sorted lt K fst (om_update lt k v m)"
proof (cases "oc_find lt fst k m")
  case None
  with assms show ?thesis by (simp add: om_update_def sorted_insert)
next
  case (Some e)
  obtain k' v' where e: "e = (k', v')" by force
  from assms find_Some_split(2)[OF Some] have
    "oc_sorted lt K fst (oc_before lt fst k m @ (k', v') # tl (oc_lower_bound lt fst k m))"
    by (simp add: e)
  with Some e show ?thesis by (auto simp: om_update_def oc_sorted_def sorted_wrt_append)
qed

lemma om_find_update_present:
  assumes "oc_sorted lt K fst m" and "k \<in> K"
  shows "om_find lt k (om_update lt k v m) \<noteq> None"
proof -
  have "\<exists>e \<in> set (om_update lt k v m). \<not> lt (fst e) k \<and> \<not> lt k (fst e)"
  proof (cases "oc_find lt fst k m")
    case None
    then have "(k, v) \<in> set (om_update lt k v m)"
      using set_insert_new[of fst "(k, v)" m] by (simp add: om_update_def)
    then show ?thesis using lt_irrefl[OF assms(2)] by force
  next
    case (Some e)
    then have "\<not> lt (fst e) k \<and> \<not> lt k (fst e)" using find_Some_iff[OF assms] by blast
    moreover have "(fst e, v) \<in> set (om_update lt k v m)" using Some by (cases e) (simp add: om_update_def)
    ultimately show ?thesis by (intro bexI[of _ "(fst e, v)"]) simp_all
  qed
  then have "oc_find lt fst k (om_update lt k v m) \<noteq> None"
    using find_None_iff[OF sorted_om_update[OF assms] assms(2), of v] by blast
  then show ?thesis by (simp add: om_find_def)
qed

end

section \<open>The key-value contract\<close>

text \<open>
  What a client of a map relies on: the value found after an update or an erase, for keys
  of \<open>K\<close>, and that both keep the map's representation invariant \<open>ok\<close>.
\<close>

locale key_value_store =
  fixes K :: "'k set"
    and find :: "'k \<Rightarrow> 'm \<Rightarrow> 'v option"
    and upd :: "'k \<Rightarrow> 'v \<Rightarrow> 'm \<Rightarrow> 'm"
    and era :: "'k \<Rightarrow> 'm \<Rightarrow> 'm"
    and ok :: "'m \<Rightarrow> bool"
  assumes ok_upd: "ok m \<Longrightarrow> k \<in> K \<Longrightarrow> ok (upd k v m)"
    and ok_era: "ok m \<Longrightarrow> k \<in> K \<Longrightarrow> ok (era k m)"
    and find_upd: "ok m \<Longrightarrow> k \<in> K \<Longrightarrow> k' \<in> K \<Longrightarrow>
      find k' (upd k v m) = (if k' = k then Some v else find k' m)"
    and find_era: "ok m \<Longrightarrow> k \<in> K \<Longrightarrow> k' \<in> K \<Longrightarrow>
      find k' (era k m) = (if k' = k then None else find k' m)"
begin

lemma find_upd_same: "ok m \<Longrightarrow> k \<in> K \<Longrightarrow> find k (upd k v m) = Some v"
  by (simp add: find_upd)

lemma find_upd_other:
  "ok m \<Longrightarrow> k \<in> K \<Longrightarrow> k' \<in> K \<Longrightarrow> k' \<noteq> k \<Longrightarrow> find k' (upd k v m) = find k' m"
  by (simp add: find_upd)

lemma find_era_upd:
  "ok m \<Longrightarrow> k \<in> K \<Longrightarrow> k' \<in> K \<Longrightarrow> find k (era k' (upd k v m)) = (if k = k' then None else Some v)"
  by (simp add: find_era find_upd ok_upd)

lemma upd_upd_find:
  "ok m \<Longrightarrow> k \<in> K \<Longrightarrow> k' \<in> K \<Longrightarrow> find k' (upd k w (upd k v m)) = find k' (upd k w m)"
  by (simp add: find_upd ok_upd)

lemma ok_fold_upd:
  "ok m \<Longrightarrow> fst ` set kvs \<subseteq> K \<Longrightarrow> ok (fold (\<lambda>(k, v). upd k v) kvs m)"
  by (induction kvs arbitrary: m) (auto simp: ok_upd split: prod.splits)

lemma ok_fold_era: "ok m \<Longrightarrow> set ks \<subseteq> K \<Longrightarrow> ok (fold era ks m)"
  by (induction ks arbitrary: m) (auto simp: ok_era)

lemma find_fold_era:
  "ok m \<Longrightarrow> set ks \<subseteq> K \<Longrightarrow> k \<in> K \<Longrightarrow>
   find k (fold era ks m) = (if k \<in> set ks then None else find k m)"
  by (induction ks arbitrary: m) (auto simp: ok_era find_era)

end

section \<open>Total orders give finite maps\<close>

locale strict_total_order =
  fixes lt :: "'k cmp" and K :: "'k set"
  assumes total_irrefl: "x \<in> K \<Longrightarrow> \<not> lt x x"
    and total_trans: "x \<in> K \<Longrightarrow> y \<in> K \<Longrightarrow> z \<in> K \<Longrightarrow> lt x y \<Longrightarrow> lt y z \<Longrightarrow> lt x z"
    and total_cases: "x \<in> K \<Longrightarrow> y \<in> K \<Longrightarrow> x \<noteq> y \<Longrightarrow> lt x y \<or> lt y x"

sublocale strict_total_order \<subseteq> strict_weak_order lt K
proof
  show "\<not> lt x x" if "x \<in> K" for x using that by (rule total_irrefl)
  show "lt x z" if "x \<in> K" "y \<in> K" "z \<in> K" "lt x y" "lt y z" for x y z
    using that by (rule total_trans)
  show "\<not> lt x z \<and> \<not> lt z x"
    if "x \<in> K" "y \<in> K" "z \<in> K" "\<not> lt x y" "\<not> lt y x" "\<not> lt y z" "\<not> lt z y" for x y z
    using that total_cases[of x y] total_cases[of y z] total_irrefl by blast
qed

context strict_total_order
begin

lemma sorted_keys_differ:
  "oc_sorted lt K key (x # xs) \<Longrightarrow> e \<in> set xs \<Longrightarrow> key e \<noteq> key x"
  using total_irrefl[of "key x"] by (auto simp: oc_sorted_def)

lemma key_inj:
  fixes key :: "'e \<Rightarrow> 'k"
  shows "oc_sorted lt K key xs \<Longrightarrow> a \<in> set xs \<Longrightarrow> b \<in> set xs \<Longrightarrow> key a = key b \<Longrightarrow> a = b"
proof (induction xs)
  case (Cons x xs)
  have s: "oc_sorted lt K key xs" using Cons.prems(1) by (simp add: oc_sorted_def)
  consider "a = x" "b = x" | "a = x" "b \<in> set xs" | "a \<in> set xs" "b = x"
    | "a \<in> set xs" "b \<in> set xs"
    using Cons.prems(2,3) by auto
  then show ?case
  proof cases
    case 4
    then show ?thesis using Cons.IH[OF s] Cons.prems(4) by simp
  qed (use Cons.prems(4) sorted_keys_differ[OF Cons.prems(1)] in \<open>metis\<close>)+
qed simp

lemma equiv_iff_eq:
  "x \<in> K \<Longrightarrow> y \<in> K \<Longrightarrow> (\<not> lt x y \<and> \<not> lt y x) \<longleftrightarrow> x = y"
  using total_cases[of x y] total_irrefl[of x] by auto

lemma find_eq_key:
  assumes "oc_sorted lt K key xs" "k \<in> K"
  shows "oc_find lt key k xs = Some e \<longleftrightarrow> e \<in> set xs \<and> key e = k"
proof -
  have "e \<in> set xs \<Longrightarrow> key e \<in> K" using assms(1) by (auto simp: oc_sorted_def)
  then show ?thesis using find_Some_iff[OF assms] equiv_iff_eq[of "key e" k] assms(2) by auto
qed

lemma sorted_distinct_keys: "oc_sorted lt K fst m \<Longrightarrow> distinct (map fst m)"
  by (simp add: distinct_map sorted_distinct inj_onI[OF key_inj[of fst m]])

lemma om_find_map_of:
  assumes "oc_sorted lt K fst m" "k \<in> K"
  shows "om_find lt k m = map_of m k"
proof (cases "oc_find lt fst k m")
  case None
  then have "k \<notin> fst ` set m"
    using find_eq_key[OF assms] by (metis imageE option.distinct(1))
  then have "map_of m k = None" by (simp add: map_of_eq_None_iff)
  with None show ?thesis by (simp add: om_find_def)
next
  case (Some e)
  then have "e \<in> set m" "fst e = k" using find_eq_key[OF assms] by auto
  then have "map_of m k = Some (snd e)"
    using sorted_distinct_keys[OF assms(1)] by (metis map_of_is_SomeI prod.collapse)
  with Some show ?thesis by (simp add: om_find_def)
qed

lemma sorted_set_unique:
  fixes key :: "'e \<Rightarrow> 'k"
  shows "oc_sorted lt K key xs \<Longrightarrow> oc_sorted lt K key ys \<Longrightarrow> set xs = set ys \<Longrightarrow> xs = ys"
proof (induction xs arbitrary: ys)
  case (Cons x xs)
  then obtain y zs where ys: "ys = y # zs" by (cases ys) auto
  have lx: "lt (key x) (key e)" if "e \<in> set xs" for e using Cons.prems(1) that by (simp add: oc_sorted_def)
  have ly: "lt (key y) (key e)" if "e \<in> set zs" for e using Cons.prems(2) that ys by (simp add: oc_sorted_def)
  have K: "key x \<in> K" "key y \<in> K" using Cons.prems(1,2) ys by (simp_all add: oc_sorted_def)
  have "x = y \<or> x \<in> set zs \<and> y \<in> set xs" using Cons.prems(3) ys by auto
  then have xy: "x = y"
    using lx ly lt_asym[OF K] by blast
  have "x \<notin> set xs" "x \<notin> set zs" using lx ly xy total_irrefl[OF K(1)] by blast+
  then have "set xs = set zs" using Cons.prems(3) ys xy by auto
  then have "xs = zs" using Cons.IH[of zs] Cons.prems(1,2) ys by (simp add: oc_sorted_def)
  with xy ys show ?case by simp
qed simp

lemma sorted_map_unique:
  assumes "oc_sorted lt K fst m" "oc_sorted lt K fst m'" "map_of m = map_of m'"
  shows "m = m'"
proof (rule sorted_set_unique[OF assms(1,2)])
  show "set m = set m'"
    using assms(3) map_of_inject_set[OF sorted_distinct_keys[OF assms(1)] sorted_distinct_keys[OF assms(2)]] by simp
qed

lemma map_of_om_update:
  assumes "oc_sorted lt K fst m" "k \<in> K"
  shows "map_of (om_update lt k v m) = (map_of m)(k \<mapsto> v)"
proof (cases "oc_find lt fst k m")
  case None
  have d: "distinct (map fst (om_update lt k v m))"
    using sorted_distinct_keys[OF sorted_om_update[OF assms]] .
  have "set (om_update lt k v m) = insert (k, v) (set m)"
    using None set_insert_new[of fst "(k, v)" m] by (simp add: om_update_def)
  moreover have "k \<notin> fst ` set m"
    using None find_eq_key[OF assms] by (metis imageE option.distinct(1))
  ultimately show ?thesis
    by (intro map_of_insert_set d sorted_distinct_keys[OF assms(1)])
next
  case (Some e)
  then have e: "fst e = k" using find_eq_key[OF assms] by blast
  obtain k' v' where kv: "e = (k', v')" by force
  with e have kk: "k' = k" by simp
  let ?a = "oc_before lt fst k m" and ?b = "tl (oc_lower_bound lt fst k m)"
  have m: "m = ?a @ (k, v') # ?b" using find_Some_split(2)[OF Some] kv kk by simp
  have d: "distinct (map fst (?a @ (k, v') # ?b))"
    using sorted_distinct_keys[OF assms(1)] m by simp
  then have a: "k \<notin> fst ` set ?a" by auto
  have "om_update lt k v m = ?a @ (k, v) # ?b"
    using Some kv kk by (simp add: om_update_def)
  moreover have "map_of (?a @ (k, v) # ?b) = (map_of (?a @ (k, v') # ?b))(k \<mapsto> v)"
    by (simp only: map_of_mid[OF a] fun_upd_upd)
  ultimately show ?thesis using m by metis
qed

lemma map_of_om_erase:
  assumes "oc_sorted lt K fst m" "k \<in> K"
  shows "map_of (om_erase lt k m) = (map_of m)(k := None)"
proof (cases "oc_find lt fst k m")
  case None
  then have "k \<notin> fst ` set m"
    using find_eq_key[OF assms] by (metis imageE option.distinct(1))
  then have "map_of m k = None" by (simp add: map_of_eq_None_iff)
  with None show ?thesis by (simp add: om_erase_def oc_erase_def fun_eq_iff)
next
  case (Some e)
  then have e: "fst e = k" using find_eq_key[OF assms] by blast
  let ?a = "oc_before lt fst k m" and ?b = "tl (oc_lower_bound lt fst k m)"
  have m: "m = ?a @ e # ?b" using find_Some_split(2)[OF Some] .
  have d: "distinct (map fst (?a @ e # ?b))"
    using sorted_distinct_keys[OF assms(1)] m by simp
  then have a: "k \<notin> fst ` set ?a" "k \<notin> fst ` set ?b" using e by auto
  have "om_erase lt k m = ?a @ ?b"
    using Some by (simp add: om_erase_def oc_erase_def)
  moreover have "map_of (?a @ ?b) = (map_of (?a @ e # ?b))(k := None)"
    using map_of_mid[OF a(1), of "snd e" ?b] map_of_mid_None[OF a] e
    by (cases e) (simp add: fun_upd_idem)
  ultimately show ?thesis using m by metis
qed

lemma sorted_om_erase: "oc_sorted lt K fst m \<Longrightarrow> oc_sorted lt K fst (om_erase lt k m)"
  by (simp add: om_erase_def sorted_erase)

lemma om_erase_update:
  assumes "oc_sorted lt K fst m" "k \<in> K"
  shows "om_erase lt k (om_update lt k v m) = om_erase lt k m"
proof (rule sorted_map_unique)
  note u = sorted_om_update[OF assms]
  show "oc_sorted lt K fst (om_erase lt k (om_update lt k v m))" by (rule sorted_om_erase[OF u])
  show "oc_sorted lt K fst (om_erase lt k m)" by (rule sorted_om_erase[OF assms(1)])
  show "map_of (om_erase lt k (om_update lt k v m)) = map_of (om_erase lt k m)"
    by (simp add: map_of_om_erase[OF u assms(2)] map_of_om_erase[OF assms] map_of_om_update[OF assms])
qed

lemma om_update_update:
  assumes "oc_sorted lt K fst m" "k \<in> K"
  shows "om_update lt k v (om_update lt k w m) = om_update lt k v m"
proof (rule sorted_map_unique)
  note u = sorted_om_update[OF assms]
  show "oc_sorted lt K fst (om_update lt k v (om_update lt k w m))" by (rule sorted_om_update[OF u assms(2)])
  show "oc_sorted lt K fst (om_update lt k v m)" by (rule u)
  show "map_of (om_update lt k v (om_update lt k w m)) = map_of (om_update lt k v m)"
    by (simp add: map_of_om_update[OF u assms(2)] map_of_om_update[OF assms])
qed

lemma fold_om_update_sorted:
  "oc_sorted lt K fst m \<Longrightarrow> fst ` set kvs \<subseteq> K \<Longrightarrow>
   oc_sorted lt K fst (fold (\<lambda>(k, v). om_update lt k v) kvs m)"
proof (induction kvs arbitrary: m)
  case (Cons kv kvs)
  then show ?case using sorted_om_update[OF Cons.prems(1)] by (cases kv) auto
qed simp

lemma fold_om_update_map_of:
  "oc_sorted lt K fst m \<Longrightarrow> fst ` set kvs \<subseteq> K \<Longrightarrow>
   map_of (fold (\<lambda>(k, v). om_update lt k v) kvs m) = map_of m ++ map_of (rev kvs)"
proof (induction kvs arbitrary: m)
  case (Cons kv kvs)
  obtain k v where kv: "kv = (k, v)" by force
  have K: "k \<in> K" "fst ` set kvs \<subseteq> K" using Cons.prems kv by auto
  show ?case
    using Cons.IH[OF sorted_om_update[OF Cons.prems(1) K(1)] K(2), of v]
    unfolding map_of_om_update[OF Cons.prems(1) K(1)] kv by (simp add: fun_upd_def map_add_def fun_eq_iff split: option.splits)
qed simp

end

sublocale strict_total_order \<subseteq> kv: key_value_store K "om_find lt" "om_update lt" "om_erase lt" "oc_sorted lt K fst"
proof
  show "oc_sorted lt K fst (om_update lt k v m)" if "oc_sorted lt K fst m" "k \<in> K" for k v and m :: "('k \<times> 'z) list"
    using that by (rule sorted_om_update)
  show "oc_sorted lt K fst (om_erase lt k m)" if "oc_sorted lt K fst m" "k \<in> K" for k and m :: "('k \<times> 'z) list"
    using that by (simp add: om_erase_def sorted_erase)
  show "om_find lt k' (om_update lt k v m) = (if k' = k then Some v else om_find lt k' m)"
    if "oc_sorted lt K fst m" "k \<in> K" "k' \<in> K" for k k' v and m :: "('k \<times> 'z) list"
    using that by (simp add: om_find_map_of sorted_om_update map_of_om_update)
  show "om_find lt k' (om_erase lt k m) = (if k' = k then None else om_find lt k' m)"
    if "oc_sorted lt K fst m" "k \<in> K" "k' \<in> K" for k k' and m :: "('k \<times> 'z) list"
    using that sorted_erase[of fst m k]
    by (simp add: om_find_map_of map_of_om_erase om_erase_def[symmetric])
qed

end
