(* ===== verification/Decafs_Types.thy ===== *)
theory Decafs_Types
  imports Ordered_Containers
begin

text \<open>
  The data types of \<open>src/lib/decafs_types\<close> (\<open>ip_address.h\<close>, \<open>file_types.h\<close>,
  \<open>limits.h\<close>), the comparators the code gives them, and which of those comparators meet
  the contract of \<open>std::map\<close>. A \<open>char*\<close> string is the list of its characters before the
  terminating NUL; a pointer to a \<open>ConnectionToClient\<close> is a \<open>nat\<close>, 0 being \<open>NULL\<close>.
\<close>

section \<open>limits.h\<close>

definition MIN_STRIPE :: u32 where "MIN_STRIPE = 256"
definition MAX_STRIPE :: u32 where "MAX_STRIPE = 65536"
definition MIN_CHUNK :: u32 where "MIN_CHUNK = 128"
definition MAX_CHUNK :: u32 where "MAX_CHUNK = 65536"
definition MAX_FILENAME_LENGTH :: nat where "MAX_FILENAME_LENGTH = 100"

lemmas limits_defs = MIN_STRIPE_def MAX_STRIPE_def MIN_CHUNK_def MAX_CHUNK_def
  MAX_FILENAME_LENGTH_def

section \<open>ip_address.h\<close>

text \<open>\<open>strcmp\<close>: the sign of the comparison of the two strings as unsigned bytes.\<close>

fun strcmp :: "string \<Rightarrow> string \<Rightarrow> int" where
  "strcmp [] [] = 0"
| "strcmp [] (y # ys) = -1"
| "strcmp (x # xs) [] = 1"
| "strcmp (x # xs) (y # ys) =
     (if (of_char x :: nat) < of_char y then -1
      else if (of_char y :: nat) < of_char x then 1 else strcmp xs ys)"

definition string_less :: "string \<Rightarrow> string \<Rightarrow> bool" where
  "string_less s t \<longleftrightarrow> strcmp s t < 0"

type_synonym conn = nat

record ip_address =
  addr :: string

definition ip_eq :: "ip_address \<Rightarrow> ip_address \<Rightarrow> bool" where
  "ip_eq a b \<longleftrightarrow> strcmp (addr a) (addr b) = 0"

definition ip_less :: "ip_address \<Rightarrow> ip_address \<Rightarrow> bool" where
  "ip_less a b \<longleftrightarrow> strcmp (addr a) (addr b) \<le> 0"

record client =
  ip :: ip_address
  user_id :: u32
  ctc :: conn

definition client_eq :: "client \<Rightarrow> client \<Rightarrow> bool" where
  "client_eq a b \<longleftrightarrow> ip_eq (ip a) (ip b) \<and> user_id a = user_id b \<and> ctc a = ctc b"

definition client_less :: "client \<Rightarrow> client \<Rightarrow> bool" where
  "client_less a b \<longleftrightarrow>
     (if ip_less (ip a) (ip b) then True
      else if user_id a < user_id b then True
      else if ctc a < ctc b then True else False)"

definition is_ip_null :: "ip_address \<Rightarrow> bool" where
  "is_ip_null i \<longleftrightarrow> length (addr i) = 0"

definition is_client_null :: "client \<Rightarrow> bool" where
  "is_client_null c \<longleftrightarrow> is_ip_null (ip c) \<or> user_id c = 0 \<or> ctc c = 0"

definition null_client :: client where
  "null_client = \<lparr>ip = \<lparr>addr = []\<rparr>, user_id = 0, ctc = 0\<rparr>"

section \<open>file_types.h\<close>

type_synonym timeval = "int \<times> int"

record persistent_metadata_info =
  pm_file_id :: u32
  pm_size :: u32
  pm_stripe_size :: u32
  pm_chunk_size :: u32
  pm_replica_size :: u32
  pm_pathname :: string
  pm_last_access_time :: timeval

record file_instance =
  fi_client_id :: client
  fi_file_id :: u32
  fi_offset :: u32

definition null_file_instance :: file_instance where
  "null_file_instance = \<lparr>fi_client_id = null_client, fi_file_id = 0, fi_offset = 0\<rparr>"

definition file_instance_eq :: "file_instance \<Rightarrow> file_instance \<Rightarrow> bool" where
  "file_instance_eq a b \<longleftrightarrow>
     client_eq (fi_client_id a) (fi_client_id b) \<and> fi_file_id a = fi_file_id b"

definition file_instance_less :: "file_instance \<Rightarrow> file_instance \<Rightarrow> bool" where
  "file_instance_less a b \<longleftrightarrow>
     (if \<not> client_eq (fi_client_id a) (fi_client_id b)
      then client_less (fi_client_id a) (fi_client_id b)
      else fi_file_id a < fi_file_id b)"

record file_chunk =
  fc_file_id :: u32
  fc_stripe_id :: u32
  fc_chunk_num :: u32

definition file_chunk_eq :: "file_chunk \<Rightarrow> file_chunk \<Rightarrow> bool" where
  "file_chunk_eq a b \<longleftrightarrow> fc_file_id a = fc_file_id b \<and> fc_stripe_id a = fc_stripe_id b \<and>
     fc_chunk_num a = fc_chunk_num b"

text \<open>The second test of the code compares \<open>left.file_id\<close> with \<open>right.stripe_id\<close>.\<close>

definition file_chunk_less :: "file_chunk \<Rightarrow> file_chunk \<Rightarrow> bool" where
  "file_chunk_less l r \<longleftrightarrow>
     (if fc_file_id l \<noteq> fc_file_id r then fc_file_id l < fc_file_id r
      else if fc_stripe_id l \<noteq> fc_stripe_id r then fc_file_id l < fc_stripe_id r
      else fc_chunk_num l < fc_chunk_num r)"

record file_stat =
  fs_file_id :: u32
  fs_size :: u32
  fs_stripe_size :: u32
  fs_chunk_size :: u32
  fs_replica_size :: u32
  fs_last_access_time :: timeval

section \<open>Comparators that meet the contract\<close>

interpretation u32_order: strict_total_order "(<) :: u32 \<Rightarrow> u32 \<Rightarrow> bool" UNIV
  by unfold_locales auto

interpretation conn_order: strict_total_order "(<) :: conn \<Rightarrow> conn \<Rightarrow> bool" UNIV
  by unfold_locales auto

interpretation int_order: strict_total_order "(<) :: int \<Rightarrow> int \<Rightarrow> bool" UNIV
  by unfold_locales auto

lemma strcmp_eq_0 [simp]: "strcmp s t = 0 \<longleftrightarrow> s = t"
  by (induction s t rule: strcmp.induct) auto

lemma strcmp_refl [simp]: "strcmp s s = 0"
  by simp

lemma strcmp_neg_iff: "strcmp s t < 0 \<longleftrightarrow> 0 < strcmp t s"
  by (induction s t rule: strcmp.induct) auto

lemma strcmp_trans: "strcmp s t < 0 \<Longrightarrow> strcmp t u < 0 \<Longrightarrow> strcmp s u < 0"
proof (induction s u arbitrary: t rule: strcmp.induct)
  case (4 x xs y ys)
  then show ?case by (cases t) (auto split: if_splits)
qed (case_tac t, auto)+

interpretation string_order: strict_total_order string_less UNIV
proof
  show "\<not> string_less x x" for x unfolding string_less_def by (subst strcmp_refl) simp
  show "string_less x z" if "string_less x y" "string_less y z" for x y z
    using that strcmp_trans by (simp add: string_less_def)
  show "string_less x y \<or> string_less y x" if "x \<noteq> y" for x y
    unfolding string_less_def using that by (metis linorder_neqE strcmp_eq_0 strcmp_neg_iff)
qed

lemma ip_eq_iff [simp]: "ip_eq a b \<longleftrightarrow> a = b"
  by (cases a; cases b) (simp add: ip_eq_def)

lemma client_eq_iff [simp]: "client_eq a b \<longleftrightarrow> a = b"
  by (cases a; cases b) (auto simp: client_eq_def)

lemma file_chunk_neq_cases:
  "x \<noteq> y \<Longrightarrow> fc_file_id x = fc_file_id y \<Longrightarrow> fc_stripe_id x = fc_stripe_id y \<Longrightarrow>
   fc_chunk_num x < fc_chunk_num y \<or> fc_chunk_num y < fc_chunk_num x" for x y :: file_chunk
  by (metis (full_types) file_chunk.equality linorder_neqE old.unit.exhaust)

lemma file_chunk_eq_iff [simp]: "file_chunk_eq a b \<longleftrightarrow> a = b"
  by (cases a; cases b) (auto simp: file_chunk_eq_def)

subsection \<open>file_chunk\<close>

text \<open>
  \<open>file_chunk_less\<close> orders the chunks of a file correctly when the file uses at most one
  stripe number up to its own id and at most one above it: \<open>chunk_window lo hi\<close>, with
  \<open>lo f\<close> and \<open>hi f\<close> those two stripe numbers. Stripes are numbered from 1, so the bytes at the start of
  a file lie in a window when they are in stripe 1, or in stripes 1 and 2 of the file with id 1.
\<close>

definition chunk_window :: "(u32 \<Rightarrow> u32) \<Rightarrow> (u32 \<Rightarrow> u32) \<Rightarrow> file_chunk set" where
  "chunk_window lo hi = {c. fc_stripe_id c =
     (if fc_stripe_id c \<le> fc_file_id c then lo (fc_file_id c) else hi (fc_file_id c))}"

interpretation chunk_order: strict_total_order file_chunk_less "chunk_window lo hi" for lo hi
proof
  show "\<not> file_chunk_less x x" for x by (simp add: file_chunk_less_def)
  show "file_chunk_less x z"
    if "x \<in> chunk_window lo hi" "y \<in> chunk_window lo hi" "z \<in> chunk_window lo hi"
      "file_chunk_less x y" "file_chunk_less y z" for x y z
    using that by (auto simp: file_chunk_less_def chunk_window_def split: if_splits)
  show "file_chunk_less x y \<or> file_chunk_less y x"
    if "x \<in> chunk_window lo hi" "y \<in> chunk_window lo hi" "x \<noteq> y" for x y
    using that file_chunk_neq_cases[of x y]
    by (auto simp: file_chunk_less_def chunk_window_def split: if_splits)
qed

text \<open>
  On the chunks with number \<open>n\<close> whose stripe number does not exceed the file id it is a weak
  order under which all stripes of a file are one key.
\<close>

definition low_stripes :: "u32 \<Rightarrow> file_chunk set" where
  "low_stripes n = {c. fc_chunk_num c = n \<and> fc_stripe_id c \<le> fc_file_id c}"

interpretation collapsed_chunks: strict_weak_order file_chunk_less "low_stripes n" for n
  by unfold_locales (auto simp: file_chunk_less_def low_stripes_def split: if_splits)

text \<open>
  Chunks of two stripes above the file id are each less than the other, which is no order at all: a
  \<open>std::map\<close> with both as keys is undefined. The ordered lists of the model go on there; the properties
  that depend on how chunks are ordered speak of windows only.
\<close>

lemma high_stripes_not_ordered:
  "fc_file_id c = fc_file_id d \<Longrightarrow> fc_file_id c < fc_stripe_id c \<Longrightarrow> fc_file_id d < fc_stripe_id d \<Longrightarrow>
   fc_stripe_id c \<noteq> fc_stripe_id d \<Longrightarrow> file_chunk_less c d \<and> file_chunk_less d c"
  by (simp add: file_chunk_less_def)

end
