(* ===== verification/Volatile_Metadata.thy ===== *)
theory Volatile_Metadata
  imports Decafs_Types
begin

text \<open>
  \<open>src/lib/volatile_metadata/volatile_metadata.cpp\<close>: chunk and stripe size, the nodes that
  are up, the open file cursors, and the counters for file descriptors and request ids. The
  mutexes around the counters are held for one read-modify-write and not modelled. A call of
  the registered node handler is recorded in \<open>vm_events\<close>, in order.
\<close>

section \<open>State and codes\<close>

definition V_META_SUCCESS :: int where "V_META_SUCCESS = 0"
definition SIZE_ALREADY_SET :: int where "SIZE_ALREADY_SET = -1"
definition SIZE_INVALID :: int where "SIZE_INVALID = -2"
definition NODE_NUMBER_NOT_FOUND :: int where "NODE_NUMBER_NOT_FOUND = -1"
definition NODE_ALREADY_UP :: int where "NODE_ALREADY_UP = 1"
definition INSTANCE_NOT_FOUND :: int where "INSTANCE_NOT_FOUND = -1"
definition WRONG_CLIENT :: int where "WRONG_CLIENT = -2"
definition FD_NOT_SET :: u32 where "FD_NOT_SET = 0"
definition NUM_ESPRESSO :: nat where "NUM_ESPRESSO = 4"

lemmas vmeta_codes = V_META_SUCCESS_def SIZE_ALREADY_SET_def SIZE_INVALID_def NODE_NUMBER_NOT_FOUND_def
  NODE_ALREADY_UP_def INSTANCE_NOT_FOUND_def WRONG_CLIENT_def FD_NOT_SET_def NUM_ESPRESSO_def

datatype node_event = Node_Failure u32 | Node_Up u32

record vmeta =
  vm_chunk_size :: u32
  vm_stripe_size :: u32
  vm_num_espressos :: u32
  vm_up_nodes :: "u32 list"
  vm_cursors :: "(u32 \<times> file_instance) list"
  vm_last_fd :: u32
  vm_request_id :: u32
  vm_events :: "node_event list"

definition new_vmeta :: vmeta where
  "new_vmeta = \<lparr>vm_chunk_size = 0, vm_stripe_size = 0, vm_num_espressos = 0, vm_up_nodes = [],
     vm_cursors = [], vm_last_fd = FD_NOT_SET, vm_request_id = 0, vm_events = []\<rparr>"

abbreviation cursor_find :: "u32 \<Rightarrow> vmeta \<Rightarrow> file_instance option" where
  "cursor_find fd st \<equiv> om_find (<) fd (vm_cursors st)"

section \<open>Sizes\<close>

definition set_chunk_size :: "vmeta \<Rightarrow> u32 \<Rightarrow> int \<times> vmeta" where
  "set_chunk_size st sz =
     (if vm_chunk_size st = 0
      then if sz \<ge> MIN_CHUNK \<and> sz \<le> MAX_CHUNK then (1, st\<lparr>vm_chunk_size := sz\<rparr>) else (SIZE_INVALID, st)
      else (SIZE_ALREADY_SET, st))"

definition set_stripe_size :: "vmeta \<Rightarrow> u32 \<Rightarrow> int \<times> vmeta" where
  "set_stripe_size st sz =
     (if vm_stripe_size st = 0
      then if sz \<ge> MIN_STRIPE \<and> sz \<le> MAX_STRIPE then (1, st\<lparr>vm_stripe_size := sz\<rparr>) else (SIZE_INVALID, st)
      else (SIZE_ALREADY_SET, st))"

text \<open>The parameter shadows the field, so the assignment assigns the parameter to itself.\<close>

definition set_num_espressos :: "vmeta \<Rightarrow> u32 \<Rightarrow> int \<times> vmeta" where
  "set_num_espressos st num_espressos =
     (if num_espressos = 0 then (1, st) else (SIZE_ALREADY_SET, st))"

section \<open>Nodes\<close>

definition up_nodes_contains :: "vmeta \<Rightarrow> u32 \<Rightarrow> bool" where
  "up_nodes_contains st n \<longleftrightarrow> n \<in> set (vm_up_nodes st)"

text \<open>The results are the \<open>int\<close> codes as \<open>uint32_t\<close>.\<close>

definition set_node_down :: "vmeta \<Rightarrow> u32 \<Rightarrow> u32 \<times> vmeta" where
  "set_node_down st n =
     (if up_nodes_contains st n
      then (word_of_int V_META_SUCCESS,
            st\<lparr>vm_up_nodes := removeAll n (vm_up_nodes st), vm_events := vm_events st @ [Node_Failure n]\<rparr>)
      else (word_of_int NODE_NUMBER_NOT_FOUND, st))"

definition set_node_up :: "vmeta \<Rightarrow> u32 \<Rightarrow> u32 \<times> vmeta" where
  "set_node_up st n =
     (if \<not> up_nodes_contains st n
      then (word_of_int V_META_SUCCESS,
            st\<lparr>vm_up_nodes := vm_up_nodes st @ [n], vm_events := vm_events st @ [Node_Up n]\<rparr>)
      else (word_of_int NODE_ALREADY_UP, st))"

definition is_node_up :: "vmeta \<Rightarrow> u32 \<Rightarrow> bool" where
  "is_node_up st n = (if up_nodes_contains st n then True else False)"

definition get_active_node_count :: "vmeta \<Rightarrow> int" where
  "get_active_node_count st = int (length (vm_up_nodes st))"

text \<open>\<open>node_numbers\<close> has \<open>NUM_ESPRESSO\<close> elements; writing more is out of bounds.\<close>

definition get_active_nodes :: "vmeta \<Rightarrow> (u32 list \<times> vmeta) outcome" where
  "get_active_nodes st =
     (let nodes = sort (vm_up_nodes st) in
      guard_defined (length nodes \<le> NUM_ESPRESSO) (Returned (nodes, st\<lparr>vm_up_nodes := nodes\<rparr>)))"

section \<open>File cursors\<close>

definition file_cursors_contains :: "vmeta \<Rightarrow> u32 \<Rightarrow> bool" where
  "file_cursors_contains st fd \<longleftrightarrow> cursor_find fd st \<noteq> None"

definition get_new_fd :: "vmeta \<Rightarrow> u32 \<times> vmeta" where
  "get_new_fd st =
     (let cur = (if vm_last_fd st = FD_NOT_SET \<and> vm_cursors st \<noteq> []
                 then fst (last (vm_cursors st)) else vm_last_fd st)
      in (cur + 1, st\<lparr>vm_last_fd := cur + 1\<rparr>))"

definition new_file_cursor :: "vmeta \<Rightarrow> u32 \<Rightarrow> client \<Rightarrow> int \<times> vmeta" where
  "new_file_cursor st file_id c =
     (let (fd, st1) = get_new_fd st;
          inst = \<lparr>fi_client_id = c, fi_file_id = file_id, fi_offset = 0\<rparr>
      in (sint fd, st1\<lparr>vm_cursors := om_update (<) fd inst (vm_cursors st1)\<rparr>))"

definition close_file_cursor :: "vmeta \<Rightarrow> u32 \<Rightarrow> client \<Rightarrow> int \<times> vmeta" where
  "close_file_cursor st fd c =
     (case cursor_find fd st of
        None \<Rightarrow> (INSTANCE_NOT_FOUND, st)
      | Some file \<Rightarrow>
          if client_eq (fi_client_id file) c
          then (sint (fi_file_id file), st\<lparr>vm_cursors := om_erase (<) fd (vm_cursors st)\<rparr>)
          else (WRONG_CLIENT, st))"

definition get_file_cursor :: "vmeta \<Rightarrow> u32 \<Rightarrow> int" where
  "get_file_cursor st fd =
     (case cursor_find fd st of None \<Rightarrow> INSTANCE_NOT_FOUND | Some inst \<Rightarrow> sint (fi_offset inst))"

definition get_file_info :: "vmeta \<Rightarrow> u32 \<Rightarrow> file_instance" where
  "get_file_info st fd = (case cursor_find fd st of None \<Rightarrow> null_file_instance | Some inst \<Rightarrow> inst)"

text \<open>
  \<open>stat f\<close> is what the call \<open>decafs_file_stat (f, &info, client)\<close> leaves in \<open>info\<close>: \<open>None\<close>
  when it fails and \<open>info\<close> stays uninitialised. Its result is not checked.
\<close>

definition set_file_cursor ::
    "(u32 \<Rightarrow> file_stat option outcome) \<Rightarrow> vmeta \<Rightarrow> u32 \<Rightarrow> u32 \<Rightarrow> client \<Rightarrow> (int \<times> vmeta) outcome" where
  "set_file_cursor stat st fd offset c =
     (case cursor_find fd st of
        None \<Rightarrow> Returned (INSTANCE_NOT_FOUND, st)
      | Some inst \<Rightarrow>
          if client_eq (fi_client_id inst) c
          then outcome_bind (stat (fi_file_id (get_file_info st fd))) (\<lambda>info.
                 case info of
                   None \<Rightarrow> Unspecified
                 | Some i \<Rightarrow>
                     let offset = (if offset > fs_size i then fs_size i else offset) in
                     Returned (sint offset,
                       st\<lparr>vm_cursors := om_update (<) fd (inst\<lparr>fi_offset := offset\<rparr>) (vm_cursors st)\<rparr>))
          else Returned (WRONG_CLIENT, st))"

definition get_new_request_id :: "vmeta \<Rightarrow> u32 \<times> vmeta" where
  "get_new_request_id st = (vm_request_id st + 1, st\<lparr>vm_request_id := vm_request_id st + 1\<rparr>)"

section \<open>Invariant\<close>

text \<open>The nodes that are up according to the handler calls made so far.\<close>

fun replay :: "node_event list \<Rightarrow> u32 set \<Rightarrow> u32 set" where
  "replay [] up = up"
| "replay (Node_Failure n # es) up = replay es (up - {n})"
| "replay (Node_Up n # es) up = replay es (insert n up)"

text \<open>Every call reports a change.\<close>

fun reports_changes :: "node_event list \<Rightarrow> u32 set \<Rightarrow> bool" where
  "reports_changes [] up \<longleftrightarrow> True"
| "reports_changes (Node_Failure n # es) up \<longleftrightarrow> n \<in> up \<and> reports_changes es (up - {n})"
| "reports_changes (Node_Up n # es) up \<longleftrightarrow> n \<notin> up \<and> reports_changes es (insert n up)"

lemma replay_append [simp]: "replay (es @ fs) up = replay fs (replay es up)"
  by (induction es up rule: replay.induct) auto

lemma reports_changes_append [simp]:
  "reports_changes (es @ fs) up \<longleftrightarrow> reports_changes es up \<and> reports_changes fs (replay es up)"
  by (induction es up rule: replay.induct) auto

definition nodes_inv :: "vmeta \<Rightarrow> bool" where
  "nodes_inv st \<longleftrightarrow> distinct (vm_up_nodes st) \<and> replay (vm_events st) {} = set (vm_up_nodes st) \<and>
     reports_changes (vm_events st) {}"

definition sizes_inv :: "vmeta \<Rightarrow> bool" where
  "sizes_inv st \<longleftrightarrow>
     (vm_chunk_size st = 0 \<or> MIN_CHUNK \<le> vm_chunk_size st \<and> vm_chunk_size st \<le> MAX_CHUNK) \<and>
     (vm_stripe_size st = 0 \<or> MIN_STRIPE \<le> vm_stripe_size st \<and> vm_stripe_size st \<le> MAX_STRIPE)"

definition cursors_inv :: "vmeta \<Rightarrow> bool" where
  "cursors_inv st \<longleftrightarrow> oc_sorted (<) UNIV fst (vm_cursors st) \<and>
     (vm_last_fd st = FD_NOT_SET \<longrightarrow> vm_cursors st = []) \<and>
     (\<forall>fd i. cursor_find fd st = Some i \<longrightarrow> fd \<le> vm_last_fd st)"

definition vmeta_inv :: "vmeta \<Rightarrow> bool" where
  "vmeta_inv st \<longleftrightarrow> nodes_inv st \<and> sizes_inv st \<and> cursors_inv st"

lemma nodes_inv_cong:
  "vm_up_nodes st' = vm_up_nodes st \<Longrightarrow> vm_events st' = vm_events st \<Longrightarrow> nodes_inv st' = nodes_inv st"
  by (simp add: nodes_inv_def)

lemma sizes_inv_cong:
  "vm_chunk_size st' = vm_chunk_size st \<Longrightarrow> vm_stripe_size st' = vm_stripe_size st \<Longrightarrow> sizes_inv st' = sizes_inv st"
  by (simp add: sizes_inv_def)

lemma cursors_inv_cong:
  "vm_cursors st' = vm_cursors st \<Longrightarrow> vm_last_fd st' = vm_last_fd st \<Longrightarrow> cursors_inv st' = cursors_inv st"
  by (simp add: cursors_inv_def)

lemmas vmeta_inv_congs = nodes_inv_cong sizes_inv_cong cursors_inv_cong

lemma new_vmeta_inv: "vmeta_inv new_vmeta"
  by (simp add: vmeta_inv_def nodes_inv_def sizes_inv_def cursors_inv_def new_vmeta_def oc_sorted_def
      om_find_def oc_find_def oc_lower_bound_def)

lemma cursors_find [simp]:
  assumes "cursors_inv st"
  shows "om_find (<) g (om_update (<) fd i (vm_cursors st)) = (if g = fd then Some i else cursor_find g st)"
    and "om_find (<) g (om_erase (<) fd (vm_cursors st)) = (if g = fd then None else cursor_find g st)"
    and "oc_sorted (<) UNIV fst (om_update (<) fd i (vm_cursors st))"
    and "oc_sorted (<) UNIV fst (om_erase (<) fd (vm_cursors st))"
  using assms unfolding cursors_inv_def
  by (simp_all add: u32_order.kv.find_upd u32_order.kv.find_era u32_order.kv.ok_upd u32_order.kv.ok_era)

lemma cursors_last: "cursors_inv st \<Longrightarrow> get_new_fd st = (vm_last_fd st + 1, st\<lparr>vm_last_fd := vm_last_fd st + 1\<rparr>)"
  by (auto simp: get_new_fd_def cursors_inv_def Let_def)

lemma om_update_not_Nil [simp]: "om_update lt k v m \<noteq> []"
  by (auto simp: om_update_def oc_insert_def split: option.split)

lemma cursors_inv_new:
  assumes "cursors_inv st" "vm_last_fd st \<noteq> - 1"
  shows "cursors_inv (st\<lparr>vm_last_fd := vm_last_fd st + 1, vm_cursors := om_update (<) (vm_last_fd st + 1) i (vm_cursors st)\<rparr>)"
    and "cursor_find (vm_last_fd st + 1) st = None"
proof -
  have lt: "vm_last_fd st < vm_last_fd st + 1" using word_less_succ[OF assms(2)] .
  then have b: "fd \<le> vm_last_fd st + 1" if "cursor_find fd st = Some j" for fd j
    using that assms(1) by (auto simp: cursors_inv_def intro: order.trans less_imp_le)
  have "vm_last_fd st + 1 \<noteq> 0" using lt by auto
  then show "cursors_inv (st\<lparr>vm_last_fd := vm_last_fd st + 1, vm_cursors := om_update (<) (vm_last_fd st + 1) i (vm_cursors st)\<rparr>)"
    unfolding cursors_inv_def using assms(1) b by (simp add: FD_NOT_SET_def) blast
  show "cursor_find (vm_last_fd st + 1) st = None"
    using assms(1) lt by (cases "cursor_find (vm_last_fd st + 1) st") (auto simp: cursors_inv_def)
qed

lemma cursors_inv_update:
  assumes "cursors_inv st" "cursor_find fd st = Some i"
  shows "cursors_inv (st\<lparr>vm_cursors := om_update (<) fd j (vm_cursors st)\<rparr>)"
  unfolding cursors_inv_def using assms
  by (auto simp: cursors_inv_def[of st] om_find_def[of _ _ "[]"] oc_find_def oc_lower_bound_def)

lemma cursors_inv_erase:
  assumes "cursors_inv st"
  shows "cursors_inv (st\<lparr>vm_cursors := om_erase (<) fd (vm_cursors st)\<rparr>)"
proof -
  have "om_erase (<) fd [] = ([] :: (u32 \<times> file_instance) list)"
    by (simp add: om_erase_def oc_erase_def oc_find_def oc_lower_bound_def)
  with assms show ?thesis unfolding cursors_inv_def[of "st\<lparr>vm_cursors := _\<rparr>"]
    by simp (auto simp: cursors_inv_def)
qed

section \<open>Properties\<close>

datatype vmeta_op =
    SetChunkSize u32 | SetStripeSize u32 | SetNumEspressos u32
  | NodeDown u32 | NodeUp u32 | ActiveNodes
  | NewCursor u32 client | CloseCursor u32 client | SetCursor u32 u32 client | NewRequest

fun vmeta_apply :: "(u32 \<Rightarrow> file_stat option outcome) \<Rightarrow> vmeta_op \<Rightarrow> vmeta \<Rightarrow> vmeta outcome" where
  "vmeta_apply stat (SetChunkSize n) st = Returned (snd (set_chunk_size st n))"
| "vmeta_apply stat (SetStripeSize n) st = Returned (snd (set_stripe_size st n))"
| "vmeta_apply stat (SetNumEspressos n) st = Returned (snd (set_num_espressos st n))"
| "vmeta_apply stat (NodeDown n) st = Returned (snd (set_node_down st n))"
| "vmeta_apply stat (NodeUp n) st = Returned (snd (set_node_up st n))"
| "vmeta_apply stat ActiveNodes st = outcome_bind (get_active_nodes st) (\<lambda>(_, st'). Returned st')"
| "vmeta_apply stat (NewCursor f c) st = Returned (snd (new_file_cursor st f c))"
| "vmeta_apply stat (CloseCursor fd c) st = Returned (snd (close_file_cursor st fd c))"
| "vmeta_apply stat (SetCursor fd off c) st = outcome_bind (set_file_cursor stat st fd off c) (\<lambda>(_, st'). Returned st')"
| "vmeta_apply stat NewRequest st = Returned (snd (get_new_request_id st))"

lemma new_file_cursor_effect:
  assumes "cursors_inv st" "vm_last_fd st \<noteq> - 1"
  defines "fd \<equiv> vm_last_fd st + 1"
  obtains st' where "new_file_cursor st f c = (sint fd, st')" "cursors_inv st'" "cursor_find fd st = None"
    "\<And>g. cursor_find g st' =
       (if g = fd then Some \<lparr>fi_client_id = c, fi_file_id = f, fi_offset = 0\<rparr> else cursor_find g st)"
    "vm_up_nodes st' = vm_up_nodes st" "vm_events st' = vm_events st" "vm_chunk_size st' = vm_chunk_size st"
    "vm_stripe_size st' = vm_stripe_size st"
proof
  let ?i = "\<lparr>fi_client_id = c, fi_file_id = f, fi_offset = 0\<rparr>"
  let ?st' = "st\<lparr>vm_last_fd := fd, vm_cursors := om_update (<) fd ?i (vm_cursors st)\<rparr>"
  show "new_file_cursor st f c = (sint fd, ?st')"
    using cursors_last[OF assms(1)] by (simp add: new_file_cursor_def fd_def)
  show "cursors_inv ?st'" "cursor_find fd st = None"
    using cursors_inv_new[OF assms(1,2)] by (simp_all add: fd_def)
  show "cursor_find g ?st' = (if g = fd then Some ?i else cursor_find g st)" for g
    using assms(1) by simp
qed simp_all

lemma set_file_cursor_inv:
  assumes "cursors_inv st" "set_file_cursor stat st fd off c = Returned (r, st')"
  shows "cursors_inv st'" "st' = st\<lparr>vm_cursors := vm_cursors st'\<rparr>"
proof -
  show "cursors_inv st'"
    using assms cursors_inv_update[OF assms(1)]
    by (auto simp: set_file_cursor_def Let_def split: option.splits if_splits)
  show "st' = st\<lparr>vm_cursors := vm_cursors st'\<rparr>"
    using assms(2) by (auto simp: set_file_cursor_def Let_def split: option.splits if_splits)
qed

lemma set_size_inv [decafs_inv]:
  assumes "vmeta_inv st"
  shows "vmeta_inv (snd (set_chunk_size st n))" "vmeta_inv (snd (set_stripe_size st n))"
proof -
  have "nodes_inv (snd (set_chunk_size st n))" "cursors_inv (snd (set_chunk_size st n))"
    using assms vmeta_inv_congs[of "snd (set_chunk_size st n)" st] by (simp_all add: vmeta_inv_def set_chunk_size_def)
  then show "vmeta_inv (snd (set_chunk_size st n))"
    using assms by (auto simp: vmeta_inv_def sizes_inv_def set_chunk_size_def)
  have "nodes_inv (snd (set_stripe_size st n))" "cursors_inv (snd (set_stripe_size st n))"
    using assms vmeta_inv_congs[of "snd (set_stripe_size st n)" st] by (simp_all add: vmeta_inv_def set_stripe_size_def)
  then show "vmeta_inv (snd (set_stripe_size st n))"
    using assms by (auto simp: vmeta_inv_def sizes_inv_def set_stripe_size_def)
qed

lemma set_node_inv [decafs_inv]:
  assumes "vmeta_inv st"
  shows "vmeta_inv (snd (set_node_down st n))" "vmeta_inv (snd (set_node_up st n))"
proof -
  have "sizes_inv (snd (set_node_down st n))" "cursors_inv (snd (set_node_down st n))"
    using assms vmeta_inv_congs[of "snd (set_node_down st n)" st] by (simp_all add: vmeta_inv_def set_node_down_def)
  then show "vmeta_inv (snd (set_node_down st n))" using assms
    by (auto simp: vmeta_inv_def nodes_inv_def set_node_down_def up_nodes_contains_def distinct_removeAll)
  have "sizes_inv (snd (set_node_up st n))" "cursors_inv (snd (set_node_up st n))"
    using assms vmeta_inv_congs[of "snd (set_node_up st n)" st] by (simp_all add: vmeta_inv_def set_node_up_def)
  then show "vmeta_inv (snd (set_node_up st n))" using assms
    by (auto simp: vmeta_inv_def nodes_inv_def set_node_up_def up_nodes_contains_def)
qed

lemma active_nodes_inv [decafs_inv]:
  assumes "vmeta_inv st"
  shows "vmeta_inv (st\<lparr>vm_up_nodes := sort (vm_up_nodes st)\<rparr>)"
  using assms vmeta_inv_congs[of "st\<lparr>vm_up_nodes := sort (vm_up_nodes st)\<rparr>" st]
  by (simp add: vmeta_inv_def nodes_inv_def)

lemma new_cursor_inv [decafs_inv]:
  assumes "vmeta_inv st" "vm_last_fd st \<noteq> - 1"
  shows "vmeta_inv (snd (new_file_cursor st f c))"
proof -
  have cur: "cursors_inv st" using assms(1) by (simp add: vmeta_inv_def)
  obtain st1 where "new_file_cursor st f c = (sint (vm_last_fd st + 1), st1)" "cursors_inv st1"
    "vm_up_nodes st1 = vm_up_nodes st" "vm_events st1 = vm_events st"
    "vm_chunk_size st1 = vm_chunk_size st" "vm_stripe_size st1 = vm_stripe_size st"
    using new_file_cursor_effect[OF cur assms(2)] by metis
  then show ?thesis using assms(1) by (simp add: vmeta_inv_def nodes_inv_def sizes_inv_def)
qed

lemma close_cursor_inv [decafs_inv]:
  assumes "vmeta_inv st"
  shows "vmeta_inv (snd (close_file_cursor st fd c))"
proof -
  have "cursors_inv st" using assms by (simp add: vmeta_inv_def)
  from cursors_inv_erase[OF this] show ?thesis using assms
    by (auto simp: vmeta_inv_def nodes_inv_def sizes_inv_def close_file_cursor_def split: option.splits if_splits)
qed

lemma set_cursor_inv [decafs_inv]:
  assumes "vmeta_inv st" "set_file_cursor stat st fd off c = Returned (r, st')"
  shows "vmeta_inv st'"
proof -
  have inv: "cursors_inv st" "nodes_inv st" "sizes_inv st" using assms(1) by (simp_all add: vmeta_inv_def)
  have "nodes_inv (st\<lparr>vm_cursors := x\<rparr>)" "sizes_inv (st\<lparr>vm_cursors := x\<rparr>)" for x
    using inv by (simp_all add: nodes_inv_def sizes_inv_def)
  then have "nodes_inv st'" "sizes_inv st'" using set_file_cursor_inv(2)[OF inv(1) assms(2)] by metis+
  then show ?thesis using set_file_cursor_inv(1)[OF inv(1) assms(2)] by (simp add: vmeta_inv_def)
qed

lemma new_request_inv [decafs_inv]: "vmeta_inv st \<Longrightarrow> vmeta_inv (snd (get_new_request_id st))"
  using vmeta_inv_congs[of "snd (get_new_request_id st)" st] by (auto simp: vmeta_inv_def get_new_request_id_def)

text \<open>
  C32: every operation keeps the volatile state well-formed: sizes are unset or within their
  limits, no node is listed twice, descriptors in use do not exceed the last one handed out,
  and the calls of the node handlers, replayed, give exactly the nodes that are up, each call
  reporting a real change.
\<close>

theorem vmeta_apply_inv:
  assumes "vmeta_inv st" "vm_last_fd st \<noteq> - 1" "vmeta_apply stat op st = Returned st'"
  shows "vmeta_inv st'"
  using assms
  by (cases op)
    (auto simp: decafs_inv get_active_nodes_def set_num_espressos_def Let_def intro: set_cursor_inv split: if_splits)

lemma vmeta_apply_inv_witness:
  "vmeta_inv (snd (set_node_up new_vmeta 1))"
  using vmeta_apply_inv[OF new_vmeta_inv, of "\<lambda>_. Aborted" "NodeUp 1"] by (simp add: new_vmeta_def FD_NOT_SET_def)

text \<open>
  A new cursor gets a descriptor that no open cursor uses, at offset 0, and opening leaves
  the other cursors alone; then only its client can close it, which returns the file id.
\<close>

theorem cursor_open_close:
  assumes "vmeta_inv st" "vm_last_fd st \<noteq> - 1"
  shows "\<exists>fd st'. new_file_cursor st f c = (sint fd, st') \<and> vmeta_inv st' \<and>
    cursor_find fd st = None \<and> get_file_cursor st' fd = 0 \<and>
    (\<forall>g. g \<noteq> fd \<longrightarrow> get_file_info st' g = get_file_info st g) \<and>
    (\<forall>d. d \<noteq> c \<longrightarrow> close_file_cursor st' fd d = (WRONG_CLIENT, st')) \<and>
    (\<exists>st''. close_file_cursor st' fd c = (sint f, st'') \<and> (\<forall>g. cursor_find g st'' = cursor_find g st))"
proof -
  have cur: "cursors_inv st" using assms(1) by (simp add: vmeta_inv_def)
  let ?fd = "vm_last_fd st + 1"
  obtain st' where n: "new_file_cursor st f c = (sint ?fd, st')" "cursors_inv st'" "cursor_find ?fd st = None"
    "\<And>g. cursor_find g st' =
       (if g = ?fd then Some \<lparr>fi_client_id = c, fi_file_id = f, fi_offset = 0\<rparr> else cursor_find g st)"
    "vm_up_nodes st' = vm_up_nodes st" "vm_events st' = vm_events st" "vm_chunk_size st' = vm_chunk_size st"
    "vm_stripe_size st' = vm_stripe_size st"
    using new_file_cursor_effect[OF cur assms(2), of f c] by blast
  have "vmeta_inv st'" using assms(1) n by (simp add: vmeta_inv_def nodes_inv_def sizes_inv_def)
  moreover have "close_file_cursor st' ?fd d = (WRONG_CLIENT, st')" if "d \<noteq> c" for d
    using that n(4) by (simp add: close_file_cursor_def)
  moreover have "\<exists>st''. close_file_cursor st' ?fd c = (sint f, st'') \<and> (\<forall>g. cursor_find g st'' = cursor_find g st)"
    using n(2-4) by (simp add: close_file_cursor_def)
  ultimately show ?thesis using n by (intro exI[of _ ?fd] exI[of _ st']) (simp add: get_file_cursor_def get_file_info_def)
qed

lemma cursor_open_close_witness:
  "\<exists>(fd :: u32) st' st''. new_file_cursor new_vmeta 7 null_client = (sint fd, st') \<and>
     close_file_cursor st' fd null_client = (sint (7 :: u32), st'')"
  using cursor_open_close[OF new_vmeta_inv, of 7 null_client] by (simp add: new_vmeta_def FD_NOT_SET_def) blast

text \<open>
  Moving a cursor sets it to the requested offset or to the size of the file, whichever is
  smaller, moves no other cursor, and is refused without effect for another client.
\<close>

theorem set_file_cursor_correct:
  assumes "vmeta_inv st" "cursor_find fd st = Some i"
    and "stat (fi_file_id i) = Returned (Some info)"
  shows "if c = fi_client_id i
    then \<exists>st'. set_file_cursor stat st fd off c = Returned (sint (min off (fs_size info)), st') \<and>
      get_file_info st' fd = i\<lparr>fi_offset := min off (fs_size info)\<rparr> \<and>
      (\<forall>g. g \<noteq> fd \<longrightarrow> cursor_find g st' = cursor_find g st) \<and>
      vm_up_nodes st' = vm_up_nodes st
    else set_file_cursor stat st fd off c = Returned (WRONG_CLIENT, st)"
proof -
  have cur: "cursors_inv st" using assms(1) by (simp add: vmeta_inv_def)
  show ?thesis
  proof (cases "c = fi_client_id i")
    case True
    let ?o = "min off (fs_size info)"
    let ?st' = "st\<lparr>vm_cursors := om_update (<) fd (i\<lparr>fi_offset := ?o\<rparr>) (vm_cursors st)\<rparr>"
    have "set_file_cursor stat st fd off c = Returned (sint ?o, ?st')"
      using assms(2,3) True
      by (simp add: set_file_cursor_def get_file_info_def Let_def min_def not_less[symmetric])
    with True cur show ?thesis by (simp add: get_file_info_def)
  qed (use assms(2) in \<open>simp add: set_file_cursor_def\<close>)
qed

definition demo_vmeta :: vmeta where
  "demo_vmeta = new_vmeta\<lparr>vm_last_fd := 1,
     vm_cursors := [(1, \<lparr>fi_client_id = null_client, fi_file_id = 7, fi_offset = 0\<rparr>)]\<rparr>"

lemma demo_vmeta_cursor:
  "cursor_find fd demo_vmeta = (if fd = 1 then Some \<lparr>fi_client_id = null_client, fi_file_id = 7, fi_offset = 0\<rparr> else None)"
  by (subst u32_order.om_find_map_of) (simp_all add: demo_vmeta_def oc_sorted_def)

lemma demo_vmeta_inv: "vmeta_inv demo_vmeta"
  unfolding vmeta_inv_def cursors_inv_def demo_vmeta_cursor
  by (simp add: demo_vmeta_def nodes_inv_def sizes_inv_def new_vmeta_def oc_sorted_def FD_NOT_SET_def)

lemma set_file_cursor_correct_witness:
  "\<exists>st'. set_file_cursor (\<lambda>_. Returned (Some \<lparr>fs_file_id = 7, fs_size = 10, fs_stripe_size = 512,
      fs_chunk_size = 256, fs_replica_size = 256, fs_last_access_time = (0, 0)\<rparr>)) demo_vmeta 1 25 null_client =
    Returned (10, st') \<and> fi_offset (get_file_info st' 1) = 10"
  using set_file_cursor_correct[OF demo_vmeta_inv, of 1 "\<lparr>fi_client_id = null_client, fi_file_id = 7, fi_offset = 0\<rparr>"
      "\<lambda>_. Returned (Some \<lparr>fs_file_id = 7, fs_size = 10, fs_stripe_size = 512, fs_chunk_size = 256,
        fs_replica_size = 256, fs_last_access_time = (0, 0)\<rparr>)" _ null_client 25]
  by (auto simp: demo_vmeta_cursor min_def)

text \<open>
  \<open>set_num_espressos\<close> never stores anything: whatever it is called with, the number stays
  what it was, and on a new object every number but 0 is reported as already set.
\<close>

theorem set_num_espressos_no_effect:
  "snd (set_num_espressos st n) = st \<and>
   set_num_espressos new_vmeta n = (if n = 0 then 1 else SIZE_ALREADY_SET, new_vmeta)"
  by (simp add: set_num_espressos_def)

text \<open>
  The first valid size set is kept: every later call is refused and the size never changes.
\<close>

theorem chunk_size_set_once:
  assumes "vm_chunk_size st = 0" "MIN_CHUNK \<le> n" "n \<le> MAX_CHUNK"
  shows "\<exists>st'. set_chunk_size st n = (1, st') \<and> vm_chunk_size st' = n \<and>
    (\<forall>ms. fold (\<lambda>m s. snd (set_chunk_size s m)) ms st' = st' \<and>
      (\<forall>m \<in> set ms. set_chunk_size st' m = (SIZE_ALREADY_SET, st')))"
proof -
  have n0: "n \<noteq> 0" using assms(2) by (auto simp: limits_defs)
  let ?st' = "st\<lparr>vm_chunk_size := n\<rparr>"
  have later: "set_chunk_size ?st' m = (SIZE_ALREADY_SET, ?st')" for m
    using n0 by (simp add: set_chunk_size_def)
  have "fold (\<lambda>m s. snd (set_chunk_size s m)) ms ?st' = ?st'" for ms
    by (induction ms) (simp_all add: later)
  moreover have "set_chunk_size st n = (1, ?st')" using assms by (simp add: set_chunk_size_def)
  ultimately show ?thesis using later by simp
qed

lemma chunk_size_set_once_witness:
  "\<exists>st'. set_chunk_size new_vmeta 512 = (1, st') \<and> vm_chunk_size st' = 512"
  using chunk_size_set_once[of new_vmeta 512] by (auto simp: new_vmeta_def limits_defs)

end
