(* ===== verification/Segments.thy ===== *)
theory Segments
  imports Prelude
begin

text \<open>
  How a byte range is cut into units of a fixed size: the common loop of
  \<open>get_first_stripe\<close> (\<open>barista_core.cpp\<close>) and \<open>get_first_chunk\<close> (\<open>io_manager.cpp\<close>), the
  size of the part that fits into the current unit, and the list of all parts with the lemma
  that they cover the range exactly once and in order.
\<close>

section \<open>The code\<close>

text \<open>
  \<open>while (offset > (int)size) { ++id; offset -= size; }\<close>: the subtraction is unsigned and its
  result converted back to \<open>int\<close>.
\<close>

fun first_loop :: "nat \<Rightarrow> u32 \<Rightarrow> u32 \<Rightarrow> int \<Rightarrow> (u32 \<times> int) outcome" where
  "first_loop 0 sz k offset = Running"
| "first_loop (Suc n) sz k offset =
     (if offset > sint sz
      then first_loop n sz (k + 1) (sint (word_of_int offset - sz))
      else Returned (k, offset))"

text \<open>The part of \<open>count - don\<close> bytes that fits into a unit of \<open>sz\<close> bytes from \<open>offset\<close> on.\<close>

definition part_size :: "u32 \<Rightarrow> nat \<Rightarrow> int \<Rightarrow> u32 \<Rightarrow> u32" where
  "part_size sz count offset don =
     (if count - unat don > unat (sz - word_of_int offset)
      then sz - word_of_int offset
      else of_nat (count - unat don))"

section \<open>The parts of a range\<close>

text \<open>Parts as unit number, offset in the unit, and length.\<close>

function segments :: "int \<Rightarrow> int \<Rightarrow> int \<Rightarrow> int \<Rightarrow> (int \<times> int \<times> int) list" where
  "segments sz k off count =
     (if count \<le> 0 \<or> sz \<le> 0 \<or> off < 0 \<or> off > sz then []
      else (k, off, min count (sz - off)) # segments sz (k + 1) 0 (count - min count (sz - off)))"
  by pat_completeness auto
termination
  by (relation "measures [\<lambda>(sz, k, off, count). nat count, \<lambda>(sz, k, off, count). nat off]") auto

declare segments.simps [simp del]

definition seg_start :: "int \<Rightarrow> int \<times> int \<times> int \<Rightarrow> int" where
  "seg_start sz = (\<lambda>(k, off, len). (k - 1) * sz + off)"

definition seg_bytes :: "int \<Rightarrow> int \<times> int \<times> int \<Rightarrow> int list" where
  "seg_bytes sz = (\<lambda>(k, off, len). [(k - 1) * sz + off .. (k - 1) * sz + off + len - 1])"

lemma segments_Nil [simp]: "count \<le> 0 \<Longrightarrow> segments sz k off count = []"
  by (subst segments.simps) simp

lemma segments_Cons:
  "0 < count \<Longrightarrow> 0 < sz \<Longrightarrow> 0 \<le> off \<Longrightarrow> off \<le> sz \<Longrightarrow>
   segments sz k off count =
     (k, off, min count (sz - off)) # segments sz (k + 1) 0 (count - min count (sz - off))"
  by (subst segments.simps) simp

lemma segments_cases:
  obtains "segments sz k off count = []"
  | "0 < count" "0 < sz" "0 \<le> off" "off \<le> sz" "segments sz k off count =
      (k, off, min count (sz - off)) # segments sz (k + 1) 0 (count - min count (sz - off))"
  using segments_Cons[of count sz off k] segments.simps[of sz k off count]
  by (cases "count \<le> 0 \<or> sz \<le> 0 \<or> off < 0 \<or> off > sz") (auto simp: not_le)

text \<open>The parts lie inside their units; only the first can be empty, when it starts at the end.\<close>

lemma segments_bounds:
  "(k', off', len) \<in> set (segments sz k off count) \<Longrightarrow>
   0 \<le> off' \<and> 0 \<le> len \<and> off' + len \<le> sz \<and> k \<le> k' \<and> (off < sz \<longrightarrow> 0 < len)"
proof (induction sz k off count rule: segments.induct)
  case (1 sz k off count)
  show ?case
  proof (cases rule: segments_cases[of sz k off count])
    case 2
    show ?thesis
    proof (cases "(k', off', len) = (k, off, min count (sz - off))")
      case False
      then have "(k', off', len) \<in> set (segments sz (k + 1) 0 (count - min count (sz - off)))"
        using 1(2) unfolding 2(5) by auto
      with 1(1) 2 show ?thesis by auto
    qed (use 2 in auto)
  qed (use 1(2) in simp)
qed

lemma segments_length:
  "0 \<le> count \<Longrightarrow> int (length (segments sz k off count)) \<le> count + 1 \<and>
   (off < sz \<longrightarrow> int (length (segments sz k off count)) \<le> count)"
proof (induction sz k off count rule: segments.induct)
  case (1 sz k off count)
  show ?case
  proof (cases rule: segments_cases[of sz k off count])
    case 2
    have "int (length (segments sz (k + 1) 0 (count - min count (sz - off)))) \<le> count - min count (sz - off)"
      using 1(1) 2 by auto
    with 2 show ?thesis by auto
  qed (use 1(2) in simp)
qed

abbreviation seg_len :: "int \<times> int \<times> int \<Rightarrow> int" where
  "seg_len \<equiv> (\<lambda>(k, off, len). len)"

lemma segments_sum:
  "0 < sz \<Longrightarrow> 0 \<le> off \<Longrightarrow> off \<le> sz \<Longrightarrow> 0 \<le> count \<Longrightarrow> sum_list (map seg_len (segments sz k off count)) = count"
proof (induction sz k off count rule: segments.induct)
  case (1 sz k off count)
  then show ?case using segments_Cons[of count sz off k] by (cases "count = 0") auto
qed

text \<open>The parts lie inside the range, and their units are numbered in order.\<close>

lemma segments_within:
  "(k', off', len) \<in> set (segments sz k off count) \<Longrightarrow> (k' - 1) * sz + off' + len \<le> (k - 1) * sz + off + count"
proof (induction sz k off count rule: segments.induct)
  case (1 sz k off count)
  show ?case
  proof (cases rule: segments_cases[of sz k off count])
    case 2
    let ?l = "min count (sz - off)"
    show ?thesis
    proof (cases "(k', off', len) = (k, off, ?l)")
      case False
      then have m: "(k', off', len) \<in> set (segments sz (k + 1) 0 (count - ?l))" using 1(2) unfolding 2(5) by auto
      then have "?l = sz - off" by (cases "count \<le> sz - off") auto
      moreover have "(k' - 1) * sz + off' + len \<le> k * sz + (count - ?l)" using 1(1)[OF _ m] 2 by simp
      ultimately show ?thesis by (simp add: algebra_simps)
    qed (use 2 in simp)
  qed (use 1(2) in simp)
qed

lemma segments_units: "map fst (segments sz k off count) = [k .. k + int (length (segments sz k off count)) - 1]"
proof (induction sz k off count rule: segments.induct)
  case (1 sz k off count)
  show ?case
  proof (cases rule: segments_cases[of sz k off count])
    case 2
    let ?s = "segments sz (k + 1) 0 (count - min count (sz - off))"
    have "map fst ?s = [k + 1 .. k + 1 + int (length ?s) - 1]" using 1 2 by auto
    then show ?thesis unfolding 2(5) by (simp add: upto_rec1)
  qed simp
qed

text \<open>The parts are the bytes of the range, each once and in order.\<close>

lemma upto_join: "i \<le> j + 1 \<Longrightarrow> j \<le> k \<Longrightarrow> [i..j] @ [j + 1..k] = [i..k]"
proof (cases "i \<le> j")
  case False
  assume "i \<le> j + 1" "j \<le> k"
  with False have "i = j + 1" by simp
  then show ?thesis by simp
qed (simp add: upto_split2[of i j k])

lemma segments_tile:
  "0 < sz \<Longrightarrow> 0 \<le> off \<Longrightarrow> off \<le> sz \<Longrightarrow> 0 \<le> count \<Longrightarrow>
   concat (map (seg_bytes sz) (segments sz k off count)) =
     [(k - 1) * sz + off .. (k - 1) * sz + off + count - 1]"
proof (induction sz k off count rule: segments.induct)
  case (1 sz k off count)
  show ?case
  proof (cases "count = 0")
    case False
    let ?l = "min count (sz - off)" and ?p = "(k - 1) * sz + off"
    have pos: "0 < count" using False 1(5) by simp
    have s: "segments sz k off count = (k, off, ?l) # segments sz (k + 1) 0 (count - ?l)"
      using segments_Cons[OF pos 1(2-4)] .
    have ih: "concat (map (seg_bytes sz) (segments sz (k + 1) 0 (count - ?l))) = [k * sz .. k * sz + count - ?l - 1]"
      using 1 pos by (auto simp: algebra_simps)
    show ?thesis
    proof (cases "count \<le> sz - off")
      case True
      then show ?thesis using s by (simp add: seg_bytes_def)
    next
      case False
      then have "?p + ?l = k * sz" by (simp add: algebra_simps)
      moreover have "[?p .. ?p + ?l - 1] @ [?p + ?l .. ?p + count - 1] = [?p .. ?p + count - 1]"
        using upto_join[of ?p "?p + ?l - 1" "?p + count - 1"] False 1(3,4) pos by simp
      ultimately show ?thesis using s ih by (simp add: seg_bytes_def algebra_simps)
    qed
  qed simp
qed

section \<open>The code computes them\<close>

text \<open>The unit an offset falls into, counted from 0: an offset at the end of a unit belongs to it.\<close>

definition unit_index :: "int \<Rightarrow> int \<Rightarrow> int" where
  "unit_index sz offset = max 0 ((offset - 1) div sz)"

lemma unit_index_bounds:
  assumes "0 < sz" "0 \<le> offset"
  shows "0 \<le> unit_index sz offset" "0 \<le> offset - unit_index sz offset * sz"
    "offset - unit_index sz offset * sz \<le> sz" "unit_index sz offset \<le> offset"
proof -
  show "0 \<le> unit_index sz offset" by (simp add: unit_index_def)
  obtain q r where d: "(offset - 1) div sz = q" "offset - 1 = q * sz + r" "0 \<le> r" "r < sz"
    using assms(1) div_mult_mod_eq[of "offset - 1" sz] pos_mod_bound[of sz "offset - 1"]
      pos_mod_sign[of sz "offset - 1"] by metis
  have "0 \<le> q \<or> offset = 0"
    using d(1) assms pos_imp_zdiv_nonneg_iff[of sz "offset - 1"] by auto
  moreover have "q < 0" if "offset = 0" using d(1) that assms(1) by (simp add: div_eq_minus1)
  ultimately have u: "unit_index sz offset = (if offset = 0 then 0 else q)" "offset = 0 \<or> 0 \<le> q"
    using d(1) by (auto simp: unit_index_def)
  then show "0 \<le> offset - unit_index sz offset * sz" "offset - unit_index sz offset * sz \<le> sz"
    using d assms by auto
  moreover have "unit_index sz offset \<le> unit_index sz offset * sz"
    using assms(1) mult_left_mono[of 1 sz "unit_index sz offset"] by (simp add: unit_index_def)
  ultimately show "unit_index sz offset \<le> offset" by linarith
qed

lemma unit_index_small:
  assumes "0 < sz" "0 \<le> offset" "offset \<le> sz"
  shows "unit_index sz offset = 0"
proof (cases "offset = 0")
  case True
  then have "offset - 1 = -1" by simp
  then have "(offset - 1) div sz = -1" by (simp only: div_eq_minus1[OF assms(1)])
  then show ?thesis by (simp add: unit_index_def)
next
  case False
  then show ?thesis using assms div_pos_pos_trivial[of "offset - 1" sz] by (simp add: unit_index_def)
qed

lemma unit_index_step: "0 < sz \<Longrightarrow> sz < offset \<Longrightarrow> unit_index sz offset = unit_index sz (offset - sz) + 1"
proof -
  assume a: "0 < sz" "sz < offset"
  have "(offset - 1) div sz = (offset - sz - 1) div sz + 1"
    using a(1) div_add_self2[of sz "offset - sz - 1"] by (simp add: algebra_simps)
  moreover have "0 \<le> (offset - sz - 1) div sz" using a by (simp add: pos_imp_zdiv_nonneg_iff)
  ultimately show ?thesis by (simp add: unit_index_def)
qed

lemma first_loop_correct:
  assumes "0 < uint sz" "uint sz < 2 ^ 31" "0 \<le> offset" "offset < 2 ^ 31" "offset \<le> int (Suc n) * uint sz"
  shows "first_loop (Suc n) sz k offset =
    Returned (k + word_of_int (unit_index (uint sz) offset), offset - unit_index (uint sz) offset * uint sz)"
  using assms
proof (induction n arbitrary: k offset)
  case 0
  then show ?case by (simp add: u32_sint_uint unit_index_small)
next
  case (Suc n)
  show ?case
  proof (cases "offset > uint sz")
    case True
    have s: "sint (word_of_int offset - sz) = offset - uint sz"
      using True Suc.prems u32_sint_of_int[of "offset - uint sz"] by simp
    have "offset - uint sz \<le> int (Suc n) * uint sz"
      using Suc.prems(5) by (simp add: algebra_simps)
    moreover have "first_loop (Suc (Suc n)) sz k offset =
        first_loop (Suc n) sz (k + 1) (offset - uint sz)"
      using True Suc.prems(2) by (subst first_loop.simps(2)) (simp only: u32_sint_uint if_True s)
    ultimately show ?thesis
      using True Suc.prems Suc.IH[of "offset - uint sz" "k + 1"] unit_index_step[OF Suc.prems(1) True]
      by (simp del: first_loop.simps add: algebra_simps)
  next
    case False
    then show ?thesis using Suc.prems by (simp add: u32_sint_uint unit_index_small)
  qed
qed

lemma part_size_correct:
  assumes "uint sz < 2 ^ 31" "0 \<le> off" "off \<le> uint sz" "unat don \<le> count" "count < 2 ^ 31"
  shows "uint (part_size sz count off don) = min (int count - uint don) (uint sz - off)"
proof -
  have a: "uint (sz - word_of_int off) = uint sz - off"
    using u32_add_int[of sz "- off"] assms(1-3) by simp
  then have b: "int (unat (sz - word_of_int off)) = uint sz - off" by simp
  have c: "int (count - unat don) = int count - uint don" using assms(4) by simp
  have d: "uint (of_nat (count - unat don) :: u32) = int (count - unat don)"
    using assms(5) by (simp add: uint_of_nat_small)
  have "unat (sz - word_of_int off) < count - unat don \<longleftrightarrow> uint sz - off < int count - uint don"
    unfolding b[symmetric] c[symmetric] by (simp only: of_nat_less_iff)
  then show ?thesis using a c d by (auto simp: part_size_def)
qed

text \<open>One iteration of a loop over the parts: the size of the part and what is left after it.\<close>

lemma part_step:
  fixes sz don :: u32
  assumes "0 < uint sz" "uint sz < 2 ^ 31" "0 \<le> off" "off \<le> uint sz" "unat don < count" "count < 2 ^ 31"
  defines "part \<equiv> part_size sz count off don" and "l \<equiv> min (int count - uint don) (uint sz - off)"
  shows "uint part = l" "unat part = nat l" "part = word_of_int l"
    "segments (uint sz) k off (int count - uint don) = (k, off, l) # segments (uint sz) (k + 1) 0 (int count - uint don - l)"
    "uint (don + part) = uint don + l" "int count - uint (don + part) = int count - uint don - l"
    "unat (don + part) \<le> count" "nat l \<le> count" "sint don < sint (of_nat count :: u32)"
proof -
  have pos: "0 < int count - uint don" using assms(5) by (simp add: unat_less_int)
  show u: "uint part = l"
    unfolding part_def l_def using assms(5) by (intro part_size_correct assms) simp
  then show "unat part = nat l" by (simp flip: nat_uint_eq)
  show "part = word_of_int l" using u by (metis word_of_int_uint)
  show "segments (uint sz) k off (int count - uint don) = (k, off, l) # segments (uint sz) (k + 1) 0 (int count - uint don - l)"
    unfolding l_def by (rule segments_Cons[OF pos assms(1,3,4)])
  show d: "uint (don + part) = uint don + l"
    using u32_add_uint[of don part] u pos assms(6) by (simp add: l_def)
  then show "int count - uint (don + part) = int count - uint don - l" by simp
  show "unat (don + part) \<le> count" using d pos by (simp add: unat_le_int l_def)
  have "l \<le> int count" using uint_ge_0[of don] unfolding l_def by linarith
  then show "nat l \<le> count" by (simp add: nat_le_iff)
  show "sint don < sint (of_nat count :: u32)"
    using assms(5,6) by (simp add: u32_sint_uint uint_of_nat_small unat_less_int)
qed

end
