(* ===== verification/IO_Manager.thy ===== *)
theory IO_Manager
  imports Volatile_Metadata Segments
begin

text \<open>
  \<open>src/lib/io_manager/io_manager.cpp\<close> with the strategies it calls (\<open>distribution_strategy\<close>,
  \<open>replication_strategy\<close>) and the access layer (\<open>access.cpp\<close>): the translation of a read or
  write of a stripe into requests for chunks, and the maps from chunks to the nodes that hold
  them. The two maps use the comparator \<open>file_chunk_less\<close> of the code.

  The network is the parameter \<open>net\<close>: the result of handing a request to a node, given all
  requests handed over before with their results (-1 when the node cannot be reached;
  \<open>Unspecified\<close> when there is no connection object for the node).
\<close>

section \<open>State\<close>

definition NODE_FAILURE :: int where "NODE_FAILURE = -1"
definition CHUNK_NOT_FOUND :: int where "CHUNK_NOT_FOUND = -1"
definition REPLICA_CHUNK_NOT_FOUND :: int where "REPLICA_CHUNK_NOT_FOUND = -3"
definition CHUNK_ID_INIT :: u32 where "CHUNK_ID_INIT = 1"

lemmas io_codes = NODE_FAILURE_def CHUNK_NOT_FOUND_def REPLICA_CHUNK_NOT_FOUND_def CHUNK_ID_INIT_def

text \<open>The requests of \<open>access.cpp\<close>: request id, chunk, node, and range or data.\<close>

datatype chunk_request =
    Read_Chunk u32 file_chunk int int u32
  | Write_Chunk u32 file_chunk int int "u8 list"
  | Delete_Chunk u32 file_chunk int

type_synonym net_log = "(chunk_request \<times> int) list"
type_synonym network = "net_log \<Rightarrow> chunk_request \<Rightarrow> int outcome"

record io_state =
  io_node :: "(file_chunk \<times> int) list"
  io_replica :: "(file_chunk \<times> int) list"
  io_vmeta :: vmeta
  io_sent :: net_log

abbreviation mk_chunk :: "u32 \<Rightarrow> u32 \<Rightarrow> u32 \<Rightarrow> file_chunk" where
  "mk_chunk f s c \<equiv> \<lparr>fc_file_id = f, fc_stripe_id = s, fc_chunk_num = c\<rparr>"

abbreviation node_find :: "file_chunk \<Rightarrow> (file_chunk \<times> int) list \<Rightarrow> int option" where
  "node_find \<equiv> om_find file_chunk_less"

abbreviation node_update :: "file_chunk \<Rightarrow> int \<Rightarrow> (file_chunk \<times> int) list \<Rightarrow> (file_chunk \<times> int) list" where
  "node_update \<equiv> om_update file_chunk_less"

section \<open>Strategies and access\<close>

definition node_up :: "io_state \<Rightarrow> int \<Rightarrow> bool" where
  "node_up st n = is_node_up (io_vmeta st) (word_of_int n)"

definition put_chunk :: "io_state \<Rightarrow> u32 \<Rightarrow> int" where
  "put_chunk st chunk_num =
     (let node_num = (if chunk_num mod 2 = 1 then 1 else 2) in
      if node_up st node_num then node_num else if node_num = 1 then 2 else 1)"

definition put_replica :: "io_state \<Rightarrow> u32 \<Rightarrow> int" where
  "put_replica st chunk_num =
     (let node_num = (if chunk_num mod 2 = 1 then 3 else 4) in
      if node_up st node_num then node_num else if node_num = 3 then 4 else 3)"

definition send_request :: "network \<Rightarrow> chunk_request \<Rightarrow> io_state \<Rightarrow> (int \<times> io_state) outcome" where
  "send_request net r st =
     outcome_bind (net (io_sent st) r) (\<lambda>x. Returned (x, st\<lparr>io_sent := io_sent st @ [(r, x)]\<rparr>))"

definition node_down :: "int \<Rightarrow> io_state \<Rightarrow> io_state" where
  "node_down n st = st\<lparr>io_vmeta := snd (set_node_down (io_vmeta st) (word_of_int n))\<rparr>"

section \<open>Stripes to chunks\<close>

definition get_first_chunk :: "nat \<Rightarrow> u32 \<Rightarrow> int \<Rightarrow> (u32 \<times> int) outcome" where
  "get_first_chunk n chunk_size offset = first_loop n chunk_size CHUNK_ID_INIT offset"

definition slice :: "u8 list \<Rightarrow> u32 \<Rightarrow> u32 \<Rightarrow> u8 list" where
  "slice buf from len = take (unat len) (drop (unat from) buf)"

fun read_stripe_loop ::
    "network \<Rightarrow> nat \<Rightarrow> u32 \<Rightarrow> u32 \<Rightarrow> u32 \<Rightarrow> u32 \<Rightarrow> nat \<Rightarrow> u32 \<Rightarrow> int \<Rightarrow> u32 \<Rightarrow> u32 \<Rightarrow> io_state \<Rightarrow>
     (u32 \<times> io_state) outcome" where
  "read_stripe_loop net 0 rid f s cs count chunk_id chunk_offset bytes_read num_chunks st = Running"
| "read_stripe_loop net (Suc n) rid f s cs count chunk_id chunk_offset bytes_read num_chunks st =
     (if unat bytes_read < count then
        let cur_chunk = mk_chunk f s chunk_id in
        case node_find cur_chunk (io_node st) of
          None \<Rightarrow> Returned (num_chunks, st)
        | Some primary \<Rightarrow>
            guard_assert (node_up st primary \<or> node_find cur_chunk (io_replica st) \<noteq> None)
             (let node_id = (if node_up st primary then primary
                             else the (node_find cur_chunk (io_replica st)));
                  read_size = part_size cs count chunk_offset bytes_read
              in outcome_bind (send_request net (Read_Chunk rid cur_chunk node_id chunk_offset read_size) st)
                  (\<lambda>(chunk_result, st1).
                    if chunk_result = NODE_FAILURE
                    then read_stripe_loop net n rid f s cs count chunk_id chunk_offset bytes_read num_chunks
                           (node_down node_id st1)
                    else read_stripe_loop net n rid f s cs count (chunk_id + 1) 0 (bytes_read + read_size)
                           (num_chunks + 1) st1))
      else Returned (num_chunks, st))"

definition process_read_stripe ::
    "network \<Rightarrow> nat \<Rightarrow> u32 \<Rightarrow> u32 \<Rightarrow> u32 \<Rightarrow> u32 \<Rightarrow> u32 \<Rightarrow> int \<Rightarrow> nat \<Rightarrow> io_state \<Rightarrow> (u32 \<times> io_state) outcome" where
  "process_read_stripe net n rid f s stripe_size cs offset count st =
     guard_assert (int count - offset \<le> sint stripe_size)
      (outcome_bind (get_first_chunk n cs offset) (\<lambda>(chunk_id, chunk_offset).
         read_stripe_loop net n rid f s cs count chunk_id chunk_offset 0 0 st))"

text \<open>One chunk of a write: the node and replica maps first, then the two requests.\<close>

definition place_chunk :: "file_chunk \<Rightarrow> io_state \<Rightarrow> io_state" where
  "place_chunk c st =
     (let st1 = (if node_find c (io_node st) = None
                 then st\<lparr>io_node := node_update c (put_chunk st (fc_chunk_num c)) (io_node st)\<rparr> else st)
      in if node_find c (io_replica st1) = None
         then st1\<lparr>io_replica := node_update c (put_replica st1 (fc_chunk_num c)) (io_replica st1)\<rparr> else st1)"

definition write_replica ::
    "network \<Rightarrow> u32 \<Rightarrow> file_chunk \<Rightarrow> int \<Rightarrow> int \<Rightarrow> u8 list \<Rightarrow> io_state \<Rightarrow> io_state outcome" where
  "write_replica net rrid c replica_node_id chunk_offset data st =
     outcome_bind (send_request net (Write_Chunk rrid c replica_node_id chunk_offset data) st)
      (\<lambda>(write_result, st1).
        if write_result = NODE_FAILURE then
          let st2 = node_down replica_node_id st1;
              other = put_replica st2 (fc_chunk_num c)
          in outcome_bind (send_request net (Write_Chunk rrid c other chunk_offset data) st2)
              (\<lambda>(_, st3). Returned st3)
        else Returned st1)"

fun write_stripe_loop ::
    "network \<Rightarrow> nat \<Rightarrow> u32 \<Rightarrow> u32 \<Rightarrow> u32 \<Rightarrow> u32 \<Rightarrow> u32 \<Rightarrow> u8 list \<Rightarrow> nat \<Rightarrow> u32 \<Rightarrow> int \<Rightarrow> u32 \<Rightarrow> u32 \<Rightarrow> io_state \<Rightarrow>
     (u32 \<times> io_state) outcome" where
  "write_stripe_loop net 0 rid rrid f s cs buf count chunk_id chunk_offset bytes_written chunks st = Running"
| "write_stripe_loop net (Suc n) rid rrid f s cs buf count chunk_id chunk_offset bytes_written chunks st =
     (if unat bytes_written < count then
        let cur_chunk = mk_chunk f s chunk_id;
            st1 = place_chunk cur_chunk st;
            node_id = the (node_find cur_chunk (io_node st1));
            replica_node_id = the (node_find cur_chunk (io_replica st1));
            write_size = part_size cs count chunk_offset bytes_written;
            data = slice buf bytes_written write_size
        in outcome_bind (send_request net (Write_Chunk rid cur_chunk node_id chunk_offset data) st1)
            (\<lambda>(write_result, st2).
              if write_result = NODE_FAILURE
              then write_stripe_loop net n rid rrid f s cs buf count chunk_id chunk_offset bytes_written chunks
                     (node_down node_id st2)
              else outcome_bind (write_replica net rrid cur_chunk replica_node_id chunk_offset data st2)
                    (\<lambda>st3. write_stripe_loop net n rid rrid f s cs buf count (chunk_id + 1) 0
                       (bytes_written + write_size) (chunks + 1) st3))
      else Returned (chunks, st))"

text \<open>
  \<open>chunks_written\<close> and \<open>replica_chunks_written\<close> are increased together; the number is how
  much both grow. \<open>buf\<close> is the caller's memory from the pointer on.
\<close>

definition process_write_stripe ::
    "network \<Rightarrow> nat \<Rightarrow> u32 \<Rightarrow> u32 \<Rightarrow> u32 \<Rightarrow> u32 \<Rightarrow> u32 \<Rightarrow> u32 \<Rightarrow> u8 list \<Rightarrow> int \<Rightarrow> nat \<Rightarrow> io_state \<Rightarrow>
     (u32 \<times> io_state) outcome" where
  "process_write_stripe net n rid rrid f s stripe_size cs buf offset count st =
     guard_assert (int count - offset \<le> sint stripe_size)
      (outcome_bind (get_first_chunk n cs offset) (\<lambda>(chunk_id, chunk_offset).
         write_stripe_loop net n rid rrid f s cs buf count chunk_id chunk_offset 0 0 st))"

section \<open>Files\<close>

definition get_all_chunks :: "io_state \<Rightarrow> u32 \<Rightarrow> file_chunk list" where
  "get_all_chunks st f = filter (\<lambda>c. fc_file_id c = f) (map fst (io_node st))"

definition set_node_id :: "u32 \<Rightarrow> u32 \<Rightarrow> u32 \<Rightarrow> u32 \<Rightarrow> io_state \<Rightarrow> int \<times> io_state" where
  "set_node_id f s c node_id st =
     (sint node_id, st\<lparr>io_node := node_update (mk_chunk f s c) (sint node_id) (io_node st)\<rparr>)"

definition get_node_id :: "io_state \<Rightarrow> u32 \<Rightarrow> u32 \<Rightarrow> u32 \<Rightarrow> int" where
  "get_node_id st f s c =
     (case node_find (mk_chunk f s c) (io_node st) of None \<Rightarrow> CHUNK_NOT_FOUND | Some n \<Rightarrow> n)"

definition set_replica_node_id :: "u32 \<Rightarrow> u32 \<Rightarrow> u32 \<Rightarrow> u32 \<Rightarrow> io_state \<Rightarrow> int \<times> io_state" where
  "set_replica_node_id f s c node_id st =
     (sint node_id, st\<lparr>io_replica := node_update (mk_chunk f s c) (sint node_id) (io_replica st)\<rparr>)"

definition get_replica_node_id :: "io_state \<Rightarrow> u32 \<Rightarrow> u32 \<Rightarrow> u32 \<Rightarrow> int" where
  "get_replica_node_id st f s c =
     (case node_find (mk_chunk f s c) (io_replica st) of None \<Rightarrow> REPLICA_CHUNK_NOT_FOUND | Some n \<Rightarrow> n)"

text \<open>One chunk of a delete, for the primary map and for the replica map.\<close>

definition delete_primary :: "network \<Rightarrow> u32 \<Rightarrow> u32 \<Rightarrow> file_chunk \<Rightarrow> u32 \<times> io_state \<Rightarrow> (u32 \<times> io_state) outcome" where
  "delete_primary net rid f c = (\<lambda>(num, st).
     if node_find c (io_node st) = None then Returned (num, st)
     else
       let n = get_node_id st f (fc_stripe_id c) (fc_chunk_num c) in
       if node_up st n then
         outcome_bind (send_request net (Delete_Chunk rid (mk_chunk f (fc_stripe_id c) (fc_chunk_num c)) n) st)
          (\<lambda>(_, st1). Returned (num + 1, st1\<lparr>io_node := om_erase file_chunk_less c (io_node st1)\<rparr>))
       else Returned (num, st))"

definition delete_replica :: "network \<Rightarrow> u32 \<Rightarrow> u32 \<Rightarrow> file_chunk \<Rightarrow> u32 \<times> io_state \<Rightarrow> (u32 \<times> io_state) outcome" where
  "delete_replica net rid f c = (\<lambda>(num, st).
     if node_find c (io_replica st) = None then Returned (num, st)
     else
       let n = get_replica_node_id st f (fc_stripe_id c) (fc_chunk_num c) in
       if node_up st n then
         outcome_bind (send_request net (Delete_Chunk rid (mk_chunk f (fc_stripe_id c) (fc_chunk_num c)) n) st)
          (\<lambda>(_, st1). Returned (num + 1, st1\<lparr>io_replica := om_erase file_chunk_less c (io_replica st1)\<rparr>))
       else Returned (num, st))"

fun delete_chunks :: "network \<Rightarrow> u32 \<Rightarrow> u32 \<Rightarrow> file_chunk list \<Rightarrow> u32 \<times> io_state \<Rightarrow> (u32 \<times> io_state) outcome" where
  "delete_chunks net rid f [] x = Returned x"
| "delete_chunks net rid f (c # cs) x =
     outcome_bind (delete_primary net rid f c x) (\<lambda>y.
     outcome_bind (delete_replica net rid f c y) (\<lambda>z. delete_chunks net rid f cs z))"

definition process_delete_file :: "network \<Rightarrow> u32 \<Rightarrow> u32 \<Rightarrow> io_state \<Rightarrow> (u32 \<times> io_state) outcome" where
  "process_delete_file net rid f st = delete_chunks net rid f (get_all_chunks st f) (0, st)"

section \<open>The requests of a stripe\<close>

text \<open>All chunks of the parts have a node and a replica node.\<close>

abbreviation placed :: "u32 \<Rightarrow> u32 \<Rightarrow> io_state \<Rightarrow> (int \<times> int \<times> int) list \<Rightarrow> bool" where
  "placed f s st segs \<equiv> (\<forall>(k, _) \<in> set segs. node_find (mk_chunk f s (word_of_int k)) (io_node st) \<noteq> None \<and>
     node_find (mk_chunk f s (word_of_int k)) (io_replica st) \<noteq> None)"

text \<open>
  The requests that write the parts \<open>segs\<close> of a stripe, when \<open>d\<close> bytes of the buffer have
  been written before: for each part one to the node of the chunk and one to its replica.
\<close>

fun write_batch ::
    "u32 \<Rightarrow> u32 \<Rightarrow> u32 \<Rightarrow> u32 \<Rightarrow> u8 list \<Rightarrow> (file_chunk \<Rightarrow> int option) \<Rightarrow> (file_chunk \<Rightarrow> int option) \<Rightarrow>
     int \<Rightarrow> (int \<times> int \<times> int) list \<Rightarrow> chunk_request list" where
  "write_batch rid rrid f s buf N M d [] = []"
| "write_batch rid rrid f s buf N M d ((k, off, len) # segs) =
     (let c = mk_chunk f s (word_of_int k); data = take (nat len) (drop (nat d) buf) in
      Write_Chunk rid c (the (N c)) off data # Write_Chunk rrid c (the (M c)) off data #
      write_batch rid rrid f s buf N M (d + len) segs)"

definition reachable_net :: "network \<Rightarrow> bool" where
  "reachable_net net \<longleftrightarrow> (\<forall>log r. \<exists>x. net log r = Returned x \<and> x \<noteq> NODE_FAILURE)"

lemma send_reachable:
  assumes "reachable_net net"
  obtains x where "send_request net r st = Returned (x, st\<lparr>io_sent := io_sent st @ [(r, x)]\<rparr>)" "x \<noteq> NODE_FAILURE"
proof -
  obtain x where "net (io_sent st) r = Returned x" "x \<noteq> NODE_FAILURE"
    using assms unfolding reachable_net_def by blast
  then show thesis by (intro that[of x]) (simp_all add: send_request_def)
qed

definition maps_ok :: "(u32 \<Rightarrow> u32) \<Rightarrow> (u32 \<Rightarrow> u32) \<Rightarrow> io_state \<Rightarrow> bool" where
  "maps_ok lo hi st \<longleftrightarrow> oc_sorted file_chunk_less (chunk_window lo hi) fst (io_node st) \<and>
     oc_sorted file_chunk_less (chunk_window lo hi) fst (io_replica st)"

definition keeps :: "(u32 \<Rightarrow> u32) \<Rightarrow> (u32 \<Rightarrow> u32) \<Rightarrow> io_state \<Rightarrow> io_state \<Rightarrow> bool" where
  "keeps lo hi st st' \<longleftrightarrow> (\<forall>c \<in> chunk_window lo hi. \<forall>n.
     (node_find c (io_node st) = Some n \<longrightarrow> node_find c (io_node st') = Some n) \<and>
     (node_find c (io_replica st) = Some n \<longrightarrow> node_find c (io_replica st') = Some n))"

lemma keeps_refl [simp]: "keeps lo hi st st"
  by (simp add: keeps_def)

lemma keeps_trans: "keeps lo hi s1 s2 \<Longrightarrow> keeps lo hi s2 s3 \<Longrightarrow> keeps lo hi s1 s3"
  by (simp add: keeps_def)

lemma keepsD:
  "keeps lo hi st st' \<Longrightarrow> c \<in> chunk_window lo hi \<Longrightarrow> node_find c (io_node st) = Some n \<Longrightarrow> node_find c (io_node st') = Some n"
  "keeps lo hi st st' \<Longrightarrow> c \<in> chunk_window lo hi \<Longrightarrow> node_find c (io_replica st) = Some n \<Longrightarrow> node_find c (io_replica st') = Some n"
  by (simp_all add: keeps_def)

lemma node_update_find:
  assumes "oc_sorted file_chunk_less (chunk_window lo hi) fst m" "c \<in> chunk_window lo hi" "d \<in> chunk_window lo hi"
  shows "node_find d (node_update c n m) = (if d = c then Some n else node_find d m)"
  using assms by (rule chunk_order.kv.find_upd)

lemma place_chunk_effect:
  assumes "maps_ok lo hi st" "c \<in> chunk_window lo hi"
  obtains n m where "maps_ok lo hi (place_chunk c st)" "keeps lo hi st (place_chunk c st)"
    "node_find c (io_node (place_chunk c st)) = Some n" "node_find c (io_replica (place_chunk c st)) = Some m"
    "io_vmeta (place_chunk c st) = io_vmeta st" "io_sent (place_chunk c st) = io_sent st"
proof -
  have s: "oc_sorted file_chunk_less (chunk_window lo hi) fst (io_node st)"
    "oc_sorted file_chunk_less (chunk_window lo hi) fst (io_replica st)" using assms(1) by (simp_all add: maps_ok_def)
  note so = chunk_order.kv.ok_upd[OF s(1) assms(2)] chunk_order.kv.ok_upd[OF s(2) assms(2)]
  note fi = node_update_find[OF s(1) assms(2)] node_update_find[OF s(2) assms(2)]
  have "maps_ok lo hi (place_chunk c st)"
    using s so by (simp add: maps_ok_def place_chunk_def Let_def)
  moreover have "keeps lo hi st (place_chunk c st)"
    using fi by (auto simp: keeps_def place_chunk_def Let_def)
  moreover have "node_find c (io_node (place_chunk c st)) \<noteq> None" "node_find c (io_replica (place_chunk c st)) \<noteq> None"
    using fi assms(2) by (auto simp: place_chunk_def Let_def)
  moreover have "io_vmeta (place_chunk c st) = io_vmeta st" "io_sent (place_chunk c st) = io_sent st"
    by (simp_all add: place_chunk_def Let_def)
  ultimately show thesis using that by blast
qed

lemma keeps_sent [simp]:
  "keeps lo hi st (st'\<lparr>io_sent := l\<rparr>) = keeps lo hi st st'"
  "keeps lo hi (st\<lparr>io_sent := l\<rparr>) st' = keeps lo hi st st'"
  "maps_ok lo hi (st\<lparr>io_sent := l\<rparr>) = maps_ok lo hi st"
  by (simp_all add: keeps_def maps_ok_def)

text \<open>What sending the parts \<open>segs\<close> of a stripe does, \<open>d\<close> bytes having been sent before.\<close>

definition stripe_written ::
    "(u32 \<Rightarrow> u32) \<Rightarrow> (u32 \<Rightarrow> u32) \<Rightarrow> u32 \<Rightarrow> u32 \<Rightarrow> u32 \<Rightarrow> u32 \<Rightarrow> u8 list \<Rightarrow> int \<Rightarrow> (int \<times> int \<times> int) list \<Rightarrow>
     io_state \<Rightarrow> io_state \<Rightarrow> bool" where
  "stripe_written lo hi rid rrid f s buf d segs st st' \<longleftrightarrow>
     maps_ok lo hi st' \<and> keeps lo hi st st' \<and> io_vmeta st' = io_vmeta st \<and> placed f s st' segs \<and>
     map fst (io_sent st') = map fst (io_sent st) @
       write_batch rid rrid f s buf (\<lambda>c. node_find c (io_node st')) (\<lambda>c. node_find c (io_replica st')) d segs"

lemma stripe_written_Nil: "maps_ok lo hi st \<Longrightarrow> stripe_written lo hi rid rrid f s buf d [] st st"
  by (simp add: stripe_written_def)

lemma stripe_written_Cons:
  assumes "stripe_written lo hi rid rrid f s buf d [(k, off, l)] st st1"
    and "stripe_written lo hi rid rrid f s buf d' segs st1 st'" "d' = d + l" "\<And>k. mk_chunk f s k \<in> chunk_window lo hi"
  shows "stripe_written lo hi rid rrid f s buf d ((k, off, l) # segs) st st'"
proof -
  let ?c = "mk_chunk f s (word_of_int k)"
  have k: "keeps lo hi st st'" and k1: "keeps lo hi st1 st'"
    using assms(1,2) by (auto simp: stripe_written_def intro: keeps_trans)
  obtain n m where "node_find ?c (io_node st1) = Some n" "node_find ?c (io_replica st1) = Some m"
    using assms(1) by (auto simp: stripe_written_def)
  moreover from this have "node_find ?c (io_node st') = Some n" "node_find ?c (io_replica st') = Some m"
    using keepsD[OF k1 assms(4), of "word_of_int k"] by blast+
  ultimately show ?thesis using assms(1-3) k by (simp add: stripe_written_def Let_def)
qed

text \<open>One iteration of the loop of \<open>process_write_stripe\<close>.\<close>

lemma write_stripe_part:
  assumes net: "reachable_net net" and ok: "maps_ok lo hi st" and win: "\<And>k. mk_chunk f s k \<in> chunk_window lo hi"
    and "unat don < count"
  obtains st' where "write_stripe_loop net (Suc n) rid rrid f s cs buf count (word_of_int k) off don chunks st =
      write_stripe_loop net n rid rrid f s cs buf count (word_of_int (k + 1)) 0 (don + part_size cs count off don) (chunks + 1) st'"
    "stripe_written lo hi rid rrid f s buf (uint don) [(k, off, uint (part_size cs count off don))] st st'"
proof -
  let ?c = "mk_chunk f s (word_of_int k)" and ?ws = "part_size cs count off don"
  let ?st1 = "place_chunk ?c st" and ?data = "slice buf don ?ws"
  obtain nd rp where p: "maps_ok lo hi ?st1" "keeps lo hi st ?st1"
    "node_find ?c (io_node ?st1) = Some nd" "node_find ?c (io_replica ?st1) = Some rp"
    "io_vmeta ?st1 = io_vmeta st" "io_sent ?st1 = io_sent st"
    using place_chunk_effect[OF ok win] .
  obtain x where x: "send_request net (Write_Chunk rid ?c nd off ?data) ?st1 =
      Returned (x, ?st1\<lparr>io_sent := io_sent ?st1 @ [(Write_Chunk rid ?c nd off ?data, x)]\<rparr>)" "x \<noteq> NODE_FAILURE"
    using send_reachable[OF net] .
  let ?st2 = "?st1\<lparr>io_sent := io_sent ?st1 @ [(Write_Chunk rid ?c nd off ?data, x)]\<rparr>"
  obtain y where y: "send_request net (Write_Chunk rrid ?c rp off ?data) ?st2 =
      Returned (y, ?st2\<lparr>io_sent := io_sent ?st2 @ [(Write_Chunk rrid ?c rp off ?data, y)]\<rparr>)" "y \<noteq> NODE_FAILURE"
    using send_reachable[OF net] .
  let ?st3 = "?st2\<lparr>io_sent := io_sent ?st2 @ [(Write_Chunk rrid ?c rp off ?data, y)]\<rparr>"
  have wr: "write_replica net rrid ?c rp off ?data ?st2 = Returned ?st3"
    using y by (simp add: write_replica_def)
  have data: "?data = take (nat (uint ?ws)) (drop (nat (uint don)) buf)" by (simp add: slice_def)
  show thesis
  proof (rule that)
    show "write_stripe_loop net (Suc n) rid rrid f s cs buf count (word_of_int k) off don chunks st =
        write_stripe_loop net n rid rrid f s cs buf count (word_of_int (k + 1)) 0 (don + ?ws) (chunks + 1) ?st3"
      using assms(4) p(3,4) x wr by (simp add: Let_def)
    show "stripe_written lo hi rid rrid f s buf (uint don) [(k, off, uint ?ws)] st ?st3"
      using p data by (simp add: stripe_written_def Let_def)
  qed
qed

lemma write_stripe_loop_correct:
  assumes net: "reachable_net net" and win: "\<And>k. mk_chunk f s k \<in> chunk_window lo hi"
    and sz: "0 < uint cs" "uint cs < 2 ^ 31" and cnt: "count < 2 ^ 31"
  shows "maps_ok lo hi st \<Longrightarrow> 0 \<le> off \<Longrightarrow> off \<le> uint cs \<Longrightarrow> unat don \<le> count \<Longrightarrow>
    length (segments (uint cs) k off (int count - uint don)) < n \<Longrightarrow>
    \<exists>st'. write_stripe_loop net n rid rrid f s cs buf count (word_of_int k) off don chunks st =
        Returned (chunks + of_nat (length (segments (uint cs) k off (int count - uint don))), st') \<and>
      stripe_written lo hi rid rrid f s buf (uint don) (segments (uint cs) k off (int count - uint don)) st st'"
proof (induction n arbitrary: k off don chunks st)
  case (Suc n)
  show ?case
  proof (cases "unat don < count")
    case False
    then have "int count \<le> uint don" by (simp add: unat_less_int)
    with False stripe_written_Nil[OF Suc.prems(1)] show ?thesis by simp
  next
    case True
    let ?ws = "part_size cs count off don"
    note part = part_step[OF sz Suc.prems(2,3) True cnt]
    obtain st1 where s: "write_stripe_loop net (Suc n) rid rrid f s cs buf count (word_of_int k) off don chunks st =
        write_stripe_loop net n rid rrid f s cs buf count (word_of_int (k + 1)) 0 (don + ?ws) (chunks + 1) st1"
      "stripe_written lo hi rid rrid f s buf (uint don) [(k, off, uint ?ws)] st st1"
      using write_stripe_part[OF net Suc.prems(1) win True] .
    have ok: "maps_ok lo hi st1" using s(2) by (simp add: stripe_written_def)
    let ?segs = "segments (uint cs) (k + 1) 0 (int count - uint (don + ?ws))"
    have sg: "segments (uint cs) k off (int count - uint don) = (k, off, uint ?ws) # ?segs"
      unfolding part(6) part(1) by (rule part(4))
    obtain st' where st': "write_stripe_loop net n rid rrid f s cs buf count (word_of_int (k + 1)) 0 (don + ?ws) (chunks + 1) st1 =
        Returned (chunks + 1 + of_nat (length ?segs), st')"
      "stripe_written lo hi rid rrid f s buf (uint (don + ?ws)) ?segs st1 st'"
      using Suc.IH[OF ok _ _ part(7), of 0 "k + 1" "chunks + 1"] Suc.prems(5) sz unfolding sg by auto
    have d: "uint (don + ?ws) = uint don + uint ?ws" unfolding part(1,5) ..
    show ?thesis
      using stripe_written_Cons[OF s(2) st'(2) d win] st'(1) unfolding sg s(1) by auto
  qed
qed simp

subsection \<open>Reading with one node that fails\<close>

fun request_node :: "chunk_request \<Rightarrow> int" where
  "request_node (Read_Chunk _ _ n _ _) = n"
| "request_node (Write_Chunk _ _ n _ _) = n"
| "request_node (Delete_Chunk _ _ n) = n"

definition only_fails :: "int \<Rightarrow> network \<Rightarrow> bool" where
  "only_fails a net \<longleftrightarrow> (\<forall>log r. \<exists>x. net log r = Returned x \<and> (x = NODE_FAILURE \<longleftrightarrow> request_node r = a))"

definition delivered :: "net_log \<Rightarrow> chunk_request list" where
  "delivered log = map fst (filter (\<lambda>(r, x). x \<noteq> NODE_FAILURE) log)"

lemma delivered_append [simp]:
  "delivered (l @ [(r, x)]) = delivered l @ (if x = NODE_FAILURE then [] else [r])"
  by (simp add: delivered_def)

lemma send_only_fails:
  assumes "only_fails a net"
  obtains x where "send_request net r st = Returned (x, st\<lparr>io_sent := io_sent st @ [(r, x)]\<rparr>)"
    "x = NODE_FAILURE \<longleftrightarrow> request_node r = a"
proof -
  obtain x where "net (io_sent st) r = Returned x" "x = NODE_FAILURE \<longleftrightarrow> request_node r = a"
    using assms unfolding only_fails_def by blast
  then show thesis by (intro that[of x]) (simp_all add: send_request_def)
qed

definition node_number :: "int \<Rightarrow> bool" where
  "node_number n \<longleftrightarrow> 0 \<le> n \<and> n < 2 ^ 31"

lemma node_number_inj: "node_number n \<Longrightarrow> node_number m \<Longrightarrow> (word_of_int n :: u32) = word_of_int m \<longleftrightarrow> n = m"
proof -
  assume "node_number n" "node_number m"
  then have "sint (word_of_int n :: u32) = n" "sint (word_of_int m :: u32) = m"
    by (auto simp: node_number_def intro!: u32_sint_of_int)
  then show ?thesis by metis
qed

lemma node_up_down:
  "node_number n \<Longrightarrow> node_number a \<Longrightarrow> node_up (node_down a st) n \<longleftrightarrow> node_up st n \<and> n \<noteq> a"
  by (auto simp: node_up_def node_down_def is_node_up_def set_node_down_def up_nodes_contains_def node_number_inj)

lemma node_down_simps [simp]:
  "io_node (node_down a st) = io_node st" "io_replica (node_down a st) = io_replica st"
  "io_sent (node_down a st) = io_sent st" "vm_cursors (io_vmeta (node_down a st)) = vm_cursors (io_vmeta st)"
  "vm_last_fd (io_vmeta (node_down a st)) = vm_last_fd (io_vmeta st)"
  by (simp_all add: node_down_def set_node_down_def)

lemma node_up_sent [simp]: "node_up (st\<lparr>io_sent := l\<rparr>) n = node_up st n"
  by (simp add: node_up_def)

text \<open>The node a chunk is read from while node \<open>a\<close> fails.\<close>

definition serving :: "int \<Rightarrow> io_state \<Rightarrow> file_chunk \<Rightarrow> int" where
  "serving a st c = (let p = the (node_find c (io_node st)) in
     if p \<noteq> a \<and> node_up st p then p else the (node_find c (io_replica st)))"

lemma serving_sent [simp]: "serving a (st\<lparr>io_sent := l\<rparr>) c = serving a st c"
  by (simp add: serving_def Let_def)

definition readable :: "int \<Rightarrow> io_state \<Rightarrow> file_chunk \<Rightarrow> bool" where
  "readable a st c \<longleftrightarrow> (\<exists>p r. node_find c (io_node st) = Some p \<and> node_find c (io_replica st) = Some r \<and>
     node_number p \<and> node_number r \<and> (p \<noteq> a \<and> node_up st p \<or> r \<noteq> a))"

definition same_nodes :: "int \<Rightarrow> io_state \<Rightarrow> io_state \<Rightarrow> bool" where
  "same_nodes a st st' \<longleftrightarrow> io_node st' = io_node st \<and> io_replica st' = io_replica st \<and>
     (\<forall>n. node_number n \<longrightarrow> n \<noteq> a \<longrightarrow> node_up st' n = node_up st n)"

definition same_but :: "int \<Rightarrow> io_state \<Rightarrow> io_state \<Rightarrow> bool" where
  "same_but a st st' \<longleftrightarrow> same_nodes a st st' \<and> vm_cursors (io_vmeta st') = vm_cursors (io_vmeta st) \<and>
     vm_last_fd (io_vmeta st') = vm_last_fd (io_vmeta st)"

lemma same_nodes_serving:
  "same_nodes a st st' \<Longrightarrow> readable a st c \<Longrightarrow> serving a st' c = serving a st c \<and> readable a st' c"
  by (auto simp: same_but_def same_nodes_def serving_def readable_def Let_def)

abbreviation read_request :: "u32 \<Rightarrow> u32 \<Rightarrow> u32 \<Rightarrow> int \<Rightarrow> io_state \<Rightarrow> int \<times> int \<times> int \<Rightarrow> chunk_request" where
  "read_request rid f s a st \<equiv> (\<lambda>(k, off, len).
     Read_Chunk rid (mk_chunk f s (word_of_int k)) (serving a st (mk_chunk f s (word_of_int k))) off (word_of_int len))"

text \<open>What reading the parts \<open>segs\<close> of a stripe does while node \<open>a\<close> fails.\<close>

definition stripe_read ::
    "int \<Rightarrow> u32 \<Rightarrow> u32 \<Rightarrow> u32 \<Rightarrow> (int \<times> int \<times> int) list \<Rightarrow> io_state \<Rightarrow> io_state \<Rightarrow> bool" where
  "stripe_read a rid f s segs st st' \<longleftrightarrow> same_but a st st' \<and>
     delivered (io_sent st') = delivered (io_sent st) @ map (read_request rid f s a st) segs"

abbreviation segs_readable :: "int \<Rightarrow> io_state \<Rightarrow> u32 \<Rightarrow> u32 \<Rightarrow> (int \<times> int \<times> int) list \<Rightarrow> bool" where
  "segs_readable a st f s segs \<equiv> (\<forall>(k, _) \<in> set segs. readable a st (mk_chunk f s (word_of_int k)))"

lemma stripe_read_Nil: "stripe_read a rid f s [] st st"
  by (simp add: stripe_read_def same_but_def same_nodes_def)

lemma stripe_read_nodes: "stripe_read a rid f s xs st st1 \<Longrightarrow> same_nodes a st st1"
  by (simp add: stripe_read_def same_but_def)

lemma stripe_read_append:
  assumes "stripe_read a rid f s xs st st1" "segs_readable a st f s ys" "stripe_read a rid f s ys st1 st'"
  shows "stripe_read a rid f s (xs @ ys) st st'"
proof -
  have "map (read_request rid f s a st1) ys = map (read_request rid f s a st) ys"
    using assms(2) same_nodes_serving[OF stripe_read_nodes[OF assms(1)]] by (intro map_cong refl) auto
  then show ?thesis using assms(1,3) by (simp add: stripe_read_def same_but_def same_nodes_def)
qed

text \<open>
  One iteration of the loop of \<open>process_read_stripe\<close>: either the request goes to a node that
  answers, or node \<open>a\<close> is found to be down and the part is tried again.
\<close>

lemma read_stripe_part:
  assumes net: "only_fails a net" and a: "node_number a" and rd: "readable a st (mk_chunk f s (word_of_int k))"
    and don: "unat don < count"
  obtains st' where "read_stripe_loop net (Suc n) rid f s cs count (word_of_int k) off don chunks st =
      read_stripe_loop net n rid f s cs count (word_of_int k) off don chunks st'"
    "stripe_read a rid f s [] st st'" "node_up st a" "\<not> node_up st' a"
  | st' where "read_stripe_loop net (Suc n) rid f s cs count (word_of_int k) off don chunks st =
      read_stripe_loop net n rid f s cs count (word_of_int (k + 1)) 0 (don + part_size cs count off don) (chunks + 1) st'"
    "stripe_read a rid f s [(k, off, uint (part_size cs count off don))] st st'" "node_up st' a = node_up st a"
proof -
  let ?c = "mk_chunk f s (word_of_int k)" and ?rs = "part_size cs count off don"
  obtain p r where pr: "node_find ?c (io_node st) = Some p" "node_find ?c (io_replica st) = Some r"
    "node_number p" "node_number r" "p \<noteq> a \<and> node_up st p \<or> r \<noteq> a" using rd by (auto simp: readable_def)
  let ?n = "if node_up st p then p else r" and ?req = "\<lambda>m. Read_Chunk rid ?c m off ?rs"
  obtain x where x: "send_request net (?req ?n) st = Returned (x, st\<lparr>io_sent := io_sent st @ [(?req ?n, x)]\<rparr>)"
    "x = NODE_FAILURE \<longleftrightarrow> ?n = a"
    using send_only_fails[OF net, of "?req ?n" st] by auto
  let ?st1 = "st\<lparr>io_sent := io_sent st @ [(?req ?n, x)]\<rparr>"
  have ga: "(if node_up st p then p else the (node_find ?c (io_replica st))) = ?n" using pr(2) by simp
  show thesis
  proof (cases "?n = a")
    case True
    then have pa: "p = a" "node_up st a" using pr(5) by (auto split: if_splits)
    have "read_stripe_loop net (Suc n) rid f s cs count (word_of_int k) off don chunks st =
        read_stripe_loop net n rid f s cs count (word_of_int k) off don chunks (node_down a ?st1)"
      using don pr True x pa by (simp add: Let_def ga split del: if_split)
    moreover have "stripe_read a rid f s [] st (node_down a ?st1)" "\<not> node_up (node_down a ?st1) a"
      using a x True by (simp_all add: stripe_read_def same_but_def same_nodes_def node_up_down)
    ultimately show thesis using pa(2) by (intro that(1))
  next
    case False
    have "read_stripe_loop net (Suc n) rid f s cs count (word_of_int k) off don chunks st =
        read_stripe_loop net n rid f s cs count (word_of_int (k + 1)) 0 (don + ?rs) (chunks + 1) ?st1"
      using don pr x False by (simp add: Let_def ga split del: if_split)
    moreover have "serving a st ?c = ?n" using pr False by (auto simp: serving_def Let_def)
    then have "stripe_read a rid f s [(k, off, uint ?rs)] st ?st1"
      using x False by (simp add: stripe_read_def same_but_def same_nodes_def)
    ultimately show thesis by (intro that(2)[of ?st1]) simp_all
  qed
qed

lemma read_stripe_loop_correct:
  assumes net: "only_fails a net" and a: "node_number a"
    and sz: "0 < uint cs" "uint cs < 2 ^ 31" and cnt: "count < 2 ^ 31"
  shows "0 \<le> off \<Longrightarrow> off \<le> uint cs \<Longrightarrow> unat don \<le> count \<Longrightarrow>
    segs_readable a st f s (segments (uint cs) k off (int count - uint don)) \<Longrightarrow>
    length (segments (uint cs) k off (int count - uint don)) + (if node_up st a then 1 else 0) < n \<Longrightarrow>
    \<exists>st'. read_stripe_loop net n rid f s cs count (word_of_int k) off don chunks st =
        Returned (chunks + of_nat (length (segments (uint cs) k off (int count - uint don))), st') \<and>
      stripe_read a rid f s (segments (uint cs) k off (int count - uint don)) st st'"
proof (induction n arbitrary: k off don chunks st)
  case (Suc n)
  have keep: "segs_readable a st' f s segs" if "stripe_read a rid f s xs st st'" "segs_readable a st f s segs" for st' xs segs
    using that(2) same_nodes_serving[OF stripe_read_nodes[OF that(1)]] by auto
  show ?case
  proof (cases "unat don < count")
    case False
    then have "int count \<le> uint don" by (simp add: unat_less_int)
    with False stripe_read_Nil show ?thesis by auto
  next
    case True
    let ?rs = "part_size cs count off don"
    let ?segs = "segments (uint cs) (k + 1) 0 (int count - uint (don + ?rs))"
    note part = part_step[OF sz Suc.prems(1,2) True cnt]
    have sg: "segments (uint cs) k off (int count - uint don) = (k, off, uint ?rs) # ?segs"
      unfolding part(6) part(1) by (rule part(4))
    have rd: "readable a st (mk_chunk f s (word_of_int k))" "segs_readable a st f s ?segs"
      using Suc.prems(4) unfolding sg by simp_all
    show ?thesis
    proof (rule read_stripe_part[OF net a rd(1) True, of n rid cs off chunks])
      fix st1 assume s: "read_stripe_loop net (Suc n) rid f s cs count (word_of_int k) off don chunks st =
          read_stripe_loop net n rid f s cs count (word_of_int k) off don chunks st1"
        "stripe_read a rid f s [] st st1" "node_up st a" "\<not> node_up st1 a"
      have "length (segments (uint cs) k off (int count - uint don)) + (if node_up st1 a then 1 else 0) < n"
        using Suc.prems(5) s(3,4) by simp
      from Suc.IH[OF Suc.prems(1-3) keep[OF s(2) Suc.prems(4)] this] stripe_read_append[OF s(2) Suc.prems(4)]
      show ?thesis unfolding s(1) by auto
    next
      fix st1 assume s: "read_stripe_loop net (Suc n) rid f s cs count (word_of_int k) off don chunks st =
          read_stripe_loop net n rid f s cs count (word_of_int (k + 1)) 0 (don + ?rs) (chunks + 1) st1"
        "stripe_read a rid f s [(k, off, uint ?rs)] st st1" "node_up st1 a = node_up st a"
      have "length ?segs + (if node_up st1 a then 1 else 0) < n" using Suc.prems(5) s(3) unfolding sg by simp
      with sz Suc.IH[OF _ _ part(7) keep[OF s(2) rd(2)], of "chunks + 1"] stripe_read_append[OF s(2) rd(2)]
      show ?thesis unfolding s(1) sg by fastforce
    qed
  qed
qed simp

subsection \<open>Instances\<close>

definition good_net :: network where
  "good_net log r = Returned 0"

definition failing_net :: "int \<Rightarrow> network" where
  "failing_net a log r = Returned (if request_node r = a then NODE_FAILURE else 0)"

lemma good_net_reachable: "reachable_net good_net"
  by (simp add: reachable_net_def good_net_def NODE_FAILURE_def)

lemma failing_net_only: "only_fails a (failing_net a)"
  by (simp add: only_fails_def failing_net_def NODE_FAILURE_def)

definition empty_io :: io_state where
  "empty_io = \<lparr>io_node = [], io_replica = [], io_vmeta = new_vmeta, io_sent = []\<rparr>"

text \<open>One chunk, on node 1 with its replica on node 3, both up.\<close>

definition one_chunk_io :: io_state where
  "one_chunk_io = \<lparr>io_node = [(mk_chunk 1 1 1, 1)], io_replica = [(mk_chunk 1 1 1, 3)],
     io_vmeta = new_vmeta\<lparr>vm_up_nodes := [1, 3]\<rparr>, io_sent = []\<rparr>"

lemma empty_io_ok: "maps_ok lo hi empty_io"
  by (simp add: maps_ok_def empty_io_def oc_sorted_def)

lemma window_one: "mk_chunk 1 1 k \<in> chunk_window (\<lambda>_. 1) (\<lambda>_. 2)"
  by (simp add: chunk_window_def)

lemma one_chunk_ok: "maps_ok (\<lambda>_. 1) (\<lambda>_. 2) one_chunk_io"
  by (simp add: maps_ok_def one_chunk_io_def oc_sorted_def window_one)

lemma one_chunk_find:
  "node_find (mk_chunk 1 1 1) (io_node one_chunk_io) = Some 1"
  "node_find (mk_chunk 1 1 1) (io_replica one_chunk_io) = Some 3"
  by (simp_all add: one_chunk_io_def om_find_def oc_find_def oc_lower_bound_def file_chunk_less_def)

lemma one_chunk_up: "node_up one_chunk_io 1" "node_up one_chunk_io 3"
  by (simp_all add: node_up_def one_chunk_io_def is_node_up_def up_nodes_contains_def)

lemma one_segment: "segments 256 (1 + unit_index 256 0) (0 - unit_index 256 0 * 256) 10 = [(1, 0, 10)]"
  by (simp add: unit_index_small segments_Cons)

section \<open>Properties\<close>

abbreviation stripe_segments :: "u32 \<Rightarrow> int \<Rightarrow> nat \<Rightarrow> (int \<times> int \<times> int) list" where
  "stripe_segments cs offset count \<equiv>
     segments (uint cs) (1 + unit_index (uint cs) offset) (offset - unit_index (uint cs) offset * uint cs) (int count)"

lemma get_first_chunk_correct:
  assumes "0 < uint cs" "uint cs < 2 ^ 31" "0 \<le> offset" "offset < 2 ^ 31" "offset \<le> int n * uint cs" "0 < n"
  shows "get_first_chunk n cs offset =
    Returned (word_of_int (1 + unit_index (uint cs) offset), offset - unit_index (uint cs) offset * uint cs)"
proof (cases n)
  case (Suc m)
  then show ?thesis using first_loop_correct[OF assms(1-4), of m "CHUNK_ID_INIT"] assms(5)
    by (simp add: get_first_chunk_def CHUNK_ID_INIT_def)
qed (use assms(6) in simp)

lemma stripe_segments_length:
  assumes "0 < uint cs" "0 \<le> offset"
  shows "length (stripe_segments cs offset count) \<le> count + 1"
  using segments_length[of "int count" "uint cs" "1 + unit_index (uint cs) offset"
      "offset - unit_index (uint cs) offset * uint cs"] by simp

lemma process_write_effect:
  assumes "reachable_net net" "maps_ok lo hi st" "\<And>k. mk_chunk f s k \<in> chunk_window lo hi"
    and "0 < uint cs" "uint cs < 2 ^ 31" "0 \<le> offset" "offset < 2 ^ 31" "count < 2 ^ 31"
    and "int count - offset \<le> sint stripe_size"
    and "count + 1 < n" "offset \<le> int n * uint cs"
  shows "\<exists>st'. process_write_stripe net n rid rrid f s stripe_size cs buf offset count st =
      Returned (of_nat (length (stripe_segments cs offset count)), st') \<and>
    map fst (io_sent st') = map fst (io_sent st) @
      write_batch rid rrid f s buf (\<lambda>c. node_find c (io_node st')) (\<lambda>c. node_find c (io_replica st'))
        0 (stripe_segments cs offset count) \<and>
    concat (map (seg_bytes (uint cs)) (stripe_segments cs offset count)) = [offset .. offset + int count - 1] \<and>
    maps_ok lo hi st' \<and> keeps lo hi st st' \<and> io_vmeta st' = io_vmeta st \<and>
    placed f s st' (stripe_segments cs offset count)"
proof -
  let ?u = "unit_index (uint cs) offset" and ?o = "offset - unit_index (uint cs) offset * uint cs"
  note b = unit_index_bounds[OF assms(4,6)]
  have g: "get_first_chunk n cs offset = Returned (word_of_int (1 + ?u), ?o)"
    using assms(10) by (intro get_first_chunk_correct assms) simp
  have len: "length (segments (uint cs) (1 + ?u) ?o (int count - uint (0 :: u32))) < n"
    using stripe_segments_length[OF assms(4,6), of count] assms(10) by simp
  obtain st' where "write_stripe_loop net n rid rrid f s cs buf count (word_of_int (1 + ?u)) ?o 0 0 st =
      Returned (of_nat (length (stripe_segments cs offset count)), st')"
    "maps_ok lo hi st'" "keeps lo hi st st'" "io_vmeta st' = io_vmeta st"
    "placed f s st' (stripe_segments cs offset count)"
    "map fst (io_sent st') = map fst (io_sent st) @
      write_batch rid rrid f s buf (\<lambda>c. node_find c (io_node st')) (\<lambda>c. node_find c (io_replica st'))
        0 (stripe_segments cs offset count)"
    using write_stripe_loop_correct[OF assms(1,3,4,5,8,2) b(2,3) _ len, of rid rrid buf 0] by (auto simp: stripe_written_def)
  moreover have "concat (map (seg_bytes (uint cs)) (stripe_segments cs offset count)) =
      [offset .. offset + int count - 1]"
    using segments_tile[OF assms(4) b(2,3), of "int count" "1 + ?u"] by (simp add: algebra_simps)
  ultimately show ?thesis using g assms(9) by (simp add: process_write_stripe_def)
qed

text \<open>
  With a reachable network a write of a stripe ends and sends, for each chunk the range
  touches, the bytes of that chunk once to the node recorded for it and once to its replica
  node; the chunk ranges, laid out by chunk number, are the bytes of the range, each once and
  in order; chunks that had a node keep it.
\<close>

theorem write_stripe_covers:
  assumes "reachable_net net" "maps_ok lo hi st" "\<And>k. mk_chunk f s k \<in> chunk_window lo hi"
    and "0 < uint cs" "uint cs < 2 ^ 31" "0 \<le> offset" "offset < 2 ^ 31" "count < 2 ^ 31"
    and "int count - offset \<le> sint stripe_size"
    and "count + 1 < n" "offset \<le> int n * uint cs"
  shows "\<exists>st'. process_write_stripe net n rid rrid f s stripe_size cs buf offset count st =
      Returned (of_nat (length (stripe_segments cs offset count)), st') \<and>
    map fst (io_sent st') = map fst (io_sent st) @
      write_batch rid rrid f s buf (\<lambda>c. node_find c (io_node st')) (\<lambda>c. node_find c (io_replica st'))
        0 (stripe_segments cs offset count) \<and>
    concat (map (seg_bytes (uint cs)) (stripe_segments cs offset count)) = [offset .. offset + int count - 1] \<and>
    maps_ok lo hi st' \<and> keeps lo hi st st'"
  using process_write_effect[OF assms, of rid rrid buf] by blast

lemma write_stripe_covers_witness:
  "\<exists>st'. process_write_stripe good_net 20 5 6 1 1 512 256 (replicate 10 7) 0 10 empty_io = Returned (1, st') \<and>
     concat (map (seg_bytes 256) [(1, 0, 10)]) = [0..9]"
  using write_stripe_covers[OF good_net_reachable empty_io_ok window_one, of 256 0 10 512 20 5 6 "replicate 10 7"]
  by (simp add: one_segment[simplified]) blast

lemma process_read_effect:
  assumes "only_fails a net" "node_number a"
    and "0 < uint cs" "uint cs < 2 ^ 31" "0 \<le> offset" "offset < 2 ^ 31" "count < 2 ^ 31"
    and "int count - offset \<le> sint stripe_size" "count + 2 < n" "offset \<le> int n * uint cs"
    and "\<forall>(k, _) \<in> set (stripe_segments cs offset count). readable a st (mk_chunk f s (word_of_int k))"
  shows "\<exists>st'. process_read_stripe net n rid f s stripe_size cs offset count st =
      Returned (of_nat (length (stripe_segments cs offset count)), st') \<and>
    same_but a st st' \<and>
    delivered (io_sent st') = delivered (io_sent st) @
      map (read_request rid f s a st) (stripe_segments cs offset count) \<and>
    concat (map (seg_bytes (uint cs)) (stripe_segments cs offset count)) = [offset .. offset + int count - 1]"
proof -
  let ?u = "unit_index (uint cs) offset" and ?o = "offset - unit_index (uint cs) offset * uint cs"
  note b = unit_index_bounds[OF assms(3,5)]
  have g: "get_first_chunk n cs offset = Returned (word_of_int (1 + ?u), ?o)"
    using assms(9) by (intro get_first_chunk_correct assms) simp
  have rd: "\<forall>(k, _) \<in> set (segments (uint cs) (1 + ?u) ?o (int count - uint (0 :: u32))).
      readable a st (mk_chunk f s (word_of_int k))" using assms(11) by simp
  have len: "length (segments (uint cs) (1 + ?u) ?o (int count - uint (0 :: u32))) + (if node_up st a then 1 else 0) < n"
    using stripe_segments_length[OF assms(3,5), of count] assms(9) by auto
  obtain st' where "read_stripe_loop net n rid f s cs count (word_of_int (1 + ?u)) ?o 0 0 st =
      Returned (of_nat (length (stripe_segments cs offset count)), st')"
    "same_but a st st'" "delivered (io_sent st') = delivered (io_sent st) @
      map (read_request rid f s a st) (stripe_segments cs offset count)"
    using read_stripe_loop_correct[OF assms(1-4,7) b(2,3) _ rd len, of rid 0] by (auto simp: stripe_read_def)
  moreover have "concat (map (seg_bytes (uint cs)) (stripe_segments cs offset count)) =
      [offset .. offset + int count - 1]"
    using segments_tile[OF assms(3) b(2,3), of "int count" "1 + ?u"] by (simp add: algebra_simps)
  ultimately show ?thesis using g assms(8) by (simp add: process_read_stripe_def)
qed

text \<open>
  C22: reading a stripe survives the failure of one node: when every chunk of the range has a
  working copy, the read ends, every chunk of the range is asked for exactly once from a node
  that answers, the primary while it works and the replica otherwise, and the number of
  requests to wait for is returned. Only the failing node's state changes.
\<close>

theorem read_stripe_survives_node_failure:
  assumes "only_fails a net" "node_number a"
    and "0 < uint cs" "uint cs < 2 ^ 31" "0 \<le> offset" "offset < 2 ^ 31" "count < 2 ^ 31"
    and "int count - offset \<le> sint stripe_size" "count + 2 < n" "offset \<le> int n * uint cs"
    and "\<forall>(k, _) \<in> set (stripe_segments cs offset count). readable a st (mk_chunk f s (word_of_int k))"
  shows "\<exists>st'. process_read_stripe net n rid f s stripe_size cs offset count st =
      Returned (of_nat (length (stripe_segments cs offset count)), st') \<and>
    same_but a st st' \<and>
    delivered (io_sent st') = delivered (io_sent st) @
      map (read_request rid f s a st) (stripe_segments cs offset count) \<and>
    concat (map (seg_bytes (uint cs)) (stripe_segments cs offset count)) = [offset .. offset + int count - 1]"
  using process_read_effect[OF assms, of rid] by blast

lemma read_stripe_survives_node_failure_witness:
  "\<exists>st'. process_read_stripe (failing_net 1) 20 5 1 1 512 256 0 10 one_chunk_io = Returned (1, st') \<and>
     delivered (io_sent st') = [Read_Chunk 5 (mk_chunk 1 1 1) 3 0 10]"
proof -
  have "node_number 1" "node_number 3" by (simp_all add: node_number_def)
  moreover from this have "readable 1 one_chunk_io (mk_chunk 1 1 1)"
    using one_chunk_find by (simp add: readable_def)
  moreover have "serving 1 one_chunk_io (mk_chunk 1 1 1) = 3"
    using one_chunk_find by (simp add: serving_def)
  moreover have "delivered (io_sent one_chunk_io) = []" by (simp add: one_chunk_io_def delivered_def)
  ultimately show ?thesis
    using read_stripe_survives_node_failure[OF failing_net_only, of 1 256 0 10 512 20 one_chunk_io 1 1 5]
    by (simp add: one_segment[simplified]) blast
qed

subsection \<open>Loops that never end\<close>

text \<open>
  C37: when the node recorded for a chunk stops answering, a write to that chunk never ends,
  though every other node works: the code marks the node as down and tries the same node again.
\<close>

theorem write_retries_forever:
  assumes "only_fails a net" "node_find (mk_chunk f s k) (io_node st) = Some a" "unat don < count"
  shows "write_stripe_loop net n rid rrid f s cs buf count k off don chunks st = Running"
  using assms(2)
proof (induction n arbitrary: st)
  case (Suc n)
  let ?c = "mk_chunk f s k"
  let ?st1 = "place_chunk ?c st" and ?data = "slice buf don (part_size cs count off don)"
  have p: "node_find ?c (io_node ?st1) = Some a"
    using Suc.prems by (simp add: place_chunk_def Let_def)
  obtain x where x: "send_request net (Write_Chunk rid ?c a off ?data) ?st1 =
      Returned (x, ?st1\<lparr>io_sent := io_sent ?st1 @ [(Write_Chunk rid ?c a off ?data, x)]\<rparr>)" "x = NODE_FAILURE"
    using send_only_fails[OF assms(1), of "Write_Chunk rid ?c a off ?data" ?st1] by auto
  show ?case using assms(3) p x Suc.IH by (simp add: Let_def)
qed simp

lemma write_retries_forever_witness:
  "\<forall>n. write_stripe_loop (failing_net 1) n 5 6 1 1 256 (replicate 10 7) 10 1 0 0 0 one_chunk_io = Running"
  using write_retries_forever[OF failing_net_only one_chunk_find(1), of 0 10] by simp

text \<open>
  A read of a chunk whose node and replica node both do not answer never ends.
\<close>

theorem read_retries_forever:
  assumes "\<And>log r. request_node r \<in> {a, b} \<Longrightarrow> net log r = Returned NODE_FAILURE"
    and "node_find (mk_chunk f s k) (io_node st) = Some a"
    and "node_find (mk_chunk f s k) (io_replica st) = Some b" "unat don < count"
  shows "read_stripe_loop net n rid f s cs count k off don chunks st = Running"
  using assms(2,3)
proof (induction n arbitrary: st)
  case (Suc n)
  have "send_request net (Read_Chunk rid c m off sz) st =
      Returned (NODE_FAILURE, st\<lparr>io_sent := io_sent st @ [(Read_Chunk rid c m off sz, NODE_FAILURE)]\<rparr>)"
    if "m \<in> {a, b}" for c m off sz
    using assms(1)[of "Read_Chunk rid c m off sz"] that by (auto simp: send_request_def)
  then show ?case using Suc assms(4) by (simp add: Let_def)
qed simp

lemma read_retries_forever_witness:
  "\<forall>n. read_stripe_loop (\<lambda>_ _. Returned NODE_FAILURE) n 5 1 1 256 10 1 0 0 0 one_chunk_io = Running"
  using read_retries_forever[OF _ one_chunk_find, of "\<lambda>_ _. Returned NODE_FAILURE" 0 10] by simp

section \<open>Deleting\<close>

lemma delete_primary_effect:
  assumes "reachable_net net" "node_find c (io_node st) = Some n" "fc_file_id c = f" "node_up st n"
  obtains x where "delete_primary net rid f c (num, st) = Returned (num + 1,
    st\<lparr>io_sent := io_sent st @ [(Delete_Chunk rid c n, x)], io_node := om_erase file_chunk_less c (io_node st)\<rparr>)"
proof -
  have c: "mk_chunk f (fc_stripe_id c) (fc_chunk_num c) = c" using assms(3) by (cases c) simp
  obtain x where "send_request net (Delete_Chunk rid c n) st = Returned (x, st\<lparr>io_sent := io_sent st @ [(Delete_Chunk rid c n, x)]\<rparr>)"
    using send_reachable[OF assms(1)] by blast
  moreover have "get_node_id st f (fc_stripe_id c) (fc_chunk_num c) = n"
    unfolding get_node_id_def c using assms(2) by simp
  ultimately have "delete_primary net rid f c (num, st) = Returned (num + 1,
      st\<lparr>io_sent := io_sent st @ [(Delete_Chunk rid c n, x)], io_node := om_erase file_chunk_less c (io_node st)\<rparr>)"
    using assms(2,4) unfolding delete_primary_def c by simp
  then show thesis by (rule that)
qed

lemma delete_replica_effect:
  assumes "reachable_net net" "node_find c (io_replica st) = Some n" "fc_file_id c = f" "node_up st n"
  obtains x where "delete_replica net rid f c (num, st) = Returned (num + 1,
    st\<lparr>io_sent := io_sent st @ [(Delete_Chunk rid c n, x)], io_replica := om_erase file_chunk_less c (io_replica st)\<rparr>)"
proof -
  have c: "mk_chunk f (fc_stripe_id c) (fc_chunk_num c) = c" using assms(3) by (cases c) simp
  obtain x where "send_request net (Delete_Chunk rid c n) st = Returned (x, st\<lparr>io_sent := io_sent st @ [(Delete_Chunk rid c n, x)]\<rparr>)"
    using send_reachable[OF assms(1)] by blast
  moreover have "get_replica_node_id st f (fc_stripe_id c) (fc_chunk_num c) = n"
    unfolding get_replica_node_id_def c using assms(2) by simp
  ultimately have "delete_replica net rid f c (num, st) = Returned (num + 1,
      st\<lparr>io_sent := io_sent st @ [(Delete_Chunk rid c n, x)], io_replica := om_erase file_chunk_less c (io_replica st)\<rparr>)"
    using assms(2,4) unfolding delete_replica_def c by simp
  then show thesis by (rule that)
qed

lemma node_erase_find:
  assumes "oc_sorted file_chunk_less (chunk_window lo hi) fst m" "c \<in> chunk_window lo hi" "d \<in> chunk_window lo hi"
  shows "node_find d (om_erase file_chunk_less c m) = (if d = c then None else node_find d m)"
  using assms by (rule chunk_order.kv.find_era)

definition deletable :: "io_state \<Rightarrow> file_chunk \<Rightarrow> bool" where
  "deletable st c \<longleftrightarrow> (\<exists>p r. node_find c (io_node st) = Some p \<and> node_find c (io_replica st) = Some r \<and>
     node_up st p \<and> node_up st r)"

abbreviation delete_requests :: "u32 \<Rightarrow> io_state \<Rightarrow> file_chunk \<Rightarrow> chunk_request list" where
  "delete_requests rid st c \<equiv> [Delete_Chunk rid c (the (node_find c (io_node st))),
     Delete_Chunk rid c (the (node_find c (io_replica st)))]"

lemma delete_chunks_effect:
  assumes net: "reachable_net net"
  shows "maps_ok lo hi st \<Longrightarrow> distinct cs \<Longrightarrow>
    \<forall>c \<in> set cs. c \<in> chunk_window lo hi \<and> fc_file_id c = f \<and> deletable st c \<Longrightarrow>
    \<exists>st'. delete_chunks net rid f cs (num, st) = Returned (num + of_nat (2 * length cs), st') \<and>
      maps_ok lo hi st' \<and> io_vmeta st' = io_vmeta st \<and>
      (\<forall>d \<in> chunk_window lo hi.
         node_find d (io_node st') = (if d \<in> set cs then None else node_find d (io_node st)) \<and>
         node_find d (io_replica st') = (if d \<in> set cs then None else node_find d (io_replica st))) \<and>
      map fst (io_sent st') = map fst (io_sent st) @ concat (map (delete_requests rid st) cs)"
proof (induction cs arbitrary: num st)
  case (Cons c cs)
  have c: "c \<in> chunk_window lo hi" "fc_file_id c = f" using Cons.prems(3) by auto
  obtain p r where pr: "node_find c (io_node st) = Some p" "node_find c (io_replica st) = Some r"
    "node_up st p" "node_up st r" using Cons.prems(3) by (auto simp: deletable_def)
  obtain x where x: "delete_primary net rid f c (num, st) = Returned (num + 1,
      st\<lparr>io_sent := io_sent st @ [(Delete_Chunk rid c p, x)], io_node := om_erase file_chunk_less c (io_node st)\<rparr>)"
    using delete_primary_effect[OF net pr(1) c(2) pr(3)] .
  let ?s1 = "st\<lparr>io_sent := io_sent st @ [(Delete_Chunk rid c p, x)], io_node := om_erase file_chunk_less c (io_node st)\<rparr>"
  have r1: "node_find c (io_replica ?s1) = Some r" "node_up ?s1 r" using pr by (simp_all add: node_up_def)
  obtain y where y: "delete_replica net rid f c (num + 1, ?s1) = Returned (num + 1 + 1,
      ?s1\<lparr>io_sent := io_sent ?s1 @ [(Delete_Chunk rid c r, y)], io_replica := om_erase file_chunk_less c (io_replica ?s1)\<rparr>)"
    using delete_replica_effect[OF net r1(1) c(2) r1(2)] .
  let ?s2 = "?s1\<lparr>io_sent := io_sent ?s1 @ [(Delete_Chunk rid c r, y)], io_replica := om_erase file_chunk_less c (io_replica ?s1)\<rparr>"
  have so: "oc_sorted file_chunk_less (chunk_window lo hi) fst (io_node st)"
    "oc_sorted file_chunk_less (chunk_window lo hi) fst (io_replica st)" using Cons.prems(1) by (simp_all add: maps_ok_def)
  have ok2: "maps_ok lo hi ?s2"
    using chunk_order.kv.ok_era[OF so(1) c(1)] chunk_order.kv.ok_era[OF so(2) c(1)] by (simp add: maps_ok_def)
  have find2: "node_find d (io_node ?s2) = (if d = c then None else node_find d (io_node st))"
    "node_find d (io_replica ?s2) = (if d = c then None else node_find d (io_replica st))" if "d \<in> chunk_window lo hi" for d
    using node_erase_find[OF so(1) c(1) that] node_erase_find[OF so(2) c(1) that] by simp_all
  have nc: "d \<noteq> c" if "d \<in> set cs" for d using that Cons.prems(2) by auto
  have del2: "\<forall>d \<in> set cs. d \<in> chunk_window lo hi \<and> fc_file_id d = f \<and> deletable ?s2 d"
    using Cons.prems(3) find2 nc by (auto simp: deletable_def node_up_def)
  obtain st' where st': "delete_chunks net rid f cs (num + 1 + 1, ?s2) = Returned (num + 1 + 1 + of_nat (2 * length cs), st')"
    "maps_ok lo hi st'" "io_vmeta st' = io_vmeta ?s2"
    "\<forall>d \<in> chunk_window lo hi.
       node_find d (io_node st') = (if d \<in> set cs then None else node_find d (io_node ?s2)) \<and>
       node_find d (io_replica st') = (if d \<in> set cs then None else node_find d (io_replica ?s2))"
    "map fst (io_sent st') = map fst (io_sent ?s2) @ concat (map (delete_requests rid ?s2) cs)"
    using Cons.IH[OF ok2 _ del2, of "num + 1 + 1"] Cons.prems(2) by auto
  have e: "map (delete_requests rid ?s2) cs = map (delete_requests rid st) cs"
    using find2 nc Cons.prems(3) by (intro map_cong refl) auto
  have "map fst (io_sent st') = map fst (io_sent st) @ concat (map (delete_requests rid st) (c # cs))"
    using st'(5) pr unfolding e by simp
  moreover have "delete_chunks net rid f (c # cs) (num, st) = Returned (num + of_nat (2 * length (c # cs)), st')"
    using x y st'(1) by (simp add: algebra_simps)
  ultimately show ?case using st'(2-4) find2 by auto
qed simp

lemma get_all_chunks_facts:
  assumes "maps_ok lo hi st"
  shows "distinct (get_all_chunks st f)"
    and "c \<in> set (get_all_chunks st f) \<longleftrightarrow>
      c \<in> chunk_window lo hi \<and> fc_file_id c = f \<and> node_find c (io_node st) \<noteq> None"
proof -
  have so: "oc_sorted file_chunk_less (chunk_window lo hi) fst (io_node st)" using assms by (simp add: maps_ok_def)
  show "distinct (get_all_chunks st f)"
    using chunk_order.sorted_distinct_keys[OF so] by (simp add: get_all_chunks_def)
  have win: "d \<in> chunk_window lo hi" if "d \<in> fst ` set (io_node st)" for d
    using so that by (auto simp: oc_sorted_def)
  have "c \<in> fst ` set (io_node st) \<longleftrightarrow> node_find c (io_node st) \<noteq> None" if "c \<in> chunk_window lo hi"
    using chunk_order.om_find_map_of[OF so that] by (simp add: map_of_eq_None_iff)
  then show "c \<in> set (get_all_chunks st f) \<longleftrightarrow>
      c \<in> chunk_window lo hi \<and> fc_file_id c = f \<and> node_find c (io_node st) \<noteq> None"
    using win by (auto simp: get_all_chunks_def)
qed

lemma process_delete_effect:
  assumes "reachable_net net" "maps_ok lo hi st" "\<forall>c \<in> set (get_all_chunks st f). deletable st c"
  shows "\<exists>st'. process_delete_file net rid f st =
      Returned (of_nat (2 * length (get_all_chunks st f)), st') \<and>
    map fst (io_sent st') = map fst (io_sent st) @ concat (map (delete_requests rid st) (get_all_chunks st f)) \<and>
    get_all_chunks st' f = [] \<and> io_vmeta st' = io_vmeta st \<and> maps_ok lo hi st' \<and>
    (\<forall>c \<in> chunk_window lo hi. fc_file_id c \<noteq> f \<longrightarrow>
       node_find c (io_node st') = node_find c (io_node st) \<and> node_find c (io_replica st') = node_find c (io_replica st))"
proof -
  note g = get_all_chunks_facts(1)[OF assms(2), of f] get_all_chunks_facts(2)[OF assms(2), of _ f]
  have "\<forall>c \<in> set (get_all_chunks st f). c \<in> chunk_window lo hi \<and> fc_file_id c = f \<and> deletable st c"
    using g(2) assms(3) by blast
  from delete_chunks_effect[OF assms(1,2) g(1) this, of rid 0]
  obtain st' where st': "process_delete_file net rid f st = Returned (of_nat (2 * length (get_all_chunks st f)), st')"
    "maps_ok lo hi st'" "io_vmeta st' = io_vmeta st"
    "\<forall>d \<in> chunk_window lo hi.
       node_find d (io_node st') = (if d \<in> set (get_all_chunks st f) then None else node_find d (io_node st)) \<and>
       node_find d (io_replica st') = (if d \<in> set (get_all_chunks st f) then None else node_find d (io_replica st))"
    "map fst (io_sent st') = map fst (io_sent st) @ concat (map (delete_requests rid st) (get_all_chunks st f))"
    by (auto simp: process_delete_file_def)
  have "c \<notin> set (get_all_chunks st' f)" for c
    using get_all_chunks_facts(2)[OF st'(2)] st'(4) g(2) by auto
  then have "get_all_chunks st' f = []" by (cases "get_all_chunks st' f") auto
  with st' g(2) show ?thesis by auto
qed

text \<open>
  With every node that holds a piece of the file up and reachable, deleting a file asks
  each of those nodes once for each of its pieces, returns how many requests that are, forgets
  exactly the chunks of that file and keeps those of all others.
\<close>

theorem delete_file_removes_chunks:
  assumes "reachable_net net" "maps_ok lo hi st" "\<forall>c \<in> set (get_all_chunks st f). deletable st c"
  shows "\<exists>st'. process_delete_file net rid f st =
      Returned (of_nat (2 * length (get_all_chunks st f)), st') \<and>
    map fst (io_sent st') = map fst (io_sent st) @ concat (map (delete_requests rid st) (get_all_chunks st f)) \<and>
    get_all_chunks st' f = [] \<and> maps_ok lo hi st' \<and>
    (\<forall>c \<in> chunk_window lo hi. fc_file_id c \<noteq> f \<longrightarrow>
       node_find c (io_node st') = node_find c (io_node st) \<and> node_find c (io_replica st') = node_find c (io_replica st))"
  using process_delete_effect[OF assms, of rid] by blast

lemma delete_file_removes_chunks_witness:
  "\<exists>st'. process_delete_file good_net 5 1 one_chunk_io = Returned (2, st') \<and>
     map fst (io_sent st') = [Delete_Chunk 5 (mk_chunk 1 1 1) 1, Delete_Chunk 5 (mk_chunk 1 1 1) 3] \<and>
     get_all_chunks st' 1 = []"
proof -
  have a: "get_all_chunks one_chunk_io 1 = [mk_chunk 1 1 1]" "io_sent one_chunk_io = []"
    by (simp_all add: get_all_chunks_def one_chunk_io_def)
  have "deletable one_chunk_io (mk_chunk 1 1 1)" using one_chunk_find one_chunk_up by (simp add: deletable_def)
  then show ?thesis
    using delete_file_removes_chunks[OF good_net_reachable one_chunk_ok, of 1 5] a one_chunk_find by auto
qed

subsection \<open>Stripes that share a key\<close>

lemma low_less: "x \<in> low_stripes k \<Longrightarrow> y \<in> low_stripes k \<Longrightarrow> file_chunk_less x y \<longleftrightarrow> fc_file_id x < fc_file_id y"
  by (auto simp: file_chunk_less_def low_stripes_def)

lemma low_find_eq:
  assumes "c \<in> low_stripes k" "d \<in> low_stripes k" "fc_file_id c = fc_file_id d"
  shows "fst ` set m \<subseteq> low_stripes k \<Longrightarrow> node_find c m = node_find d m"
proof (induction m)
  case (Cons e m)
  then have "file_chunk_less (fst e) c = file_chunk_less (fst e) d" "file_chunk_less c (fst e) = file_chunk_less d (fst e)"
    using low_less assms by auto
  with Cons show ?case by (simp add: om_find_def oc_find_def oc_lower_bound_def)
qed (simp add: om_find_def oc_find_def oc_lower_bound_def)

lemma place_chunk_present:
  "node_find c (io_node st) \<noteq> None \<Longrightarrow> node_find c (io_replica st) \<noteq> None \<Longrightarrow> place_chunk c st = st"
  by (auto simp: place_chunk_def Let_def)

text \<open>
  \<open>file_chunk\<close>'s comparator makes all stripes up to the file's own id one key: after chunk
  \<open>k\<close> of one such stripe has been placed, placing chunk \<open>k\<close> of any other changes nothing, so the
  second chunk is never listed and a delete does not reach it.
\<close>

theorem low_stripes_share_entry:
  assumes "s \<le> f" "s' \<le> f" "s \<noteq> s'"
    and "oc_sorted file_chunk_less (low_stripes k) fst (io_node st)"
    and "oc_sorted file_chunk_less (low_stripes k) fst (io_replica st)"
  shows "place_chunk (mk_chunk f s' k) (place_chunk (mk_chunk f s k) st) = place_chunk (mk_chunk f s k) st \<and>
    (\<forall>c \<in> set (get_all_chunks (place_chunk (mk_chunk f s k) st) f).
       \<forall>d \<in> set (get_all_chunks (place_chunk (mk_chunk f s k) st) f). c = d)"
proof -
  let ?c = "mk_chunk f s k" and ?d = "mk_chunk f s' k"
  have K: "?c \<in> low_stripes k" "?d \<in> low_stripes k" using assms(1,2) by (simp_all add: low_stripes_def)
  let ?st = "place_chunk ?c st"
  have up: "oc_sorted file_chunk_less (low_stripes k) fst (node_update ?c n m)" "node_find ?c (node_update ?c n m) \<noteq> None"
    if "oc_sorted file_chunk_less (low_stripes k) fst m" for n m
    using collapsed_chunks.sorted_om_update[OF that K(1)] collapsed_chunks.om_find_update_present[OF that K(1)] .
  have so: "oc_sorted file_chunk_less (low_stripes k) fst (io_node ?st)"
    "oc_sorted file_chunk_less (low_stripes k) fst (io_replica ?st)"
    using assms(4,5) up(1) by (simp_all add: place_chunk_def Let_def)
  then have sub: "fst ` set (io_node ?st) \<subseteq> low_stripes k" "fst ` set (io_replica ?st) \<subseteq> low_stripes k"
    by (simp_all add: oc_sorted_def)
  have "node_find ?c (io_node ?st) \<noteq> None" "node_find ?c (io_replica ?st) \<noteq> None"
    using up(2)[OF assms(4)] up(2)[OF assms(5)] by (auto simp: place_chunk_def Let_def)
  then have "node_find ?d (io_node ?st) \<noteq> None" "node_find ?d (io_replica ?st) \<noteq> None"
    using low_find_eq[OF K _ sub(1)] low_find_eq[OF K _ sub(2)] by simp_all
  then have "place_chunk ?d ?st = ?st" by (rule place_chunk_present)
  moreover have "c = d" if "c \<in> set (get_all_chunks ?st f)" "d \<in> set (get_all_chunks ?st f)" for c d
  proof -
    have sw: "sorted_wrt file_chunk_less (map fst (io_node ?st))" using so(1) by (simp add: oc_sorted_def sorted_wrt_map)
    have m: "c \<in> set (map fst (io_node ?st))" "d \<in> set (map fst (io_node ?st))" "fc_file_id c = fc_file_id d"
      using that by (auto simp: get_all_chunks_def)
    have "c = d \<or> file_chunk_less c d \<or> file_chunk_less d c" by (rule sorted_wrt_linear[OF sw m(1,2)])
    moreover have "c \<in> low_stripes k" "d \<in> low_stripes k" using m sub(1) by auto
    ultimately show ?thesis using low_less[of c k d] low_less[of d k c] m(3) by simp
  qed
  ultimately show ?thesis by blast
qed

lemma low_stripes_share_entry_witness:
  "place_chunk (mk_chunk 2 2 1) (place_chunk (mk_chunk 2 1 1) empty_io) = place_chunk (mk_chunk 2 1 1) empty_io"
  using low_stripes_share_entry[of 1 2 2 1 empty_io] by (simp add: empty_io_def oc_sorted_def)

end
