(* ===== verification/Locking.thy ===== *)
theory Locking
  imports Decafs_Types
begin

text \<open>
  \<open>src/lib/locking_strategy/locking_strategy.cc\<close>: exclusive and shared locks on files and the
  metadata lock. Each function holds one mutex from start to end, so a concurrent execution
  is a sequence of whole calls; the mutexes are not modelled. \<open>Aborted\<close> is the failed
  \<open>assert(client.user_id != 0)\<close>. The \<open>unordered_map\<close> is a partial function: the code never
  iterates over it.
\<close>

section \<open>State\<close>

definition LOCK_SUCCESS :: int where "LOCK_SUCCESS = 0"
definition LOCK_ERROR :: int where "LOCK_ERROR = -1"

lemmas lock_codes = LOCK_SUCCESS_def LOCK_ERROR_def

record file_lock =
  owner_uid :: u32
  owner_ip :: ip_address
  ex_proc :: conn
  sh_procs :: "conn list"

definition new_file_lock :: file_lock where
  "new_file_lock = \<lparr>owner_uid = 0, owner_ip = \<lparr>addr = []\<rparr>, ex_proc = 0, sh_procs = []\<rparr>"

record meta_lock =
  ml_owner_uid :: u32
  ml_owner_ip :: ip_address
  ml_proc :: conn

definition new_meta_lock :: meta_lock where
  "new_meta_lock = \<lparr>ml_owner_uid = 0, ml_owner_ip = \<lparr>addr = []\<rparr>, ml_proc = 0\<rparr>"

type_synonym file_locks = "u32 \<Rightarrow> file_lock option"

text \<open>\<open>file_locks[file_id]\<close>, which creates the entry when there is none.\<close>

definition lock_at :: "file_locks \<Rightarrow> u32 \<Rightarrow> file_lock" where
  "lock_at fl f = (case fl f of None \<Rightarrow> new_file_lock | Some l \<Rightarrow> l)"

section \<open>File locks\<close>

definition get_exclusive_lock :: "client \<Rightarrow> u32 \<Rightarrow> file_locks \<Rightarrow> (int \<times> file_locks) outcome" where
  "get_exclusive_lock c f fl =
     guard_assert (user_id c \<noteq> 0)
      (let lock = lock_at fl f; fl = fl(f \<mapsto> lock) in
       if owner_uid lock \<noteq> 0 then Returned (LOCK_ERROR, fl)
       else Returned (LOCK_SUCCESS,
              fl(f \<mapsto> lock\<lparr>owner_uid := user_id c, owner_ip := ip c, ex_proc := ctc c\<rparr>)))"

definition get_shared_lock :: "client \<Rightarrow> u32 \<Rightarrow> file_locks \<Rightarrow> (int \<times> file_locks) outcome" where
  "get_shared_lock c f fl =
     guard_assert (user_id c \<noteq> 0)
      (let lock = lock_at fl f; fl = fl(f \<mapsto> lock) in
       if owner_uid lock \<noteq> 0 \<and> (owner_uid lock \<noteq> user_id c \<or> \<not> ip_eq (owner_ip lock) (ip c))
       then Returned (LOCK_ERROR, fl)
       else
         let lock = (if owner_uid lock = 0
                     then lock\<lparr>owner_uid := user_id c, owner_ip := ip c\<rparr> else lock);
             inserted = (oc_find (<) id (ctc c) (sh_procs lock) = None);
             lock = lock\<lparr>sh_procs := oc_insert (<) id (ctc c) (sh_procs lock)\<rparr>
         in Returned (if inserted then LOCK_SUCCESS else LOCK_ERROR, fl(f \<mapsto> lock)))"

definition release_lock :: "client \<Rightarrow> u32 \<Rightarrow> file_locks \<Rightarrow> (int \<times> file_locks) outcome" where
  "release_lock c f fl =
     guard_assert (user_id c \<noteq> 0)
      (let lock = lock_at fl f; fl = fl(f \<mapsto> lock) in
       if owner_uid lock \<noteq> user_id c \<or> \<not> ip_eq (owner_ip lock) (ip c)
       then Returned (LOCK_ERROR, fl)
       else if ex_proc lock = ctc c then Returned (LOCK_SUCCESS, fl(f := None))
       else if oc_find (<) id (ctc c) (sh_procs lock) = None then Returned (LOCK_ERROR, fl)
       else
         let lock = lock\<lparr>sh_procs := oc_erase (<) id (ctc c) (sh_procs lock)\<rparr> in
         if length (sh_procs lock) = 0 then Returned (LOCK_SUCCESS, fl(f := None))
         else Returned (LOCK_SUCCESS, fl(f \<mapsto> lock)))"

definition has_exclusive_lock :: "client \<Rightarrow> u32 \<Rightarrow> file_locks \<Rightarrow> int outcome" where
  "has_exclusive_lock c f fl =
     guard_assert (user_id c \<noteq> 0)
      (Returned (case fl f of
         None \<Rightarrow> 0
       | Some l \<Rightarrow>
           if owner_uid l = user_id c \<and> ip_eq (owner_ip l) (ip c) \<and> ex_proc l = ctc c
           then 1 else 0))"

definition has_shared_lock :: "client \<Rightarrow> u32 \<Rightarrow> file_locks \<Rightarrow> int outcome" where
  "has_shared_lock c f fl =
     guard_assert (user_id c \<noteq> 0)
      (Returned (case fl f of
         None \<Rightarrow> 0
       | Some l \<Rightarrow>
           if owner_uid l = user_id c \<and> ip_eq (owner_ip l) (ip c) \<and>
              oc_find (<) id (ctc c) (sh_procs l) \<noteq> None
           then 1 else 0))"

section \<open>The metadata lock\<close>

definition get_metadata_lock :: "client \<Rightarrow> meta_lock \<Rightarrow> (int \<times> meta_lock) outcome" where
  "get_metadata_lock c m =
     guard_assert (user_id c \<noteq> 0)
      (if ml_owner_uid m = 0
       then Returned (LOCK_SUCCESS, m\<lparr>ml_owner_uid := user_id c, ml_owner_ip := ip c, ml_proc := ctc c\<rparr>)
       else Returned (LOCK_ERROR, m))"

definition release_metadata_lock :: "client \<Rightarrow> meta_lock \<Rightarrow> (int \<times> meta_lock) outcome" where
  "release_metadata_lock c m =
     guard_assert (user_id c \<noteq> 0)
      (if ml_owner_uid m = user_id c \<and> ip_eq (ml_owner_ip m) (ip c) \<and> ml_proc m = ctc c
       then Returned (LOCK_SUCCESS, m\<lparr>ml_owner_uid := 0\<rparr>)
       else Returned (LOCK_ERROR, m))"

definition has_metadata_lock :: "client \<Rightarrow> meta_lock \<Rightarrow> int outcome" where
  "has_metadata_lock c m =
     guard_assert (user_id c \<noteq> 0)
      (Returned (if ml_owner_uid m = user_id c \<and> ip_eq (ml_owner_ip m) (ip c) \<and> ml_proc m = ctc c
                 then 1 else 0))"

section \<open>The contract of a lock\<close>

text \<open>
  \<open>rival c d\<close>: \<open>d\<close> is a client the lock held by \<open>c\<close> excludes. A rival's calls are refused
  and have no effect, so \<open>c\<close> keeps the lock until it releases it.
\<close>

datatype lock_call = Acquire client | Acquire_Shared client | Release client

fun caller :: "lock_call \<Rightarrow> client" where
  "caller (Acquire c) = c"
| "caller (Acquire_Shared c) = c"
| "caller (Release c) = c"

fun lock_run :: "(lock_call \<Rightarrow> 's \<Rightarrow> (int \<times> 's) outcome) \<Rightarrow> lock_call list \<Rightarrow> 's \<Rightarrow> (int list \<times> 's) outcome" where
  "lock_run call [] s = Returned ([], s)"
| "lock_run call (x # xs) s = outcome_bind (call x s) (\<lambda>(r, s1).
     outcome_bind (lock_run call xs s1) (\<lambda>(rs, s2). Returned (r # rs, s2)))"

fun file_lock_call :: "u32 \<Rightarrow> lock_call \<Rightarrow> file_locks \<Rightarrow> (int \<times> file_locks) outcome" where
  "file_lock_call f (Acquire c) fl = get_exclusive_lock c f fl"
| "file_lock_call f (Acquire_Shared c) fl = get_shared_lock c f fl"
| "file_lock_call f (Release c) fl = release_lock c f fl"

text \<open>The metadata lock has no shared mode.\<close>

fun metadata_lock_call :: "lock_call \<Rightarrow> meta_lock \<Rightarrow> (int \<times> meta_lock) outcome" where
  "metadata_lock_call (Acquire c) m = get_metadata_lock c m"
| "metadata_lock_call (Acquire_Shared c) m = get_metadata_lock c m"
| "metadata_lock_call (Release c) m = release_metadata_lock c m"

locale exclusive_lock =
  fixes call :: "lock_call \<Rightarrow> 's \<Rightarrow> (int \<times> 's) outcome"
    and holds :: "client \<Rightarrow> 's \<Rightarrow> bool"
    and rival :: "client \<Rightarrow> client \<Rightarrow> bool"
  assumes acquired: "call (Acquire c) s = Returned (LOCK_SUCCESS, s') \<Longrightarrow> holds c s'"
    and rival_call: "holds c s \<Longrightarrow> rival c (caller x) \<Longrightarrow> user_id (caller x) \<noteq> 0 \<Longrightarrow>
      call x s = Returned (LOCK_ERROR, s)"
    and released: "holds c s \<Longrightarrow> \<exists>s'. call (Release c) s = Returned (LOCK_SUCCESS, s')"
    and free_again: "holds c s \<Longrightarrow> call (Release c) s = Returned (r, s') \<Longrightarrow> user_id d \<noteq> 0 \<Longrightarrow>
      \<exists>s''. call (Acquire d) s' = Returned (LOCK_SUCCESS, s'')"
begin

lemma rivals_refused:
  assumes "holds c s" "\<forall>x \<in> set xs. rival c (caller x) \<and> user_id (caller x) \<noteq> 0"
  shows "lock_run call xs s = Returned (replicate (length xs) LOCK_ERROR, s)"
  using assms by (induction xs) (auto simp: rival_call)

lemma hand_over:
  assumes "call (Acquire c) s0 = Returned (LOCK_SUCCESS, s)"
    and "\<forall>x \<in> set xs. rival c (caller x) \<and> user_id (caller x) \<noteq> 0" "user_id d \<noteq> 0"
  shows "\<exists>s2. lock_run call (Acquire c # xs @ [Release c, Acquire d]) s0 =
      Returned (LOCK_SUCCESS # replicate (length xs) LOCK_ERROR @ [LOCK_SUCCESS, LOCK_SUCCESS], s2) \<and> holds d s2"
proof -
  have h: "holds c s" using assms(1) by (rule acquired)
  obtain s1 where r: "call (Release c) s = Returned (LOCK_SUCCESS, s1)" using released[OF h] by blast
  then obtain s2 where a: "call (Acquire d) s1 = Returned (LOCK_SUCCESS, s2)"
    using free_again[OF h r assms(3)] by blast
  have "lock_run call (xs @ [Release c, Acquire d]) s =
      Returned (replicate (length xs) LOCK_ERROR @ [LOCK_SUCCESS, LOCK_SUCCESS], s2)"
    using h assms(2) r a by (induction xs) (auto simp: rival_call)
  with assms(1) acquired[OF a] show ?thesis by simp
qed

end

section \<open>The two locks meet it\<close>

definition holds_exclusive :: "u32 \<Rightarrow> client \<Rightarrow> file_locks \<Rightarrow> bool" where
  "holds_exclusive f c fl \<longleftrightarrow> has_exclusive_lock c f fl = Returned 1"

definition holds_metadata :: "client \<Rightarrow> meta_lock \<Rightarrow> bool" where
  "holds_metadata c m \<longleftrightarrow> has_metadata_lock c m = Returned 1"

text \<open>A file lock belongs to a user at a host: the other processes of that user are no rivals.\<close>

definition other_owner :: "client \<Rightarrow> client \<Rightarrow> bool" where
  "other_owner c d \<longleftrightarrow> user_id d \<noteq> user_id c \<or> ip d \<noteq> ip c"

lemma holds_exclusive_iff:
  "holds_exclusive f c fl \<longleftrightarrow> user_id c \<noteq> 0 \<and>
     (\<exists>l. fl f = Some l \<and> owner_uid l = user_id c \<and> owner_ip l = ip c \<and> ex_proc l = ctc c)"
  by (auto simp: holds_exclusive_def has_exclusive_lock_def guard_assert_def split: option.splits if_splits)

lemma holds_metadata_iff:
  "holds_metadata c m \<longleftrightarrow> user_id c \<noteq> 0 \<and>
     ml_owner_uid m = user_id c \<and> ml_owner_ip m = ip c \<and> ml_proc m = ctc c"
  by (auto simp: holds_metadata_def has_metadata_lock_def guard_assert_def split: if_splits)

lemma client_cases: "c \<noteq> d \<longleftrightarrow> user_id c \<noteq> user_id d \<or> ip c \<noteq> ip d \<or> ctc c \<noteq> ctc d" for c d :: client
  by (cases c; cases d) auto

interpretation file_lock: exclusive_lock "file_lock_call f" "holds_exclusive f" other_owner for f
proof
  show "holds_exclusive f c s'" if "file_lock_call f (Acquire c) s = Returned (LOCK_SUCCESS, s')" for c s s'
    using that by (auto simp: get_exclusive_lock_def holds_exclusive_iff lock_codes guard_assert_def Let_def
        split: if_splits)
  show "file_lock_call f x s = Returned (LOCK_ERROR, s)"
    if "holds_exclusive f c s" "other_owner c (caller x)" "user_id (caller x) \<noteq> 0" for c s x
    using that by (cases x) (auto simp: holds_exclusive_iff other_owner_def get_exclusive_lock_def
        get_shared_lock_def release_lock_def lock_at_def fun_upd_idem)
  show "\<exists>s'. file_lock_call f (Release c) s = Returned (LOCK_SUCCESS, s')" if "holds_exclusive f c s" for c s
    using that by (auto simp: holds_exclusive_iff release_lock_def lock_at_def)
  show "\<exists>s''. file_lock_call f (Acquire d) s' = Returned (LOCK_SUCCESS, s'')"
    if "holds_exclusive f c s" "file_lock_call f (Release c) s = Returned (r, s')" "user_id d \<noteq> 0" for c s r s' d
    using that by (auto simp: holds_exclusive_iff release_lock_def get_exclusive_lock_def lock_at_def
        new_file_lock_def Let_def)
qed

interpretation metadata_lock: exclusive_lock metadata_lock_call holds_metadata "(\<noteq>)"
proof
  show "holds_metadata c s'" if "metadata_lock_call (Acquire c) s = Returned (LOCK_SUCCESS, s')" for c s s'
    using that by (auto simp: get_metadata_lock_def holds_metadata_iff lock_codes guard_assert_def
        split: if_splits)
  show "metadata_lock_call x s = Returned (LOCK_ERROR, s)"
    if "holds_metadata c s" "c \<noteq> caller x" "user_id (caller x) \<noteq> 0" for c s x
    using that by (cases x) (auto simp: holds_metadata_iff get_metadata_lock_def
        release_metadata_lock_def client_cases)
  show "\<exists>s'. metadata_lock_call (Release c) s = Returned (LOCK_SUCCESS, s')" if "holds_metadata c s" for c s
    using that by (auto simp: holds_metadata_iff release_metadata_lock_def)
  show "\<exists>s''. metadata_lock_call (Acquire d) s' = Returned (LOCK_SUCCESS, s'')"
    if "holds_metadata c s" "metadata_lock_call (Release c) s = Returned (r, s')" "user_id d \<noteq> 0" for c s r s' d
    using that by (auto simp: holds_metadata_iff release_metadata_lock_def get_metadata_lock_def)
qed

section \<open>Properties\<close>

text \<open>
  After a client has got the exclusive lock of a file, every call of clients of another
  user or host on that file is refused without effect, the holder's release succeeds, and then
  any client gets the lock.
\<close>

theorem exclusive_lock_hand_over:
  assumes "get_exclusive_lock c f fl0 = Returned (LOCK_SUCCESS, fl)"
    and "\<forall>x \<in> set xs. other_owner c (caller x) \<and> user_id (caller x) \<noteq> 0" "user_id d \<noteq> 0"
  shows "\<exists>fl2. lock_run (file_lock_call f) (Acquire c # xs @ [Release c, Acquire d]) fl0 =
      Returned (LOCK_SUCCESS # replicate (length xs) LOCK_ERROR @ [LOCK_SUCCESS, LOCK_SUCCESS], fl2) \<and>
    has_exclusive_lock d f fl2 = Returned 1"
  using file_lock.hand_over[of f c fl0 fl xs d] assms by (simp add: holds_exclusive_def)

abbreviation demo_client :: "u32 \<Rightarrow> conn \<Rightarrow> client" where
  "demo_client u p \<equiv> \<lparr>ip = \<lparr>addr = ''10.0.0.1''\<rparr>, user_id = u, ctc = p\<rparr>"

lemma exclusive_lock_hand_over_witness:
  "\<exists>fl2. lock_run (file_lock_call 3)
      [Acquire (demo_client 1 5), Acquire (demo_client 2 6), Acquire_Shared (demo_client 2 6),
       Release (demo_client 1 5), Acquire (demo_client 2 6)] Map.empty =
    Returned ([LOCK_SUCCESS, LOCK_ERROR, LOCK_ERROR, LOCK_SUCCESS, LOCK_SUCCESS], fl2) \<and>
    has_exclusive_lock (demo_client 2 6) 3 fl2 = Returned 1"
  using exclusive_lock_hand_over[of "demo_client 1 5" 3 Map.empty
      "[3 \<mapsto> \<lparr>owner_uid = 1, owner_ip = \<lparr>addr = ''10.0.0.1''\<rparr>, ex_proc = 5, sh_procs = []\<rparr>]"
      "[Acquire (demo_client 2 6), Acquire_Shared (demo_client 2 6)]" "demo_client 2 6"]
  by (simp add: get_exclusive_lock_def lock_at_def new_file_lock_def other_owner_def)

text \<open>
  The metadata lock excludes every other process, of the same user too: all their calls are
  refused without effect until the holder's release, which succeeds and frees the lock.
\<close>

theorem metadata_lock_hand_over:
  assumes "get_metadata_lock c m0 = Returned (LOCK_SUCCESS, m)"
    and "\<forall>x \<in> set xs. c \<noteq> caller x \<and> user_id (caller x) \<noteq> 0" "user_id d \<noteq> 0"
  shows "\<exists>m2. lock_run metadata_lock_call (Acquire c # xs @ [Release c, Acquire d]) m0 =
      Returned (LOCK_SUCCESS # replicate (length xs) LOCK_ERROR @ [LOCK_SUCCESS, LOCK_SUCCESS], m2) \<and>
    has_metadata_lock d m2 = Returned 1"
  using metadata_lock.hand_over[of c m0 m xs d] assms by (simp add: holds_metadata_def)

lemma metadata_lock_hand_over_witness:
  "\<exists>m2. lock_run metadata_lock_call
      [Acquire (demo_client 1 5), Release (demo_client 1 6), Release (demo_client 1 5),
       Acquire (demo_client 1 6)] new_meta_lock =
    Returned ([LOCK_SUCCESS, LOCK_ERROR, LOCK_SUCCESS, LOCK_SUCCESS], m2) \<and>
    has_metadata_lock (demo_client 1 6) m2 = Returned 1"
  using metadata_lock_hand_over[of "demo_client 1 5" new_meta_lock
      "\<lparr>ml_owner_uid = 1, ml_owner_ip = \<lparr>addr = ''10.0.0.1''\<rparr>, ml_proc = 5\<rparr>"
      "[Release (demo_client 1 6)]" "demo_client 1 6"]
  by (simp add: get_metadata_lock_def new_meta_lock_def)

subsection \<open>Shared locks\<close>

definition lock_wf :: "file_lock \<Rightarrow> bool" where
  "lock_wf l \<longleftrightarrow> oc_sorted (<) UNIV id (sh_procs l) \<and> 0 \<notin> set (sh_procs l) \<and>
     (if owner_uid l = 0 then ex_proc l = 0 \<and> sh_procs l = [] else ex_proc l \<noteq> 0 \<or> sh_procs l \<noteq> [])"

definition locks_wf :: "file_locks \<Rightarrow> bool" where
  "locks_wf fl \<longleftrightarrow> (\<forall>f l. fl f = Some l \<longrightarrow> lock_wf l)"

lemma lock_wf_new: "lock_wf new_file_lock"
  by (simp add: lock_wf_def new_file_lock_def oc_sorted_def)

lemma lock_wf_at: "locks_wf fl \<Longrightarrow> lock_wf (lock_at fl f)"
  by (cases "fl f") (auto simp: locks_wf_def lock_at_def lock_wf_new)

lemma locks_wf_upd [intro]: "locks_wf fl \<Longrightarrow> lock_wf l \<Longrightarrow> locks_wf (fl(f \<mapsto> l))"
  by (auto simp: locks_wf_def)

lemma locks_wf_none [intro]: "locks_wf fl \<Longrightarrow> locks_wf (fl(f := None))"
  by (auto simp: locks_wf_def)

lemma conn_set_insert [simp]:
  assumes "oc_sorted (<) UNIV id (xs :: conn list)"
  shows "oc_sorted (<) UNIV id (oc_insert (<) id p xs)" and "set (oc_insert (<) id p xs) = insert p (set xs)"
proof -
  show "oc_sorted (<) UNIV id (oc_insert (<) id p xs)"
    using assms by (intro conn_order.sorted_insert) simp_all
  show "set (oc_insert (<) id p xs) = insert p (set xs)"
  proof (cases "oc_find (<) id p xs")
    case None
    then show ?thesis using conn_order.set_insert_new[of id p xs] by simp
  next
    case (Some q)
    then have "p \<in> set xs" using conn_order.find_eq_key[OF assms, of p q] by auto
    with Some show ?thesis by (auto simp: oc_insert_def)
  qed
qed

lemma conn_set_find:
  assumes "oc_sorted (<) UNIV id (xs :: conn list)"
  shows "oc_find (<) id p xs = (if p \<in> set xs then Some p else None)"
  using conn_order.find_eq_key[OF assms, of p] by (cases "oc_find (<) id p xs") force+

lemma conn_set_erase [simp]:
  assumes "oc_sorted (<) UNIV id (xs :: conn list)"
  shows "oc_sorted (<) UNIV id (oc_erase (<) id p xs)" and "set (oc_erase (<) id p xs) = set xs - {p}"
proof -
  show "oc_sorted (<) UNIV id (oc_erase (<) id p xs)" by (rule conn_order.sorted_erase[OF assms])
  show "set (oc_erase (<) id p xs) = set xs - {p}"
    using conn_order.set_erase[OF assms, of p p] conn_set_find[OF assms, of p]
    by (cases "p \<in> set xs") (simp_all add: oc_erase_def)
qed

lemma insert_not_empty [simp]: "oc_sorted (<) UNIV id (xs :: conn list) \<Longrightarrow> oc_insert (<) id p xs \<noteq> []"
  using conn_set_insert(2)[of xs p] by force

text \<open>
  Calls of clients with a user id and a connection keep the lock table well-formed: holders
  are recorded once, a free entry has no holder, and an owned entry has at least one holder,
  so no file stays locked with nobody left to release it.
\<close>

theorem lock_call_wf:
  assumes "locks_wf fl" "user_id (caller x) \<noteq> 0" "ctc (caller x) \<noteq> 0"
  shows "\<exists>r fl'. file_lock_call f x fl = Returned (r, fl') \<and> locks_wf fl'"
proof -
  have wf: "lock_wf (lock_at fl f)" using lock_wf_at[OF assms(1)] .
  then have so: "oc_sorted (<) UNIV id (sh_procs (lock_at fl f))" by (simp add: lock_wf_def)
  let ?fl = "fl(f \<mapsto> lock_at fl f)"
  have fl: "locks_wf ?fl" "locks_wf (fl(f := None))" using assms(1) wf by auto
  show ?thesis
  proof (cases x)
    case (Acquire c)
    then show ?thesis using assms wf fl
      by (auto simp: get_exclusive_lock_def Let_def lock_wf_def intro!: locks_wf_upd)
  next
    case (Acquire_Shared c)
    then show ?thesis using assms wf fl so
      by (auto simp: get_shared_lock_def Let_def lock_wf_def intro!: locks_wf_upd)
  next
    case (Release c)
    then show ?thesis using assms wf fl so
      by (auto simp: release_lock_def Let_def lock_wf_def intro!: locks_wf_upd)
  qed
qed

lemma lock_call_wf_witness:
  "\<exists>r fl'. file_lock_call 3 (Acquire_Shared (demo_client 1 5)) Map.empty = Returned (r, fl') \<and> locks_wf fl'"
  using lock_call_wf[of Map.empty "Acquire_Shared (demo_client 1 5)" 3] by (simp add: locks_wf_def)

text \<open>
  Shared locks of different processes of one owner are independent as long as nobody holds
  the file exclusively: releasing one succeeds, ends exactly that one, and keeps the others.
\<close>

theorem shared_locks_independent:
  assumes "locks_wf fl" "has_shared_lock c f fl = Returned 1" "has_shared_lock d f fl = Returned 1"
    and "ctc c \<noteq> ctc d" "ctc c \<noteq> 0" "\<forall>l. fl f = Some l \<longrightarrow> ex_proc l = 0"
  shows "\<exists>fl'. release_lock c f fl = Returned (LOCK_SUCCESS, fl') \<and>
    has_shared_lock c f fl' = Returned 0 \<and> has_shared_lock d f fl' = Returned 1"
proof -
  obtain l where l: "fl f = Some l" and u: "user_id c \<noteq> 0" "user_id d \<noteq> 0"
    and o: "owner_uid l = user_id c" "owner_uid l = user_id d" "owner_ip l = ip c" "owner_ip l = ip d"
    and s: "oc_find (<) id (ctc c) (sh_procs l) \<noteq> None" "oc_find (<) id (ctc d) (sh_procs l) \<noteq> None"
    using assms(2,3) by (auto simp: has_shared_lock_def guard_assert_def split: option.splits if_splits)
  have so: "oc_sorted (<) UNIV id (sh_procs l)" and ex: "ex_proc l = 0"
    using assms(1,6) l by (auto simp: locks_wf_def lock_wf_def)
  note f = conn_set_find[OF so] and er = conn_set_erase[OF so, of "ctc c"]
  let ?s = "oc_erase (<) id (ctc c) (sh_procs l)"
  have "ctc d \<in> set ?s" using f s assms(4) er by (auto split: if_splits)
  then have ne: "?s \<noteq> []" by auto
  then have "release_lock c f fl = Returned (LOCK_SUCCESS, fl(f \<mapsto> l\<lparr>sh_procs := ?s\<rparr>))"
    using l u o s ex assms(5) by (auto simp: release_lock_def lock_at_def Let_def)
  then show ?thesis
    using u o er conn_set_find[OF er(1)] f s assms(4)
    by (auto simp: has_shared_lock_def split: if_splits)
qed

lemma shared_locks_independent_witness:
  "\<exists>fl'. has_shared_lock (demo_client 1 6) 3 fl' = Returned 1"
proof -
  let ?fl = "[3 \<mapsto> \<lparr>owner_uid = 1, owner_ip = \<lparr>addr = ''10.0.0.1''\<rparr>, ex_proc = 0, sh_procs = [5, 6]\<rparr>] :: file_locks"
  have "locks_wf ?fl" "has_shared_lock (demo_client 1 5) 3 ?fl = Returned 1"
    "has_shared_lock (demo_client 1 6) 3 ?fl = Returned 1"
    by (simp_all add: has_shared_lock_def locks_wf_def lock_wf_def oc_sorted_def oc_find_def oc_lower_bound_def)
  from shared_locks_independent[OF this] show ?thesis by auto
qed

text \<open>
  C39: while one process holds a file exclusively another process of the same user at the same
  host is granted a shared lock on it, and when that one releases, the exclusive lock is gone
  and any client can take the file.
\<close>

theorem shared_release_drops_exclusive:
  assumes "fl f = None" "user_id a \<noteq> 0" "user_id b = user_id a" "ip b = ip a" "ctc a \<noteq> ctc b" "user_id d \<noteq> 0"
  shows "\<exists>fl'. lock_run (file_lock_call f) [Acquire a, Acquire_Shared b, Release b, Acquire d] fl =
      Returned ([LOCK_SUCCESS, LOCK_SUCCESS, LOCK_SUCCESS, LOCK_SUCCESS], fl')"
  using assms
  by (simp add: get_exclusive_lock_def get_shared_lock_def release_lock_def lock_at_def new_file_lock_def
      Let_def oc_insert_def oc_erase_def oc_find_def oc_lower_bound_def oc_before_def)

lemma shared_release_drops_exclusive_witness:
  "\<exists>fl'. lock_run (file_lock_call 3) [Acquire (demo_client 1 5), Acquire_Shared (demo_client 1 6),
      Release (demo_client 1 6), Acquire (demo_client 2 7)] Map.empty =
    Returned ([LOCK_SUCCESS, LOCK_SUCCESS, LOCK_SUCCESS, LOCK_SUCCESS], fl')"
  using shared_release_drops_exclusive[of Map.empty 3 "demo_client 1 5" "demo_client 1 6" "demo_client 2 7"]
  by simp

end
