(* ===== verification/Persistent_Metadata.thy ===== *)
theory Persistent_Metadata
  imports Decafs_Types
begin

text \<open>
  \<open>src/lib/persistent_metadata/persistent_metadata.cpp\<close>: the files of a Barista, as the two
  maps \<open>pathname_to_file_id\<close> and \<open>metadata\<close> and the counter \<open>next_file_id\<close>. A
  \<open>std::string\<close> is compared like \<open>strcmp\<close> compares its bytes. The \<open>mutex\<close> around the
  counter is held for the whole of its one critical section and not modelled; the
  \<open>printf\<close> lines have no effect on the state.
\<close>

section \<open>State and error codes\<close>

definition P_META_SUCCESS :: int where "P_META_SUCCESS = 0"
definition FILE_NOT_FOUND :: int where "FILE_NOT_FOUND = -1"
definition FILE_EXISTS :: int where "FILE_EXISTS = -2"
definition FILENAME_INVALID :: int where "FILENAME_INVALID = -3"
definition ID_NOT_SET :: u32 where "ID_NOT_SET = 0"

lemmas pmeta_codes = P_META_SUCCESS_def FILE_NOT_FOUND_def FILE_EXISTS_def FILENAME_INVALID_def ID_NOT_SET_def

record pmeta =
  pt_paths :: "(string \<times> u32) list"
  pt_files :: "(u32 \<times> persistent_metadata_info) list"
  pt_next :: u32

abbreviation path_find :: "string \<Rightarrow> pmeta \<Rightarrow> u32 option" where
  "path_find p st \<equiv> om_find string_less p (pt_paths st)"

abbreviation file_find :: "u32 \<Rightarrow> pmeta \<Rightarrow> persistent_metadata_info option" where
  "file_find f st \<equiv> om_find (<) f (pt_files st)"

text \<open>The object as constructed, after \<open>init\<close> has opened two empty maps.\<close>

definition new_pmeta :: pmeta where
  "new_pmeta = \<lparr>pt_paths = [], pt_files = [], pt_next = ID_NOT_SET\<rparr>"

section \<open>Operations\<close>

definition get_num_files :: "pmeta \<Rightarrow> int" where
  "get_num_files st = int (length (pt_files st))"

definition get_filenames :: "pmeta \<Rightarrow> int \<Rightarrow> string list" where
  "get_filenames st sz = take (nat sz) (map fst (pt_paths st))"

definition metadata_contains :: "pmeta \<Rightarrow> u32 \<Rightarrow> bool" where
  "metadata_contains st f \<longleftrightarrow> file_find f st \<noteq> None"

definition pathname_exists :: "pmeta \<Rightarrow> string \<Rightarrow> bool" where
  "pathname_exists st p \<longleftrightarrow> path_find p st \<noteq> None"

text \<open>\<open>None\<close> for the buffer: it has not been written to.\<close>

definition decafs_file_stat :: "pmeta \<Rightarrow> u32 \<Rightarrow> int \<times> file_stat option" where
  "decafs_file_stat st f =
     (case file_find f st of
        None \<Rightarrow> (FILE_NOT_FOUND, None)
      | Some info \<Rightarrow>
          (P_META_SUCCESS,
           Some \<lparr>fs_file_id = pm_file_id info, fs_size = pm_size info, fs_stripe_size = pm_stripe_size info,
             fs_chunk_size = pm_chunk_size info, fs_replica_size = pm_replica_size info,
             fs_last_access_time = pm_last_access_time info\<rparr>))"

definition decafs_file_sstat :: "pmeta \<Rightarrow> string \<Rightarrow> int \<times> file_stat option" where
  "decafs_file_sstat st p =
     (case path_find p st of
        None \<Rightarrow> (FILE_NOT_FOUND, None)
      | Some f \<Rightarrow> decafs_file_stat st f)"

definition set_access_time :: "pmeta \<Rightarrow> file_instance \<Rightarrow> timeval \<Rightarrow> int \<times> pmeta" where
  "set_access_time st inst time =
     (case file_find (fi_file_id inst) st of
        None \<Rightarrow> (FILE_NOT_FOUND, st)
      | Some info \<Rightarrow>
          (P_META_SUCCESS,
           st\<lparr>pt_files := om_update (<) (fi_file_id inst) (info\<lparr>pm_last_access_time := time\<rparr>) (pt_files st)\<rparr>))"

definition get_new_file_id :: "pmeta \<Rightarrow> u32 \<times> pmeta" where
  "get_new_file_id st =
     (let cur = (if pt_next st = ID_NOT_SET \<and> pt_files st \<noteq> []
                 then fst (last (pt_files st)) else pt_next st)
      in (cur + 1, st\<lparr>pt_next := cur + 1\<rparr>))"

definition add_file :: "pmeta \<Rightarrow> string \<Rightarrow> u32 \<Rightarrow> u32 \<Rightarrow> u32 \<Rightarrow> timeval \<Rightarrow> int \<times> pmeta" where
  "add_file st pathname stripe_size chunk_size replica_size time =
     (if pathname_exists st pathname then (FILE_EXISTS, st)
      else if length pathname > MAX_FILENAME_LENGTH then (FILENAME_INVALID, st)
      else
        let (file_id, st1) = get_new_file_id st;
            info = \<lparr>pm_file_id = file_id, pm_size = 0, pm_stripe_size = stripe_size,
              pm_chunk_size = chunk_size, pm_replica_size = replica_size, pm_pathname = pathname,
              pm_last_access_time = time\<rparr>
        in (sint file_id,
            st1\<lparr>pt_files := om_update (<) file_id info (pt_files st1),
                pt_paths := om_update string_less pathname file_id (pt_paths st1)\<rparr>))"

definition delete_file_contents :: "pmeta \<Rightarrow> u32 \<Rightarrow> int \<times> pmeta" where
  "delete_file_contents st f =
     (case file_find f st of
        None \<Rightarrow> (FILE_NOT_FOUND, st)
      | Some info \<Rightarrow>
          (P_META_SUCCESS,
           st\<lparr>pt_paths := om_erase string_less (pm_pathname info) (pt_paths st),
              pt_files := om_erase (<) f (pt_files st)\<rparr>))"

definition update_file_size :: "pmeta \<Rightarrow> u32 \<Rightarrow> int \<Rightarrow> int \<times> pmeta" where
  "update_file_size st f size_delta =
     (case file_find f st of
        None \<Rightarrow> (FILE_NOT_FOUND, st)
      | Some info \<Rightarrow>
          let size' = (if sint (pm_size info) + size_delta < 0 then 0
                       else pm_size info + word_of_int size_delta)
          in (sint size',
              st\<lparr>pt_files := om_update (<) f (info\<lparr>pm_size := size'\<rparr>) (pt_files st)\<rparr>))"

section \<open>Invariant\<close>

text \<open>The two maps describe the same files, and the counter, when set, bounds every id.\<close>

definition pmeta_inv :: "pmeta \<Rightarrow> bool" where
  "pmeta_inv st \<longleftrightarrow>
     oc_sorted string_less UNIV fst (pt_paths st) \<and> oc_sorted (<) UNIV fst (pt_files st) \<and>
     (\<forall>f i. file_find f st = Some i \<longrightarrow> pm_file_id i = f \<and> path_find (pm_pathname i) st = Some f) \<and>
     (\<forall>p f. path_find p st = Some f \<longrightarrow> (\<exists>i. file_find f st = Some i \<and> pm_pathname i = p)) \<and>
     (pt_next st \<noteq> ID_NOT_SET \<longrightarrow> (\<forall>f i. file_find f st = Some i \<longrightarrow> f \<le> pt_next st))"

lemma pmeta_invD:
  assumes "pmeta_inv st"
  shows "file_find f st = Some i \<Longrightarrow> pm_file_id i = f"
    and "file_find f st = Some i \<Longrightarrow> path_find (pm_pathname i) st = Some f"
    and "path_find p st = Some f \<Longrightarrow> \<exists>i. file_find f st = Some i \<and> pm_pathname i = p"
    and "file_find f st = Some i \<Longrightarrow> pt_next st \<noteq> ID_NOT_SET \<Longrightarrow> f \<le> pt_next st"
  using assms by (simp_all add: pmeta_inv_def)

text \<open>What the rest of the system sees: paths and the record of each.\<close>

definition pmeta_view :: "pmeta \<Rightarrow> string \<Rightarrow> persistent_metadata_info option" where
  "pmeta_view st p = (case path_find p st of None \<Rightarrow> None | Some f \<Rightarrow> file_find f st)"

abbreviation stat_of :: "persistent_metadata_info \<Rightarrow> file_stat" where
  "stat_of i \<equiv> \<lparr>fs_file_id = pm_file_id i, fs_size = pm_size i, fs_stripe_size = pm_stripe_size i,
     fs_chunk_size = pm_chunk_size i, fs_replica_size = pm_replica_size i,
     fs_last_access_time = pm_last_access_time i\<rparr>"

lemma stat_of_view:
  assumes "pmeta_inv st" "pmeta_view st p = Some i"
  shows "decafs_file_sstat st p = (P_META_SUCCESS, Some (stat_of i))"
    and "decafs_file_stat st (pm_file_id i) = (P_META_SUCCESS, Some (stat_of i))"
    and "file_find (pm_file_id i) st = Some i" "pm_pathname i = p"
proof -
  obtain f where f: "path_find p st = Some f" "file_find f st = Some i"
    using assms(2) by (auto simp: pmeta_view_def split: option.splits)
  then show i: "file_find (pm_file_id i) st = Some i" "pm_pathname i = p"
    using pmeta_invD(1)[OF assms(1)] pmeta_invD(3)[OF assms(1), of p f] by auto
  show "decafs_file_stat st (pm_file_id i) = (P_META_SUCCESS, Some (stat_of i))"
    using i by (simp add: decafs_file_stat_def)
  show "decafs_file_sstat st p = (P_META_SUCCESS, Some (stat_of i))"
    using f by (simp add: decafs_file_sstat_def decafs_file_stat_def)
qed

text \<open>The largest id handed out so far, as far as the object knows.\<close>

definition last_id :: "pmeta \<Rightarrow> u32" where
  "last_id st = (if pt_next st = ID_NOT_SET \<and> pt_files st \<noteq> [] then fst (last (pt_files st)) else pt_next st)"

lemma pmeta_inv_new: "pmeta_inv new_pmeta"
  by (simp add: pmeta_inv_def new_pmeta_def oc_sorted_def om_find_def oc_find_def oc_lower_bound_def ID_NOT_SET_def)

lemma new_pmeta_simps [simp]:
  "path_find p new_pmeta = None" "file_find f new_pmeta = None"
  "pmeta_view new_pmeta = Map.empty" "last_id new_pmeta = 0"
  by (simp_all add: new_pmeta_def om_find_def oc_find_def oc_lower_bound_def pmeta_view_def fun_eq_iff
      last_id_def ID_NOT_SET_def)

lemma sorted_last_max:
  assumes "oc_sorted (<) UNIV fst (m :: (u32 \<times> 'v) list)" "(k, v) \<in> set m"
  shows "k \<le> fst (last m)"
  using assms
proof (induction m rule: rev_induct)
  case (snoc x xs)
  then show ?case by (auto simp: oc_sorted_def sorted_wrt_append intro: order.strict_implies_order)
qed simp

lemma file_find_mem:
  assumes "oc_sorted (<) UNIV fst (pt_files st)" "file_find f st = Some i"
  shows "(f, i) \<in> set (pt_files st)"
  using assms u32_order.om_find_map_of[OF assms(1), of f] by (auto dest: map_of_SomeD)

lemma last_id_bound:
  assumes "pmeta_inv st" "file_find f st = Some i"
  shows "f \<le> last_id st"
proof -
  have so: "oc_sorted (<) UNIV fst (pt_files st)" using assms(1) by (simp add: pmeta_inv_def)
  have "(f, i) \<in> set (pt_files st)" using file_find_mem[OF so assms(2)] .
  then show ?thesis using assms sorted_last_max[OF so] by (auto simp: last_id_def pmeta_inv_def)
qed

lemma get_new_file_id_eq: "get_new_file_id st = (last_id st + 1, st\<lparr>pt_next := last_id st + 1\<rparr>)"
  by (simp add: get_new_file_id_def last_id_def Let_def)

lemma pmeta_find_update [simp]:
  assumes "pmeta_inv st"
  shows "om_find string_less q (om_update string_less p f (pt_paths st)) = (if q = p then Some f else path_find q st)"
    and "om_find (<) g (om_update (<) f i (pt_files st)) = (if g = f then Some i else file_find g st)"
    and "om_find string_less q (om_erase string_less p (pt_paths st)) = (if q = p then None else path_find q st)"
    and "om_find (<) g (om_erase (<) f (pt_files st)) = (if g = f then None else file_find g st)"
  using assms unfolding pmeta_inv_def
  by (simp_all add: string_order.kv.find_upd u32_order.kv.find_upd string_order.kv.find_era u32_order.kv.find_era)

lemma pmeta_sorted [simp]:
  assumes "pmeta_inv st"
  shows "oc_sorted string_less UNIV fst (om_update string_less p f (pt_paths st))"
    and "oc_sorted (<) UNIV fst (om_update (<) g i (pt_files st))"
    and "oc_sorted string_less UNIV fst (om_erase string_less p (pt_paths st))"
    and "oc_sorted (<) UNIV fst (om_erase (<) g (pt_files st))"
  using assms unfolding pmeta_inv_def
  by (simp_all add: string_order.kv.ok_upd u32_order.kv.ok_upd string_order.kv.ok_era u32_order.kv.ok_era)

lemma next_id_fresh:
  assumes "pmeta_inv st" "last_id st \<noteq> - 1"
  shows "file_find (last_id st + 1) st = None" "last_id st < last_id st + 1"
proof -
  show lt: "last_id st < last_id st + 1" using assms(2) by (rule word_less_succ)
  show "file_find (last_id st + 1) st = None"
    using last_id_bound[OF assms(1), of "last_id st + 1"] lt
    by (cases "file_find (last_id st + 1) st") auto
qed

lemma pmeta_inv_paths:
  assumes "pmeta_inv st" "file_find f st = Some i" "file_find g st = Some j" "pm_pathname i = pm_pathname j"
  shows "f = g"
  using assms unfolding pmeta_inv_def by (metis option.inject)

abbreviation new_info :: "u32 \<Rightarrow> string \<Rightarrow> u32 \<Rightarrow> u32 \<Rightarrow> u32 \<Rightarrow> timeval \<Rightarrow> persistent_metadata_info" where
  "new_info f p ss cs rs t \<equiv> \<lparr>pm_file_id = f, pm_size = 0, pm_stripe_size = ss, pm_chunk_size = cs,
     pm_replica_size = rs, pm_pathname = p, pm_last_access_time = t\<rparr>"

lemma add_file_effect:
  assumes "pmeta_inv st" "pmeta_view st p = None" "length p \<le> MAX_FILENAME_LENGTH" "last_id st \<noteq> - 1"
  defines "f \<equiv> last_id st + 1"
  obtains st' where "add_file st p ss cs rs t = (sint f, st')" "pmeta_inv st'" "pt_next st' = f"
    "pmeta_view st' = (pmeta_view st)(p \<mapsto> new_info f p ss cs rs t)"
    "\<And>g. file_find g st' = (if g = f then Some (new_info f p ss cs rs t) else file_find g st)"
proof
  let ?i = "new_info f p ss cs rs t"
  let ?st' = "st\<lparr>pt_next := f, pt_files := om_update (<) f ?i (pt_files st),
    pt_paths := om_update string_less p f (pt_paths st)\<rparr>"
  have np: "path_find p st = None"
    using assms(2) pmeta_invD(3)[OF assms(1)]
    by (cases "path_find p st") (fastforce simp: pmeta_view_def)+
  have nf: "file_find f st = None" and lt: "last_id st < f" "f \<noteq> 0"
    using next_id_fresh[OF assms(1,4)] by (auto simp: f_def)
  show "add_file st p ss cs rs t = (sint f, ?st')"
    using np assms(3) by (simp add: add_file_def pathname_exists_def get_new_file_id_eq f_def)
  have other: "pm_pathname i \<noteq> p" if "file_find g st = Some i" for g i
    using that np assms(1) by (auto simp: pmeta_inv_def)
  have bound: "g \<le> f" if "file_find g st = Some i" for g i
    using last_id_bound[OF assms(1) that] lt by simp
  have nq: "path_find q st \<noteq> Some f" for q using pmeta_invD(3)[OF assms(1), of q f] nf by auto
  show "pmeta_inv ?st'"
    unfolding pmeta_inv_def
    using assms(1) nf np nq other bound by (simp add: ID_NOT_SET_def) (auto simp: pmeta_inv_def)
  show "pmeta_view ?st' = (pmeta_view st)(p \<mapsto> ?i)"
    using assms(1) nf pmeta_invD(3)[OF assms(1), of _ f]
    by (auto simp: pmeta_view_def fun_eq_iff split: option.splits)
  show "file_find g ?st' = (if g = f then Some ?i else file_find g st)" for g
    using assms(1) by simp
qed simp

lemma delete_file_effect:
  assumes "pmeta_inv st" "file_find f st = Some i"
  obtains st' where "delete_file_contents st f = (P_META_SUCCESS, st')" "pmeta_inv st'"
    "pt_next st' = pt_next st" "pmeta_view st' = (pmeta_view st)(pm_pathname i := None)"
    "\<And>g. file_find g st' = (if g = f then None else file_find g st)"
proof
  let ?st' = "st\<lparr>pt_paths := om_erase string_less (pm_pathname i) (pt_paths st),
    pt_files := om_erase (<) f (pt_files st)\<rparr>"
  show "delete_file_contents st f = (P_META_SUCCESS, ?st')"
    using assms(2) by (simp add: delete_file_contents_def)
  have pf: "path_find (pm_pathname i) st = Some f" using assms by (simp add: pmeta_inv_def)
  have other: "pm_pathname j \<noteq> pm_pathname i" if "file_find g st = Some j" "g \<noteq> f" for g j
    using pmeta_inv_paths[OF assms(1) that(1) assms(2)] that(2) by auto
  have path: "\<exists>j. file_find g st = Some j \<and> pm_pathname j = q" if "path_find q st = Some g" for q g
    using that assms(1) by (simp add: pmeta_inv_def)
  have ne: "g \<noteq> f" if "path_find q st = Some g" "q \<noteq> pm_pathname i" for q g
    using path[OF that(1)] that(2) assms(2) by auto
  show "pmeta_inv ?st'"
    unfolding pmeta_inv_def
    using assms(1) other ne by simp (auto simp: pmeta_inv_def)
  show "pmeta_view ?st' = (pmeta_view st)(pm_pathname i := None)"
    using assms(1) ne by (auto simp: pmeta_view_def fun_eq_iff split: option.splits)
  show "file_find g ?st' = (if g = f then None else file_find g st)" for g
    using assms(1) by simp
qed simp

text \<open>Replacing a record by one with the same id and path.\<close>

lemma replace_info_effect:
  assumes "pmeta_inv st" "file_find f st = Some i" "pm_pathname i' = pm_pathname i" "pm_file_id i' = f"
  defines "st' \<equiv> st\<lparr>pt_files := om_update (<) f i' (pt_files st)\<rparr>"
  shows "pmeta_inv st'" "pmeta_view st' = (pmeta_view st)(pm_pathname i \<mapsto> i')"
    "pt_next st' = pt_next st"
proof -
  have pf: "path_find (pm_pathname i) st = Some f" using assms(1,2) by (simp add: pmeta_inv_def)
  have q: "q = pm_pathname i" if "path_find q st = Some f" for q
    using pmeta_invD(3)[OF assms(1) that] assms(2) by auto
  have so: "oc_sorted string_less UNIV fst (pt_paths st)" using assms(1) by (simp add: pmeta_inv_def)
  note D = pmeta_invD[OF assms(1)]
  show "pmeta_inv st'"
    unfolding pmeta_inv_def st'_def
    using assms(1-4) so D(1,2,4) by simp (metis D(3) option.inject)
  show "pmeta_view st' = (pmeta_view st)(pm_pathname i \<mapsto> i')"
  proof
    fix p
    show "pmeta_view st' p = ((pmeta_view st)(pm_pathname i \<mapsto> i')) p"
    proof (cases "p = pm_pathname i")
      case True
      then show ?thesis using assms(1) pf by (simp add: pmeta_view_def st'_def)
    next
      case False
      then have "path_find p st \<noteq> Some f" using q by auto
      with False show ?thesis using assms(1)
        by (auto simp: pmeta_view_def st'_def split: option.split)
    qed
  qed
qed (simp add: st'_def)

lemma update_file_size_effect:
  fixes d :: int
  assumes "pmeta_inv st" "file_find f st = Some i"
    and n: "n = (if sint (pm_size i) + d < 0 then 0 else pm_size i + word_of_int d)"
  obtains st' where "update_file_size st f d = (sint n, st')" "pmeta_inv st'" "pt_next st' = pt_next st"
    "pmeta_view st' = (pmeta_view st)(pm_pathname i \<mapsto> i\<lparr>pm_size := n\<rparr>)"
    "\<And>g. file_find g st' = (if g = f then Some (i\<lparr>pm_size := n\<rparr>) else file_find g st)"
proof
  let ?st' = "st\<lparr>pt_files := om_update (<) f (i\<lparr>pm_size := n\<rparr>) (pt_files st)\<rparr>"
  have e: "pm_pathname (i\<lparr>pm_size := n\<rparr>) = pm_pathname i" "pm_file_id (i\<lparr>pm_size := n\<rparr>) = f"
    using pmeta_invD(1)[OF assms(1,2)] by simp_all
  show "update_file_size st f d = (sint n, ?st')"
    using assms(2) by (simp add: update_file_size_def n Let_def)
  show "pmeta_inv ?st'" "pt_next ?st' = pt_next st"
    "pmeta_view ?st' = (pmeta_view st)(pm_pathname i \<mapsto> i\<lparr>pm_size := n\<rparr>)"
    using replace_info_effect[OF assms(1,2) e] by simp_all
  show "file_find g ?st' = (if g = f then Some (i\<lparr>pm_size := n\<rparr>) else file_find g st)" for g
    using assms(1) by simp
qed

lemma set_access_time_effect:
  assumes "pmeta_inv st" "file_find (fi_file_id inst) st = Some i"
  obtains st' where "set_access_time st inst t = (P_META_SUCCESS, st')" "pmeta_inv st'" "pt_next st' = pt_next st"
    "pmeta_view st' = (pmeta_view st)(pm_pathname i \<mapsto> i\<lparr>pm_last_access_time := t\<rparr>)"
    "\<And>g. file_find g st' = (if g = fi_file_id inst then Some (i\<lparr>pm_last_access_time := t\<rparr>) else file_find g st)"
proof
  let ?st' = "st\<lparr>pt_files := om_update (<) (fi_file_id inst) (i\<lparr>pm_last_access_time := t\<rparr>) (pt_files st)\<rparr>"
  have e: "pm_pathname (i\<lparr>pm_last_access_time := t\<rparr>) = pm_pathname i"
    "pm_file_id (i\<lparr>pm_last_access_time := t\<rparr>) = fi_file_id inst"
    using pmeta_invD(1)[OF assms(1,2)] by simp_all
  show "set_access_time st inst t = (P_META_SUCCESS, ?st')"
    using assms(2) by (simp add: set_access_time_def)
  show "pmeta_inv ?st'" "pt_next ?st' = pt_next st"
    "pmeta_view ?st' = (pmeta_view st)(pm_pathname i \<mapsto> i\<lparr>pm_last_access_time := t\<rparr>)"
    using replace_info_effect[OF assms(1,2) e] by simp_all
  show "file_find g ?st' = (if g = fi_file_id inst then Some (i\<lparr>pm_last_access_time := t\<rparr>) else file_find g st)" for g
    using assms(1) by simp
qed

lemma older_id:
  assumes "pmeta_inv st" "last_id st \<noteq> - 1" "pmeta_view st q = Some i"
  shows "pm_file_id i < last_id st + 1"
proof -
  obtain f where "file_find f st = Some i" using assms(3) by (auto simp: pmeta_view_def split: option.splits)
  then have "pm_file_id i \<le> last_id st" using last_id_bound[OF assms(1)] pmeta_invD(1)[OF assms(1)] by metis
  then show ?thesis using next_id_fresh(2)[OF assms(1,2)] by simp
qed

section \<open>Properties\<close>

text \<open>
  C30: \<open>add_file\<close> returns \<open>FILE_EXISTS\<close> or \<open>FILENAME_INVALID\<close> without effect when the path is
  in use or too long, and otherwise registers exactly that path, as an empty file with the
  given sizes under an id no file has; the path maps and the file map stay consistent.
\<close>

theorem add_file_correct:
  assumes "pmeta_inv st" "last_id st \<noteq> - 1"
  shows "if pmeta_view st p \<noteq> None then add_file st p ss cs rs t = (FILE_EXISTS, st)
    else if length p > MAX_FILENAME_LENGTH then add_file st p ss cs rs t = (FILENAME_INVALID, st)
    else \<exists>f st'. add_file st p ss cs rs t = (sint f, st') \<and> pmeta_inv st' \<and>
      (\<forall>q i. pmeta_view st q = Some i \<longrightarrow> pm_file_id i < f) \<and>
      pmeta_view st' = (pmeta_view st)(p \<mapsto> new_info f p ss cs rs t) \<and>
      decafs_file_sstat st' p = (P_META_SUCCESS, Some \<lparr>fs_file_id = f, fs_size = 0, fs_stripe_size = ss,
        fs_chunk_size = cs, fs_replica_size = rs, fs_last_access_time = t\<rparr>)"
proof (cases "pmeta_view st p")
  case (Some i)
  then have "path_find p st \<noteq> None" by (auto simp: pmeta_view_def split: option.splits)
  with Some show ?thesis by (simp add: add_file_def pathname_exists_def)
next
  case None
  then have n: "path_find p st = None"
    using pmeta_invD(3)[OF assms(1)] by (cases "path_find p st") (fastforce simp: pmeta_view_def)+
  show ?thesis
  proof (cases "length p \<le> MAX_FILENAME_LENGTH")
    case True
    obtain st' where a: "add_file st p ss cs rs t = (sint (last_id st + 1), st')" "pmeta_inv st'"
      "pmeta_view st' = (pmeta_view st)(p \<mapsto> new_info (last_id st + 1) p ss cs rs t)"
      using add_file_effect[OF assms(1) None True assms(2)] by metis
    then have v: "pmeta_view st' p = Some (new_info (last_id st + 1) p ss cs rs t)" by simp
    have "pm_file_id i < last_id st + 1" if "pmeta_view st q = Some i" for q i
      using older_id[OF assms that] .
    moreover have "decafs_file_sstat st' p = (P_META_SUCCESS, Some \<lparr>fs_file_id = last_id st + 1, fs_size = 0,
        fs_stripe_size = ss, fs_chunk_size = cs, fs_replica_size = rs, fs_last_access_time = t\<rparr>)"
      using v by (auto simp: decafs_file_sstat_def decafs_file_stat_def pmeta_view_def split: option.splits)
    ultimately show ?thesis using a None True by auto
  qed (use None n in \<open>simp add: add_file_def pathname_exists_def\<close>)
qed

lemma add_file_correct_witness:
  "\<exists>(f :: u32) st'. add_file new_pmeta ''/a'' 512 256 256 (0, 0) = (sint f, st') \<and> pmeta_inv st'"
  using add_file_correct[OF pmeta_inv_new, of "''/a''" 512 256 256 "(0, 0)"]
  by (simp add: MAX_FILENAME_LENGTH_def) blast

text \<open>
  Deleting a file by its id removes its path and its record together and nothing else, so
  that the path can be created again; for an unknown id nothing changes.
\<close>

theorem delete_file_contents_correct:
  assumes "pmeta_inv st"
  shows "case file_find f st of
      None \<Rightarrow> delete_file_contents st f = (FILE_NOT_FOUND, st)
    | Some i \<Rightarrow> \<exists>st'. delete_file_contents st f = (P_META_SUCCESS, st') \<and> pmeta_inv st' \<and>
        pmeta_view st (pm_pathname i) = Some i \<and> pmeta_view st' = (pmeta_view st)(pm_pathname i := None) \<and>
        decafs_file_stat st' f = (FILE_NOT_FOUND, None)"
proof (cases "file_find f st")
  case None
  then show ?thesis by (simp add: delete_file_contents_def)
next
  case (Some i)
  obtain st' where d: "delete_file_contents st f = (P_META_SUCCESS, st')" "pmeta_inv st'"
    "pmeta_view st' = (pmeta_view st)(pm_pathname i := None)"
    "\<And>g. file_find g st' = (if g = f then None else file_find g st)"
    using delete_file_effect[OF assms Some] by metis
  have "pmeta_view st (pm_pathname i) = Some i"
    using pmeta_invD(2)[OF assms Some] Some by (simp add: pmeta_view_def)
  with d Some show ?thesis by (simp add: decafs_file_stat_def)
qed

lemma delete_file_contents_correct_witness:
  "delete_file_contents new_pmeta 7 = (FILE_NOT_FOUND, new_pmeta)"
  using delete_file_contents_correct[OF pmeta_inv_new, of 7]
  by simp

text \<open>
  C31: \<open>update_file_size\<close> adds the change to the size, stopping at 0, returns the new size, and
  touches nothing but the size of that file, for sizes below 2 GB.
\<close>

theorem update_file_size_correct:
  assumes "pmeta_inv st" "pmeta_view st p = Some i"
    and "uint (pm_size i) < 2 ^ 31" "uint (pm_size i) + d < 2 ^ 31"
  shows "\<exists>st' n. update_file_size st (pm_file_id i) d = (max 0 (uint (pm_size i) + d), st') \<and>
    pmeta_inv st' \<and> uint n = max 0 (uint (pm_size i) + d) \<and>
    pmeta_view st' = (pmeta_view st)(p \<mapsto> i\<lparr>pm_size := n\<rparr>)"
proof -
  obtain f where "path_find p st = Some f" "file_find f st = Some i"
    using assms(2) by (auto simp: pmeta_view_def split: option.splits)
  then have f: "file_find (pm_file_id i) st = Some i" and p: "pm_pathname i = p"
    using pmeta_invD(1)[OF assms(1)] pmeta_invD(3)[OF assms(1), of p f] by auto
  let ?n = "if sint (pm_size i) + d < 0 then 0 else pm_size i + word_of_int d"
  obtain st' where u: "update_file_size st (pm_file_id i) d = (sint ?n, st')" "pmeta_inv st'"
    "pmeta_view st' = (pmeta_view st)(pm_pathname i \<mapsto> i\<lparr>pm_size := ?n\<rparr>)"
    using update_file_size_effect[OF assms(1) f refl, of d] by metis
  have s: "sint (pm_size i) = uint (pm_size i)" using assms(3) by (rule u32_sint_uint)
  have n: "uint ?n = max 0 (uint (pm_size i) + d)"
    using s assms(4) u32_add_int[of "pm_size i" d] by auto
  moreover have "sint ?n = uint ?n" using n assms(4) by (intro u32_sint_uint) simp
  ultimately show ?thesis using u p by auto
qed

lemma update_file_size_correct_witness:
  "\<exists>st' st'' n. add_file new_pmeta ''/a'' 512 256 256 (0, 0) = (1, st') \<and>
     update_file_size st' 1 (-5) = (0, st'') \<and>
     pmeta_view st'' = [''/a'' \<mapsto> (new_info 1 ''/a'' 512 256 256 (0, 0))\<lparr>pm_size := n\<rparr>]"
proof -
  obtain st' where a: "add_file new_pmeta ''/a'' 512 256 256 (0, 0) = (sint (1 :: u32), st')" "pmeta_inv st'"
    "pmeta_view st' = [''/a'' \<mapsto> new_info 1 ''/a'' 512 256 256 (0, 0)]"
    using add_file_effect[OF pmeta_inv_new, of "''/a''" 512 256 256 "(0, 0)"]
    by (auto simp: MAX_FILENAME_LENGTH_def)
  with update_file_size_correct[OF a(2), of "''/a''" "new_info 1 ''/a'' 512 256 256 (0, 0)" "-5"]
  show ?thesis by auto
qed

subsection \<open>File ids over a run\<close>

datatype pmeta_op =
    AddFile string u32 u32 u32 timeval
  | DeleteFile u32
  | ResizeFile u32 int
  | TouchFile file_instance timeval

fun pmeta_apply :: "pmeta_op \<Rightarrow> pmeta \<Rightarrow> int \<times> pmeta" where
  "pmeta_apply (AddFile p ss cs rs t) st = add_file st p ss cs rs t"
| "pmeta_apply (DeleteFile f) st = delete_file_contents st f"
| "pmeta_apply (ResizeFile f d) st = update_file_size st f d"
| "pmeta_apply (TouchFile inst t) st = set_access_time st inst t"

text \<open>The ids returned by the calls of \<open>add_file\<close> of a run; error codes are negative.\<close>

fun new_ids :: "pmeta_op list \<Rightarrow> pmeta \<Rightarrow> int list" where
  "new_ids [] st = []"
| "new_ids (x # xs) st =
     (case pmeta_apply x st of (r, st1) \<Rightarrow>
        (case x of AddFile _ _ _ _ _ \<Rightarrow> (if 0 < r then [r] else []) | _ \<Rightarrow> []) @ new_ids xs st1)"

lemma last_key_found:
  assumes "pmeta_inv st" "pt_files st \<noteq> []"
  shows "file_find (fst (last (pt_files st))) st \<noteq> None"
proof -
  have so: "oc_sorted (<) UNIV fst (pt_files st)" using assms(1) by (simp add: pmeta_inv_def)
  have "fst (last (pt_files st)) \<in> fst ` set (pt_files st)" using assms(2) by (intro imageI) simp
  then have "map_of (pt_files st) (fst (last (pt_files st))) \<noteq> None" by (simp add: map_of_eq_None_iff)
  then show ?thesis using u32_order.om_find_map_of[OF so] by simp
qed

lemma last_id_mono:
  assumes "pmeta_inv st" "pmeta_inv st'" "pt_next st' = pt_next st"
    and "\<And>f. file_find f st' \<noteq> None \<Longrightarrow> file_find f st \<noteq> None"
  shows "last_id st' \<le> last_id st"
proof (cases "pt_next st = ID_NOT_SET \<and> pt_files st' \<noteq> []")
  case True
  then obtain i where "file_find (fst (last (pt_files st'))) st = Some i"
    using assms(4) last_key_found[OF assms(2)] by blast
  then show ?thesis using True assms(3) last_id_bound[OF assms(1)] by (simp add: last_id_def)
next
  case False
  then show ?thesis using assms(3) by (auto simp: last_id_def ID_NOT_SET_def)
qed

lemma pmeta_apply_other:
  assumes "pmeta_inv st" "\<forall>p ss cs rs t. x \<noteq> AddFile p ss cs rs t" "pmeta_apply x st = (r, st')"
  shows "pmeta_inv st' \<and> pt_next st' = pt_next st \<and> last_id st' \<le> last_id st"
proof (cases x)
  case (DeleteFile f)
  show ?thesis
  proof (cases "file_find f st")
    case (Some i)
    show ?thesis
      using delete_file_effect[OF assms(1) Some] last_id_mono[OF assms(1)] assms(3) DeleteFile
      by (smt (verit) Pair_inject pmeta_apply.simps(2))
  qed (use assms DeleteFile in \<open>simp add: delete_file_contents_def\<close>)
next
  case (ResizeFile f d)
  show ?thesis
  proof (cases "file_find f st")
    case (Some i)
    show ?thesis
      using update_file_size_effect[OF assms(1) Some refl, of d] last_id_mono[OF assms(1)] assms(3) ResizeFile Some
      by (smt (verit) Pair_inject pmeta_apply.simps(3) option.distinct(1))
  qed (use assms ResizeFile in \<open>simp add: update_file_size_def\<close>)
next
  case (TouchFile inst t)
  show ?thesis
  proof (cases "file_find (fi_file_id inst) st")
    case (Some i)
    show ?thesis
      using set_access_time_effect[OF assms(1) Some, of t] last_id_mono[OF assms(1)] assms(3) TouchFile Some
      by (smt (verit) Pair_inject pmeta_apply.simps(4) option.distinct(1))
  qed (use assms TouchFile in \<open>simp add: set_access_time_def\<close>)
qed (use assms(2) in simp)

lemma pmeta_apply_add:
  assumes "pmeta_inv st" "uint (last_id st) + 1 < 2 ^ 31"
  obtains r where "r \<le> 0" "add_file st p ss cs rs t = (r, st)"
  | st' where "add_file st p ss cs rs t = (uint (last_id st) + 1, st')" "pmeta_inv st'"
      "uint (pt_next st') = uint (last_id st) + 1" "uint (last_id st') = uint (last_id st) + 1"
proof -
  have u: "uint (last_id st + 1) = uint (last_id st) + 1"
    using u32_add_int[of "last_id st" 1] assms(2) by simp
  then have sn: "sint (last_id st + 1) = uint (last_id st) + 1"
    using assms(2) u32_sint_uint[of "last_id st + 1"] by simp
  have m: "last_id st \<noteq> - 1" using assms(2) by (rule u32_not_max)
  show thesis
  proof (cases "pathname_exists st p \<or> length p > MAX_FILENAME_LENGTH")
    case True
    then have "add_file st p ss cs rs t = (if pathname_exists st p then FILE_EXISTS else FILENAME_INVALID, st)"
      by (auto simp: add_file_def)
    then show thesis by (intro that(1)) (auto simp: pmeta_codes)
  next
    case False
    then have "pmeta_view st p = None" by (simp add: pathname_exists_def pmeta_view_def)
    then obtain st' where "add_file st p ss cs rs t = (sint (last_id st + 1), st')" "pmeta_inv st'"
      "pt_next st' = last_id st + 1"
      using add_file_effect[OF assms(1) _ _ m] False by (metis not_less)
    moreover have "last_id st + 1 \<noteq> 0" using word_less_succ[OF m] by auto
    moreover from calculation have "last_id st' = last_id st + 1"
      by (simp add: last_id_def[of st'] ID_NOT_SET_def)
    ultimately show thesis using that(2) u sn by simp
  qed
qed

lemma pt_next_le: "pt_next st \<le> last_id st"
  by (simp add: last_id_def ID_NOT_SET_def)

text \<open>
  As long as the process runs, \<open>add_file\<close> never returns an id twice, whatever is deleted,
  resized or touched in between: the ids it returns increase strictly.
\<close>

theorem new_ids_increasing:
  assumes "pmeta_inv st" "uint (last_id st) + int (length xs) < 2 ^ 31"
  shows "sorted_wrt (<) (new_ids xs st) \<and> (\<forall>r \<in> set (new_ids xs st). uint (pt_next st) < r)"
  using assms
proof (induction xs arbitrary: st)
  case (Cons x xs)
  obtain r st1 where e: "pmeta_apply x st = (r, st1)" by force
  show ?case
  proof (cases x)
    case (AddFile p ss cs rs t)
    have "uint (last_id st) + 1 < 2 ^ 31" using Cons.prems(2) by simp
    from pmeta_apply_add[OF Cons.prems(1) this, of p ss cs rs t] show ?thesis
    proof cases
      case (1 r')
      with e AddFile Cons show ?thesis by simp
    next
      case (2 st')
      then have "sorted_wrt (<) (new_ids xs st') \<and> (\<forall>r \<in> set (new_ids xs st'). uint (last_id st) + 1 < r)"
        using Cons.IH[of st'] Cons.prems(2) by simp
      moreover have "uint (pt_next st) \<le> uint (last_id st)" using pt_next_le[of st] by (simp add: word_le_def)
      ultimately show ?thesis using 2 AddFile uint_nonnegative[of "last_id st"] by fastforce
    qed
  next
    case (DeleteFile f)
    then show ?thesis using pmeta_apply_other[OF Cons.prems(1) _ e] Cons.IH[of st1] Cons.prems(2) e
      by (simp add: word_le_def)
  next
    case (ResizeFile f d)
    then show ?thesis using pmeta_apply_other[OF Cons.prems(1) _ e] Cons.IH[of st1] Cons.prems(2) e
      by (simp add: word_le_def)
  next
    case (TouchFile inst t)
    then show ?thesis using pmeta_apply_other[OF Cons.prems(1) _ e] Cons.IH[of st1] Cons.prems(2) e
      by (simp add: word_le_def)
  qed
qed simp

lemma new_ids_increasing_witness:
  "sorted_wrt (<) (new_ids [AddFile ''/a'' 512 256 256 (0, 0), DeleteFile 1,
     AddFile ''/a'' 512 256 256 (0, 0)] new_pmeta)"
  using new_ids_increasing[OF pmeta_inv_new, of "[AddFile ''/a'' 512 256 256 (0, 0), DeleteFile 1,
     AddFile ''/a'' 512 256 256 (0, 0)]"] by (simp del: new_ids.simps)

end
