(* ===== verification/Barista_State.thy ===== *)
theory Barista_State
  imports IO_Manager Locking Persistent_Metadata
begin

text \<open>
  The global state of \<open>barista_core.cpp\<close>, the requests it tracks (\<open>barista_core.h\<close>), the
  replies of \<open>barista_network_helper.cpp\<close>, and the calls through to the persistent and the
  volatile metadata. \<open>barista_core\<close> runs in the one thread of the server's loop, so a handler
  is one step. A reply handed to a client's connection is appended to \<open>br_replies\<close>; the code
  only prints a message when that fails.
\<close>

section \<open>Requests and replies\<close>

record request_info =
  rq_expected :: u32
  rq_received :: u32
  rq_file_id :: u32
  rq_client :: client

definition new_request_info :: "client \<Rightarrow> u32 \<Rightarrow> request_info" where
  "new_request_info c f = \<lparr>rq_expected = 0, rq_received = 0, rq_file_id = f, rq_client = c\<rparr>"

text \<open>\<open>read_buffer (size, buf)\<close>: empty when \<open>size\<close> is not positive.\<close>

definition read_buffer :: "int \<Rightarrow> u8 list \<Rightarrow> u8 list" where
  "read_buffer sz buf = (if sz > 0 then take (nat sz) buf else [])"

text \<open>\<open>rr_buf\<close> is the size of the memory allocated for the answer.\<close>

record read_request_info =
  rr_info :: request_info
  rr_fd :: int
  rr_buf :: nat
  rr_packets :: "(file_chunk \<times> u8 list) list"

record write_request =
  wq_request_id :: u32
  wq_replica_request_id :: u32

definition write_request_less :: "write_request \<Rightarrow> write_request \<Rightarrow> bool" where
  "write_request_less a b \<longleftrightarrow>
     (if wq_request_id a \<noteq> wq_request_id b then wq_request_id a < wq_request_id b
      else wq_replica_request_id a < wq_replica_request_id b)"

interpretation write_request_order: strict_total_order write_request_less UNIV
proof
  show "write_request_less x y \<or> write_request_less y x" if "x \<noteq> y" for x y
  proof -
    have "wq_request_id x \<noteq> wq_request_id y \<or> wq_replica_request_id x \<noteq> wq_replica_request_id y"
      using that by (cases x; cases y) auto
    then show ?thesis by (auto simp: write_request_less_def)
  qed
qed (auto simp: write_request_less_def split: if_splits)

record write_request_info =
  wr_info :: request_info
  wr_replica_info :: request_info
  wr_fd :: int
  wr_count :: int

datatype reply =
    Open_Result client int
  | Read_Result client int int "u8 list"
  | Write_Result client int int
  | Close_Result client int
  | Seek_Result client int
  | Remove_Result client int
  | Storage_Stat_Result client string

section \<open>State\<close>

record barista =
  br_io :: io_state
  br_pm :: pmeta
  br_locks :: file_locks
  br_meta :: meta_lock
  br_reads :: "(u32 \<times> read_request_info) list"
  br_write_lookups :: "(u32 \<times> write_request) list"
  br_writes :: "(write_request \<times> write_request_info) list"
  br_deletes :: "(u32 \<times> request_info) list"
  br_replies :: "reply list"

abbreviation br_vm :: "barista \<Rightarrow> vmeta" where
  "br_vm st \<equiv> io_vmeta (br_io st)"

abbreviation set_vm :: "vmeta \<Rightarrow> barista \<Rightarrow> barista" where
  "set_vm v st \<equiv> st\<lparr>br_io := (br_io st)\<lparr>io_vmeta := v\<rparr>\<rparr>"

definition send_reply :: "reply \<Rightarrow> barista \<Rightarrow> barista" where
  "send_reply r st = st\<lparr>br_replies := br_replies st @ [r]\<rparr>"

definition NO_METADATA_LOCK :: int where "NO_METADATA_LOCK = -4"
definition FILE_IN_USE :: int where "FILE_IN_USE = -1"
definition FILE_NOT_OPEN_FOR_WRITE :: int where "FILE_NOT_OPEN_FOR_WRITE = -2"
definition FILE_NOT_OPEN_FOR_READ :: int where "FILE_NOT_OPEN_FOR_READ = -3"
definition UNABLE_TO_STAT_FILE :: int where "UNABLE_TO_STAT_FILE = -4"
definition FILE_NOT_FOUND_FOR_READING :: int where "FILE_NOT_FOUND_FOR_READING = -5"
definition STRIPE_ID_INIT :: u32 where "STRIPE_ID_INIT = 1"

lemmas core_codes = NO_METADATA_LOCK_def FILE_IN_USE_def FILE_NOT_OPEN_FOR_WRITE_def
  FILE_NOT_OPEN_FOR_READ_def UNABLE_TO_STAT_FILE_def FILE_NOT_FOUND_FOR_READING_def STRIPE_ID_INIT_def

section \<open>Persistent metadata under the metadata lock\<close>

text \<open>The common frame of the call throughs: lock, call, release.\<close>

definition with_metadata_lock ::
    "client \<Rightarrow> (pmeta \<Rightarrow> 'a \<times> pmeta) \<Rightarrow> 'a \<Rightarrow> barista \<Rightarrow> ('a \<times> barista) outcome" where
  "with_metadata_lock c f no_lock st =
     outcome_bind (get_metadata_lock c (br_meta st)) (\<lambda>(r, m).
       if r < 0 then Returned (no_lock, st\<lparr>br_meta := m\<rparr>)
       else case f (br_pm st) of (res, pm) \<Rightarrow>
         outcome_bind (release_metadata_lock c m) (\<lambda>(_, m').
           Returned (res, st\<lparr>br_meta := m', br_pm := pm\<rparr>)))"

definition core_get_num_files :: "client \<Rightarrow> barista \<Rightarrow> (int \<times> barista) outcome" where
  "core_get_num_files c = with_metadata_lock c (\<lambda>pm. (get_num_files pm, pm)) NO_METADATA_LOCK"

text \<open>The names written to the caller's array are the second component.\<close>

definition core_get_filenames :: "int \<Rightarrow> client \<Rightarrow> barista \<Rightarrow> ((int \<times> string list) \<times> barista) outcome" where
  "core_get_filenames sz c =
     with_metadata_lock c (\<lambda>pm. let ns = get_filenames pm sz in ((int (length ns), ns), pm)) (NO_METADATA_LOCK, [])"

definition core_decafs_file_sstat :: "string \<Rightarrow> client \<Rightarrow> barista \<Rightarrow> ((int \<times> file_stat option) \<times> barista) outcome" where
  "core_decafs_file_sstat p c =
     with_metadata_lock c (\<lambda>pm. (decafs_file_sstat pm p, pm)) (NO_METADATA_LOCK, None)"

definition core_decafs_file_stat :: "u32 \<Rightarrow> client \<Rightarrow> barista \<Rightarrow> ((int \<times> file_stat option) \<times> barista) outcome" where
  "core_decafs_file_stat f c =
     with_metadata_lock c (\<lambda>pm. (decafs_file_stat pm f, pm)) (NO_METADATA_LOCK, None)"

definition core_set_access_time :: "file_instance \<Rightarrow> timeval \<Rightarrow> client \<Rightarrow> barista \<Rightarrow> (int \<times> barista) outcome" where
  "core_set_access_time inst time c =
     with_metadata_lock c (\<lambda>pm. set_access_time pm inst time) NO_METADATA_LOCK"

definition core_add_file ::
    "string \<Rightarrow> u32 \<Rightarrow> u32 \<Rightarrow> u32 \<Rightarrow> timeval \<Rightarrow> client \<Rightarrow> barista \<Rightarrow> (int \<times> barista) outcome" where
  "core_add_file p stripe_size chunk_size replica_size time c =
     with_metadata_lock c (\<lambda>pm. add_file pm p stripe_size chunk_size replica_size time) NO_METADATA_LOCK"

definition core_delete_file_contents :: "u32 \<Rightarrow> client \<Rightarrow> barista \<Rightarrow> (int \<times> barista) outcome" where
  "core_delete_file_contents f c = with_metadata_lock c (\<lambda>pm. delete_file_contents pm f) NO_METADATA_LOCK"

definition core_update_file_size :: "u32 \<Rightarrow> int \<Rightarrow> client \<Rightarrow> barista \<Rightarrow> (int \<times> barista) outcome" where
  "core_update_file_size f size_delta c =
     with_metadata_lock c (\<lambda>pm. update_file_size pm f size_delta) NO_METADATA_LOCK"

section \<open>Volatile metadata\<close>

definition core_new_request_id :: "barista \<Rightarrow> u32 \<times> barista" where
  "core_new_request_id st = (case get_new_request_id (br_vm st) of (r, v) \<Rightarrow> (r, set_vm v st))"

definition core_new_file_cursor :: "u32 \<Rightarrow> client \<Rightarrow> barista \<Rightarrow> int \<times> barista" where
  "core_new_file_cursor f c st = (case new_file_cursor (br_vm st) f c of (r, v) \<Rightarrow> (r, set_vm v st))"

definition core_close_file_cursor :: "u32 \<Rightarrow> client \<Rightarrow> barista \<Rightarrow> int \<times> barista" where
  "core_close_file_cursor fd c st = (case close_file_cursor (br_vm st) fd c of (r, v) \<Rightarrow> (r, set_vm v st))"

text \<open>\<open>set_file_cursor\<close> calls \<open>decafs_file_stat\<close>, and with it the metadata lock, when the cursor is the client's.\<close>

definition core_set_file_cursor :: "u32 \<Rightarrow> u32 \<Rightarrow> client \<Rightarrow> barista \<Rightarrow> (int \<times> barista) outcome" where
  "core_set_file_cursor fd offset c st =
     (case cursor_find fd (br_vm st) of
        None \<Rightarrow> Returned (INSTANCE_NOT_FOUND, st)
      | Some inst \<Rightarrow>
          if client_eq (fi_client_id inst) c then
            outcome_bind (core_decafs_file_stat (fi_file_id inst) c st) (\<lambda>((_, info), st1).
            outcome_bind (set_file_cursor (\<lambda>_. Returned info) (br_vm st1) fd offset c) (\<lambda>(r, v).
              Returned (r, set_vm v st1)))
          else Returned (WRONG_CLIENT, st))"

section \<open>Start\<close>

definition new_barista :: barista where
  "new_barista = \<lparr>br_io = empty_io, br_pm = new_pmeta, br_locks = Map.empty, br_meta = new_meta_lock,
     br_reads = [], br_write_lookups = [], br_writes = [], br_deletes = [], br_replies = []\<rparr>"

text \<open>
  \<open>barista_core_init\<close> after the metadata files are open, with the numbers \<open>atoi\<close> made of the
  arguments; \<open>None\<close>: the process exits with a failure.
\<close>

definition barista_core_init :: "int \<Rightarrow> int \<Rightarrow> int \<Rightarrow> int \<Rightarrow> barista \<Rightarrow> barista option" where
  "barista_core_init argc stripe chunk num st =
     (if argc < 6 then None
      else case set_stripe_size (br_vm st) (word_of_int stripe) of (r1, v1) \<Rightarrow>
        if r1 < 0 then None
        else case set_chunk_size v1 (word_of_int chunk) of (r2, v2) \<Rightarrow>
          if r2 < 0 then None
          else Some (set_vm (snd (set_num_espressos v2 (word_of_int num))) st))"

section \<open>The frame of a call through\<close>

definition meta_free :: "barista \<Rightarrow> bool" where
  "meta_free st \<longleftrightarrow> ml_owner_uid (br_meta st) = 0"

text \<open>The lock after a call: free, still naming the last caller.\<close>

definition touch_meta :: "client \<Rightarrow> barista \<Rightarrow> barista" where
  "touch_meta c st = st\<lparr>br_meta := \<lparr>ml_owner_uid = 0, ml_owner_ip = ip c, ml_proc = ctc c\<rparr>\<rparr>"

lemma touch_meta_simps [simp]:
  "br_io (touch_meta c st) = br_io st" "br_pm (touch_meta c st) = br_pm st"
  "br_locks (touch_meta c st) = br_locks st" "br_reads (touch_meta c st) = br_reads st"
  "br_writes (touch_meta c st) = br_writes st" "br_write_lookups (touch_meta c st) = br_write_lookups st"
  "br_deletes (touch_meta c st) = br_deletes st" "br_replies (touch_meta c st) = br_replies st"
  "meta_free (touch_meta c st)"
  by (simp_all add: touch_meta_def meta_free_def)

lemma with_metadata_lock_eq:
  assumes "user_id c \<noteq> 0" "meta_free st"
  shows "with_metadata_lock c f e st =
    Returned (fst (f (br_pm st)), (touch_meta c st)\<lparr>br_pm := snd (f (br_pm st))\<rparr>)"
  using assms by (cases "f (br_pm st)") (simp add: with_metadata_lock_def get_metadata_lock_def
      release_metadata_lock_def meta_free_def touch_meta_def lock_codes)

lemma with_metadata_lock_aborts: "user_id c = 0 \<Longrightarrow> with_metadata_lock c f e st = Aborted"
  by (simp add: with_metadata_lock_def get_metadata_lock_def)

lemma with_metadata_lock_free:
  "meta_free st \<Longrightarrow> with_metadata_lock c f e st = Returned (r, st') \<Longrightarrow> meta_free st'"
  using with_metadata_lock_eq[of c st f e] with_metadata_lock_aborts[of c f e st]
  by (cases "user_id c = 0") (auto simp: meta_free_def touch_meta_def)

lemma with_metadata_lock_read:
  assumes "user_id c \<noteq> 0" "meta_free st"
  shows "with_metadata_lock c (\<lambda>pm. (g pm, pm)) e st = Returned (g (br_pm st), touch_meta c st)"
  using with_metadata_lock_eq[OF assms, of "\<lambda>pm. (g pm, pm)" e] by (simp add: touch_meta_def)

lemma core_stat_eq:
  "user_id c \<noteq> 0 \<Longrightarrow> meta_free st \<Longrightarrow>
   core_decafs_file_stat f c st = Returned (decafs_file_stat (br_pm st) f, touch_meta c st)"
  by (simp add: core_decafs_file_stat_def with_metadata_lock_read)

lemma core_sstat_eq:
  "user_id c \<noteq> 0 \<Longrightarrow> meta_free st \<Longrightarrow>
   core_decafs_file_sstat p c st = Returned (decafs_file_sstat (br_pm st) p, touch_meta c st)"
  by (simp add: core_decafs_file_sstat_def with_metadata_lock_read)

lemma core_update_eq:
  "user_id c \<noteq> 0 \<Longrightarrow> meta_free st \<Longrightarrow> update_file_size (br_pm st) f d = (r, pm) \<Longrightarrow>
   core_update_file_size f d c st = Returned (r, (touch_meta c st)\<lparr>br_pm := pm\<rparr>)"
  by (simp add: core_update_file_size_def with_metadata_lock_eq)

lemma core_delete_eq:
  "user_id c \<noteq> 0 \<Longrightarrow> meta_free st \<Longrightarrow> delete_file_contents (br_pm st) f = (r, pm) \<Longrightarrow>
   core_delete_file_contents f c st = Returned (r, (touch_meta c st)\<lparr>br_pm := pm\<rparr>)"
  by (simp add: core_delete_file_contents_def with_metadata_lock_eq)

lemma core_add_eq:
  "user_id c \<noteq> 0 \<Longrightarrow> meta_free st \<Longrightarrow> add_file (br_pm st) p ss cs rs t = (r, pm) \<Longrightarrow>
   core_add_file p ss cs rs t c st = Returned (r, (touch_meta c st)\<lparr>br_pm := pm\<rparr>)"
  by (simp add: core_add_file_def with_metadata_lock_eq)

lemma meta_free_cong [simp]:
  "meta_free (st\<lparr>br_io := io\<rparr>) = meta_free st" "meta_free (st\<lparr>br_pm := pm\<rparr>) = meta_free st"
  "meta_free (st\<lparr>br_locks := l\<rparr>) = meta_free st" "meta_free (st\<lparr>br_reads := rd\<rparr>) = meta_free st"
  "meta_free (st\<lparr>br_write_lookups := wl\<rparr>) = meta_free st" "meta_free (st\<lparr>br_writes := w\<rparr>) = meta_free st"
  "meta_free (st\<lparr>br_deletes := d\<rparr>) = meta_free st" "meta_free (send_reply r st) = meta_free st"
  by (simp_all add: meta_free_def send_reply_def)

lemma send_reply_simps [simp]:
  "br_io (send_reply r st) = br_io st" "br_pm (send_reply r st) = br_pm st"
  "br_locks (send_reply r st) = br_locks st" "br_reads (send_reply r st) = br_reads st"
  "br_writes (send_reply r st) = br_writes st" "br_write_lookups (send_reply r st) = br_write_lookups st"
  "br_deletes (send_reply r st) = br_deletes st" "br_replies (send_reply r st) = br_replies st @ [r]"
  "br_meta (send_reply r st) = br_meta st"
  by (simp_all add: send_reply_def)

lemma core_set_file_cursor_eq:
  assumes "user_id c \<noteq> 0" "meta_free st" "cursor_find fd (br_vm st) = Some inst" "fi_client_id inst = c"
    and "decafs_file_stat (br_pm st) (fi_file_id inst) = (r, Some info)"
  shows "core_set_file_cursor fd offset c st = Returned (sint (min offset (fs_size info)),
    set_vm ((br_vm st)\<lparr>vm_cursors := om_update (<) fd (inst\<lparr>fi_offset := min offset (fs_size info)\<rparr>)
      (vm_cursors (br_vm st))\<rparr>) (touch_meta c st))"
  using assms by (simp add: core_set_file_cursor_def core_stat_eq set_file_cursor_def Let_def min_def
      not_less[symmetric])

end
