(* ===== verification/Barista_Core.thy ===== *)
theory Barista_Core
  imports Barista_State
begin

text \<open>
  The request handlers of \<open>barista_core.cpp\<close>: opening, reading, writing, seeking, closing and
  deleting a file, and the handlers of the nodes' responses that decide when a request is
  complete. \<open>net\<close> is the network of \<open>IO_Manager\<close>; \<open>n\<close> bounds the iterations of each loop.
  The sizes of requests are \<open>size_t\<close>, hence \<open>nat\<close>.
\<close>

section \<open>Bookkeeping of requests\<close>

definition read_request_exists :: "barista \<Rightarrow> u32 \<Rightarrow> bool" where
  "read_request_exists st r \<longleftrightarrow> om_find (<) r (br_reads st) \<noteq> None"

definition write_request_exists :: "barista \<Rightarrow> u32 \<Rightarrow> bool" where
  "write_request_exists st r \<longleftrightarrow>
     (case om_find (<) r (br_write_lookups st) of
        None \<Rightarrow> False
      | Some request \<Rightarrow> om_find write_request_less request (br_writes st) \<noteq> None)"

definition delete_request_exists :: "barista \<Rightarrow> u32 \<Rightarrow> bool" where
  "delete_request_exists st r \<longleftrightarrow> om_find (<) r (br_deletes st) \<noteq> None"

text \<open>The bytes of the responses in the order of the map; copying more than was allocated is undefined.\<close>

definition check_read_complete :: "u32 \<Rightarrow> barista \<Rightarrow> barista outcome" where
  "check_read_complete request_id st =
     (case om_find (<) request_id (br_reads st) of
        None \<Rightarrow> Aborted
      | Some rr \<Rightarrow>
          if rq_expected (rr_info rr) = 0 then Returned st
          else if rq_expected (rr_info rr) = rq_received (rr_info rr) then
            let data = concat (map snd (rr_packets rr)) in
            guard_defined (length data \<le> rr_buf rr)
             (Returned ((send_reply (Read_Result (rq_client (rr_info rr)) (rr_fd rr) (int (length data)) data) st)
                \<lparr>br_reads := om_erase (<) request_id (br_reads st)\<rparr>))
          else Returned st)"

definition check_write_complete :: "u32 \<Rightarrow> barista \<Rightarrow> barista outcome" where
  "check_write_complete request_id st =
     (case om_find (<) request_id (br_write_lookups st) of
        None \<Rightarrow> Aborted
      | Some request \<Rightarrow>
          case om_find write_request_less request (br_writes st) of
            None \<Rightarrow> Aborted
          | Some wr \<Rightarrow>
              if rq_expected (wr_info wr) = 0 then Returned st
              else if rq_expected (wr_info wr) = rq_received (wr_info wr) \<and>
                      rq_expected (wr_replica_info wr) = rq_received (wr_replica_info wr)
              then Returned ((send_reply (Write_Result (rq_client (wr_info wr)) (wr_fd wr) (wr_count wr)) st)
                     \<lparr>br_writes := om_erase write_request_less request (br_writes st),
                      br_write_lookups := om_erase (<) (wq_replica_request_id request)
                        (om_erase (<) (wq_request_id request) (br_write_lookups st))\<rparr>)
              else Returned st)"

text \<open>\<open>while (delete_file_contents (file_id, client) == NO_METADATA_LOCK);\<close>\<close>

fun retry_delete_contents :: "nat \<Rightarrow> u32 \<Rightarrow> client \<Rightarrow> barista \<Rightarrow> barista outcome" where
  "retry_delete_contents 0 f c st = Running"
| "retry_delete_contents (Suc n) f c st =
     outcome_bind (core_delete_file_contents f c st) (\<lambda>(r, st1).
       if r = NO_METADATA_LOCK then retry_delete_contents n f c st1 else Returned st1)"

definition check_delete_complete :: "nat \<Rightarrow> u32 \<Rightarrow> barista \<Rightarrow> barista outcome" where
  "check_delete_complete n request_id st =
     (case om_find (<) request_id (br_deletes st) of
        None \<Rightarrow> Aborted
      | Some rq \<Rightarrow>
          if rq_expected rq = 0 then Returned st
          else if rq_expected rq = rq_received rq then
            let st1 = send_reply (Remove_Result (rq_client rq) 0) st in
            outcome_bind (retry_delete_contents n (rq_file_id rq) (rq_client rq) st1) (\<lambda>st2.
            outcome_bind (release_lock (rq_client rq) (rq_file_id rq) (br_locks st2)) (\<lambda>(_, locks).
              Returned (st2\<lparr>br_locks := locks, br_deletes := om_erase (<) request_id (br_deletes st2)\<rparr>)))
          else Returned st)"

section \<open>Opening and closing\<close>

text \<open>
  \<open>junk\<close> is the content of the uninitialised \<open>stat\<close> of \<open>open_file\<close>; \<open>O_RDWR\<close> is bit 1 and
  \<open>O_APPEND\<close> bit 10 of \<open>flags\<close>.
\<close>

definition open_file :: "file_stat \<Rightarrow> timeval \<Rightarrow> string \<Rightarrow> u32 \<Rightarrow> client \<Rightarrow> barista \<Rightarrow> barista outcome" where
  "open_file junk time pathname flags c st =
     outcome_bind (core_decafs_file_sstat pathname c st) (\<lambda>((r, info), st1).
     outcome_bind
       (if r = FILE_NOT_FOUND then
          if bit flags 1 then
            outcome_bind (core_add_file pathname (vm_stripe_size (br_vm st1)) (vm_chunk_size (br_vm st1))
               (vm_chunk_size (br_vm st1)) time c st1) (\<lambda>(f, st2).
               Returned (Some (word_of_int f, junk), st2))
          else Returned (None, send_reply (Open_Result c FILE_NOT_FOUND_FOR_READING) st1)
        else
          let s = (case info of Some i \<Rightarrow> i | None \<Rightarrow> junk) in Returned (Some (fs_file_id s, s), st1))
      (\<lambda>(file, st2).
        case file of
          None \<Rightarrow> Returned st2
        | Some (file_id, s) \<Rightarrow>
            outcome_bind (if bit flags 1 then get_exclusive_lock c file_id (br_locks st2)
                          else get_shared_lock c file_id (br_locks st2)) (\<lambda>(l, locks).
              let st3 = st2\<lparr>br_locks := locks\<rparr> in
              if l < 0 then Returned (send_reply (Open_Result c FILE_IN_USE) st3)
              else case core_new_file_cursor file_id c st3 of (cursor, st4) \<Rightarrow>
                outcome_bind
                  (if bit flags 10 then core_set_file_cursor (word_of_int cursor) (fs_size s) c st4
                   else Returned (0, st4))
                  (\<lambda>(_, st5). Returned (send_reply (Open_Result c cursor) st5)))))"

definition close_file :: "int \<Rightarrow> client \<Rightarrow> barista \<Rightarrow> barista outcome" where
  "close_file fd c st =
     (case core_close_file_cursor (word_of_int fd) c st of (file_id, st1) \<Rightarrow>
        outcome_bind
          (if file_id > 0
           then outcome_bind (release_lock c (word_of_int file_id) (br_locks st1))
                  (\<lambda>(_, locks). Returned (st1\<lparr>br_locks := locks\<rparr>))
           else Returned st1)
          (\<lambda>st2. Returned (send_reply (Close_Result c file_id) st2)))"

section \<open>Reading\<close>

definition get_first_stripe :: "nat \<Rightarrow> u32 \<Rightarrow> int \<Rightarrow> (u32 \<times> int) outcome" where
  "get_first_stripe n stripe_size offset = first_loop n stripe_size STRIPE_ID_INIT offset"

fun read_loop ::
    "network \<Rightarrow> nat \<Rightarrow> nat \<Rightarrow> u32 \<Rightarrow> u32 \<Rightarrow> u32 \<Rightarrow> file_stat \<Rightarrow> nat \<Rightarrow> client \<Rightarrow> u32 \<Rightarrow> int \<Rightarrow> u32 \<Rightarrow> u32 \<Rightarrow>
     barista \<Rightarrow> (u32 \<times> barista) outcome" where
  "read_loop net m 0 rid f fd stat count c stripe_id stripe_offset bytes_read num_chunks st = Running"
| "read_loop net m (Suc n) rid f fd stat count c stripe_id stripe_offset bytes_read num_chunks st =
     (if sint bytes_read < sint (of_nat count :: u32) then
        let read_size = part_size (fs_stripe_size stat) count stripe_offset bytes_read in
        outcome_bind (process_read_stripe net m rid f stripe_id (fs_stripe_size stat) (fs_chunk_size stat)
            stripe_offset (unat read_size) (br_io st)) (\<lambda>(k, io).
        let st1 = st\<lparr>br_io := io\<rparr> in
        outcome_bind (core_set_file_cursor fd (word_of_int (get_file_cursor (br_vm st1) fd) + read_size) c st1)
         (\<lambda>(_, st2). read_loop net m n rid f fd stat count c (stripe_id + 1) 0 (bytes_read + read_size)
            (num_chunks + k) st2))
      else Returned (num_chunks, st))"

definition read_refusal :: "client \<Rightarrow> int \<Rightarrow> int \<Rightarrow> barista \<Rightarrow> barista outcome" where
  "read_refusal c fd code st = Returned (send_reply (Read_Result c fd code []) st)"

definition read_file :: "network \<Rightarrow> nat \<Rightarrow> int \<Rightarrow> nat \<Rightarrow> client \<Rightarrow> barista \<Rightarrow> barista outcome" where
  "read_file net n fd count c st0 =
     (case core_new_request_id st0 of (request_id, st) \<Rightarrow>
      guard_assert (fd > 0)
       (let w = word_of_int fd; inst = get_file_info (br_vm st) w; f = fi_file_id inst in
        outcome_bind (has_exclusive_lock c f (br_locks st)) (\<lambda>ex.
        outcome_bind (if ex \<le> 0 then has_shared_lock c f (br_locks st) else Returned 1) (\<lambda>sh.
          if sh \<le> 0 then read_refusal c 0 FILE_NOT_OPEN_FOR_READ st
          else outcome_bind (core_decafs_file_stat f c st) (\<lambda>((r, info), st1).
            if r < 0 then read_refusal c 0 UNABLE_TO_STAT_FILE st1
            else
              let stat = the info; file_offset = get_file_cursor (br_vm st1) w in
              if file_offset < 0 then read_refusal c 0 FILE_NOT_OPEN_FOR_READ st1
              else if file_offset \<ge> sint (fs_size stat) \<or> count = 0 then read_refusal c fd 0 st1
              else
                let rr = \<lparr>rr_info = new_request_info c f, rr_fd = fd, rr_buf = count, rr_packets = []\<rparr>;
                    st2 = st1\<lparr>br_reads := om_update (<) request_id rr (br_reads st1)\<rparr>
                in outcome_bind (get_first_stripe n (fs_stripe_size stat) file_offset) (\<lambda>(stripe_id, stripe_offset).
                   outcome_bind (read_loop net n n request_id f w stat count c stripe_id stripe_offset 0 0 st2)
                    (\<lambda>(num_chunks, st3).
                      case om_find (<) request_id (br_reads st3) of
                        None \<Rightarrow> Aborted
                      | Some rr \<Rightarrow>
                          check_read_complete request_id (st3\<lparr>br_reads := om_update (<) request_id
                            (rr\<lparr>rr_info := (rr_info rr)\<lparr>rq_expected := num_chunks\<rparr>\<rparr>) (br_reads st3)\<rparr>))))))))"

text \<open>A \<open>ReadChunkResponse\<close>: id, chunk, \<open>count\<close> and the data.\<close>

definition read_response_handler :: "u32 \<Rightarrow> file_chunk \<Rightarrow> int \<Rightarrow> u8 list \<Rightarrow> barista \<Rightarrow> barista outcome" where
  "read_response_handler rid chunk count data st =
     (case om_find (<) rid (br_reads st) of
        None \<Rightarrow> Aborted
      | Some rr \<Rightarrow>
          check_read_complete rid (st\<lparr>br_reads := om_update (<) rid
            (rr\<lparr>rr_info := (rr_info rr)\<lparr>rq_received := rq_received (rr_info rr) + 1\<rparr>,
                rr_packets := om_update file_chunk_less chunk (read_buffer count data) (rr_packets rr)\<rparr>)
            (br_reads st)\<rparr>))"

section \<open>Writing\<close>

fun write_loop ::
    "network \<Rightarrow> nat \<Rightarrow> nat \<Rightarrow> u32 \<Rightarrow> u32 \<Rightarrow> u32 \<Rightarrow> u32 \<Rightarrow> file_stat \<Rightarrow> u8 list \<Rightarrow> nat \<Rightarrow> client \<Rightarrow> u32 \<Rightarrow> int \<Rightarrow> u32 \<Rightarrow>
     u32 \<Rightarrow> barista \<Rightarrow> (u32 \<times> barista) outcome" where
  "write_loop net m 0 rid rrid f fd stat buf count c stripe_id stripe_offset bytes_written num_chunks st = Running"
| "write_loop net m (Suc n) rid rrid f fd stat buf count c stripe_id stripe_offset bytes_written num_chunks st =
     (if sint bytes_written < sint (of_nat count :: u32) then
        let write_size = part_size (fs_stripe_size stat) count stripe_offset bytes_written in
        outcome_bind (process_write_stripe net m rid rrid f stripe_id (fs_stripe_size stat) (fs_chunk_size stat)
            (drop (unat bytes_written) buf) stripe_offset (unat write_size) (br_io st)) (\<lambda>(k, io).
        outcome_bind (core_update_file_size f (sint write_size) c (st\<lparr>br_io := io\<rparr>)) (\<lambda>(_, st1).
        outcome_bind (core_set_file_cursor fd (word_of_int (get_file_cursor (br_vm st1) fd) + write_size) c st1)
         (\<lambda>(_, st2). write_loop net m n rid rrid f fd stat buf count c (stripe_id + 1) 0
            (bytes_written + write_size) (num_chunks + k) st2)))
      else Returned (num_chunks, st))"

definition write_refusal :: "client \<Rightarrow> int \<Rightarrow> barista \<Rightarrow> barista outcome" where
  "write_refusal c code st = Returned (send_reply (Write_Result c 0 code) st)"

text \<open>Primary and replica chunks are counted alike by \<open>process_write_stripe\<close>, so one number serves both.\<close>

definition write_file :: "network \<Rightarrow> nat \<Rightarrow> int \<Rightarrow> u8 list \<Rightarrow> nat \<Rightarrow> client \<Rightarrow> barista \<Rightarrow> barista outcome" where
  "write_file net n fd buf count c st0 =
     (case core_new_request_id st0 of (request_id, st') \<Rightarrow>
      case core_new_request_id st' of (replica_request_id, st) \<Rightarrow>
      guard_assert (fd > 0)
       (let w = word_of_int fd; inst = get_file_info (br_vm st) w; f = fi_file_id inst;
            request = \<lparr>wq_request_id = request_id, wq_replica_request_id = replica_request_id\<rparr> in
        outcome_bind (has_exclusive_lock c f (br_locks st)) (\<lambda>ex.
          if ex \<le> 0 then write_refusal c FILE_NOT_OPEN_FOR_WRITE st
          else outcome_bind (core_decafs_file_stat f c st) (\<lambda>((r, info), st1).
            if r < 0 then write_refusal c UNABLE_TO_STAT_FILE st1
            else
              let stat = the info; file_offset = get_file_cursor (br_vm st1) w in
              if file_offset < 0 then write_refusal c FILE_NOT_OPEN_FOR_WRITE st1
              else if count = 0 then write_refusal c 0 st1
              else
                let wr = \<lparr>wr_info = new_request_info c f, wr_replica_info = new_request_info c f, wr_fd = fd, wr_count = 0\<rparr>;
                    st2 = st1\<lparr>br_write_lookups := om_update (<) replica_request_id request
                               (om_update (<) request_id request (br_write_lookups st1)),
                             br_writes := om_update write_request_less request wr (br_writes st1)\<rparr>
                in outcome_bind (get_first_stripe n (fs_stripe_size stat) file_offset) (\<lambda>(stripe_id, stripe_offset).
                   outcome_bind (write_loop net n n request_id replica_request_id f w stat buf count c
                      stripe_id stripe_offset 0 0 st2) (\<lambda>(num_chunks, st3).
                      guard_assert (write_request_exists st3 request_id)
                       (let wr = the (om_find write_request_less request (br_writes st3)) in
                        check_write_complete request_id (st3\<lparr>br_writes := om_update write_request_less request
                          (wr\<lparr>wr_info := (wr_info wr)\<lparr>rq_expected := num_chunks\<rparr>,
                              wr_replica_info := (wr_replica_info wr)\<lparr>rq_expected := num_chunks\<rparr>\<rparr>)
                          (br_writes st3)\<rparr>))))))))"

text \<open>A \<open>WriteChunkResponse\<close>: id and \<open>count\<close>.\<close>

definition write_response_handler :: "u32 \<Rightarrow> int \<Rightarrow> barista \<Rightarrow> barista outcome" where
  "write_response_handler rid count st =
     (case om_find (<) rid (br_write_lookups st) of
        None \<Rightarrow> Aborted
      | Some request \<Rightarrow>
          case om_find write_request_less request (br_writes st) of
            None \<Rightarrow> Aborted
          | Some wr \<Rightarrow>
              let wr' = (if rid = wq_request_id request
                         then wr\<lparr>wr_info := (wr_info wr)\<lparr>rq_received := rq_received (wr_info wr) + 1\<rparr>,
                                 wr_count := wr_count wr + count\<rparr>
                         else wr\<lparr>wr_replica_info := (wr_replica_info wr)
                                 \<lparr>rq_received := rq_received (wr_replica_info wr) + 1\<rparr>\<rparr>)
              in check_write_complete rid
                   (st\<lparr>br_writes := om_update write_request_less request wr' (br_writes st)\<rparr>))"

section \<open>Deleting\<close>

definition delete_file :: "network \<Rightarrow> nat \<Rightarrow> string \<Rightarrow> client \<Rightarrow> barista \<Rightarrow> barista outcome" where
  "delete_file net n pathname c st0 =
     (case core_new_request_id st0 of (request_id, st) \<Rightarrow>
      outcome_bind (core_decafs_file_sstat pathname c st) (\<lambda>((r, info), st1).
        if r < 0 then Returned (send_reply (Remove_Result c FILE_NOT_FOUND) st1)
        else
          let f = fs_file_id (the info) in
          outcome_bind (get_exclusive_lock c f (br_locks st1)) (\<lambda>(l, locks).
            let st2 = st1\<lparr>br_locks := locks\<rparr> in
            if l < 0 then Returned (send_reply (Remove_Result c FILE_IN_USE) st2)
            else
              let rq = new_request_info c f;
                  st3 = st2\<lparr>br_deletes := om_update (<) request_id rq (br_deletes st2)\<rparr>
              in outcome_bind (process_delete_file net request_id f (br_io st3)) (\<lambda>(num_chunks, io).
                 check_delete_complete n request_id
                   (st3\<lparr>br_io := io,
                        br_deletes := om_update (<) request_id (rq\<lparr>rq_expected := num_chunks\<rparr>) (br_deletes st3)\<rparr>)))))"

definition delete_response_handler :: "nat \<Rightarrow> u32 \<Rightarrow> barista \<Rightarrow> barista outcome" where
  "delete_response_handler n rid st =
     (case om_find (<) rid (br_deletes st) of
        None \<Rightarrow> Aborted
      | Some rq \<Rightarrow>
          check_delete_complete n rid
            (st\<lparr>br_deletes := om_update (<) rid (rq\<lparr>rq_received := rq_received rq + 1\<rparr>) (br_deletes st)\<rparr>))"

section \<open>Seeking\<close>

text \<open>\<open>SEEK_SET\<close> is 0, \<open>SEEK_CUR\<close> 1 and \<open>SEEK_END\<close> 2.\<close>

definition file_seek :: "int \<Rightarrow> u32 \<Rightarrow> int \<Rightarrow> client \<Rightarrow> barista \<Rightarrow> barista outcome" where
  "file_seek fd offset whence c st =
     (let w = word_of_int fd in
      if whence = 2 then
        outcome_bind (core_set_file_cursor w (- 1) c st) (\<lambda>(_, st1).
          Returned (send_reply (Seek_Result c (get_file_cursor (br_vm st1) w)) st1))
      else
        outcome_bind (if whence = 0 then core_set_file_cursor w 0 c st else Returned (0, st)) (\<lambda>(_, st1).
        let cursor_val = get_file_cursor (br_vm st1) w in
        outcome_bind (if cursor_val \<ge> 0
                      then core_set_file_cursor w (word_of_int cursor_val + offset) c st1
                      else Returned (0, st1)) (\<lambda>(_, st2).
          Returned (send_reply (Seek_Result c (get_file_cursor (br_vm st2) w)) st2))))"

end
