(* ===== verification/Barista_Requests.thy ===== *)
theory Barista_Requests
  imports Barista_Core "HOL-Library.Multiset"
begin

text \<open>
  What the response handlers of \<open>barista_core.cpp\<close> achieve together: whatever the order in
  which the storage nodes answer, a request gets one reply, with the data or the count of all
  responses, when the last one has arrived, and its bookkeeping is removed.
\<close>

section \<open>Runs of handlers\<close>

fun run_handlers :: "('e \<Rightarrow> barista \<Rightarrow> barista outcome) \<Rightarrow> 'e list \<Rightarrow> barista \<Rightarrow> barista outcome" where
  "run_handlers h [] st = Returned st"
| "run_handlers h (e # es) st = outcome_bind (h e st) (run_handlers h es)"

abbreviation reads_sorted :: "barista \<Rightarrow> bool" where
  "reads_sorted st \<equiv> oc_sorted (<) UNIV fst (br_reads st)"

lemma u32_map [simp]:
  fixes m :: "(u32 \<times> 'v) list"
  assumes "oc_sorted (<) UNIV fst m"
  shows "om_find (<) g (om_update (<) f v m) = (if g = f then Some v else om_find (<) g m)"
    and "om_find (<) g (om_erase (<) f m) = (if g = f then None else om_find (<) g m)"
    and "oc_sorted (<) UNIV fst (om_update (<) f v m)"
    and "oc_sorted (<) UNIV fst (om_erase (<) f m)"
    and "om_erase (<) f (om_update (<) f v m) = om_erase (<) f m"
    and "om_update (<) f v (om_update (<) f w m) = om_update (<) f v m"
  using assms by (simp_all add: u32_order.kv.find_upd u32_order.kv.find_era u32_order.kv.ok_upd
      u32_order.kv.ok_era u32_order.om_erase_update u32_order.om_update_update)

section \<open>Reads\<close>

text \<open>A response with its chunk and its data.\<close>

definition read_answer :: "u32 \<Rightarrow> file_chunk \<times> u8 list \<Rightarrow> barista \<Rightarrow> barista outcome" where
  "read_answer rid = (\<lambda>(chunk, data). read_response_handler rid chunk (int (length data)) data)"

abbreviation packets_add :: "(file_chunk \<times> u8 list) list \<Rightarrow> (file_chunk \<times> u8 list) list \<Rightarrow> (file_chunk \<times> u8 list) list" where
  "packets_add \<equiv> fold (\<lambda>(c, d). om_update file_chunk_less c d)"

definition read_reply :: "u32 \<Rightarrow> read_request_info \<Rightarrow> u8 list \<Rightarrow> barista \<Rightarrow> barista" where
  "read_reply rid rr data st =
     (send_reply (Read_Result (rq_client (rr_info rr)) (rr_fd rr) (int (length data)) data) st)
       \<lparr>br_reads := om_erase (<) rid (br_reads st)\<rparr>"

abbreviation with_answer :: "file_chunk \<times> u8 list \<Rightarrow> read_request_info \<Rightarrow> read_request_info" where
  "with_answer r rr \<equiv> rr\<lparr>rr_info := (rr_info rr)\<lparr>rq_received := rq_received (rr_info rr) + 1\<rparr>,
     rr_packets := om_update file_chunk_less (fst r) (snd r) (rr_packets rr)\<rparr>"

lemma read_buffer_all [simp]: "read_buffer (int (length d)) d = d"
  by (simp add: read_buffer_def)

lemma read_answer_step:
  assumes "reads_sorted st" "om_find (<) rid (br_reads st) = Some rr" "rq_expected (rr_info rr) \<noteq> 0"
  shows "rq_received (rr_info rr) + 1 \<noteq> rq_expected (rr_info rr) \<Longrightarrow>
      read_answer rid r st = Returned (st\<lparr>br_reads := om_update (<) rid (with_answer r rr) (br_reads st)\<rparr>)"
    and "rq_received (rr_info rr) + 1 = rq_expected (rr_info rr) \<Longrightarrow>
      length (concat (map snd (rr_packets (with_answer r rr)))) \<le> rr_buf rr \<Longrightarrow>
      read_answer rid r st = Returned (read_reply rid rr (concat (map snd (rr_packets (with_answer r rr)))) st)"
proof -
  have h: "read_answer rid r st =
      check_read_complete rid (st\<lparr>br_reads := om_update (<) rid (with_answer r rr) (br_reads st)\<rparr>)"
    using assms(2) by (cases r) (simp add: read_answer_def read_response_handler_def)
  have f: "om_find (<) rid (om_update (<) rid (with_answer r rr) (br_reads st)) = Some (with_answer r rr)"
    using assms(1) by simp
  show "read_answer rid r st = Returned (st\<lparr>br_reads := om_update (<) rid (with_answer r rr) (br_reads st)\<rparr>)"
    if "rq_received (rr_info rr) + 1 \<noteq> rq_expected (rr_info rr)"
    using that assms(3) unfolding h by (auto simp: check_read_complete_def f)
  show "read_answer rid r st = Returned (read_reply rid rr (concat (map snd (rr_packets (with_answer r rr)))) st)"
    if "rq_received (rr_info rr) + 1 = rq_expected (rr_info rr)"
      "length (concat (map snd (rr_packets (with_answer r rr)))) \<le> rr_buf rr"
    using that assms(1,3) unfolding h
    by (simp add: check_read_complete_def f Let_def read_reply_def send_reply_def)
qed

lemma read_answers_complete:
  assumes "reads_sorted st" "om_find (<) rid (br_reads st) = Some rr" "rs \<noteq> []"
    and "uint (rq_received (rr_info rr)) + int (length rs) = uint (rq_expected (rr_info rr))"
    and "length (concat (map snd (packets_add rs (rr_packets rr)))) \<le> rr_buf rr"
  shows "run_handlers (read_answer rid) rs st =
    Returned (read_reply rid rr (concat (map snd (packets_add rs (rr_packets rr)))) st)"
  using assms
proof (induction rs arbitrary: st rr)
  case (Cons r rs)
  let ?rr = "rr\<lparr>rr_info := (rr_info rr)\<lparr>rq_received := rq_received (rr_info rr) + 1\<rparr>,
      rr_packets := om_update file_chunk_less (fst r) (snd r) (rr_packets rr)\<rparr>"
  have lt: "uint (rq_expected (rr_info rr)) < 2 ^ 32" using uint_lt2p[of "rq_expected (rr_info rr)"] by simp
  then have u: "uint (rq_received (rr_info rr) + 1) = uint (rq_received (rr_info rr)) + 1"
    using Cons.prems(4) u32_add_uint[of "rq_received (rr_info rr)" 1] by simp
  have "0 < int (length (r # rs))" by simp
  then have "0 < uint (rq_expected (rr_info rr))"
    using Cons.prems(4) uint_ge_0[of "rq_received (rr_info rr)"] by linarith
  then have nz: "rq_expected (rr_info rr) \<noteq> 0" by auto
  have pk: "packets_add (r # rs) (rr_packets rr) = packets_add rs (rr_packets ?rr)" by (simp add: case_prod_beta)
  note step = read_answer_step[OF Cons.prems(1,2) nz]
  show ?case
  proof (cases "rs = []")
    case True
    then have "uint (rq_received (rr_info rr) + 1) = uint (rq_expected (rr_info rr))"
      using Cons.prems(4) u by simp
    then have "rq_received (rr_info rr) + 1 = rq_expected (rr_info rr)" by (rule word_uint_eqI)
    moreover have "length (concat (map snd (rr_packets ?rr))) \<le> rr_buf rr"
      using Cons.prems(5) unfolding pk by (simp add: True)
    ultimately show ?thesis using step(2)[of r] True by (simp add: case_prod_beta)
  next
    case False
    then have "uint (rq_received (rr_info rr) + 1) \<noteq> uint (rq_expected (rr_info rr))"
      using Cons.prems(4) u by (cases rs) auto
    then have "rq_received (rr_info rr) + 1 \<noteq> rq_expected (rr_info rr)" by auto
    then have s: "read_answer rid r st = Returned (st\<lparr>br_reads := om_update (<) rid ?rr (br_reads st)\<rparr>)"
      by (rule step(1))
    have "run_handlers (read_answer rid) rs (st\<lparr>br_reads := om_update (<) rid ?rr (br_reads st)\<rparr>) =
        Returned (read_reply rid ?rr (concat (map snd (packets_add rs (rr_packets ?rr))))
          (st\<lparr>br_reads := om_update (<) rid ?rr (br_reads st)\<rparr>))"
      using Cons.prems False u unfolding pk by (intro Cons.IH) auto
    with s Cons.prems(1) show ?thesis unfolding pk by (simp add: read_reply_def send_reply_def)
  qed
qed simp

lemma packets_in_order:
  assumes "oc_sorted file_chunk_less (chunk_window lo hi) fst cs" "mset rs = mset cs"
  shows "packets_add rs [] = cs"
proof -
  have k: "fst ` set rs \<subseteq> chunk_window lo hi"
    using assms by (auto simp: oc_sorted_def dest: mset_eq_setD)
  have e: "oc_sorted file_chunk_less (chunk_window lo hi) fst ([] :: (file_chunk \<times> u8 list) list)"
    by (simp add: oc_sorted_def)
  have d: "distinct (map fst cs)" using chunk_order.sorted_distinct_keys[OF assms(1)] .
  have "mset (map fst (rev rs)) = mset (map fst cs)" using assms(2) by simp
  then have d': "distinct (map fst (rev rs))" using d by (metis mset_eq_imp_distinct_iff)
  show ?thesis
  proof (rule chunk_order.sorted_map_unique[OF chunk_order.fold_om_update_sorted[OF e k] assms(1)])
    have "set (rev rs) = set cs" using assms(2) by (auto dest: mset_eq_setD)
    then have "map_of (rev rs) = map_of cs" using map_of_inject_set[OF d' d] by simp
    then show "map_of (packets_add rs []) = map_of cs"
      using chunk_order.fold_om_update_map_of[OF e k] by simp
  qed
qed

section \<open>Writes\<close>

text \<open>A response to a request for a chunk or, when not \<open>fst\<close>, for its replica; and the count of bytes.\<close>

definition write_answer :: "write_request \<Rightarrow> bool \<times> int \<Rightarrow> barista \<Rightarrow> barista outcome" where
  "write_answer q e = write_response_handler
     (if fst e then wq_request_id q else wq_replica_request_id q) (snd e)"

definition write_reply :: "write_request \<Rightarrow> write_request_info \<Rightarrow> int \<Rightarrow> barista \<Rightarrow> barista" where
  "write_reply q wr n st =
     (send_reply (Write_Result (rq_client (wr_info wr)) (wr_fd wr) n) st)
       \<lparr>br_writes := om_erase write_request_less q (br_writes st),
        br_write_lookups := om_erase (<) (wq_replica_request_id q)
          (om_erase (<) (wq_request_id q) (br_write_lookups st))\<rparr>"

definition write_pending :: "write_request \<Rightarrow> write_request_info \<Rightarrow> barista \<Rightarrow> bool" where
  "write_pending q wr st \<longleftrightarrow> oc_sorted write_request_less UNIV fst (br_writes st) \<and>
     wq_request_id q \<noteq> wq_replica_request_id q \<and>
     om_find (<) (wq_request_id q) (br_write_lookups st) = Some q \<and>
     om_find (<) (wq_replica_request_id q) (br_write_lookups st) = Some q \<and>
     om_find write_request_less q (br_writes st) = Some wr"

abbreviation with_write_answer :: "bool \<times> int \<Rightarrow> write_request_info \<Rightarrow> write_request_info" where
  "with_write_answer e wr \<equiv>
     (if fst e then wr\<lparr>wr_info := (wr_info wr)\<lparr>rq_received := rq_received (wr_info wr) + 1\<rparr>, wr_count := wr_count wr + snd e\<rparr>
      else wr\<lparr>wr_replica_info := (wr_replica_info wr)\<lparr>rq_received := rq_received (wr_replica_info wr) + 1\<rparr>\<rparr>)"

abbreviation write_done :: "write_request_info \<Rightarrow> bool" where
  "write_done wr \<equiv> rq_expected (wr_info wr) = rq_received (wr_info wr) \<and>
     rq_expected (wr_replica_info wr) = rq_received (wr_replica_info wr)"

lemma write_pending_update:
  "write_pending q wr st \<Longrightarrow> write_pending q wr' (st\<lparr>br_writes := om_update write_request_less q wr' (br_writes st)\<rparr>)"
  by (simp add: write_pending_def write_request_order.kv.find_upd write_request_order.kv.ok_upd)

lemma write_answer_step:
  assumes p: "write_pending q wr st" and nz: "rq_expected (wr_info wr) \<noteq> 0"
  shows "write_answer q e st =
    Returned (if write_done (with_write_answer e wr)
      then write_reply q wr (wr_count (with_write_answer e wr)) st
      else st\<lparr>br_writes := om_update write_request_less q (with_write_answer e wr) (br_writes st)\<rparr>)"
proof -
  let ?rid = "if fst e then wq_request_id q else wq_replica_request_id q"
  let ?wr = "with_write_answer e wr"
  let ?st = "st\<lparr>br_writes := om_update write_request_less q ?wr (br_writes st)\<rparr>"
  have so: "oc_sorted write_request_less UNIV fst (br_writes st)" using p by (simp add: write_pending_def)
  have h: "write_answer q e st = check_write_complete ?rid ?st"
    using p by (auto simp: write_answer_def write_response_handler_def write_pending_def Let_def)
  have f: "om_find (<) ?rid (br_write_lookups ?st) = Some q" "om_find write_request_less q (br_writes ?st) = Some ?wr"
    using p write_pending_update[OF p, of ?wr] by (auto simp: write_pending_def)
  have e: "rq_expected (wr_info ?wr) = rq_expected (wr_info wr)" "rq_client (wr_info ?wr) = rq_client (wr_info wr)"
    "wr_fd ?wr = wr_fd wr" by auto
  have er: "om_erase write_request_less q (om_update write_request_less q ?wr (br_writes st)) =
      om_erase write_request_less q (br_writes st)"
    using write_request_order.om_erase_update[OF so] by simp
  show ?thesis
  proof (cases "write_done ?wr")
    case True
    then have "check_write_complete ?rid ?st = Returned (write_reply q wr (wr_count ?wr) st)"
      unfolding check_write_complete_def f option.case using nz er
      by (simp add: e write_reply_def send_reply_def split del: if_split)
    then show ?thesis unfolding h if_P[OF True] .
  next
    case False
    then have "check_write_complete ?rid ?st = Returned ?st"
      unfolding check_write_complete_def f option.case if_not_P[OF False] by (simp only: if_cancel)
    then show ?thesis unfolding h if_not_P[OF False] .
  qed
qed

abbreviation primary_counts :: "(bool \<times> int) list \<Rightarrow> int list" where
  "primary_counts es \<equiv> map snd (filter fst es)"

lemma write_answers_complete:
  assumes "write_pending q wr st" "es \<noteq> []" "rq_expected (wr_info wr) \<noteq> 0"
    and "uint (rq_received (wr_info wr)) + int (length (filter fst es)) = uint (rq_expected (wr_info wr))"
    and "uint (rq_received (wr_replica_info wr)) + int (length (filter (\<lambda>e. \<not> fst e) es)) =
      uint (rq_expected (wr_replica_info wr))"
  shows "run_handlers (write_answer q) es st =
    Returned (write_reply q wr (wr_count wr + sum_list (primary_counts es)) st)"
  using assms
proof (induction es arbitrary: st wr)
  case (Cons e es)
  let ?wr = "with_write_answer e wr" and ?st = "st\<lparr>br_writes := om_update write_request_less q (with_write_answer e wr) (br_writes st)\<rparr>"
  have lt: "uint (rq_expected (wr_info wr)) < 2 ^ 32" "uint (rq_expected (wr_replica_info wr)) < 2 ^ 32"
    using uint_lt2p[of "rq_expected (wr_info wr)"] uint_lt2p[of "rq_expected (wr_replica_info wr)"] by simp_all
  have u: "uint (rq_received (wr_info ?wr)) + int (length (filter fst es)) = uint (rq_expected (wr_info ?wr))"
    "uint (rq_received (wr_replica_info ?wr)) + int (length (filter (\<lambda>e. \<not> fst e) es)) = uint (rq_expected (wr_replica_info ?wr))"
    using Cons.prems(4,5) lt u32_add_uint[of "rq_received (wr_info wr)" 1]
      u32_add_uint[of "rq_received (wr_replica_info wr)" 1] by auto
  have nz: "rq_expected (wr_info ?wr) \<noteq> 0" using Cons.prems(3) by simp
  have c: "wr_count ?wr + sum_list (primary_counts es) = wr_count wr + sum_list (primary_counts (e # es))" by simp
  note step = write_answer_step[OF Cons.prems(1,3)]
  show ?case
  proof (cases "es = []")
    case True
    then have d: "write_done ?wr" using u by (auto intro!: word_uint_eqI)
    have "wr_count ?wr = wr_count wr + sum_list (primary_counts (e # es))" using c True by simp
    then show ?thesis using True step[of e] unfolding if_P[OF d] by simp
  next
    case False
    have nd: "\<not> write_done ?wr"
    proof
      assume "write_done ?wr"
      then have "length (filter fst es) = 0 \<and> length (filter (\<lambda>e. \<not> fst e) es) = 0" using u by simp
      then show False using False by (cases es) (auto split: if_splits)
    qed
    have s: "write_answer q e st = Returned ?st" using step[of e] unfolding if_not_P[OF nd] .
    have "run_handlers (write_answer q) es ?st = Returned (write_reply q ?wr (wr_count ?wr + sum_list (primary_counts es)) ?st)"
      by (rule Cons.IH[OF write_pending_update[OF Cons.prems(1)] False nz u])
    moreover have "write_reply q ?wr n ?st = write_reply q wr n st" for n
      using Cons.prems(1) by (simp add: write_reply_def send_reply_def write_pending_def
          write_request_order.om_erase_update)
    ultimately show ?thesis using s c by simp
  qed
qed simp

section \<open>Properties\<close>

text \<open>
  C19: a read for which \<open>n\<close> chunks were requested, all in a chunk window (per file one stripe number up
  to its id and one above it), is answered when \<open>n\<close> responses are in, in whatever order the nodes
  answered: the client gets one reply, whose data are the responses' data in the order of the chunks,
  and the request is forgotten; nothing else changes. Outside of a window the order on chunks takes
  chunks of different stripes for one, and the later answer replaces the earlier.
\<close>

theorem read_completes_in_any_order:
  assumes "reads_sorted st" "om_find (<) rid (br_reads st) = Some rr"
    and "rr_packets rr = []" "rq_received (rr_info rr) = 0" "uint (rq_expected (rr_info rr)) = int (length cs)"
    and "cs \<noteq> []" "oc_sorted file_chunk_less (chunk_window lo hi) fst cs" "mset rs = mset cs"
    and "length (concat (map snd cs)) \<le> rr_buf rr"
  shows "run_handlers (\<lambda>(chunk, data). read_response_handler rid chunk (int (length data)) data) rs st =
    Returned (st\<lparr>br_reads := om_erase (<) rid (br_reads st),
      br_replies := br_replies st @ [Read_Result (rq_client (rr_info rr)) (rr_fd rr)
        (int (length (concat (map snd cs)))) (concat (map snd cs))]\<rparr>)"
proof -
  have cs: "packets_add rs (rr_packets rr) = cs" unfolding assms(3) by (rule packets_in_order[OF assms(7,8)])
  have "length rs = length cs" using assms(8) by (rule mset_eq_length)
  then have l: "uint (rq_received (rr_info rr)) + int (length rs) = uint (rq_expected (rr_info rr))" "rs \<noteq> []"
    using assms(4-6) by auto
  have "run_handlers (read_answer rid) rs st = Returned (read_reply rid rr (concat (map snd cs)) st)"
    using read_answers_complete[OF assms(1,2) l(2,1)] assms(9) unfolding cs by simp
  then show ?thesis by (simp add: read_answer_def read_reply_def send_reply_def)
qed

definition two_chunk_read :: read_request_info where
  "two_chunk_read = \<lparr>rr_info = (new_request_info null_client 1)\<lparr>rq_expected := 2\<rparr>, rr_fd = 3, rr_buf = 4, rr_packets = []\<rparr>"

lemma read_completes_in_any_order_witness:
  "run_handlers (\<lambda>(chunk, data). read_response_handler 5 chunk (int (length data)) data)
      [(mk_chunk 1 1 2, [30]), (mk_chunk 1 1 1, [10, 20])] (new_barista\<lparr>br_reads := [(5, two_chunk_read)]\<rparr>) =
    Returned (new_barista\<lparr>br_reads := [], br_replies := [Read_Result null_client 3 3 [10, 20, 30]]\<rparr>)"
proof -
  let ?cs = "[(mk_chunk 1 1 1, [10, 20]), (mk_chunk 1 1 2, [30])] :: (file_chunk \<times> u8 list) list"
  have "oc_sorted file_chunk_less (chunk_window (\<lambda>_. 1) (\<lambda>_. 2)) fst ?cs"
    by (simp add: oc_sorted_def chunk_window_def file_chunk_less_def)
  moreover have "oc_sorted (<) UNIV fst [(5 :: u32, two_chunk_read)]" by (simp add: oc_sorted_def)
  ultimately show ?thesis
    using read_completes_in_any_order[of "new_barista\<lparr>br_reads := [(5, two_chunk_read)]\<rparr>" 5 two_chunk_read ?cs
        "\<lambda>_. 1" "\<lambda>_. 2" "[(mk_chunk 1 1 2, [30]), (mk_chunk 1 1 1, [10, 20])]"]
    by (simp add: two_chunk_read_def new_request_info_def new_barista_def om_find_def om_erase_def oc_find_def
        oc_erase_def oc_lower_bound_def oc_before_def add_mset_commute)
qed

text \<open>
  C20: a write for which \<open>n\<close> chunks and \<open>n\<close> replicas were sent is answered when all responses
  are in, in whatever order they arrived and interleaved: the client gets one reply, with the
  sum of the counts of the chunks without their replicas, and the request is forgotten under
  both of its ids; nothing else changes.
\<close>

theorem write_completes_in_any_order:
  assumes "oc_sorted write_request_less UNIV fst (br_writes st)"
    and "wq_request_id q \<noteq> wq_replica_request_id q"
    and "om_find (<) (wq_request_id q) (br_write_lookups st) = Some q"
    and "om_find (<) (wq_replica_request_id q) (br_write_lookups st) = Some q"
    and "om_find write_request_less q (br_writes st) = Some wr"
    and "rq_received (wr_info wr) = 0" "rq_received (wr_replica_info wr) = 0" "wr_count wr = 0" "0 < n"
    and "uint (rq_expected (wr_info wr)) = int n" "uint (rq_expected (wr_replica_info wr)) = int n"
    and "length (filter fst es) = n" "length (filter (\<lambda>e. \<not> fst e) es) = n"
  shows "run_handlers (\<lambda>(primary, count). write_response_handler
        (if primary then wq_request_id q else wq_replica_request_id q) count) es st =
    Returned (st\<lparr>br_writes := om_erase write_request_less q (br_writes st),
      br_write_lookups := om_erase (<) (wq_replica_request_id q) (om_erase (<) (wq_request_id q) (br_write_lookups st)),
      br_replies := br_replies st @ [Write_Result (rq_client (wr_info wr)) (wr_fd wr) (sum_list (map snd (filter fst es)))]\<rparr>)"
proof -
  have p: "write_pending q wr st" using assms(1-5) by (simp add: write_pending_def)
  have "es \<noteq> []" using assms(9,12) by auto
  moreover have "0 < uint (rq_expected (wr_info wr))" using assms(9,10) by simp
  then have "rq_expected (wr_info wr) \<noteq> 0" by auto
  ultimately have "run_handlers (write_answer q) es st = Returned (write_reply q wr (sum_list (primary_counts es)) st)"
    using write_answers_complete[OF p, of es] assms(6-13) by simp
  moreover have "write_answer q = (\<lambda>(primary, count). write_response_handler
        (if primary then wq_request_id q else wq_replica_request_id q) count)"
    by (auto simp: write_answer_def)
  ultimately show ?thesis by (simp add: write_reply_def send_reply_def)
qed

definition one_chunk_write :: write_request_info where
  "one_chunk_write = \<lparr>wr_info = (new_request_info null_client 1)\<lparr>rq_expected := 1\<rparr>,
     wr_replica_info = (new_request_info null_client 1)\<lparr>rq_expected := 1\<rparr>, wr_fd = 3, wr_count = 0\<rparr>"

definition request_5_6 :: write_request where
  "request_5_6 = \<lparr>wq_request_id = 5, wq_replica_request_id = 6\<rparr>"

definition one_write_pending :: barista where
  "one_write_pending = new_barista\<lparr>br_write_lookups := [(5, request_5_6), (6, request_5_6)],
     br_writes := [(request_5_6, one_chunk_write)]\<rparr>"

lemma write_completes_in_any_order_witness:
  "\<exists>st. run_handlers (\<lambda>(primary, count). write_response_handler
      (if primary then wq_request_id request_5_6 else wq_replica_request_id request_5_6) count)
      [(False, 10), (True, 10)] one_write_pending = Returned st \<and>
    br_replies st = [Write_Result null_client 3 10]"
  by (rule exI, rule conjI, rule write_completes_in_any_order[of one_write_pending request_5_6 one_chunk_write 1])
    (simp_all add: one_write_pending_def request_5_6_def one_chunk_write_def new_request_info_def new_barista_def
      om_find_def oc_find_def oc_lower_bound_def oc_sorted_def write_request_less_def)

text \<open>
  The handlers trust the nodes: one response more than was asked for aborts the server.
\<close>

theorem stray_response_aborts:
  assumes "reads_sorted st" "om_find (<) rid (br_reads st) = Some rr"
    and "uint (rq_received (rr_info rr)) + 1 = uint (rq_expected (rr_info rr))"
    and "length (concat (map snd (om_update file_chunk_less chunk data (rr_packets rr)))) \<le> rr_buf rr"
  shows "run_handlers (\<lambda>_. read_response_handler rid chunk (int (length data)) data) [(), ()] st = Aborted"
proof -
  have "run_handlers (read_answer rid) [(chunk, data)] st = Returned (read_reply rid rr
      (concat (map snd (packets_add [(chunk, data)] (rr_packets rr)))) st)"
    using assms by (intro read_answers_complete) simp_all
  then have "read_response_handler rid chunk (int (length data)) data st = Returned (read_reply rid rr
      (concat (map snd (packets_add [(chunk, data)] (rr_packets rr)))) st)"
    by (simp add: read_answer_def)
  then show ?thesis using assms(1) by (simp add: read_reply_def send_reply_def read_response_handler_def)
qed

lemma stray_response_aborts_witness:
  "run_handlers (\<lambda>_. read_response_handler 5 (mk_chunk 1 1 1) (int (length [7])) [7]) [(), ()]
     (new_barista\<lparr>br_reads := [(5, two_chunk_read\<lparr>rr_info := (new_request_info null_client 1)\<lparr>rq_expected := 1\<rparr>\<rparr>)]\<rparr>) = Aborted"
  using stray_response_aborts[of "new_barista\<lparr>br_reads := [(5, two_chunk_read\<lparr>rr_info := (new_request_info null_client 1)\<lparr>rq_expected := 1\<rparr>\<rparr>)]\<rparr>"
      5 _ "mk_chunk 1 1 1" "[7]"]
  by (simp add: two_chunk_read_def new_request_info_def new_barista_def om_find_def oc_find_def
      oc_lower_bound_def oc_sorted_def om_update_def oc_insert_def oc_before_def)

end
