(* ===== verification/Barista_Delete.thy ===== *)
theory Barista_Delete
  imports Barista_Requests
begin

text \<open>
  Deleting a file, from the request to the last response of the storage nodes
  (\<open>delete_file\<close>, \<open>delete_response_handler\<close>, \<open>check_delete_complete\<close>).
\<close>

section \<open>Completion\<close>





definition delete_pending :: "u32 \<Rightarrow> request_info \<Rightarrow> pmeta \<Rightarrow> barista \<Rightarrow> bool" where
  "delete_pending rid rq pm st \<longleftrightarrow> oc_sorted (<) UNIV fst (br_deletes st) \<and> meta_free st \<and>
     om_find (<) rid (br_deletes st) = Some rq \<and> has_exclusive_lock (rq_client rq) (rq_file_id rq) (br_locks st) = Returned 1 \<and>
     delete_file_contents (br_pm st) (rq_file_id rq) = (P_META_SUCCESS, pm)"




section \<open>The request\<close>

text \<open>\<open>delete_file\<close> up to the requests to the nodes: path found, lock free.\<close>

lemma delete_file_sends:
  assumes "user_id c \<noteq> 0" "meta_free st" "decafs_file_sstat (br_pm st) p = (P_META_SUCCESS, Some info)"
    and "owner_uid (lock_at (br_locks st) (fs_file_id info)) = 0" "oc_sorted (<) UNIV fst (br_deletes st)"
    and "process_delete_file net (vm_request_id (br_vm st) + 1) (fs_file_id info)
      ((br_io st)\<lparr>io_vmeta := (br_vm st)\<lparr>vm_request_id := vm_request_id (br_vm st) + 1\<rparr>\<rparr>) = Returned (k, io)"
  obtains locks where "has_exclusive_lock c (fs_file_id info) locks = Returned 1"
    "delete_file net n p c st = check_delete_complete n (vm_request_id (br_vm st) + 1)
       ((touch_meta c st)\<lparr>br_locks := locks, br_io := io,
          br_deletes := om_update (<) (vm_request_id (br_vm st) + 1)
            ((new_request_info c (fs_file_id info))\<lparr>rq_expected := k\<rparr>) (br_deletes st)\<rparr>)"
proof -
  let ?f = "fs_file_id info" and ?rid = "vm_request_id (br_vm st) + 1"
  let ?l = "(lock_at (br_locks st) ?f)\<lparr>owner_uid := user_id c, owner_ip := ip c, ex_proc := ctc c\<rparr>"
  let ?locks = "(br_locks st)(?f \<mapsto> ?l)"
  have lk: "get_exclusive_lock c ?f (br_locks st) = Returned (LOCK_SUCCESS, ?locks)"
    using assms(1,4) by (simp add: get_exclusive_lock_def Let_def)
  have "delete_file net n p c st = check_delete_complete n ?rid ((touch_meta c st)\<lparr>br_locks := ?locks, br_io := io,
      br_deletes := om_update (<) ?rid ((new_request_info c ?f)\<lparr>rq_expected := k\<rparr>) (br_deletes st)\<rparr>)"
    using assms(1-3,5,6) lk
    by (simp add: delete_file_def core_new_request_id_def get_new_request_id_def core_sstat_eq
        P_META_SUCCESS_def lock_codes touch_meta_def Let_def)
  moreover have "has_exclusive_lock c ?f ?locks = Returned 1"
    using assms(1) by (simp add: has_exclusive_lock_def)
  ultimately show thesis using that by blast
qed

section \<open>Properties\<close>

text \<open>The state when the requests of a delete have been registered and the nodes' answers are awaited.\<close>

lemma delete_file_pending:
  assumes "user_id c \<noteq> 0" "meta_free st" "pmeta_inv (br_pm st)" "pmeta_view (br_pm st) p = Some i"
    and "owner_uid (lock_at (br_locks st) (pm_file_id i)) = 0" "oc_sorted (<) UNIV fst (br_deletes st)"
    and "reachable_net net" "maps_ok lo hi (br_io st)"
    and "\<forall>ch \<in> set (get_all_chunks (br_io st) (pm_file_id i)). deletable (br_io st) ch"
  defines "rid \<equiv> vm_request_id (br_vm st) + 1"
  obtains rq st1 where "delete_file net n p c st = check_delete_complete n rid st1"
    "delete_pending rid rq (snd (delete_file_contents (br_pm st) (pm_file_id i))) st1"
    "rq_client rq = c" "rq_file_id rq = pm_file_id i" "rq_received rq = 0"
    "rq_expected rq = of_nat (2 * length (get_all_chunks (br_io st) (pm_file_id i)))"
    "br_replies st1 = br_replies st" "br_pm st1 = br_pm st" "get_all_chunks (br_io st1) (pm_file_id i) = []"
    "map fst (io_sent (br_io st1)) = map fst (io_sent (br_io st)) @
      concat (map (delete_requests rid (br_io st)) (get_all_chunks (br_io st) (pm_file_id i)))"
proof -
  let ?f = "pm_file_id i" and ?io0 = "(br_io st)\<lparr>io_vmeta := (br_vm st)\<lparr>vm_request_id := rid\<rparr>\<rparr>"
  note v = stat_of_view[OF assms(3,4)]
  have up: "node_up ?io0 a = node_up (br_io st) a" for a
    by (simp add: node_up_def is_node_up_def up_nodes_contains_def)
  have ok0: "maps_ok lo hi ?io0" using assms(8) by (simp add: maps_ok_def)
  have g0: "get_all_chunks ?io0 ?f = get_all_chunks (br_io st) ?f" by (simp add: get_all_chunks_def)
  have "\<forall>ch \<in> set (get_all_chunks ?io0 ?f). deletable ?io0 ch"
    using assms(9) unfolding g0 by (simp add: deletable_def up)
  from process_delete_effect[OF assms(7) ok0 this, of rid]
  obtain io where io: "process_delete_file net rid ?f ?io0 = Returned (of_nat (2 * length (get_all_chunks (br_io st) ?f)), io)"
    "map fst (io_sent io) = map fst (io_sent (br_io st)) @
      concat (map (delete_requests rid (br_io st)) (get_all_chunks (br_io st) ?f))" "get_all_chunks io ?f = []"
    unfolding g0 by auto
  let ?rq = "(new_request_info c ?f)\<lparr>rq_expected := of_nat (2 * length (get_all_chunks (br_io st) ?f))\<rparr>"
  obtain locks where l: "has_exclusive_lock c ?f locks = Returned 1"
    "delete_file net n p c st = check_delete_complete n rid
       ((touch_meta c st)\<lparr>br_locks := locks, br_io := io, br_deletes := om_update (<) rid ?rq (br_deletes st)\<rparr>)"
    using delete_file_sends[OF assms(1,2) v(1), of net _ io n] assms(5,6) io(1) unfolding rid_def by auto
  let ?st1 = "(touch_meta c st)\<lparr>br_locks := locks, br_io := io, br_deletes := om_update (<) rid ?rq (br_deletes st)\<rparr>"
  have "delete_file_contents (br_pm st) ?f = (P_META_SUCCESS, snd (delete_file_contents (br_pm st) ?f))"
    using v(3) by (simp add: delete_file_contents_def)
  then have "delete_pending rid ?rq (snd (delete_file_contents (br_pm st) ?f)) ?st1"
    using l(1) assms(6) by (simp add: delete_pending_def new_request_info_def)
  then show thesis using l(2) io by (intro that[of ?st1 ?rq]) (simp_all add: new_request_info_def)
qed



text \<open>A file \<open>/a\<close> with id 1 and one chunk, on node 1 and its replica on node 3.\<close>

definition demo_pm :: pmeta where
  "demo_pm = snd (add_file new_pmeta ''/a'' 512 256 256 (0, 0))"

definition demo_barista :: barista where
  "demo_barista = new_barista\<lparr>br_io := one_chunk_io, br_pm := demo_pm\<rparr>"

lemma demo_pm_facts:
  "pmeta_inv demo_pm" "pmeta_view demo_pm = [''/a'' \<mapsto> new_info 1 ''/a'' 512 256 256 (0, 0)]"
proof -
  obtain st' where "add_file new_pmeta ''/a'' 512 256 256 (0, 0) = (sint (1 :: u32), st')" "pmeta_inv st'"
    "pmeta_view st' = [''/a'' \<mapsto> new_info 1 ''/a'' 512 256 256 (0, 0)]"
    using add_file_effect[OF pmeta_inv_new, of "''/a''" 512 256 256 "(0, 0)"]
    by (auto simp: MAX_FILENAME_LENGTH_def)
  then show "pmeta_inv demo_pm" "pmeta_view demo_pm = [''/a'' \<mapsto> new_info 1 ''/a'' 512 256 256 (0, 0)]"
    by (simp_all add: demo_pm_def)
qed

lemma demo_barista_facts:
  "meta_free demo_barista" "br_pm demo_barista = demo_pm" "br_io demo_barista = one_chunk_io"
  "owner_uid (lock_at (br_locks demo_barista) f) = 0" "br_deletes demo_barista = []" "br_reads demo_barista = []"
  "br_replies demo_barista = []" "vm_request_id (io_vmeta one_chunk_io) = 0"
  "get_all_chunks one_chunk_io 1 = [mk_chunk 1 1 1]"
  by (simp_all add: demo_barista_def new_barista_def meta_free_def new_meta_lock_def lock_at_def new_file_lock_def
      one_chunk_io_def new_vmeta_def get_all_chunks_def)


lemma sorted_Nil [simp]: "oc_sorted lt K key []"
  by (simp add: oc_sorted_def)


text \<open>
  Deleting a file that has no chunks never gets an answer: no node is asked, so no
  response arrives, and the count 0 is taken to mean that the requests are not all sent. The
  client keeps waiting, the file stays, and its lock is never released.
\<close>

theorem delete_of_empty_file_hangs:
  assumes "user_id c \<noteq> 0" "meta_free st" "pmeta_inv (br_pm st)" "pmeta_view (br_pm st) p = Some i"
    and "owner_uid (lock_at (br_locks st) (pm_file_id i)) = 0" "oc_sorted (<) UNIV fst (br_deletes st)"
    and "reachable_net net" "maps_ok lo hi (br_io st)" "get_all_chunks (br_io st) (pm_file_id i) = []"
  shows "\<exists>st1. delete_file net n p c st = Returned st1 \<and> br_replies st1 = br_replies st \<and>
    map fst (io_sent (br_io st1)) = map fst (io_sent (br_io st)) \<and> pmeta_view (br_pm st1) = pmeta_view (br_pm st) \<and>
    has_exclusive_lock c (pm_file_id i) (br_locks st1) = Returned 1"
proof -
  let ?f = "pm_file_id i"
  have d: "\<forall>ch \<in> set (get_all_chunks (br_io st) ?f). deletable (br_io st) ch" using assms(9) by simp
  obtain rq st1 where e: "delete_file net n p c st = check_delete_complete n (vm_request_id (br_vm st) + 1) st1"
    "delete_pending (vm_request_id (br_vm st) + 1) rq (snd (delete_file_contents (br_pm st) ?f)) st1"
    "rq_client rq = c" "rq_file_id rq = ?f" "rq_received rq = 0"
    "rq_expected rq = of_nat (2 * length (get_all_chunks (br_io st) ?f))"
    "br_replies st1 = br_replies st" "br_pm st1 = br_pm st" "get_all_chunks (br_io st1) ?f = []"
    "map fst (io_sent (br_io st1)) = map fst (io_sent (br_io st)) @
      concat (map (delete_requests (vm_request_id (br_vm st) + 1) (br_io st)) (get_all_chunks (br_io st) ?f))"
    using delete_file_pending[OF assms(1-8) d, of n] .
  then have z: "rq_expected rq = 0" "map fst (io_sent (br_io st1)) = map fst (io_sent (br_io st))"
    using assms(9) by simp_all
  have "check_delete_complete n (vm_request_id (br_vm st) + 1) st1 = Returned st1"
    using e(2) z(1) by (simp add: check_delete_complete_def delete_pending_def)
  with e z show ?thesis by (auto simp: delete_pending_def)
qed

lemma delete_of_empty_file_hangs_witness:
  "\<exists>st1. delete_file good_net 9 ''/a'' (demo_client 7 5) (demo_barista\<lparr>br_io := empty_io\<rparr>) = Returned st1 \<and>
     br_replies st1 = [] \<and> has_exclusive_lock (demo_client 7 5) 1 (br_locks st1) = Returned 1"
proof -
  let ?st = "demo_barista\<lparr>br_io := empty_io\<rparr>"
  have "owner_uid (lock_at (br_locks ?st) 1) = 0" "br_deletes ?st = []" "br_replies ?st = []" "br_pm ?st = demo_pm"
    "get_all_chunks empty_io 1 = []"
    using demo_barista_facts(2,4,5,7) by (simp_all add: get_all_chunks_def empty_io_def)
  then show ?thesis
    using delete_of_empty_file_hangs[of "demo_client 7 5" ?st "''/a''" "new_info 1 ''/a'' 512 256 256 (0, 0)"
        good_net "\<lambda>_. 1" "\<lambda>_. 2" 9] demo_barista_facts(1)
    by (simp add: demo_pm_facts good_net_reachable empty_io_ok) blast
qed

end
