(* ===== verification/Barista_Transfer.thy ===== *)
theory Barista_Transfer
  imports Barista_Delete
begin

text \<open>
  Writing and reading a range of a file, from the client's request to the requests to the
  storage nodes: the loops of \<open>write_file\<close> and \<open>read_file\<close> over the stripes, on top of the
  per-stripe results of \<open>IO_Manager\<close>. A range becomes parts by stripe, and each of those
  parts by chunk.
\<close>

section \<open>The frame of a transfer\<close>

definition same_requests :: "barista \<Rightarrow> barista \<Rightarrow> bool" where
  "same_requests st st' \<longleftrightarrow> br_locks st' = br_locks st \<and> br_reads st' = br_reads st \<and>
     br_write_lookups st' = br_write_lookups st \<and> br_writes st' = br_writes st \<and>
     br_deletes st' = br_deletes st \<and> br_replies st' = br_replies st"

lemma same_requests_trans: "same_requests s1 s2 \<Longrightarrow> same_requests s2 s3 \<Longrightarrow> same_requests s1 s3"
  by (simp add: same_requests_def)

lemma same_requests_simps [simp]:
  "same_requests st st" "same_requests st (st'\<lparr>br_io := io\<rparr>) = same_requests st st'"
  "same_requests st (st'\<lparr>br_pm := pm\<rparr>) = same_requests st st'" "same_requests st (touch_meta c st') = same_requests st st'"
  by (simp_all add: same_requests_def)

text \<open>Client \<open>c\<close> works at descriptor \<open>fd\<close>, whose entry is \<open>inst\<close>, on the file with path \<open>p\<close> and record \<open>i\<close>.\<close>

definition at_work ::
    "client \<Rightarrow> u32 \<Rightarrow> string \<Rightarrow> persistent_metadata_info \<Rightarrow> file_instance \<Rightarrow> barista \<Rightarrow> bool" where
  "at_work c fd p i inst st \<longleftrightarrow> user_id c \<noteq> 0 \<and> meta_free st \<and> cursors_inv (br_vm st) \<and>
     cursor_find fd (br_vm st) = Some inst \<and> fi_client_id inst = c \<and> fi_file_id inst = pm_file_id i \<and>
     pmeta_inv (br_pm st) \<and> pmeta_view (br_pm st) p = Some i \<and> uint (fi_offset inst) \<le> uint (pm_size i)"

lemma at_work_io:
  "at_work c fd p i inst st \<Longrightarrow> vm_cursors (io_vmeta io) = vm_cursors (br_vm st) \<Longrightarrow>
   vm_last_fd (io_vmeta io) = vm_last_fd (br_vm st) \<Longrightarrow> at_work c fd p i inst (st\<lparr>br_io := io\<rparr>)"
  using cursors_inv_cong[of "io_vmeta io" "br_vm st"] by (simp add: at_work_def)

lemma cursor_word: "cursor_find fd v = Some inst \<Longrightarrow> word_of_int (get_file_cursor v fd) = fi_offset inst"
  by (simp add: get_file_cursor_def)

text \<open>Moving the cursor by \<open>len\<close> bytes inside the file.\<close>

lemma move_cursor:
  assumes w: "at_work c fd p i inst st" and "uint (fi_offset inst) + uint len \<le> uint (pm_size i)"
  obtains r v st' where
    "core_set_file_cursor fd (word_of_int (get_file_cursor (br_vm st) fd) + len) c st = Returned (r, st')"
    "at_work c fd p i (inst\<lparr>fi_offset := fi_offset inst + len\<rparr>) st'" "same_requests st st'"
    "br_io st' = (br_io st)\<lparr>io_vmeta := v\<rparr>" "vm_up_nodes v = vm_up_nodes (br_vm st)" "br_pm st' = br_pm st"
proof -
  have a: "user_id c \<noteq> 0" "meta_free st" "cursor_find fd (br_vm st) = Some inst" "fi_client_id inst = c"
    "fi_file_id inst = pm_file_id i" "pmeta_inv (br_pm st)" "pmeta_view (br_pm st) p = Some i" "cursors_inv (br_vm st)"
    using w by (simp_all add: at_work_def)
  let ?o = "fi_offset inst + len"
  have u: "uint ?o = uint (fi_offset inst) + uint len"
    using assms(2) uint_lt2p[of "pm_size i"] u32_add_uint[of "fi_offset inst" len] by simp
  then have m: "min ?o (pm_size i) = ?o" using assms(2) by (simp add: min_def word_le_def)
  let ?v = "(br_vm st)\<lparr>vm_cursors := om_update (<) fd (inst\<lparr>fi_offset := ?o\<rparr>) (vm_cursors (br_vm st))\<rparr>"
  have "core_set_file_cursor fd (word_of_int (get_file_cursor (br_vm st) fd) + len) c st =
      Returned (sint ?o, set_vm ?v (touch_meta c st))"
    using core_set_file_cursor_eq[OF a(1-4), of P_META_SUCCESS "stat_of i"] stat_of_view(2)[OF a(6,7)] a(5) m
    by (simp add: cursor_word[OF a(3)])
  moreover have "at_work c fd p i (inst\<lparr>fi_offset := ?o\<rparr>) (set_vm ?v (touch_meta c st))"
    using a u assms(2) cursors_inv_update[OF a(8,3)] by (simp add: at_work_def)
  ultimately show thesis by (rule that[where v = ?v]) simp_all
qed

section \<open>Writing\<close>

text \<open>Making the file \<open>len\<close> bytes longer.\<close>

lemma grow_file:
  assumes w: "at_work c fd p i inst st" and "uint (pm_size i) + uint len < 2 ^ 31"
  obtains r st' where "core_update_file_size (pm_file_id i) (sint len) c st = Returned (r, st')"
    "at_work c fd p (i\<lparr>pm_size := pm_size i + len\<rparr>) inst st'" "same_requests st st'" "br_io st' = br_io st"
    "pmeta_view (br_pm st') = (pmeta_view (br_pm st))(p \<mapsto> i\<lparr>pm_size := pm_size i + len\<rparr>)"
proof -
  have a: "user_id c \<noteq> 0" "meta_free st" "pmeta_inv (br_pm st)" "pmeta_view (br_pm st) p = Some i"
    using w by (simp_all add: at_work_def)
  note v = stat_of_view[OF a(3,4)]
  have l: "uint (pm_size i) < 2 ^ 31" "uint len < 2 ^ 31"
    using assms(2) uint_ge_0[of "pm_size i"] uint_ge_0[of len] by linarith+
  then have s: "sint (pm_size i) + sint len \<ge> 0" "word_of_int (sint len) = len" by (simp_all add: u32_sint_uint)
  then have n: "pm_size i + len = (if sint (pm_size i) + sint len < 0 then 0 else pm_size i + word_of_int (sint len))"
    by simp
  obtain pm where pm: "update_file_size (br_pm st) (pm_file_id i) (sint len) = (sint (pm_size i + len), pm)" "pmeta_inv pm"
    "pmeta_view pm = (pmeta_view (br_pm st))(p \<mapsto> i\<lparr>pm_size := pm_size i + len\<rparr>)"
    using update_file_size_effect[OF a(3) v(3) n] v(4) by metis
  have "uint (pm_size i + len) = uint (pm_size i) + uint len" using assms(2) by (intro u32_add_uint) simp
  then have "at_work c fd p (i\<lparr>pm_size := pm_size i + len\<rparr>) inst ((touch_meta c st)\<lparr>br_pm := pm\<rparr>)"
    using w pm(2,3) by (simp add: at_work_def add_increasing2)
  then show thesis using pm(3) by (intro that[OF core_update_eq[OF a(1,2) pm(1)]]) simp_all
qed

text \<open>
  The requests of a write whose parts by stripe are \<open>segs\<close>, \<open>d\<close> bytes of the buffer having been
  sent before, and their number for each of the two kinds.
\<close>

abbreviation stripe_parts :: "u32 \<Rightarrow> int \<times> int \<times> int \<Rightarrow> (int \<times> int \<times> int) list" where
  "stripe_parts cs \<equiv> (\<lambda>(s, off, len). stripe_segments cs off (nat len))"

fun write_batches ::
    "u32 \<Rightarrow> u32 \<Rightarrow> u32 \<Rightarrow> u32 \<Rightarrow> u8 list \<Rightarrow> (file_chunk \<Rightarrow> int option) \<Rightarrow> (file_chunk \<Rightarrow> int option) \<Rightarrow>
     int \<Rightarrow> (int \<times> int \<times> int) list \<Rightarrow> chunk_request list" where
  "write_batches rid rrid f cs buf N M d [] = []"
| "write_batches rid rrid f cs buf N M d ((s, off, len) # segs) =
     write_batch rid rrid f (word_of_int s) (drop (nat d) buf) N M 0 (stripe_segments cs off (nat len)) @
     write_batches rid rrid f cs buf N M (d + len) segs"

abbreviation parts_count :: "u32 \<Rightarrow> (int \<times> int \<times> int) list \<Rightarrow> nat" where
  "parts_count cs segs \<equiv> sum_list (map (length \<circ> stripe_parts cs) segs)"

lemma write_batch_cong:
  "\<forall>(k, _) \<in> set segs. N (mk_chunk f s (word_of_int k)) = N' (mk_chunk f s (word_of_int k)) \<and>
     M (mk_chunk f s (word_of_int k)) = M' (mk_chunk f s (word_of_int k)) \<Longrightarrow>
   write_batch rid rrid f s buf N M d segs = write_batch rid rrid f s buf N' M' d segs"
  by (induction rid rrid f s buf N M d segs rule: write_batch.induct) (auto simp: Let_def)

lemma write_batch_keeps:
  assumes "placed f s st segs" "keeps lo hi st st'" "\<And>k. mk_chunk f s k \<in> chunk_window lo hi"
  shows "write_batch rid rrid f s buf (\<lambda>c. node_find c (io_node st)) (\<lambda>c. node_find c (io_replica st)) d segs =
    write_batch rid rrid f s buf (\<lambda>c. node_find c (io_node st')) (\<lambda>c. node_find c (io_replica st')) d segs"
  using assms by (intro write_batch_cong) (force simp: keeps_def)

definition parts_placed :: "u32 \<Rightarrow> u32 \<Rightarrow> (int \<times> int \<times> int) list \<Rightarrow> io_state \<Rightarrow> bool" where
  "parts_placed f cs segs io \<longleftrightarrow> (\<forall>(s, off, len) \<in> set segs. placed f (word_of_int s) io (stripe_segments cs off (nat len)))"

lemma parts_placed_simps [simp]:
  "parts_placed f cs [] io"
  "parts_placed f cs ((s, off, len) # segs) io \<longleftrightarrow>
     placed f (word_of_int s) io (stripe_segments cs off (nat len)) \<and> parts_placed f cs segs io"
  by (simp_all add: parts_placed_def)

lemma placed_keeps:
  assumes "placed f s st segs" "keeps lo hi st st'" "\<And>k. mk_chunk f s k \<in> chunk_window lo hi"
  shows "placed f s st' segs"
proof -
  have "node_find (mk_chunk f s k) (io_node st) \<noteq> None \<Longrightarrow> node_find (mk_chunk f s k) (io_node st') \<noteq> None"
    "node_find (mk_chunk f s k) (io_replica st) \<noteq> None \<Longrightarrow> node_find (mk_chunk f s k) (io_replica st') \<noteq> None" for k
    using keepsD[OF assms(2,3), of k] by auto
  with assms(1) show ?thesis by blast
qed

text \<open>
  What sending the parts \<open>segs\<close> of a buffer does, \<open>d\<close> bytes having been sent before: the requests
  go out, and file size and cursor move by \<open>len\<close>.
\<close>

definition write_effect ::
    "(u32 \<Rightarrow> u32) \<Rightarrow> (u32 \<Rightarrow> u32) \<Rightarrow> u32 \<Rightarrow> u32 \<Rightarrow> u32 \<Rightarrow> u8 list \<Rightarrow> client \<Rightarrow> u32 \<Rightarrow> string \<Rightarrow> persistent_metadata_info \<Rightarrow>
     file_instance \<Rightarrow> u32 \<Rightarrow> int \<Rightarrow> (int \<times> int \<times> int) list \<Rightarrow> barista \<Rightarrow> barista \<Rightarrow> bool" where
  "write_effect lo hi rid rrid cs buf c fd p i inst len d segs st st' \<longleftrightarrow>
     at_work c fd p (i\<lparr>pm_size := pm_size i + len\<rparr>) (inst\<lparr>fi_offset := fi_offset inst + len\<rparr>) st' \<and>
     same_requests st st' \<and> maps_ok lo hi (br_io st') \<and> keeps lo hi (br_io st) (br_io st') \<and>
     parts_placed (pm_file_id i) cs segs (br_io st') \<and>
     pmeta_view (br_pm st') = (pmeta_view (br_pm st))(p \<mapsto> i\<lparr>pm_size := pm_size i + len\<rparr>) \<and>
     map fst (io_sent (br_io st')) = map fst (io_sent (br_io st)) @
       write_batches rid rrid (pm_file_id i) cs buf (\<lambda>c. node_find c (io_node (br_io st')))
         (\<lambda>c. node_find c (io_replica (br_io st'))) d segs"

lemma write_effect_Nil:
  assumes "at_work c fd p i inst st" "maps_ok lo hi (br_io st)"
  shows "write_effect lo hi rid rrid cs buf c fd p i inst 0 d [] st st"
  using assms by (simp add: write_effect_def at_work_def fun_upd_idem)

lemma write_effect_Cons:
  assumes e: "write_effect lo hi rid rrid cs buf c fd p i inst len d [(k, off, l)] st st1"
    and pl: "placed (pm_file_id i) (word_of_int k) (br_io st1) (stripe_segments cs off (nat l))"
    and win: "\<And>j. mk_chunk (pm_file_id i) (word_of_int k) j \<in> chunk_window lo hi"
    and e': "write_effect lo hi rid rrid cs buf c fd p (i\<lparr>pm_size := pm_size i + len\<rparr>)
      (inst\<lparr>fi_offset := fi_offset inst + len\<rparr>) len' (d + l) segs st1 st'"
  shows "write_effect lo hi rid rrid cs buf c fd p i inst (len + len') d ((k, off, l) # segs) st st'"
proof -
  have kp: "keeps lo hi (br_io st1) (br_io st')" using e' by (simp add: write_effect_def)
  have sr: "same_requests st st'" and k: "keeps lo hi (br_io st) (br_io st')"
    using e e' by (auto simp: write_effect_def intro: same_requests_trans keeps_trans)
  show ?thesis
    using e e' sr k write_batch_keeps[OF pl kp win, of rid rrid "drop (nat d) buf" 0] placed_keeps[OF pl kp win]
    by (simp add: write_effect_def add.assoc)
qed

text \<open>One iteration of the loop of \<open>write_file\<close>.\<close>

lemma write_part:
  assumes w: "at_work c fd p i inst st" and f: "f = pm_file_id i"
    and net: "reachable_net net" and ok: "maps_ok lo hi (br_io st)" and win: "\<And>j. mk_chunk f (word_of_int k) j \<in> chunk_window lo hi"
    and cs: "0 < uint cs" "uint cs < 2 ^ 31" and ss: "uint ss < 2 ^ 31" "uint ss \<le> int m * uint cs"
    and off: "0 \<le> off" "off + uint len \<le> uint ss" and "unat len + 1 < m" "uint (pm_size i) + uint len < 2 ^ 31"
  obtains io r st1 r' st2 where
    "process_write_stripe net m rid rrid f (word_of_int k) ss cs (drop (nat d) buf) off (unat len) (br_io st) =
       Returned (of_nat (length (stripe_segments cs off (unat len))), io)"
    "core_update_file_size f (sint len) c (st\<lparr>br_io := io\<rparr>) = Returned (r, st1)"
    "core_set_file_cursor fd (word_of_int (get_file_cursor (br_vm st1) fd) + len) c st1 = Returned (r', st2)"
    "write_effect lo hi rid rrid cs buf c fd p i inst len d [(k, off, uint len)] st st2"
    "placed f (word_of_int k) (br_io st2) (stripe_segments cs off (unat len))"
proof -
  have l: "uint len < 2 ^ 31" "int (unat len) = uint len"
    using assms(13) uint_ge_0[of "pm_size i"] by (linarith, simp)
  then have l': "unat len < 2 ^ 31" by (simp add: unat_less_int)
  have "off \<le> uint ss" using off uint_ge_0[of len] by linarith
  then have o: "off < 2 ^ 31" "int (unat len) - off \<le> sint ss" "off \<le> int m * uint cs"
    using off ss l u32_sint_uint[OF ss(1)] by linarith+
  obtain io where io: "process_write_stripe net m rid rrid f (word_of_int k) ss cs (drop (nat d) buf) off (unat len) (br_io st) =
      Returned (of_nat (length (stripe_segments cs off (unat len))), io)"
    "map fst (io_sent io) = map fst (io_sent (br_io st)) @
      write_batch rid rrid f (word_of_int k) (drop (nat d) buf) (\<lambda>c. node_find c (io_node io)) (\<lambda>c. node_find c (io_replica io))
        0 (stripe_segments cs off (unat len))"
    "maps_ok lo hi io" "keeps lo hi (br_io st) io" "io_vmeta io = br_vm st"
    "placed f (word_of_int k) io (stripe_segments cs off (unat len))"
    using process_write_effect[OF net ok win cs off(1) o(1) l' o(2) assms(12) o(3), of rid rrid "drop (nat d) buf"] by blast
  have w1: "at_work c fd p i inst (st\<lparr>br_io := io\<rparr>)" using io(5) by (intro at_work_io[OF w]) simp_all
  obtain r st1 where s1: "core_update_file_size (pm_file_id i) (sint len) c (st\<lparr>br_io := io\<rparr>) = Returned (r, st1)"
    "at_work c fd p (i\<lparr>pm_size := pm_size i + len\<rparr>) inst st1" "same_requests (st\<lparr>br_io := io\<rparr>) st1" "br_io st1 = io"
    "pmeta_view (br_pm st1) = (pmeta_view (br_pm st))(p \<mapsto> i\<lparr>pm_size := pm_size i + len\<rparr>)"
    using grow_file[OF w1 assms(13)] by auto
  have "uint (pm_size i + len) = uint (pm_size i) + uint len" using assms(13) by (intro u32_add_uint) simp
  then have "uint (fi_offset inst) + uint len \<le> uint (pm_size (i\<lparr>pm_size := pm_size i + len\<rparr>))"
    using w by (simp add: at_work_def)
  from move_cursor[OF s1(2) this] obtain r' v st2 where s2:
    "core_set_file_cursor fd (word_of_int (get_file_cursor (br_vm st1) fd) + len) c st1 = Returned (r', st2)"
    "at_work c fd p (i\<lparr>pm_size := pm_size i + len\<rparr>) (inst\<lparr>fi_offset := fi_offset inst + len\<rparr>) st2"
    "same_requests st1 st2"
    "br_io st2 = (br_io st1)\<lparr>io_vmeta := v\<rparr>" "vm_up_nodes v = vm_up_nodes (br_vm st1)" "br_pm st2 = br_pm st1" .
  have "same_requests st st2" using s1(3) s2(3) by (simp add: same_requests_def)
  then show thesis
    using io(2-4,6) s1(4,5) s2(2,4,6) f
    by (intro that[OF io(1) s1(1)[folded f] s2(1)]) (simp_all add: write_effect_def maps_ok_def keeps_def)
qed

text \<open>The stripes of the parts are among those on which the chunks are ordered.\<close>

definition in_window :: "(u32 \<Rightarrow> u32) \<Rightarrow> (u32 \<Rightarrow> u32) \<Rightarrow> u32 \<Rightarrow> (int \<times> int \<times> int) list \<Rightarrow> bool" where
  "in_window lo hi f segs \<longleftrightarrow>
     (\<forall>(s, _) \<in> set segs. word_of_int s = (if word_of_int s \<le> f then lo f else hi f))"

lemma in_window_Cons [simp]:
  "in_window lo hi f ((s, off, len) # segs) \<longleftrightarrow>
     (\<forall>k. mk_chunk f (word_of_int s) k \<in> chunk_window lo hi) \<and> in_window lo hi f segs"
  by (simp add: in_window_def chunk_window_def)

lemma write_loop_correct:
  fixes count :: nat
  assumes f: "f = pm_file_id i0" and net: "reachable_net net"
    and cs: "0 < uint (fs_chunk_size stat)" "uint (fs_chunk_size stat) < 2 ^ 31"
    and ss: "0 < uint (fs_stripe_size stat)" "uint (fs_stripe_size stat) < 2 ^ 31"
      "uint (fs_stripe_size stat) \<le> int m * uint (fs_chunk_size stat)"
    and m: "count + 1 < m"
  shows "at_work c fd p i inst st \<Longrightarrow> pm_file_id i = pm_file_id i0 \<Longrightarrow> maps_ok lo hi (br_io st) \<Longrightarrow>
    0 \<le> off \<Longrightarrow> off \<le> uint (fs_stripe_size stat) \<Longrightarrow> unat don \<le> count \<Longrightarrow>
    uint (pm_size i) + (int count - uint don) < 2 ^ 31 \<Longrightarrow> count < 2 ^ 31 \<Longrightarrow>
    segs = segments (uint (fs_stripe_size stat)) k off (int count - uint don) \<Longrightarrow> length segs < n \<Longrightarrow>
    in_window lo hi f segs \<Longrightarrow> rest = word_of_int (int count - uint don) \<Longrightarrow>
    \<exists>st'. write_loop net m n rid rrid f fd stat buf count c (word_of_int k) off don chunks st =
        Returned (chunks + of_nat (parts_count (fs_chunk_size stat) segs), st') \<and>
      write_effect lo hi rid rrid (fs_chunk_size stat) buf c fd p i inst rest (uint don) segs st st'"
proof (induction n arbitrary: k off don chunks st i inst segs rest)
  case (Suc n)
  let ?ss = "fs_stripe_size stat" and ?cs = "fs_chunk_size stat"
  show ?case
  proof (cases "unat don < count")
    case False
    then have z: "int count - uint don = 0" using Suc.prems(6) by (simp add: unat_less_int unat_le_int)
    have "\<not> sint don < sint (of_nat count :: u32)"
      using False Suc.prems(6,8) by (simp add: u32_sint_uint uint_of_nat_small unat_less_int unat_le_int)
    then show ?thesis using z write_effect_Nil[OF Suc.prems(1,3)] Suc.prems(9,12) by simp
  next
    case True
    let ?ws = "part_size ?ss count off don" and ?l = "min (int count - uint don) (uint ?ss - off)"
    let ?segs = "segments (uint ?ss) (k + 1) 0 (int count - uint (don + ?ws))" and ?rest = "word_of_int (int count - uint (don + ?ws)) :: u32"
    let ?i = "i\<lparr>pm_size := pm_size i + ?ws\<rparr>" and ?parts = "stripe_segments ?cs off (unat ?ws)"
    note part = part_step[OF ss(1,2) Suc.prems(4,5) True Suc.prems(8)]
    have sg: "segs = (k, off, ?l) # ?segs" unfolding Suc.prems(9) part(6) by (rule part(4))
    have win: "mk_chunk f (word_of_int k) j \<in> chunk_window lo hi" for j using Suc.prems(11) unfolding sg by simp
    have b: "off + uint ?ws \<le> uint ?ss" "unat ?ws + 1 < m" "uint (pm_size i) + uint ?ws < 2 ^ 31"
      using part(1,8) Suc.prems(7) m unfolding part(2) by linarith+
    obtain io r st1 r' st2 where s:
      "process_write_stripe net m rid rrid f (word_of_int k) ?ss ?cs (drop (nat (uint don)) buf) off (unat ?ws) (br_io st) =
        Returned (of_nat (length ?parts), io)"
      "core_update_file_size f (sint ?ws) c (st\<lparr>br_io := io\<rparr>) = Returned (r, st1)"
      "core_set_file_cursor fd (word_of_int (get_file_cursor (br_vm st1) fd) + ?ws) c st1 = Returned (r', st2)"
      "write_effect lo hi rid rrid ?cs buf c fd p i inst ?ws (uint don) [(k, off, uint ?ws)] st st2"
      "placed f (word_of_int k) (br_io st2) ?parts"
      using write_part[OF Suc.prems(1) f[folded Suc.prems(2)] net Suc.prems(3) win cs ss(2,3) Suc.prems(4) b,
          where rid = rid and rrid = rrid and buf = buf and d = "uint don"] .
    have step: "write_loop net m (Suc n) rid rrid f fd stat buf count c (word_of_int k) off don chunks st =
        write_loop net m n rid rrid f fd stat buf count c (word_of_int (k + 1)) 0 (don + ?ws) (chunks + of_nat (length ?parts)) st2"
      using part(9) s(1-3) by (simp add: Let_def)
    have sz: "uint (pm_size i + ?ws) = uint (pm_size i) + ?l" using b(3) part(1) u32_add_uint[of "pm_size i" ?ws] by simp
    have pre: "at_work c fd p ?i (inst\<lparr>fi_offset := fi_offset inst + ?ws\<rparr>) st2" "maps_ok lo hi (br_io st2)" "pm_file_id ?i = pm_file_id i0" "0 \<le> uint ?ss"
      "uint (pm_size ?i) + (int count - uint (don + ?ws)) < 2 ^ 31" "length ?segs < n" "in_window lo hi f ?segs"
      using s(4) Suc.prems(2,7,10,11) sz unfolding sg part(6) by (simp_all add: write_effect_def)
    obtain st' where st': "write_loop net m n rid rrid f fd stat buf count c (word_of_int (k + 1)) 0 (don + ?ws) (chunks + of_nat (length ?parts)) st2 =
        Returned (chunks + of_nat (length ?parts) + of_nat (parts_count ?cs ?segs), st')"
      "write_effect lo hi rid rrid ?cs buf c fd p ?i (inst\<lparr>fi_offset := fi_offset inst + ?ws\<rparr>) ?rest (uint (don + ?ws)) ?segs st2 st'"
      using Suc.IH[OF pre(1,3,2) order_refl pre(4) part(7) pre(5) Suc.prems(8) refl pre(6,7) refl, of "chunks + of_nat (length ?parts)"] by blast
    have "?ws + ?rest = rest" unfolding part(6) Suc.prems(12) by (simp add: part(3) flip: of_int_add)
    then have "write_effect lo hi rid rrid ?cs buf c fd p i inst rest (uint don) segs st st'"
      using write_effect_Cons[OF s(4), of "?rest" ?segs st'] s(5) win st'(2) part(1,2,5) f Suc.prems(2) sg by simp
    then show ?thesis unfolding step using st'(1) sg part(2) by (intro exI[of _ st']) (simp add: add.assoc comp_def)
  qed
qed simp

section \<open>The requests of a client\<close>

abbreviation file_parts :: "u32 \<Rightarrow> int \<Rightarrow> nat \<Rightarrow> (int \<times> int \<times> int) list" where
  "file_parts ss offset n \<equiv>
     segments (uint ss) (1 + unit_index (uint ss) offset) (offset - unit_index (uint ss) offset * uint ss) (int n)"

lemma get_first_stripe_correct:
  assumes "0 < uint ss" "uint ss < 2 ^ 31" "0 \<le> offset" "offset < 2 ^ 31" "offset \<le> int n * uint ss" "0 < n"
  shows "get_first_stripe n ss offset =
    Returned (word_of_int (1 + unit_index (uint ss) offset), offset - unit_index (uint ss) offset * uint ss)"
proof (cases n)
  case (Suc m)
  then show ?thesis using first_loop_correct[OF assms(1-4), of m STRIPE_ID_INIT] assms(5)
    by (simp add: get_first_stripe_def STRIPE_ID_INIT_def)
qed (use assms(6) in simp)

lemma transfer_start:
  fixes count :: nat
  assumes "0 < uint ss" "uint ss < 2 ^ 31" "0 \<le> offset" "offset < 2 ^ 31" "offset \<le> int n * uint ss" "count + 2 < n"
  shows "get_first_stripe n ss offset =
      Returned (word_of_int (1 + unit_index (uint ss) offset), offset - unit_index (uint ss) offset * uint ss)"
    and "length (file_parts ss offset count) < n"
    and "0 \<le> offset - unit_index (uint ss) offset * uint ss" "offset - unit_index (uint ss) offset * uint ss \<le> uint ss"
proof -
  show "length (file_parts ss offset count) < n"
    using segments_length[of "int count" "uint ss" "1 + unit_index (uint ss) offset" "offset - unit_index (uint ss) offset * uint ss"]
      assms(6) by linarith
qed (use get_first_stripe_correct[OF assms(1-5)] unit_index_bounds[OF assms(1,3)] assms(6) in simp_all)

lemma file_parts_tile:
  "0 < uint ss \<Longrightarrow> 0 \<le> offset \<Longrightarrow>
   concat (map (seg_bytes (uint ss)) (file_parts ss offset n)) = [offset .. offset + int n - 1]"
  using segments_tile[OF _ unit_index_bounds(2,3), of "uint ss" offset "int n" "1 + unit_index (uint ss) offset"]
  by (simp add: algebra_simps)

lemma at_work_cong:
  assumes "at_work c fd p i inst st" "br_meta st' = br_meta st" "br_pm st' = br_pm st"
    and "vm_cursors (br_vm st') = vm_cursors (br_vm st)" "vm_last_fd (br_vm st') = vm_last_fd (br_vm st)"
  shows "at_work c fd p i inst st'"
  using assms cursors_inv_cong[OF assms(4,5)] by (simp add: at_work_def meta_free_def)

lemma at_work_touch: "at_work c fd p i inst st \<Longrightarrow> at_work c fd p i inst (touch_meta d st)"
  by (simp add: at_work_def)

text \<open>The bookkeeping of a write that has been sent.\<close>

definition sent_write :: "client \<Rightarrow> u32 \<Rightarrow> int \<Rightarrow> u32 \<Rightarrow> write_request_info" where
  "sent_write c f fd n = \<lparr>wr_info = (new_request_info c f)\<lparr>rq_expected := n\<rparr>,
     wr_replica_info = (new_request_info c f)\<lparr>rq_expected := n\<rparr>, wr_fd = fd, wr_count = 0\<rparr>"

lemma check_write_sent:
  assumes "om_find (<) rid (br_write_lookups st) = Some q"
    and "om_find write_request_less q (br_writes st) = Some (sent_write c f fd n)"
  shows "check_write_complete rid st = Returned st"
  using assms by (simp add: check_write_complete_def sent_write_def new_request_info_def)

lemma registered_write:
  assumes "oc_sorted (<) UNIV fst L" "oc_sorted write_request_less UNIV fst R"
    and "q = \<lparr>wq_request_id = rid, wq_replica_request_id = rid + 1\<rparr>"
    and "br_write_lookups st = om_update (<) (rid + 1) q (om_update (<) rid q L)" "br_writes st = om_update write_request_less q wr R"
  shows "om_find (<) rid (br_write_lookups st) = Some q" "om_find write_request_less q (br_writes st) = Some wr"
    and "write_pending q (sent_write c f fd n) (st\<lparr>br_writes := om_update write_request_less q (sent_write c f fd n) (br_writes st)\<rparr>)"
    and "check_write_complete rid (st\<lparr>br_writes := om_update write_request_less q (sent_write c f fd n) (br_writes st)\<rparr>) =
      Returned (st\<lparr>br_writes := om_update write_request_less q (sent_write c f fd n) (br_writes st)\<rparr>)"
proof -
  have s: "oc_sorted write_request_less UNIV fst (br_writes st)"
    unfolding assms(5) using assms(2) by (simp add: write_request_order.kv.ok_upd)
  show r: "om_find (<) rid (br_write_lookups st) = Some q" and "om_find write_request_less q (br_writes st) = Some wr"
    unfolding assms(4,5) using assms(1,2) by (simp_all add: write_request_order.kv.find_upd)
  moreover have "om_find (<) (rid + 1) (br_write_lookups st) = Some q" unfolding assms(4) using assms(1) by simp
  ultimately show "write_pending q (sent_write c f fd n) (st\<lparr>br_writes := om_update write_request_less q (sent_write c f fd n) (br_writes st)\<rparr>)"
    using s by (simp add: write_pending_def assms(3) write_request_order.kv.find_upd write_request_order.kv.ok_upd)
  show "check_write_complete rid (st\<lparr>br_writes := om_update write_request_less q (sent_write c f fd n) (br_writes st)\<rparr>) =
      Returned (st\<lparr>br_writes := om_update write_request_less q (sent_write c f fd n) (br_writes st)\<rparr>)"
    using r s by (intro check_write_sent[of rid _ q c f fd n]) (simp_all add: write_request_order.kv.find_upd)
qed

lemma write_file_sends:
  fixes count :: nat and rid :: u32
  assumes w: "at_work c (word_of_int fd) p i inst st" and fd: "0 < fd"
    and lock: "has_exclusive_lock c (pm_file_id i) (br_locks st) = Returned 1"
    and net: "reachable_net net" and ok: "maps_ok lo hi (br_io st)"
    and win: "in_window lo hi (pm_file_id i) segs"
    and cnt: "0 < count" "uint (pm_size i) + int count < 2 ^ 31"
    and cs: "0 < uint (pm_chunk_size i)" "uint (pm_chunk_size i) < 2 ^ 31"
    and ss: "0 < uint (pm_stripe_size i)" "uint (pm_stripe_size i) < 2 ^ 31"
    and so: "oc_sorted (<) UNIV fst (br_write_lookups st)" "oc_sorted write_request_less UNIV fst (br_writes st)"
    and n: "count + 2 < n" "uint (pm_stripe_size i) \<le> int n * uint (pm_chunk_size i)"
      "uint (fi_offset inst) \<le> int n * uint (pm_stripe_size i)"
    and rid: "rid = vm_request_id (br_vm st) + 1" and q: "q = \<lparr>wq_request_id = rid, wq_replica_request_id = rid + 1\<rparr>"
    and segs: "segs = file_parts (pm_stripe_size i) (uint (fi_offset inst)) count"
  obtains st' where "write_file net n fd buf count c st = Returned st'"
    "at_work c (word_of_int fd) p (i\<lparr>pm_size := pm_size i + of_nat count\<rparr>) (inst\<lparr>fi_offset := fi_offset inst + of_nat count\<rparr>) st'"
    "write_pending q (sent_write c (pm_file_id i) fd (of_nat (parts_count (pm_chunk_size i) segs))) st'"
    "maps_ok lo hi (br_io st')" "keeps lo hi (br_io st) (br_io st')"
    "pmeta_view (br_pm st') = (pmeta_view (br_pm st))(p \<mapsto> i\<lparr>pm_size := pm_size i + of_nat count\<rparr>)"
    "br_replies st' = br_replies st" "br_locks st' = br_locks st"
    "map fst (io_sent (br_io st')) = map fst (io_sent (br_io st)) @
       write_batches rid (rid + 1) (pm_file_id i) (pm_chunk_size i) buf (\<lambda>ch. node_find ch (io_node (br_io st')))
         (\<lambda>ch. node_find ch (io_replica (br_io st'))) 0 segs"
    "parts_placed (pm_file_id i) (pm_chunk_size i) segs (br_io st')"
proof -
  let ?w = "word_of_int fd :: u32" and ?f = "pm_file_id i" and ?stat = "stat_of i" and ?cur = "uint (fi_offset inst)"
  let ?wr = "\<lparr>wr_info = new_request_info c ?f, wr_replica_info = new_request_info c ?f, wr_fd = fd, wr_count = 0\<rparr>"
  let ?k = "1 + unit_index (uint (pm_stripe_size i)) ?cur" and ?o = "?cur - unit_index (uint (pm_stripe_size i)) ?cur * uint (pm_stripe_size i)"
  have a: "user_id c \<noteq> 0" "cursor_find ?w (br_vm st) = Some inst" "fi_client_id inst = c" "fi_file_id inst = ?f"
    "pmeta_inv (br_pm st)" "pmeta_view (br_pm st) p = Some i" "?cur \<le> uint (pm_size i)"
    using w by (simp_all add: at_work_def)
  let ?st0 = "set_vm ((br_vm st)\<lparr>vm_request_id := rid + 1\<rparr>) st"
  let ?st2 = "(touch_meta c ?st0)\<lparr>br_write_lookups := om_update (<) (rid + 1) q (om_update (<) rid q (br_write_lookups st)),
    br_writes := om_update write_request_less q ?wr (br_writes st)\<rparr>"
  have w0: "at_work c ?w p i inst ?st0" by (rule at_work_cong[OF w]) simp_all
  have w2: "at_work c ?w p i inst ?st2" by (rule at_work_cong[OF at_work_touch[OF w0, of c]]) (simp_all add: touch_meta_def)
  have st: "core_decafs_file_stat ?f c ?st0 = Returned ((P_META_SUCCESS, Some ?stat), touch_meta c ?st0)"
    using core_stat_eq[of c ?st0 ?f] stat_of_view(2)[OF a(5,6)] w0 by (simp add: at_work_def)
  have cur: "sint (fi_offset inst) = ?cur" "?cur < 2 ^ 31" using a(7) cnt by (simp_all add: u32_sint_uint)
  note start = transfer_start[OF ss uint_ge_0 cur(2) n(3,1)]
  have ok2: "maps_ok lo hi (br_io ?st2)" using ok by (simp add: maps_ok_def)
  have "int count < 2 ^ 31" using cnt(2) uint_ge_0[of "pm_size i"] by linarith
  then have m: "count + 1 < n" "count < 2 ^ 31" using n(1) by simp_all
  obtain st3 where st3: "write_loop net n n rid (rid + 1) ?f ?w ?stat buf count c (word_of_int ?k) ?o 0 0 ?st2 =
      Returned (of_nat (parts_count (pm_chunk_size i) segs), st3)"
    and "write_effect lo hi rid (rid + 1) (pm_chunk_size i) buf c ?w p i inst (of_nat count) 0 segs ?st2 st3"
    using write_loop_correct[of ?f i net ?stat n count c ?w p i inst ?st2 lo hi ?o 0 segs ?k n "of_nat count" rid "rid + 1" buf 0,
        OF refl net] w2 win ok2 cs ss n m cnt start(2-4) segs by auto
  then have e: "at_work c ?w p (i\<lparr>pm_size := pm_size i + of_nat count\<rparr>) (inst\<lparr>fi_offset := fi_offset inst + of_nat count\<rparr>) st3"
    "maps_ok lo hi (br_io st3)" "keeps lo hi (br_io ?st2) (br_io st3)" "br_locks st3 = br_locks st" "br_replies st3 = br_replies st"
    "br_write_lookups st3 = om_update (<) (rid + 1) q (om_update (<) rid q (br_write_lookups st))"
    "br_writes st3 = om_update write_request_less q ?wr (br_writes st)"
    "pmeta_view (br_pm st3) = (pmeta_view (br_pm st))(p \<mapsto> i\<lparr>pm_size := pm_size i + of_nat count\<rparr>)"
    "map fst (io_sent (br_io st3)) = map fst (io_sent (br_io st)) @
       write_batches rid (rid + 1) ?f (pm_chunk_size i) buf (\<lambda>ch. node_find ch (io_node (br_io st3)))
         (\<lambda>ch. node_find ch (io_replica (br_io st3))) 0 segs"
    "parts_placed (pm_file_id i) (pm_chunk_size i) segs (br_io st3)"
    by (simp_all add: write_effect_def same_requests_def)
  let ?n = "of_nat (parts_count (pm_chunk_size i) segs)"
  let ?st' = "st3\<lparr>br_writes := om_update write_request_less q (sent_write c ?f fd ?n) (br_writes st3)\<rparr>"
  note reg = registered_write[OF so q e(6,7)]
  have ids: "core_new_request_id st = (rid, set_vm ((br_vm st)\<lparr>vm_request_id := rid\<rparr>) st)"
    "core_new_request_id (set_vm ((br_vm st)\<lparr>vm_request_id := rid\<rparr>) st) = (rid + 1, ?st0)"
    by (simp_all add: core_new_request_id_def get_new_request_id_def rid)
  have info: "get_file_info ((br_vm st)\<lparr>vm_request_id := rid + 1\<rparr>) ?w = inst"
    "get_file_cursor ((br_vm st)\<lparr>vm_request_id := rid + 1\<rparr>) ?w = sint (fi_offset inst)"
    using a(2) by (simp_all add: get_file_info_def get_file_cursor_def)
  have "write_file net n fd buf count c st = check_write_complete rid ?st'"
    using fd lock a(4) st cnt(1) start(1) st3 reg(1,2) cur(1)
    by (simp add: write_file_def ids info q[symmetric] P_META_SUCCESS_def Let_def write_request_exists_def
        sent_write_def new_request_info_def)
  then have ret: "write_file net n fd buf count c st = Returned ?st'" using reg(4)[of c ?f fd ?n] by simp
  have w': "at_work c ?w p (i\<lparr>pm_size := pm_size i + of_nat count\<rparr>) (inst\<lparr>fi_offset := fi_offset inst + of_nat count\<rparr>) ?st'"
    by (rule at_work_cong[OF e(1)]) simp_all
  show thesis
    by (rule that[OF ret w' reg(3)]) (use e in \<open>simp_all add: maps_ok_def keeps_def\<close>)
qed

text \<open>All chunk parts of a range.\<close>

abbreviation chunk_parts :: "u32 \<Rightarrow> (int \<times> int \<times> int) list \<Rightarrow> (int \<times> int \<times> int) list" where
  "chunk_parts cs segs \<equiv> concat (map (stripe_parts cs) segs)"

lemma parts_count_length: "parts_count cs segs = length (chunk_parts cs segs)"
  by (simp add: length_concat)

lemma stripe_segments_sum:
  "0 < uint cs \<Longrightarrow> 0 \<le> off \<Longrightarrow> sum_list (map seg_len (stripe_segments cs off n)) = int n"
  using segments_sum[OF _ unit_index_bounds(2,3), of "uint cs" off "int n"] by simp

lemma chunk_parts_sum:
  assumes "0 < uint cs" "\<forall>(s, off, len) \<in> set segs. 0 \<le> off \<and> 0 \<le> len"
  shows "sum_list (map seg_len (chunk_parts cs segs)) = sum_list (map seg_len segs)"
  using assms(2)
proof (induction segs)
  case (Cons x segs)
  obtain s off len where x: "x = (s, off, len)" by (cases x)
  with Cons.prems obtain m where m: "len = int m" "0 \<le> off" using nonneg_int_cases[of len] by auto
  with Cons x show ?case using stripe_segments_sum[OF assms(1) m(2), of m] by simp
qed simp

lemma chunk_parts_length:
  assumes "0 < uint cs" "\<forall>(s, off, len) \<in> set segs. 0 \<le> off \<and> 0 \<le> len"
  shows "int (parts_count cs segs) \<le> sum_list (map seg_len segs) + int (length segs)"
  using assms(2)
proof (induction segs)
  case (Cons x segs)
  obtain s off len where x: "x = (s, off, len)" by (cases x)
  with Cons.prems obtain m where m: "len = int m" "0 \<le> off" using nonneg_int_cases[of len] by auto
  with Cons x show ?case using stripe_segments_length[OF assms(1) m(2), of m] by simp
qed simp

lemma file_parts_facts:
  fixes count :: nat
  assumes "0 < uint ss" "0 \<le> offset" "0 < uint cs" "0 < count"
  shows "sum_list (map seg_len (chunk_parts cs (file_parts ss offset count))) = int count"
    and "0 < parts_count cs (file_parts ss offset count)"
    and "parts_count cs (file_parts ss offset count) \<le> 2 * count + 1"
proof -
  let ?segs = "file_parts ss offset count"
  note b = unit_index_bounds[OF assms(1,2)]
  have bd: "\<forall>(s, off, len) \<in> set ?segs. 0 \<le> off \<and> 0 \<le> len" using segments_bounds by blast
  have l: "sum_list (map seg_len ?segs) = int count" using segments_sum[OF assms(1) b(2,3)] by simp
  then show s: "sum_list (map seg_len (chunk_parts cs ?segs)) = int count"
    using chunk_parts_sum[OF assms(3) bd] by simp
  have "chunk_parts cs ?segs \<noteq> []"
  proof
    assume e: "chunk_parts cs ?segs = []"
    show False using s assms(4) unfolding e by simp
  qed
  then show "0 < parts_count cs ?segs" unfolding parts_count_length by simp
  have "int (length ?segs) \<le> int count + 1" using segments_length by simp
  then show "parts_count cs ?segs \<le> 2 * count + 1" using chunk_parts_length[OF assms(3) bd] l by linarith
qed

lemma sent_write_answers:
  assumes "write_pending q (sent_write c f fd (of_nat n)) st" "0 < n" "n < 2 ^ 32"
    and "length (filter fst es) = n" "length (filter (\<lambda>e. \<not> fst e) es) = n"
  shows "run_handlers (write_answer q) es st =
    Returned (write_reply q (sent_write c f fd (of_nat n)) (sum_list (primary_counts es)) st)"
proof -
  have u: "uint (of_nat n :: u32) = int n" using assms(3) by (simp add: unsigned_of_nat take_bit_nat_eq_self)
  then have "(of_nat n :: u32) \<noteq> 0" using assms(2) by auto
  moreover have "es \<noteq> []" using assms(2,4) by auto
  ultimately show ?thesis
    using write_answers_complete[OF assms(1), of es] assms(4,5) u by (simp add: sent_write_def new_request_info_def)
qed

text \<open>
  C35: the loops that look for the first stripe and the first chunk of a request, subtracting one unit
  after the other, compute what a division would: both end within their iterations and give the same
  number and offset, the offset lies within the unit, and number and offset denote the position asked
  for. A position on the border of two units is the end of the first, not the start of the second.
\<close>

theorem first_unit_by_division:
  assumes "0 < uint sz" "uint sz < 2 ^ 31" "0 \<le> offset" "offset < 2 ^ 31" "offset \<le> int n * uint sz" "0 < n"
  defines "u \<equiv> (if offset = 0 then 0 else (offset - 1) div uint sz)"
  shows "get_first_stripe n sz offset = Returned (word_of_int (1 + u), offset - u * uint sz) \<and>
    get_first_chunk n sz offset = get_first_stripe n sz offset \<and>
    0 \<le> offset - u * uint sz \<and> offset - u * uint sz \<le> uint sz \<and>
    (offset mod uint sz = 0 \<and> 0 < offset \<longleftrightarrow> offset - u * uint sz = uint sz)"
proof -
  have u: "unit_index (uint sz) offset = u"
    using assms(1,3) by (auto simp: u_def unit_index_def div_pos_pos_trivial pos_imp_zdiv_nonneg_iff max_def zdiv_eq_0_iff)
  note b = unit_index_bounds[OF assms(1,3), unfolded u]
  have "offset mod uint sz = 0 \<and> 0 < offset \<longleftrightarrow> offset - u * uint sz = uint sz"
  proof (cases "offset = 0")
    case False
    then have p: "offset - u * uint sz = 1 + (offset - 1) mod uint sz"
      by (simp add: u_def minus_div_mult_eq_mod [symmetric])
    have "offset mod uint sz = (1 + (offset - 1) mod uint sz) mod uint sz" by (simp add: mod_add_right_eq)
    moreover have "0 \<le> (offset - 1) mod uint sz" "(offset - 1) mod uint sz < uint sz" using assms(1) by simp_all
    ultimately show ?thesis unfolding p using False assms(3) by (cases "1 + (offset - 1) mod uint sz = uint sz") auto
  qed (use assms(1) in \<open>simp add: u_def\<close>)
  then show ?thesis
    using get_first_stripe_correct[OF assms(1-6)] get_first_chunk_correct[OF assms(1-6)] b(2,3) unfolding u by simp
qed

lemma first_unit_by_division_witness:
  "get_first_stripe 9 512 1024 = Returned (2, 512) \<and> get_first_chunk 9 512 1024 = Returned (2, 512)"
  using first_unit_by_division[of 512 1024 9] by simp

text \<open>
  C6: a write of \<open>count\<close> bytes by the holder of the exclusive lock, where the entries of the chunk
  maps (\<open>maps_ok\<close>) and the stripes of the range (\<open>in_window\<close>) lie in a chunk window: for each file one
  stripe number up to its id and one above it, as the order on chunks keeps no others apart. The
  write sends, stripe by stripe and chunk by chunk, the buffer to the nodes of the chunks and to their
  replica nodes; the parts are the bytes from the cursor on, each once and in order; the cursor moves
  by \<open>count\<close>. When the nodes have answered, in any order and interleaving, with the sizes of the
  parts, the client gets one reply: \<open>count\<close>. The file's size grows by \<open>count\<close> wherever the cursor was.
\<close>

theorem write_file_correct:
  fixes count :: nat and rid :: u32
  assumes "at_work c (word_of_int fd) p i inst st" "0 < fd"
    and "has_exclusive_lock c (pm_file_id i) (br_locks st) = Returned 1"
    and "reachable_net net" "maps_ok lo hi (br_io st)" "in_window lo hi (pm_file_id i) segs"
    and "0 < count" "uint (pm_size i) + int count < 2 ^ 31"
    and "0 < uint (pm_chunk_size i)" "uint (pm_chunk_size i) < 2 ^ 31" "0 < uint (pm_stripe_size i)" "uint (pm_stripe_size i) < 2 ^ 31"
    and "oc_sorted (<) UNIV fst (br_write_lookups st)" "oc_sorted write_request_less UNIV fst (br_writes st)"
    and "count + 2 < n" "uint (pm_stripe_size i) \<le> int n * uint (pm_chunk_size i)"
      "uint (fi_offset inst) \<le> int n * uint (pm_stripe_size i)"
    and "rid = vm_request_id (br_vm st) + 1" "segs = file_parts (pm_stripe_size i) (uint (fi_offset inst)) count"
    and "mset (map snd (filter fst es)) = mset (map seg_len (chunk_parts (pm_chunk_size i) segs))"
    and "length (filter (\<lambda>e. \<not> fst e) es) = parts_count (pm_chunk_size i) segs"
  shows "\<exists>st1 st2. write_file net n fd buf count c st = Returned st1 \<and>
    map fst (io_sent (br_io st1)) = map fst (io_sent (br_io st)) @
      write_batches rid (rid + 1) (pm_file_id i) (pm_chunk_size i) buf (\<lambda>ch. node_find ch (io_node (br_io st1)))
        (\<lambda>ch. node_find ch (io_replica (br_io st1))) 0 segs \<and>
    concat (map (seg_bytes (uint (pm_stripe_size i))) segs) =
      [uint (fi_offset inst) .. uint (fi_offset inst) + int count - 1] \<and>
    get_file_cursor (br_vm st1) (word_of_int fd) = uint (fi_offset inst) + int count \<and>
    pmeta_view (br_pm st1) = (pmeta_view (br_pm st))(p \<mapsto> i\<lparr>pm_size := pm_size i + of_nat count\<rparr>) \<and>
    br_replies st1 = br_replies st \<and>
    run_handlers (\<lambda>(primary, n). write_response_handler (if primary then rid else rid + 1) n) es st1 = Returned st2 \<and>
    br_replies st2 = br_replies st @ [Write_Result c fd (int count)]"
proof -
  define q where "q = \<lparr>wq_request_id = rid, wq_replica_request_id = rid + 1\<rparr>"
  let ?n = "parts_count (pm_chunk_size i) segs" and ?inst = "inst\<lparr>fi_offset := fi_offset inst + of_nat count\<rparr>"
  obtain st1 where s: "write_file net n fd buf count c st = Returned st1"
    "at_work c (word_of_int fd) p (i\<lparr>pm_size := pm_size i + of_nat count\<rparr>) ?inst st1"
    "write_pending q (sent_write c (pm_file_id i) fd (of_nat ?n)) st1"
    "maps_ok lo hi (br_io st1)" "keeps lo hi (br_io st) (br_io st1)"
    "pmeta_view (br_pm st1) = (pmeta_view (br_pm st))(p \<mapsto> i\<lparr>pm_size := pm_size i + of_nat count\<rparr>)"
    "br_replies st1 = br_replies st" "br_locks st1 = br_locks st"
    "map fst (io_sent (br_io st1)) = map fst (io_sent (br_io st)) @
       write_batches rid (rid + 1) (pm_file_id i) (pm_chunk_size i) buf (\<lambda>ch. node_find ch (io_node (br_io st1)))
         (\<lambda>ch. node_find ch (io_replica (br_io st1))) 0 segs"
    "parts_placed (pm_file_id i) (pm_chunk_size i) segs (br_io st1)"
    using write_file_sends[OF assms(1-18) q_def assms(19), of buf] .
  note parts = file_parts_facts[OF assms(11) uint_ge_0 assms(9,7), of "fi_offset inst", folded assms(19)]
  have c: "uint (fi_offset inst) \<le> uint (pm_size i)" using assms(1) by (simp add: at_work_def)
  have c31: "int count < 2 ^ 31" using assms(8) uint_ge_0[of "pm_size i"] by linarith
  have len: "length (filter fst es) = ?n"
    using mset_eq_length[OF assms(20)] by (simp add: length_concat)
  have sum: "sum_list (primary_counts es) = int count"
    unfolding sum_mset_sum_list[symmetric] assms(20) unfolding sum_mset_sum_list by (rule parts(1))
  have "?n < 2 ^ 32" using parts(3) c31 by simp
  then have run: "run_handlers (write_answer q) es st1 =
      Returned (write_reply q (sent_write c (pm_file_id i) fd (of_nat ?n)) (int count) st1)"
    using sent_write_answers[OF s(3) parts(2) _ len assms(21)] sum by simp
  have "uint (fi_offset inst + of_nat count) = uint (fi_offset inst) + int count"
    using c assms(8) c31 u32_add_int[of "fi_offset inst" "int count"] by simp
  then have cur: "get_file_cursor (br_vm st1) (word_of_int fd) = uint (fi_offset inst) + int count"
    using s(2) c assms(8) by (simp add: at_work_def get_file_cursor_def u32_sint_uint)
  have wa: "write_answer q = (\<lambda>(primary, n). write_response_handler (if primary then rid else rid + 1) n)"
    by (auto simp: write_answer_def q_def)
  show ?thesis
  proof (intro exI conjI)
    show "run_handlers (\<lambda>(primary, n). write_response_handler (if primary then rid else rid + 1) n) es st1 =
        Returned (write_reply q (sent_write c (pm_file_id i) fd (of_nat ?n)) (int count) st1)"
      using run unfolding wa .
    show "concat (map (seg_bytes (uint (pm_stripe_size i))) segs) =
        [uint (fi_offset inst) .. uint (fi_offset inst) + int count - 1]"
      unfolding assms(19) by (rule file_parts_tile[OF assms(11) uint_ge_0])
  qed (use s cur in \<open>simp_all add: write_reply_def sent_write_def new_request_info_def\<close>)
qed

text \<open>Client 7 has file \<open>/a\<close> open at descriptor 1, at its start, with the exclusive lock.\<close>

abbreviation demo_writer :: client where
  "demo_writer \<equiv> demo_client 7 5"

definition demo_inst :: file_instance where
  "demo_inst = \<lparr>fi_client_id = demo_writer, fi_file_id = 1, fi_offset = 0\<rparr>"

definition demo_open :: barista where
  "demo_open = new_barista\<lparr>br_pm := demo_pm,
     br_io := empty_io\<lparr>io_vmeta := new_vmeta\<lparr>vm_last_fd := 1, vm_cursors := [(1, demo_inst)]\<rparr>\<rparr>,
     br_locks := [1 \<mapsto> \<lparr>owner_uid = 7, owner_ip = ip demo_writer, ex_proc = 5, sh_procs = []\<rparr>]\<rparr>"

abbreviation demo_info :: persistent_metadata_info where
  "demo_info \<equiv> new_info 1 ''/a'' 512 256 256 (0, 0)"

lemma demo_open_at_work: "at_work demo_writer 1 ''/a'' demo_info demo_inst demo_open"
proof -
  let ?v = "new_vmeta\<lparr>vm_last_fd := 1, vm_cursors := [(1, demo_inst)]\<rparr>"
  have f: "om_find (<) fd [(1 :: u32, demo_inst)] = (if fd = 1 then Some demo_inst else None)" for fd
    by (simp add: u32_order.om_find_map_of oc_sorted_def)
  have "cursors_inv ?v" by (simp add: cursors_inv_def f oc_sorted_def FD_NOT_SET_def)
  moreover have "fi_client_id demo_inst = demo_writer" "fi_file_id demo_inst = 1" "fi_offset demo_inst = 0"
    by (simp_all add: demo_inst_def)
  ultimately show ?thesis using demo_pm_facts f[of 1]
    by (simp add: at_work_def demo_open_def new_barista_def meta_free_def new_meta_lock_def)
qed

lemma demo_open_facts:
  "has_exclusive_lock demo_writer 1 (br_locks demo_open) = Returned 1" "maps_ok lo hi (br_io demo_open)"
  "br_write_lookups demo_open = []" "br_writes demo_open = []" "br_replies demo_open = []"
  "vm_request_id (br_vm demo_open) = 0" "fi_offset demo_inst = 0" "io_sent (br_io demo_open) = []"
  using empty_io_ok[of lo hi]
  by (simp_all add: demo_open_def has_exclusive_lock_def new_barista_def demo_inst_def new_vmeta_def empty_io_def
      maps_ok_def)

lemma one_part: "file_parts 512 0 10 = [(1, 0, 10)]" "file_parts 256 0 10 = [(1, 0, 10)]"
  by (simp_all add: unit_index_small segments_Cons)

lemma write_file_correct_witness:
  "\<exists>st1 st2. write_file good_net 20 1 (replicate 10 9) 10 demo_writer demo_open = Returned st1 \<and>
     get_file_cursor (br_vm st1) 1 = 10 \<and>
     run_handlers (\<lambda>(primary, n). write_response_handler (if primary then 1 else 2) n) [(False, 10), (True, 10)] st1 =
       Returned st2 \<and>
     br_replies st2 = [Write_Result demo_writer 1 10]"
proof -
  have w: "at_work demo_writer (word_of_int 1) ''/a'' demo_info demo_inst demo_open" using demo_open_at_work by simp
  have win: "in_window (\<lambda>_. 1) (\<lambda>_. 2) (pm_file_id demo_info) [(1, 0, 10)]" by (simp add: in_window_def)
  show ?thesis
    using write_file_correct[OF w _ _ good_net_reachable demo_open_facts(2) win, of 10 20 1
        "[(False, 10), (True, 10)]" "replicate 10 9"] demo_open_facts one_part
    by simp blast
qed

end
