(* ===== verification/Barista_Read.thy ===== *)
theory Barista_Read
  imports Barista_Transfer
begin

text \<open>
  Reading a range of a file, with one storage node that may not answer: the requests
  \<open>read_file\<close> sends, and the data the client gets when the responses are in.
\<close>

section \<open>The requests\<close>

abbreviation stripe_reads ::
    "u32 \<Rightarrow> u32 \<Rightarrow> u32 \<Rightarrow> int \<Rightarrow> io_state \<Rightarrow> int \<times> int \<times> int \<Rightarrow> chunk_request list" where
  "stripe_reads rid f cs a io \<equiv> (\<lambda>(s, off, len). map (read_request rid f (word_of_int s) a io) (stripe_segments cs off (nat len)))"

definition parts_readable :: "int \<Rightarrow> io_state \<Rightarrow> u32 \<Rightarrow> u32 \<Rightarrow> (int \<times> int \<times> int) list \<Rightarrow> bool" where
  "parts_readable a io f cs segs \<longleftrightarrow> (\<forall>(s, off, len) \<in> set segs. \<forall>(k, _) \<in> set (stripe_segments cs off (nat len)).
     readable a io (mk_chunk f (word_of_int s) (word_of_int k)))"

lemma parts_readable_Cons [simp]:
  "parts_readable a io f cs ((s, off, len) # segs) \<longleftrightarrow>
     (\<forall>(k, _) \<in> set (stripe_segments cs off (nat len)). readable a io (mk_chunk f (word_of_int s) (word_of_int k))) \<and>
     parts_readable a io f cs segs"
  by (simp add: parts_readable_def)

lemma parts_readable_same_nodes:
  assumes "same_nodes a io io'" "parts_readable a io f cs segs"
  shows "parts_readable a io' f cs segs"
    and "concat (map (stripe_reads rid f cs a io') segs) = concat (map (stripe_reads rid f cs a io) segs)"
proof -
  show "parts_readable a io' f cs segs"
    using assms(2) same_nodes_serving[OF assms(1)] by (fastforce simp: parts_readable_def)
  have "stripe_reads rid f cs a io' x = stripe_reads rid f cs a io x" if "x \<in> set segs" for x
    using assms(2) that same_nodes_serving[OF assms(1)] by (cases x) (force simp: parts_readable_def)
  then show "concat (map (stripe_reads rid f cs a io') segs) = concat (map (stripe_reads rid f cs a io) segs)"
    by (simp cong: map_cong)
qed

lemma same_nodes_trans: "same_nodes a s1 s2 \<Longrightarrow> same_nodes a s2 s3 \<Longrightarrow> same_nodes a s1 s3"
  by (simp add: same_nodes_def)

text \<open>
  What reading the parts \<open>segs\<close> does, while node \<open>a\<close> may not answer: the requests go out and the
  cursor moves by \<open>len\<close>.
\<close>

definition read_effect ::
    "int \<Rightarrow> u32 \<Rightarrow> u32 \<Rightarrow> u32 \<Rightarrow> client \<Rightarrow> u32 \<Rightarrow> string \<Rightarrow> persistent_metadata_info \<Rightarrow> file_instance \<Rightarrow> u32 \<Rightarrow>
     (int \<times> int \<times> int) list \<Rightarrow> barista \<Rightarrow> barista \<Rightarrow> bool" where
  "read_effect a rid f cs c fd p i inst len segs st st' \<longleftrightarrow>
     at_work c fd p i (inst\<lparr>fi_offset := fi_offset inst + len\<rparr>) st' \<and>
     same_requests st st' \<and> same_nodes a (br_io st) (br_io st') \<and> br_pm st' = br_pm st \<and>
     delivered (io_sent (br_io st')) = delivered (io_sent (br_io st)) @ concat (map (stripe_reads rid f cs a (br_io st)) segs)"

lemma read_effect_Nil: "at_work c fd p i inst st \<Longrightarrow> read_effect a rid f cs c fd p i inst 0 [] st st"
  by (simp add: read_effect_def same_nodes_def)

lemma read_effect_Cons:
  assumes "read_effect a rid f cs c fd p i inst len [x] st st1" "parts_readable a (br_io st) f cs segs"
    and "read_effect a rid f cs c fd p i (inst\<lparr>fi_offset := fi_offset inst + len\<rparr>) len' segs st1 st'"
  shows "read_effect a rid f cs c fd p i inst (len + len') (x # segs) st st'"
proof -
  have "same_nodes a (br_io st) (br_io st1)" using assms(1) by (simp add: read_effect_def)
  then have "concat (map (stripe_reads rid f cs a (br_io st1)) segs) = concat (map (stripe_reads rid f cs a (br_io st)) segs)"
    by (rule parts_readable_same_nodes(2)[OF _ assms(2)])
  moreover have "same_requests st st'" "same_nodes a (br_io st) (br_io st')"
    using assms(1,3) by (auto simp: read_effect_def intro: same_requests_trans same_nodes_trans)
  ultimately show ?thesis using assms(1,3) by (simp add: read_effect_def add.assoc)
qed

text \<open>One iteration of the loop of \<open>read_file\<close>.\<close>

lemma read_part:
  assumes w: "at_work c fd p i inst st" and net: "only_fails a net" "node_number a"
    and cs: "0 < uint cs" "uint cs < 2 ^ 31" and ss: "uint ss < 2 ^ 31" "uint ss \<le> int m * uint cs"
    and off: "0 \<le> off" "off + uint len \<le> uint ss" and "unat len + 2 < m"
    and size: "uint (fi_offset inst) + uint len \<le> uint (pm_size i)" "uint (pm_size i) < 2 ^ 31"
    and rd: "\<forall>(j, _) \<in> set (stripe_segments cs off (unat len)). readable a (br_io st) (mk_chunk f (word_of_int k) (word_of_int j))"
  obtains io r st' where
    "process_read_stripe net m rid f (word_of_int k) ss cs off (unat len) (br_io st) =
       Returned (of_nat (length (stripe_segments cs off (unat len))), io)"
    "core_set_file_cursor fd (word_of_int (get_file_cursor (io_vmeta io) fd) + len) c (st\<lparr>br_io := io\<rparr>) = Returned (r, st')"
    "read_effect a rid f cs c fd p i inst len [(k, off, uint len)] st st'"
proof -
  have l: "uint len < 2 ^ 31" using size uint_ge_0[of "fi_offset inst"] by linarith
  then have l': "unat len < 2 ^ 31" by (simp add: unat_less_int)
  have "off \<le> uint ss" "int (unat len) = uint len" using off uint_ge_0[of len] by (linarith, simp)
  then have o: "off < 2 ^ 31" "int (unat len) - off \<le> sint ss" "off \<le> int m * uint cs"
    using off ss l u32_sint_uint[OF ss(1)] by linarith+
  obtain io where io: "process_read_stripe net m rid f (word_of_int k) ss cs off (unat len) (br_io st) =
      Returned (of_nat (length (stripe_segments cs off (unat len))), io)" "same_but a (br_io st) io"
    "delivered (io_sent io) = delivered (io_sent (br_io st)) @
       map (read_request rid f (word_of_int k) a (br_io st)) (stripe_segments cs off (unat len))"
    using process_read_effect[OF net cs off(1) o(1) l' o(2) assms(10) o(3) rd, of rid] by blast
  have w1: "at_work c fd p i inst (st\<lparr>br_io := io\<rparr>)" using io(2) by (intro at_work_io[OF w]) (simp_all add: same_but_def)
  from move_cursor[OF w1 size(1)] obtain r v st' where s:
    "core_set_file_cursor fd (word_of_int (get_file_cursor (br_vm (st\<lparr>br_io := io\<rparr>)) fd) + len) c (st\<lparr>br_io := io\<rparr>) = Returned (r, st')"
    "at_work c fd p i (inst\<lparr>fi_offset := fi_offset inst + len\<rparr>) st'" "same_requests (st\<lparr>br_io := io\<rparr>) st'"
    "br_io st' = (br_io (st\<lparr>br_io := io\<rparr>))\<lparr>io_vmeta := v\<rparr>" "vm_up_nodes v = vm_up_nodes (br_vm (st\<lparr>br_io := io\<rparr>))"
    "br_pm st' = br_pm (st\<lparr>br_io := io\<rparr>)" .
  have "same_nodes a io (br_io st')"
    using s(4,5) by (simp add: same_nodes_def node_up_def is_node_up_def up_nodes_contains_def)
  then have "same_nodes a (br_io st) (br_io st')" using io(2) same_nodes_trans by (auto simp: same_but_def)
  moreover have "same_requests st st'" using s(3) by (simp add: same_requests_def)
  ultimately show thesis using that[OF io(1)] s io(3) by (simp add: read_effect_def)
qed

lemma read_loop_correct:
  fixes count :: nat
  assumes net: "only_fails a net" "node_number a"
    and cs: "0 < uint (fs_chunk_size stat)" "uint (fs_chunk_size stat) < 2 ^ 31"
    and ss: "0 < uint (fs_stripe_size stat)" "uint (fs_stripe_size stat) < 2 ^ 31"
      "uint (fs_stripe_size stat) \<le> int m * uint (fs_chunk_size stat)"
    and m: "count + 2 < m" and size: "uint (pm_size i) < 2 ^ 31"
  shows "at_work c fd p i inst st \<Longrightarrow> 0 \<le> off \<Longrightarrow> off \<le> uint (fs_stripe_size stat) \<Longrightarrow> unat don \<le> count \<Longrightarrow>
    uint (fi_offset inst) + (int count - uint don) \<le> uint (pm_size i) \<Longrightarrow> count < 2 ^ 31 \<Longrightarrow>
    segs = segments (uint (fs_stripe_size stat)) k off (int count - uint don) \<Longrightarrow> length segs < n \<Longrightarrow>
    parts_readable a (br_io st) f (fs_chunk_size stat) segs \<Longrightarrow> rest = word_of_int (int count - uint don) \<Longrightarrow>
    \<exists>st'. read_loop net m n rid f fd stat count c (word_of_int k) off don chunks st =
        Returned (chunks + of_nat (parts_count (fs_chunk_size stat) segs), st') \<and>
      read_effect a rid f (fs_chunk_size stat) c fd p i inst rest segs st st'"
proof (induction n arbitrary: k off don chunks st inst segs rest)
  case (Suc n)
  let ?ss = "fs_stripe_size stat" and ?cs = "fs_chunk_size stat"
  show ?case
  proof (cases "unat don < count")
    case False
    then have z: "int count - uint don = 0" using Suc.prems(4) by (simp add: unat_less_int unat_le_int)
    have "\<not> sint don < sint (of_nat count :: u32)"
      using False Suc.prems(4,6) by (simp add: u32_sint_uint uint_of_nat_small unat_less_int unat_le_int)
    then show ?thesis using z read_effect_Nil[OF Suc.prems(1)] Suc.prems(7,10) by simp
  next
    case True
    let ?rs = "part_size ?ss count off don" and ?l = "min (int count - uint don) (uint ?ss - off)"
    let ?segs = "segments (uint ?ss) (k + 1) 0 (int count - uint (don + ?rs))" and ?rest = "word_of_int (int count - uint (don + ?rs)) :: u32"
    let ?inst = "inst\<lparr>fi_offset := fi_offset inst + ?rs\<rparr>" and ?parts = "stripe_segments ?cs off (unat ?rs)"
    note part = part_step[OF ss(1,2) Suc.prems(2,3) True Suc.prems(6)]
    have sg: "segs = (k, off, ?l) # ?segs" unfolding Suc.prems(7) part(6) by (rule part(4))
    have b: "off + uint ?rs \<le> uint ?ss" "unat ?rs + 2 < m" "uint (fi_offset inst) + uint ?rs \<le> uint (pm_size i)"
      using part(1,8) Suc.prems(5) m unfolding part(2) by linarith+
    have rd: "\<forall>(k', _) \<in> set ?parts. readable a (br_io st) (mk_chunk f (word_of_int k) (word_of_int k'))"
      and pr: "parts_readable a (br_io st) f ?cs ?segs" using Suc.prems(9) unfolding sg part(2) by simp_all
    obtain io r st2 where s: "process_read_stripe net m rid f (word_of_int k) ?ss ?cs off (unat ?rs) (br_io st) = Returned (of_nat (length ?parts), io)"
      "core_set_file_cursor fd (word_of_int (get_file_cursor (io_vmeta io) fd) + ?rs) c (st\<lparr>br_io := io\<rparr>) = Returned (r, st2)"
      "read_effect a rid f ?cs c fd p i inst ?rs [(k, off, uint ?rs)] st st2"
      using read_part[OF Suc.prems(1) net cs ss(2,3) Suc.prems(2) b size rd, where rid = rid] .
    have step: "read_loop net m (Suc n) rid f fd stat count c (word_of_int k) off don chunks st =
        read_loop net m n rid f fd stat count c (word_of_int (k + 1)) 0 (don + ?rs) (chunks + of_nat (length ?parts)) st2"
      using part(9) s(1,2) by (simp add: Let_def)
    have sz: "uint (fi_offset inst + ?rs) = uint (fi_offset inst) + ?l"
      using b(3) part(1) size u32_add_uint[of "fi_offset inst" ?rs] by simp
    have e: "at_work c fd p i ?inst st2" "same_nodes a (br_io st) (br_io st2)" using s(3) by (simp_all add: read_effect_def)
    have pre: "0 \<le> uint ?ss" "uint (fi_offset ?inst) + (int count - uint (don + ?rs)) \<le> uint (pm_size i)" "length ?segs < n"
      using Suc.prems(5,8) sz unfolding sg part(6) by simp_all
    obtain st' where st': "read_loop net m n rid f fd stat count c (word_of_int (k + 1)) 0 (don + ?rs) (chunks + of_nat (length ?parts)) st2 =
        Returned (chunks + of_nat (length ?parts) + of_nat (parts_count ?cs ?segs), st')"
      "read_effect a rid f ?cs c fd p i ?inst ?rest ?segs st2 st'"
      using Suc.IH[OF e(1) order_refl pre(1) part(7) pre(2) Suc.prems(6) refl pre(3) parts_readable_same_nodes(1)[OF e(2) pr] refl,
          of "chunks + of_nat (length ?parts)"] by blast
    have "?rs + ?rest = rest" unfolding part(6) Suc.prems(10) by (simp add: part(3) flip: of_int_add)
    then have "read_effect a rid f ?cs c fd p i inst rest segs st st'"
      using read_effect_Cons[OF s(3) pr st'(2)] part(1) sg by simp
    then show ?thesis unfolding step using st'(1) sg part(2) by (intro exI[of _ st']) (simp add: add.assoc comp_def)
  qed
qed simp

section \<open>The answers\<close>

text \<open>What the nodes answer when the bytes of the file are \<open>F\<close>: each part with its chunk.\<close>

definition part_answer :: "(int \<Rightarrow> u8) \<Rightarrow> u32 \<Rightarrow> u32 \<Rightarrow> u32 \<Rightarrow> int \<Rightarrow> int \<times> int \<times> int \<Rightarrow> file_chunk \<times> u8 list" where
  "part_answer F f ss cs s = (\<lambda>(k, off, len). (mk_chunk f (word_of_int s) (word_of_int k),
     map (\<lambda>x. F ((s - 1) * uint ss + x)) (seg_bytes (uint cs) (k, off, len))))"

definition range_answers :: "(int \<Rightarrow> u8) \<Rightarrow> u32 \<Rightarrow> u32 \<Rightarrow> u32 \<Rightarrow> (int \<times> int \<times> int) list \<Rightarrow> (file_chunk \<times> u8 list) list" where
  "range_answers F f ss cs segs =
     concat (map (\<lambda>(s, off, len). map (part_answer F f ss cs s) (stripe_segments cs off (nat len))) segs)"

lemma upto_shift: "map (\<lambda>x. b + x) [i..j] = [b + i .. b + j]" for b :: int
proof (induction i j rule: upto.induct)
  case (1 i j)
  then show ?case by (cases "i \<le> j") (simp_all add: upto_rec1 add.assoc)
qed

lemma part_answers_data:
  assumes "0 < uint cs" "0 \<le> off"
  shows "concat (map (snd \<circ> part_answer F f ss cs s) (stripe_segments cs off n)) =
    map F [(s - 1) * uint ss + off .. (s - 1) * uint ss + off + int n - 1]"
proof -
  let ?b = "(s - 1) * uint ss"
  have "concat (map (snd \<circ> part_answer F f ss cs s) ps) = map (\<lambda>x. F (?b + x)) (concat (map (seg_bytes (uint cs)) ps))" for ps
    by (induction ps) (auto simp: part_answer_def)
  then have "concat (map (snd \<circ> part_answer F f ss cs s) (stripe_segments cs off n)) =
      map (\<lambda>x. F (?b + x)) [off .. off + int n - 1]"
    using file_parts_tile[OF assms, of n] by simp
  also have "\<dots> = map F (map (\<lambda>x. ?b + x) [off .. off + int n - 1])" by simp
  finally show ?thesis unfolding upto_shift by (simp add: algebra_simps)
qed

lemma range_answers_data:
  assumes "0 < uint cs" "\<forall>(s, off, len) \<in> set segs. 0 \<le> off \<and> 0 \<le> len"
  shows "concat (map snd (range_answers F f ss cs segs)) = map F (concat (map (seg_bytes (uint ss)) segs))"
  using assms(2)
proof (induction segs)
  case (Cons x segs)
  obtain s off len where x: "x = (s, off, len)" by (cases x)
  with Cons.prems obtain n where n: "len = int n" "0 \<le> off" using nonneg_int_cases[of len] by auto
  have "concat (map snd (map (part_answer F f ss cs s) (stripe_segments cs off n))) = map F (seg_bytes (uint ss) (s, off, int n))"
    using part_answers_data[OF assms(1) n(2), of F f ss s n] by (simp add: seg_bytes_def)
  with Cons x n show ?case by (simp add: range_answers_def)
qed (simp add: range_answers_def)

lemma units_sorted: "sorted_wrt (\<lambda>x y. fst x < fst y) (segments sz k off n)"
proof -
  have "sorted_wrt (<) (map fst (segments sz k off n))" unfolding segments_units by simp
  then show ?thesis by (simp add: sorted_wrt_map)
qed

text \<open>Stripe and chunk numbers below \<open>2 ^ 32\<close> are ordered as integers.\<close>

abbreviation small_unit :: "int \<Rightarrow> bool" where
  "small_unit k \<equiv> 0 \<le> k \<and> k < 2 ^ 32"

lemma small_unit_less: "small_unit k \<Longrightarrow> small_unit k' \<Longrightarrow> (word_of_int k :: u32) < word_of_int k' \<longleftrightarrow> k < k'"
  by (simp add: word_less_def uint_word_of_int_eq take_bit_int_eq_self)

lemma same_stripe_less:
  "small_unit k \<Longrightarrow> small_unit k' \<Longrightarrow> k < k' \<Longrightarrow> file_chunk_less (mk_chunk f s (word_of_int k)) (mk_chunk f s (word_of_int k'))"
  using small_unit_less by (simp add: file_chunk_less_def)

lemma stripe_less:
  assumes "small_unit s" "small_unit s'" "s < s'" "in_window lo hi f [(s, x), (s', y)]"
  shows "file_chunk_less (mk_chunk f (word_of_int s) k) (mk_chunk f (word_of_int s') k')"
proof -
  have lt: "(word_of_int s :: u32) < word_of_int s'" using small_unit_less assms(1-3) by simp
  then have "f < word_of_int s'"
    using assms(4) by (cases "word_of_int s \<le> f"; cases "word_of_int s' \<le> f") (auto simp: in_window_def)
  then show ?thesis using lt by (auto simp: file_chunk_less_def)
qed

lemma fst_part_answer: "fst (part_answer F f ss cs s q) = mk_chunk f (word_of_int s) (word_of_int (fst q))"
  by (cases q) (simp add: part_answer_def)

lemma part_answers_sorted:
  assumes "\<forall>q \<in> set ps. small_unit (fst q)" "sorted_wrt (\<lambda>x y. fst x < fst y) ps"
  shows "sorted_wrt (\<lambda>x y. file_chunk_less (fst x) (fst y)) (map (part_answer F f ss cs s) ps)"
  using assms by (induction ps) (auto simp: fst_part_answer intro!: same_stripe_less)

lemma range_answers_sorted:
  assumes "\<forall>q \<in> set segs. small_unit (fst q) \<and> (\<forall>r \<in> set (stripe_parts cs q). small_unit (fst r))"
    and "sorted_wrt (\<lambda>x y. fst x < fst y) segs" "in_window lo hi f segs"
  shows "oc_sorted file_chunk_less (chunk_window lo hi) fst (range_answers F f ss cs segs)"
  using assms
proof (induction segs)
  case (Cons x segs)
  obtain s off len where x: "x = (s, off, len)" by (cases x)
  let ?ps = "stripe_segments cs off (nat len)"
  have e: "range_answers F f ss cs (x # segs) = map (part_answer F f ss cs s) ?ps @ range_answers F f ss cs segs"
    by (simp add: range_answers_def x)
  have ih: "oc_sorted file_chunk_less (chunk_window lo hi) fst (range_answers F f ss cs segs)"
  proof (rule Cons.IH)
    show "\<forall>q \<in> set segs. small_unit (fst q) \<and> (\<forall>r \<in> set (stripe_parts cs q). small_unit (fst r))"
      by (rule ballI, rule bspec[OF Cons.prems(1)]) simp
    show "sorted_wrt (\<lambda>x y. fst x < fst y) segs" using Cons.prems(2) by simp
    show "in_window lo hi f segs" using Cons.prems(3) unfolding x by simp
  qed
  have "\<forall>r \<in> set (stripe_parts cs x). small_unit (fst r)"
    using bspec[OF Cons.prems(1), of x] by (rule conjunct2[OF _]) simp
  then have "\<forall>q \<in> set ?ps. small_unit (fst q)" unfolding x prod.case .
  then have ps: "sorted_wrt (\<lambda>x y. file_chunk_less (fst x) (fst y)) (map (part_answer F f ss cs s) ?ps)"
    by (rule part_answers_sorted[OF _ units_sorted])
  have win: "fst (part_answer F f ss cs s q) \<in> chunk_window lo hi" for q
    using Cons.prems(3) x by (simp add: fst_part_answer)
  have less: "file_chunk_less (fst (part_answer F f ss cs s q)) (fst y)"
    if y: "y \<in> set (range_answers F f ss cs segs)" for q y
  proof -
    obtain t q' where y: "t \<in> set segs" "y = part_answer F f ss cs (fst t) q'"
      using y by (auto simp: range_answers_def)
    have "small_unit (fst x)" "small_unit (fst t)"
      by (rule conjunct1[OF bspec[OF Cons.prems(1)]], simp add: y(1))+
    moreover have "fst x < fst t" using Cons.prems(2) y(1) by simp
    ultimately have "small_unit s" "small_unit (fst t)" "s < fst t" unfolding x by simp_all
    moreover have "in_window lo hi f [(s, off, len), (fst t, snd t)]"
      using Cons.prems(3) y(1) x by (auto simp: in_window_def)
    ultimately have "file_chunk_less (mk_chunk f (word_of_int s) k) (mk_chunk f (word_of_int (fst t)) k')" for k k'
      by (rule stripe_less)
    then show ?thesis unfolding y(2) fst_part_answer .
  qed
  show ?case
    unfolding e oc_sorted_def sorted_wrt_append
    using ih ps win less by (auto simp: oc_sorted_def)
qed (simp add: range_answers_def)

lemma file_parts_small:
  assumes "0 < uint ss" "0 \<le> offset" "offset + int n < 2 ^ 31" "q \<in> set (file_parts ss offset n)"
  shows "small_unit (fst q)"
proof -
  obtain s off len where q: "q = (s, off, len)" by (cases q)
  let ?u = "unit_index (uint ss) offset"
  have w: "(s - 1) * uint ss + off + len \<le> (1 + ?u - 1) * uint ss + (offset - ?u * uint ss) + int n"
    using segments_within assms(4) unfolding q by blast
  have b: "0 \<le> off" "0 \<le> len" "1 + ?u \<le> s" using segments_bounds assms(4) unfolding q by blast+
  have s: "1 \<le> s" using b(3) unit_index_bounds(1)[OF assms(1,2)] by linarith
  have "s - 1 \<le> (s - 1) * uint ss" using assms(1) s mult_left_mono[of 1 "uint ss" "s - 1"] by simp
  moreover have "(s - 1) * uint ss \<le> offset + int n" using w b(1,2) by simp
  ultimately show ?thesis using s assms(3) q by simp
qed

lemma file_answers_sorted:
  assumes "0 < uint ss" "uint ss < 2 ^ 31" "0 < uint cs" "0 \<le> offset" "offset + int n < 2 ^ 31"
    and "in_window lo hi f (file_parts ss offset n)"
  shows "oc_sorted file_chunk_less (chunk_window lo hi) fst (range_answers F f ss cs (file_parts ss offset n))"
proof (rule range_answers_sorted[OF _ units_sorted assms(6)])
  show "\<forall>q \<in> set (file_parts ss offset n). small_unit (fst q) \<and> (\<forall>r \<in> set (stripe_parts cs q). small_unit (fst r))"
  proof (intro ballI conjI)
    fix q assume q: "q \<in> set (file_parts ss offset n)"
    show "0 \<le> fst q" "fst q < 2 ^ 32" using file_parts_small[OF assms(1,4,5) q] by simp_all
    obtain s off len where x: "q = (s, off, len)" by (cases q)
    have b: "0 \<le> off" "0 \<le> len" "off + len \<le> uint ss" using segments_bounds q unfolding x by blast+
    fix r assume "r \<in> set (stripe_parts cs q)"
    then have "r \<in> set (stripe_segments cs off (nat len))" by (simp add: x)
    moreover have "off + int (nat len) < 2 ^ 31" using b assms(2) by simp
    ultimately have "small_unit (fst r)" using file_parts_small[OF assms(3) b(1)] by blast
    then show "0 \<le> fst r" "fst r < 2 ^ 32" by simp_all
  qed
qed

lemma range_answers_length: "length (range_answers F f ss cs segs) = parts_count cs segs"
  by (induction segs) (auto simp: range_answers_def)

section \<open>The request of a client\<close>

text \<open>The bookkeeping of a read that has been sent.\<close>

definition sent_read :: "client \<Rightarrow> u32 \<Rightarrow> int \<Rightarrow> nat \<Rightarrow> u32 \<Rightarrow> read_request_info" where
  "sent_read c f fd buf n = \<lparr>rr_info = (new_request_info c f)\<lparr>rq_expected := n\<rparr>, rr_fd = fd, rr_buf = buf, rr_packets = []\<rparr>"

lemma check_read_sent:
  assumes "om_find (<) rid (br_reads st) = Some (sent_read c f fd buf n)"
  shows "check_read_complete rid st = Returned st"
  using assms by (simp add: check_read_complete_def sent_read_def new_request_info_def)

lemma read_file_sends:
  fixes count :: nat and rid :: u32
  assumes w: "at_work c (word_of_int fd) p i inst st" and fd: "0 < fd"
    and lock: "has_exclusive_lock c (pm_file_id i) (br_locks st) = Returned e"
      "has_shared_lock c (pm_file_id i) (br_locks st) = Returned h" "0 < e \<or> 0 < h"
    and net: "only_fails a net" "node_number a"
    and cnt: "0 < count" "uint (fi_offset inst) + int count \<le> uint (pm_size i)" "uint (pm_size i) < 2 ^ 31"
    and cs: "0 < uint (pm_chunk_size i)" "uint (pm_chunk_size i) < 2 ^ 31"
    and ss: "0 < uint (pm_stripe_size i)" "uint (pm_stripe_size i) < 2 ^ 31"
    and so: "reads_sorted st"
    and n: "count + 2 < n" "uint (pm_stripe_size i) \<le> int n * uint (pm_chunk_size i)"
      "uint (fi_offset inst) \<le> int n * uint (pm_stripe_size i)"
    and rd: "parts_readable a (br_io st) (pm_file_id i) (pm_chunk_size i) segs"
    and rid: "rid = vm_request_id (br_vm st) + 1"
    and segs: "segs = file_parts (pm_stripe_size i) (uint (fi_offset inst)) count"
  obtains st' where "read_file net n fd count c st = Returned st'"
    "at_work c (word_of_int fd) p i (inst\<lparr>fi_offset := fi_offset inst + of_nat count\<rparr>) st'"
    "reads_sorted st'" "om_find (<) rid (br_reads st') =
       Some (sent_read c (pm_file_id i) fd count (of_nat (parts_count (pm_chunk_size i) segs)))"
    "same_nodes a (br_io st) (br_io st')" "br_pm st' = br_pm st" "br_replies st' = br_replies st" "br_locks st' = br_locks st"
    "delivered (io_sent (br_io st')) = delivered (io_sent (br_io st)) @
       concat (map (stripe_reads rid (pm_file_id i) (pm_chunk_size i) a (br_io st)) segs)"
proof -
  let ?w = "word_of_int fd :: u32" and ?f = "pm_file_id i" and ?stat = "stat_of i" and ?cur = "uint (fi_offset inst)"
  let ?k = "1 + unit_index (uint (pm_stripe_size i)) ?cur" and ?o = "?cur - unit_index (uint (pm_stripe_size i)) ?cur * uint (pm_stripe_size i)"
  let ?n = "of_nat (parts_count (pm_chunk_size i) segs)"
  have a: "cursor_find ?w (br_vm st) = Some inst" "fi_file_id inst = ?f"
    "pmeta_inv (br_pm st)" "pmeta_view (br_pm st) p = Some i"
    using w by (simp_all add: at_work_def)
  let ?st0 = "set_vm ((br_vm st)\<lparr>vm_request_id := rid\<rparr>) st"
  let ?st2 = "(touch_meta c ?st0)\<lparr>br_reads := om_update (<) rid (sent_read c ?f fd count 0) (br_reads st)\<rparr>"
  have w0: "at_work c ?w p i inst ?st0" by (rule at_work_cong[OF w]) simp_all
  have w2: "at_work c ?w p i inst ?st2" by (rule at_work_cong[OF at_work_touch[OF w0, of c]]) (simp_all add: touch_meta_def)
  have st: "core_decafs_file_stat ?f c ?st0 = Returned ((P_META_SUCCESS, Some ?stat), touch_meta c ?st0)"
    using core_stat_eq[of c ?st0 ?f] stat_of_view(2)[OF a(3,4)] w0 by (simp add: at_work_def)
  have cur: "sint (fi_offset inst) = ?cur" "?cur < 2 ^ 31" "sint (pm_size i) = uint (pm_size i)" "?cur < uint (pm_size i)"
    using cnt by (simp_all add: u32_sint_uint)
  note start = transfer_start[OF ss uint_ge_0 cur(2) n(3,1)]
  have "int count < 2 ^ 31" using cnt uint_ge_0[of "fi_offset inst"] by linarith
  then have c31: "count < 2 ^ 31" by simp
  have "same_nodes a (br_io st) (br_io ?st2)"
    by (simp add: same_nodes_def node_up_def is_node_up_def up_nodes_contains_def)
  note same = parts_readable_same_nodes[OF this rd]
  obtain st3 where st3: "read_loop net n n rid ?f ?w ?stat count c (word_of_int ?k) ?o 0 0 ?st2 = Returned (?n, st3)"
    "read_effect a rid ?f (pm_chunk_size i) c ?w p i inst (of_nat count) segs ?st2 st3"
    using read_loop_correct[of a net ?stat n count i c ?w p inst ?st2 ?o 0 segs ?k n ?f "of_nat count" rid 0, OF net]
      w2 same(1) cs ss n cnt c31 start(2-4) segs by auto
  let ?rr = "sent_read c ?f fd count ?n" and ?st' = "st3\<lparr>br_reads := om_update (<) rid (sent_read c ?f fd count ?n) (br_reads st3)\<rparr>"
  have sr: "br_locks st3 = br_locks st" "br_replies st3 = br_replies st"
    "br_reads st3 = om_update (<) rid (sent_read c ?f fd count 0) (br_reads st)"
    using st3(2) by (simp_all add: read_effect_def same_requests_def)
  have f3: "om_find (<) rid (br_reads st3) = Some (sent_read c ?f fd count 0)" "reads_sorted st3"
    unfolding sr using so by simp_all
  then have f': "om_find (<) rid (br_reads ?st') = Some ?rr" "reads_sorted ?st'" by simp_all
  have ids: "core_new_request_id st = (rid, ?st0)"
    by (simp add: core_new_request_id_def get_new_request_id_def rid)
  have info: "get_file_info ((br_vm st)\<lparr>vm_request_id := rid\<rparr>) ?w = inst"
    "get_file_cursor ((br_vm st)\<lparr>vm_request_id := rid\<rparr>) ?w = sint (fi_offset inst)"
    using a(1) by (simp_all add: get_file_info_def get_file_cursor_def)
  have rr: "\<lparr>rr_info = new_request_info c ?f, rr_fd = fd, rr_buf = count, rr_packets = []\<rparr> = sent_read c ?f fd count 0"
    by (simp add: sent_read_def new_request_info_def)
  have rr': "(sent_read c ?f fd count 0)\<lparr>rr_info := (rr_info (sent_read c ?f fd count 0))\<lparr>rq_expected := m\<rparr>\<rparr> = sent_read c ?f fd count m" for m
    by (simp add: sent_read_def)
  have "read_file net n fd count c st = check_read_complete rid ?st'"
    using fd a(2) st cnt(1) start(1) st3(1) f3(1) cur lock
    by (cases "e \<le> 0") (simp_all add: read_file_def ids info rr rr' P_META_SUCCESS_def Let_def)
  then have ret: "read_file net n fd count c st = Returned ?st'" using check_read_sent[OF f'(1)] by simp
  have w': "at_work c ?w p i (inst\<lparr>fi_offset := fi_offset inst + of_nat count\<rparr>) ?st'"
    by (rule at_work_cong) (use st3(2) in \<open>simp_all add: read_effect_def\<close>)
  show thesis
    by (rule that[OF ret w' f'(2,1)]) (use st3(2) sr same(2) in \<open>simp_all add: read_effect_def same_nodes_def node_up_def is_node_up_def up_nodes_contains_def\<close>)
qed

section \<open>Property\<close>

text \<open>The answers to a read that has been sent, in any order.\<close>

lemma sent_read_answers:
  fixes count :: nat
  assumes "reads_sorted st"
    and find: "om_find (<) rid (br_reads st) = Some (sent_read c f fd count (of_nat (parts_count cs segs)))"
    and num: "0 < count" "0 \<le> offset" "offset + int count < 2 ^ 31" "0 < uint ss" "uint ss < 2 ^ 31" "0 < uint cs"
    and segs: "segs = file_parts ss offset count" and win: "in_window lo hi f segs"
    and rs: "mset rs = mset (range_answers F f ss cs segs)"
  shows "run_handlers (read_answer rid) rs st =
    Returned (read_reply rid (sent_read c f fd count (of_nat (parts_count cs segs))) (map F [offset .. offset + int count - 1]) st)"
proof -
  let ?n = "parts_count cs segs" and ?cs' = "range_answers F f ss cs segs"
  let ?rr = "sent_read c f fd count (of_nat ?n)"
  note parts = file_parts_facts[OF num(4,2,6,1), folded segs]
  have so: "oc_sorted file_chunk_less (chunk_window lo hi) fst ?cs'"
    using file_answers_sorted[OF num(4,5,6,2,3)] win unfolding segs .
  have bd: "\<forall>(s, off, len) \<in> set segs. 0 \<le> off \<and> 0 \<le> len" unfolding segs using segments_bounds by blast
  have data: "concat (map snd ?cs') = map F [offset .. offset + int count - 1]"
    unfolding range_answers_data[OF num(6) bd] unfolding segs file_parts_tile[OF num(4,2)] ..
  have "int count < 2 ^ 31" using num(2,3) by linarith
  then have "?n < 2 ^ 32" using parts(3) by simp
  then have u: "uint (rq_expected (rr_info ?rr)) = int (length ?cs')"
    by (simp add: sent_read_def range_answers_length unsigned_of_nat take_bit_nat_eq_self)
  have len: "length rs = length ?cs'" by (rule mset_eq_length[OF rs])
  have "0 < length rs" unfolding len range_answers_length by (rule parts(2))
  then have ne: "rs \<noteq> []" by simp
  have pk: "packets_add rs (rr_packets ?rr) = ?cs'" using packets_in_order[OF so rs] by (simp add: sent_read_def)
  show ?thesis
    using read_answers_complete[OF assms(1) find ne] u len data unfolding pk by (simp add: sent_read_def new_request_info_def)
qed

lemma read_file_answered:
  fixes count :: nat and rid :: u32
  assumes "at_work c (word_of_int fd) p i inst st" "0 < fd"
    and "has_exclusive_lock c (pm_file_id i) (br_locks st) = Returned e"
      "has_shared_lock c (pm_file_id i) (br_locks st) = Returned h" "0 < e \<or> 0 < h"
    and "only_fails a net" "node_number a"
    and "0 < count" "uint (fi_offset inst) + int count \<le> uint (pm_size i)" "uint (pm_size i) < 2 ^ 31"
    and "0 < uint (pm_chunk_size i)" "uint (pm_chunk_size i) < 2 ^ 31" "0 < uint (pm_stripe_size i)" "uint (pm_stripe_size i) < 2 ^ 31"
    and "reads_sorted st"
    and "count + 2 < n" "uint (pm_stripe_size i) \<le> int n * uint (pm_chunk_size i)"
      "uint (fi_offset inst) \<le> int n * uint (pm_stripe_size i)"
    and "parts_readable a (br_io st) (pm_file_id i) (pm_chunk_size i) segs" "in_window lo hi (pm_file_id i) segs"
    and "rid = vm_request_id (br_vm st) + 1" "segs = file_parts (pm_stripe_size i) (uint (fi_offset inst)) count"
    and "mset rs = mset (range_answers F (pm_file_id i) (pm_stripe_size i) (pm_chunk_size i) segs)"
  shows "\<exists>st1 st2. read_file net n fd count c st = Returned st1 \<and>
    delivered (io_sent (br_io st1)) = delivered (io_sent (br_io st)) @
      concat (map (stripe_reads rid (pm_file_id i) (pm_chunk_size i) a (br_io st)) segs) \<and>
    get_file_cursor (br_vm st1) (word_of_int fd) = uint (fi_offset inst) + int count \<and>
    br_pm st1 = br_pm st \<and> br_replies st1 = br_replies st \<and>
    run_handlers (\<lambda>(chunk, data). read_response_handler rid chunk (int (length data)) data) rs st1 = Returned st2 \<and>
    br_replies st2 = br_replies st @ [Read_Result c fd (int count)
      (map F [uint (fi_offset inst) .. uint (fi_offset inst) + int count - 1])]"
proof -
  let ?f = "pm_file_id i" and ?cs = "pm_chunk_size i" and ?ss = "pm_stripe_size i" and ?cur = "uint (fi_offset inst)"
  let ?n = "parts_count ?cs segs"
  let ?rr = "sent_read c ?f fd count (of_nat ?n)"
  obtain st1 where s: "read_file net n fd count c st = Returned st1"
    "at_work c (word_of_int fd) p i (inst\<lparr>fi_offset := fi_offset inst + of_nat count\<rparr>) st1"
    "reads_sorted st1" "om_find (<) rid (br_reads st1) = Some ?rr"
    "same_nodes a (br_io st) (br_io st1)" "br_pm st1 = br_pm st" "br_replies st1 = br_replies st" "br_locks st1 = br_locks st"
    "delivered (io_sent (br_io st1)) = delivered (io_sent (br_io st)) @
       concat (map (stripe_reads rid ?f ?cs a (br_io st)) segs)"
    using read_file_sends[OF assms(1-19) assms(21,22)] .
  have lt: "?cur + int count < 2 ^ 31" using assms(9,10) by linarith
  have "run_handlers (read_answer rid) rs st1 = Returned (read_reply rid ?rr (map F [?cur .. ?cur + int count - 1]) st1)"
    by (rule sent_read_answers[OF s(3,4) assms(8) uint_ge_0 lt assms(13,14,11,22,20,23)])
  moreover have "uint (fi_offset inst + of_nat count) = ?cur + int count"
    using lt u32_add_int[of "fi_offset inst" "int count"] by simp
  then have "get_file_cursor (br_vm st1) (word_of_int fd) = ?cur + int count"
    using s(2) lt by (simp add: at_work_def get_file_cursor_def u32_sint_uint)
  moreover have "read_answer rid = (\<lambda>(chunk, data). read_response_handler rid chunk (int (length data)) data)"
    by (simp add: read_answer_def)
  ultimately show ?thesis
    using s by (intro exI[of _ st1] exI[of _ "read_reply rid ?rr (map F [?cur .. ?cur + int count - 1]) st1"])
      (simp add: read_reply_def sent_read_def new_request_info_def)
qed

text \<open>
  C5: a read of \<open>count\<close> bytes inside the file by a client that holds a lock of it, while one
  node may not answer, but for each chunk its node or else its replica node (\<open>parts_readable\<close>). The range lies in a chunk window (\<open>in_window\<close>): inside one stripe, or over two
  of which one has a number up to the file's id and the other one above it; the order on chunks
  takes other stripes for the same, and their answers would replace each other. Every chunk of the
  range is asked for once, from the primary or else from the replica node; the cursor moves by
  \<open>count\<close>; and when the nodes have answered with the bytes of their parts, in any order, the client
  gets one reply with exactly the bytes of the file from the cursor on.
\<close>

theorem read_file_correct:
  fixes count :: nat and rid :: u32
  assumes "at_work c (word_of_int fd) p i inst st" "0 < fd"
    and "has_exclusive_lock c (pm_file_id i) (br_locks st) = Returned e"
      "has_shared_lock c (pm_file_id i) (br_locks st) = Returned h" "0 < e \<or> 0 < h"
    and "only_fails a net" "node_number a"
    and "0 < count" "uint (fi_offset inst) + int count \<le> uint (pm_size i)" "uint (pm_size i) < 2 ^ 31"
    and "0 < uint (pm_chunk_size i)" "uint (pm_chunk_size i) < 2 ^ 31" "0 < uint (pm_stripe_size i)" "uint (pm_stripe_size i) < 2 ^ 31"
    and "reads_sorted st"
    and "count + 2 < n" "uint (pm_stripe_size i) \<le> int n * uint (pm_chunk_size i)"
      "uint (fi_offset inst) \<le> int n * uint (pm_stripe_size i)"
    and "parts_readable a (br_io st) (pm_file_id i) (pm_chunk_size i) segs" "in_window lo hi (pm_file_id i) segs"
    and "rid = vm_request_id (br_vm st) + 1" "segs = file_parts (pm_stripe_size i) (uint (fi_offset inst)) count"
    and "mset rs = mset (range_answers F (pm_file_id i) (pm_stripe_size i) (pm_chunk_size i) segs)"
  shows "\<exists>st1 st2. read_file net n fd count c st = Returned st1 \<and>
    delivered (io_sent (br_io st1)) = delivered (io_sent (br_io st)) @
      concat (map (stripe_reads rid (pm_file_id i) (pm_chunk_size i) a (br_io st)) segs) \<and>
    get_file_cursor (br_vm st1) (word_of_int fd) = uint (fi_offset inst) + int count \<and>
    br_pm st1 = br_pm st \<and> br_replies st1 = br_replies st \<and>
    run_handlers (\<lambda>(chunk, data). read_response_handler rid chunk (int (length data)) data) rs st1 = Returned st2 \<and>
    br_replies st2 = br_replies st @ [Read_Result c fd (int count)
      (map F [uint (fi_offset inst) .. uint (fi_offset inst) + int count - 1])]"
  by (rule read_file_answered[OF assms])

text \<open>The file \<open>/a\<close> of 10 bytes, in one chunk on node 1 and its replica on node 3; node 1 does not answer.\<close>

definition demo_pm10 :: pmeta where
  "demo_pm10 = snd (update_file_size demo_pm 1 10)"

definition demo_reader :: barista where
  "demo_reader = demo_open\<lparr>br_pm := demo_pm10,
     br_io := one_chunk_io\<lparr>io_vmeta := new_vmeta\<lparr>vm_up_nodes := [1, 3], vm_last_fd := 1, vm_cursors := [(1, demo_inst)]\<rparr>\<rparr>\<rparr>"

lemma demo_pm10_facts: "pmeta_inv demo_pm10" "pmeta_view demo_pm10 ''/a'' = Some (demo_info\<lparr>pm_size := 10\<rparr>)"
proof -
  have v: "pmeta_view demo_pm ''/a'' = Some demo_info" using demo_pm_facts(2) by simp
  have f: "file_find 1 demo_pm = Some demo_info" using stat_of_view(3)[OF demo_pm_facts(1) v] by simp
  obtain st' where "update_file_size demo_pm 1 10 = (sint (10 :: u32), st')" "pmeta_inv st'"
    "pmeta_view st' = (pmeta_view demo_pm)(''/a'' \<mapsto> demo_info\<lparr>pm_size := 10\<rparr>)"
    using update_file_size_effect[OF demo_pm_facts(1) f, of 10 10] by auto
  then show "pmeta_inv demo_pm10" "pmeta_view demo_pm10 ''/a'' = Some (demo_info\<lparr>pm_size := 10\<rparr>)"
    by (simp_all add: demo_pm10_def)
qed

lemma demo_reader_facts:
  "at_work demo_writer 1 ''/a'' (demo_info\<lparr>pm_size := 10\<rparr>) demo_inst demo_reader"
  "br_locks demo_reader = br_locks demo_open" "br_reads demo_reader = []" "br_replies demo_reader = []"
  "vm_request_id (br_vm demo_reader) = 0" "readable 1 (br_io demo_reader) (mk_chunk 1 1 1)"
proof -
  have "at_work demo_writer 1 ''/a'' demo_info demo_inst demo_open" by (rule demo_open_at_work)
  moreover have "vm_cursors (br_vm demo_reader) = vm_cursors (br_vm demo_open)"
    "vm_last_fd (br_vm demo_reader) = vm_last_fd (br_vm demo_open)"
    by (simp_all add: demo_reader_def demo_open_def)
  ultimately show "at_work demo_writer 1 ''/a'' (demo_info\<lparr>pm_size := 10\<rparr>) demo_inst demo_reader"
    using cursors_inv_cong[of "br_vm demo_reader" "br_vm demo_open"] demo_pm10_facts
    by (simp add: at_work_def meta_free_def demo_reader_def demo_inst_def)
  have "node_number 1" "node_number 3" by (simp_all add: node_number_def)
  then show "readable 1 (br_io demo_reader) (mk_chunk 1 1 1)"
    using one_chunk_find by (simp add: readable_def demo_reader_def)
qed (simp_all add: demo_reader_def demo_open_def new_barista_def new_vmeta_def)

definition squares :: "int \<Rightarrow> u8" where
  "squares x = word_of_int (x * x)"

lemma read_file_correct_witness:
  "\<exists>st1 st2. read_file (failing_net 1) 20 1 10 demo_writer demo_reader = Returned st1 \<and>
     run_handlers (\<lambda>(chunk, data). read_response_handler 1 chunk (int (length data)) data)
       [(mk_chunk 1 1 1, map squares [0..9])] st1 = Returned st2 \<and>
     br_replies st2 = [Read_Result demo_writer 1 10 (map squares [0..9])]"
proof -
  have w: "at_work demo_writer (word_of_int 1) ''/a'' (demo_info\<lparr>pm_size := 10\<rparr>) demo_inst demo_reader"
    using demo_reader_facts(1) by simp
  have ex: "has_exclusive_lock demo_writer (pm_file_id (demo_info\<lparr>pm_size := 10\<rparr>)) (br_locks demo_reader) = Returned 1"
    using demo_open_facts(1) demo_reader_facts(2) by simp
  have sh: "has_shared_lock demo_writer (pm_file_id (demo_info\<lparr>pm_size := 10\<rparr>)) (br_locks demo_reader) = Returned 0"
    by (simp add: demo_reader_def demo_open_def has_shared_lock_def oc_find_def oc_lower_bound_def)
  let ?i = "demo_info\<lparr>pm_size := 10\<rparr>" and ?segs = "[(1, 0, 10)] :: (int \<times> int \<times> int) list"
  have segs: "?segs = file_parts (pm_stripe_size ?i) (uint (fi_offset demo_inst)) 10"
    using one_part(1) demo_open_facts(7) by simp
  have win: "in_window (\<lambda>_. 1) (\<lambda>_. 2) (pm_file_id ?i) ?segs" by (simp add: in_window_def)
  have rd: "parts_readable 1 (br_io demo_reader) (pm_file_id ?i) (pm_chunk_size ?i) ?segs"
    using one_part(2) demo_reader_facts(6) by (simp add: parts_readable_def)
  have ans: "range_answers squares (pm_file_id ?i) (pm_stripe_size ?i) (pm_chunk_size ?i) ?segs =
      [(mk_chunk 1 1 1, map squares [0..9])]"
    using one_part(2) by (simp add: range_answers_def part_answer_def seg_bytes_def del: upto_rec_numeral)
  have rid: "1 = vm_request_id (br_vm demo_reader) + 1" using demo_reader_facts(5) by simp
  have num: "(0 :: int) < 1" "(0 :: int) < 1 \<or> (0 :: int) < 0" "node_number 1" "0 < (10 :: nat)"
    "uint (fi_offset demo_inst) + int 10 \<le> uint (pm_size ?i)" "uint (pm_size ?i) < 2 ^ 31"
    "0 < uint (pm_chunk_size ?i)" "uint (pm_chunk_size ?i) < 2 ^ 31" "0 < uint (pm_stripe_size ?i)" "uint (pm_stripe_size ?i) < 2 ^ 31"
    "reads_sorted demo_reader" "10 + 2 < (20 :: nat)" "uint (pm_stripe_size ?i) \<le> int 20 * uint (pm_chunk_size ?i)"
    "uint (fi_offset demo_inst) \<le> int 20 * uint (pm_stripe_size ?i)"
    using demo_open_facts(7) demo_reader_facts(3) by (simp_all add: node_number_def)
  obtain st1 st2 where r: "read_file (failing_net 1) 20 1 10 demo_writer demo_reader = Returned st1"
    "run_handlers (\<lambda>(chunk, data). read_response_handler 1 chunk (int (length data)) data)
       [(mk_chunk 1 1 1, map squares [0..9])] st1 = Returned st2"
    "br_replies st2 = br_replies demo_reader @ [Read_Result demo_writer 1 (int 10)
       (map squares [uint (fi_offset demo_inst) .. uint (fi_offset demo_inst) + int 10 - 1])]"
    using read_file_correct[OF w num(1) ex sh num(2) failing_net_only num(3-14) rd win rid segs refl[of "mset _"], where F = squares]
    unfolding ans by blast
  have "br_replies st2 = [Read_Result demo_writer 1 10 (map squares [0..9])]"
    using r(3) demo_open_facts(7) demo_reader_facts(4) by (simp del: upto_rec_numeral)
  with r(1,2) show ?thesis by blast
qed

end
