(* ===== verification/Wire.thy ===== *)
theory Wire
  imports Prelude "HOL-Library.Monad_Syntax"
begin

text \<open>
  The memory of a packet: \<open>class Packet\<close> of \<open>network_core/network_packets.cpp\<close>, the stores
  and loads its subclasses make through \<open>base[i]\<close>, and the way both ends take a packet off a
  socket. A buffer is the list of its bytes; a store or load that leaves the buffer has no
  defined effect and is \<open>None\<close>. Words are little endian, as on the x86 machines the program
  is built for. The content of fresh memory is the parameter \<open>heap\<close>; \<open>malloc\<close> is assumed to
  succeed for the sizes the program asks for.
\<close>

section \<open>Loads and stores\<close>

definition word_bytes :: "u32 \<Rightarrow> u8 list" where
  "word_bytes w = [ucast w, ucast (drop_bit 8 w), ucast (drop_bit 16 w), ucast (drop_bit 24 w)]"

fun bytes_word :: "u8 list \<Rightarrow> u32" where
  "bytes_word [a, b, c, d] =
     or (ucast a) (or (push_bit 8 (ucast b)) (or (push_bit 16 (ucast c)) (push_bit 24 (ucast d))))"
| "bytes_word _ = 0"

definition word_at :: "u8 list \<Rightarrow> nat \<Rightarrow> u32 option" where
  "word_at buf off = (if off + 4 \<le> length buf then Some (bytes_word (take 4 (drop off buf))) else None)"

definition poke :: "nat \<Rightarrow> u8 list \<Rightarrow> u8 list \<Rightarrow> u8 list option" where
  "poke off bs buf =
     (if off + length bs \<le> length buf then Some (take off buf @ bs @ drop (off + length bs) buf) else None)"

text \<open>A NUL-terminated string, and the string a \<open>char*\<close> into a buffer denotes.\<close>

definition c_string :: "string \<Rightarrow> bool" where
  "c_string s \<longleftrightarrow> CHR 0x00 \<notin> set s"

definition byte_of_char :: "char \<Rightarrow> u8" where
  "byte_of_char c = of_nat (of_char c)"

definition string_bytes :: "string \<Rightarrow> u8 list" where
  "string_bytes s = map byte_of_char s @ [0]"

definition string_at :: "u8 list \<Rightarrow> nat \<Rightarrow> string option" where
  "string_at buf off =
     (if 0 \<in> set (drop off buf)
      then Some (map (\<lambda>b. char_of (unat b)) (takeWhile (\<lambda>b. b \<noteq> 0) (drop off buf))) else None)"

definition bytes_at :: "u8 list \<Rightarrow> nat \<Rightarrow> nat \<Rightarrow> u8 list option" where
  "bytes_at buf off n = (if off + n \<le> length buf then Some (take n (drop off buf)) else None)"

section \<open>Packet\<close>

record packet =
  pk_size :: u32
  pk_id :: u32
  pk_flag :: u32
  pk_buf :: "u8 list"

definition header_size :: int where "header_size = 12"

text \<open>\<open>Packet (id, flag, derived_size)\<close>: a fresh buffer with the header stored in it.\<close>

definition packet_new :: "(nat \<Rightarrow> u8) \<Rightarrow> u32 \<Rightarrow> u32 \<Rightarrow> int \<Rightarrow> packet option" where
  "packet_new heap i flag derived_size =
     (let size = word_of_int (derived_size + header_size) in do {
        b0 \<leftarrow> poke 0 (word_bytes size) (map heap [0..<unat size]);
        b1 \<leftarrow> poke 4 (word_bytes i) b0;
        b2 \<leftarrow> poke 8 (word_bytes flag) b1;
        Some \<lparr>pk_size = size, pk_id = i, pk_flag = flag, pk_buf = b2\<rparr>
      })"

text \<open>\<open>Packet (buf, size)\<close>: the size argument is overwritten by the size in the header.\<close>

definition packet_of :: "u8 list \<Rightarrow> packet option" where
  "packet_of buf = do {
     size \<leftarrow> word_at buf 0;
     i \<leftarrow> word_at buf 4;
     flag \<leftarrow> word_at buf 8;
     Some \<lparr>pk_size = size, pk_id = i, pk_flag = flag, pk_buf = buf\<rparr>
   }"

text \<open>A store at an offset from the end of the header.\<close>

definition put_at :: "nat \<Rightarrow> u8 list \<Rightarrow> packet \<Rightarrow> packet option" where
  "put_at off bs p = map_option (\<lambda>b. p\<lparr>pk_buf := b\<rparr>) (poke (12 + off) bs (pk_buf p))"

text \<open>The packet whose buffer is exactly header and body.\<close>

definition packet_image :: "u32 \<Rightarrow> u32 \<Rightarrow> u8 list \<Rightarrow> packet" where
  "packet_image i flag body =
     \<lparr>pk_size = of_nat (12 + length body), pk_id = i, pk_flag = flag,
      pk_buf = word_bytes (of_nat (12 + length body)) @ word_bytes i @ word_bytes flag @ body\<rparr>"

section \<open>Taking a packet off a socket\<close>

text \<open>
  Both ends peek at the first word, allocate that many bytes, receive into them once, without
  asking for all of them, and look at the third word. \<open>avail\<close> are the bytes the socket holds.
  With fewer than four of them the length is partly uninitialised.
\<close>

definition take_packet :: "(nat \<Rightarrow> u8) \<Rightarrow> u8 list \<Rightarrow> (u32 \<times> u8 list \<times> u8 list) outcome" where
  "take_packet heap avail =
     (case word_at avail 0 of
        None \<Rightarrow> Unspecified
      | Some packet_size \<Rightarrow>
          guard_defined (0 \<le> sint packet_size)
           (let n = nat (sint packet_size);
                buffer = take n avail @ map heap [length avail..<n]
            in case word_at buffer 8 of
                 None \<Rightarrow> Unspecified
               | Some flag \<Rightarrow> Returned (flag, buffer, drop n avail)))"

section \<open>Words and strings in memory\<close>

lemma length_word_bytes [simp]: "length (word_bytes w) = 4"
  by (simp add: word_bytes_def)

lemma bytes_word_bytes [simp]: "bytes_word (word_bytes w) = w"
proof (rule bit_word_eqI)
  fix n assume n: "n < LENGTH(32)"
  consider "n < 8" | "8 \<le> n" "n < 16" | "16 \<le> n" "n < 24" | "24 \<le> n" by linarith
  then show "bit (bytes_word (word_bytes w)) n \<longleftrightarrow> bit w n"
    using n by cases (auto simp: word_bytes_def bit_simps)
qed

lemma word_at_head [simp]: "word_at (word_bytes w @ bs) 0 = Some w"
  by (simp add: word_at_def)

lemma word_at_skip [simp]: "length as \<le> n \<Longrightarrow> word_at (as @ bs) n = word_at bs (n - length as)"
  by (auto simp: word_at_def)

lemma word_at_single [simp]: "word_at (word_bytes w) 0 = Some w"
  using word_at_head[of w "[]"] by simp

lemma bytes_at_skip [simp]: "length as \<le> n \<Longrightarrow> bytes_at (as @ bs) n k = bytes_at bs (n - length as) k"
  by (auto simp: bytes_at_def)

lemma bytes_at_all [simp]: "bytes_at bs 0 (length bs) = Some bs"
  by (simp add: bytes_at_def)

lemma length_string_bytes [simp]: "length (string_bytes s) = length s + 1"
  by (simp add: string_bytes_def)

lemma string_at_skip [simp]: "length as \<le> n \<Longrightarrow> string_at (as @ bs) n = string_at bs (n - length as)"
  by (simp add: string_at_def)

lemma char_byte [simp]: "char_of (unat (byte_of_char c)) = c"
proof -
  have "(of_char c :: nat) mod 256 = of_char c" by (rule of_char_mod_256)
  then show ?thesis by (simp add: byte_of_char_def unat_of_nat)
qed

lemma char_zero: "char_of (0::nat) = CHR 0x00"
  by (simp add: char_of_def)

lemma byte_of_char_nonzero:
  assumes "c \<noteq> CHR 0x00"
  shows "byte_of_char c \<noteq> 0"
proof
  assume z: "byte_of_char c = 0"
  have "char_of (unat (byte_of_char c)) = c" by (rule char_byte)
  then have "c = CHR 0x00" by (simp only: z unsigned_0 char_zero)
  with assms show False ..
qed

lemma string_at_head [simp]:
  assumes "c_string s"
  shows "string_at (string_bytes s) 0 = Some s"
proof -
  have nz: "b \<noteq> 0" if "b \<in> set (map byte_of_char s)" for b
  proof -
    from that have "b \<in> byte_of_char ` set s" by (simp only: set_map)
    then obtain c where c: "c \<in> set s" "b = byte_of_char c" by (rule imageE) (rule that)
    then have "c \<noteq> CHR 0x00" using assms unfolding c_string_def by blast
    then show ?thesis unfolding c(2) by (rule byte_of_char_nonzero)
  qed
  have "takeWhile (\<lambda>b. b \<noteq> 0) (map byte_of_char s @ [0]) = map byte_of_char s @ takeWhile (\<lambda>b. b \<noteq> 0) [0]"
    by (rule takeWhile_append2) (rule nz)
  then show ?thesis by (simp add: string_at_def string_bytes_def comp_def)
qed

text \<open>Stores into a buffer whose front has been filled and whose rest is still fresh.\<close>

lemma poke_skip [simp]:
  "length as \<le> k \<Longrightarrow> poke k bs (as @ cs) = map_option ((@) as) (poke (k - length as) bs cs)"
  by (auto simp: poke_def)

lemma poke_fresh [simp]:
  "m + length bs \<le> n \<Longrightarrow> poke 0 bs (map heap [m..<n]) = Some (bs @ map heap [m + length bs..<n])"
  by (simp add: poke_def drop_map)

section \<open>Packets are their images\<close>

definition part :: "(nat \<Rightarrow> u8) \<Rightarrow> u32 \<Rightarrow> u32 \<Rightarrow> nat \<Rightarrow> u8 list \<Rightarrow> packet" where
  "part heap i flag n body =
     \<lparr>pk_size = of_nat (12 + n), pk_id = i, pk_flag = flag,
      pk_buf = word_bytes (of_nat (12 + n)) @ word_bytes i @ word_bytes flag @ body @
               map heap [12 + length body..<12 + n]\<rparr>"

lemma packet_new_part:
  assumes "n < 2 ^ 31 - 12"
  shows "packet_new heap i flag (int n) = Some (part heap i flag n [])"
proof -
  have "word_of_int (int n + header_size) = (of_nat (12 + n) :: u32)" by (simp add: header_size_def)
  moreover have "unat (of_nat (12 + n) :: u32) = 12 + n" 
    using assms by (simp add: unat_of_nat del: of_nat_add)
  ultimately show ?thesis by (simp add: packet_new_def part_def Let_def del: of_nat_add)
qed

lemma put_at_part [simp]:
  "off = length body \<Longrightarrow> off + length bs \<le> n \<Longrightarrow>
   put_at off bs (part heap i flag n body) = Some (part heap i flag n (body @ bs))"
  by (simp add: put_at_def part_def add.assoc)

lemma part_full [simp]: "n = length body \<Longrightarrow> part heap i flag n body = packet_image i flag body"
  by (simp add: part_def packet_image_def)

lemma packet_of_image [simp]: "packet_of (pk_buf (packet_image i flag body)) = Some (packet_image i flag body)"
  by (simp add: packet_of_def packet_image_def)

lemma image_simps [simp]:
  "pk_size (packet_image i flag body) = of_nat (12 + length body)"
  "pk_id (packet_image i flag body) = i" "pk_flag (packet_image i flag body) = flag"
  by (simp_all add: packet_image_def)

lemma image_load [simp]:
  "12 \<le> n \<Longrightarrow> word_at (pk_buf (packet_image i flag body)) n = word_at body (n - 12)"
  "12 \<le> n \<Longrightarrow> string_at (pk_buf (packet_image i flag body)) n = string_at body (n - 12)"
  "12 \<le> n \<Longrightarrow> bytes_at (pk_buf (packet_image i flag body)) n k = bytes_at body (n - 12) k"
  "word_at (pk_buf (packet_image i flag body)) 0 = Some (of_nat (12 + length body))"
  "word_at (pk_buf (packet_image i flag body)) 8 = Some flag"
  by (simp_all add: packet_image_def)

lemma length_image [simp]: "length (pk_buf (packet_image i flag body)) = 12 + length body"
  by (simp add: packet_image_def)

lemma image_not_empty [simp]: "pk_buf (packet_image i flag body) \<noteq> []"
  using length_image[of i flag body] by (metis add_is_0 list.size(3) zero_neq_numeral)

lemma take_packet_image:
  assumes "length body < 2 ^ 31 - 12"
  shows "take_packet heap (pk_buf (packet_image i flag body) @ rest) =
    Returned (flag, pk_buf (packet_image i flag body), rest)"
proof -
  let ?p = "pk_buf (packet_image i flag body)"
  have s: "sint (of_nat (12 + length body) :: u32) = int (12 + length body)"
    using assms u32_sint_uint[of "of_nat (12 + length body)"] uint_of_nat_small[of "12 + length body"]
    by simp
  have "word_at (?p @ rest) 0 = Some (of_nat (12 + length body))" by (simp add: packet_image_def)
  then show ?thesis by (simp add: take_packet_def s Let_def del: of_nat_add)
qed

end
