(* ===== verification/Packets.thy ===== *)
theory Packets
  imports Wire
begin

text \<open>
  The packets of \<open>network_core\<close>: the flags of \<open>packet_flags.h\<close>, and for every packet class
  the constructor that builds its buffer and the constructor that reads one. A building
  constructor makes a fresh packet and then stores its members one after the other; a reading
  one takes what it finds at the same places and checks nothing. What their \<open>print\<close>
  functions write is in \<open>Packet_Print\<close>; \<open>delete_file_packet.cpp\<close>, whose flag \<open>DELETE_FILE\<close> does not
  exist, is not modelled.
\<close>

section \<open>packet_flags.h\<close>

datatype packet_flags =
    ESPRESSO_INIT | DECAFS_CLIENT_INIT | OPEN | READ
  | WRITE | CLOSE | LSEEK | REMOVE
  | SYNC | STAT_FS | MKDIR | OPENDIR
  | READDIR | FILE_STORAGE_STAT | OPEN_RESPONSE | READ_RESPONSE
  | WRITE_RESPONSE | CLOSE_RESPONSE | LSEEK_RESPONSE | REMOVE_RESPONSE
  | SYNC_RESPONSE | STAT_FS_RESPONSE | MKDIR_RESPONSE | OPENDIR_RESPONSE
  | READDIR_RESPONSE | FILE_STORAGE_STAT_RESPONSE | READ_CHUNK | WRITE_CHUNK
  | DELETE_CHUNK | READ_CHUNK_RESPONSE | WRITE_CHUNK_RESPONSE | DELETE_CHUNK_RESPONSE

primrec flag_code :: "packet_flags \<Rightarrow> u32" where
  "flag_code ESPRESSO_INIT = 0"
| "flag_code DECAFS_CLIENT_INIT = 1"
| "flag_code OPEN = 2"
| "flag_code READ = 3"
| "flag_code WRITE = 4"
| "flag_code CLOSE = 5"
| "flag_code LSEEK = 6"
| "flag_code REMOVE = 7"
| "flag_code SYNC = 8"
| "flag_code STAT_FS = 9"
| "flag_code MKDIR = 10"
| "flag_code OPENDIR = 11"
| "flag_code READDIR = 12"
| "flag_code FILE_STORAGE_STAT = 13"
| "flag_code OPEN_RESPONSE = 14"
| "flag_code READ_RESPONSE = 15"
| "flag_code WRITE_RESPONSE = 16"
| "flag_code CLOSE_RESPONSE = 17"
| "flag_code LSEEK_RESPONSE = 18"
| "flag_code REMOVE_RESPONSE = 19"
| "flag_code SYNC_RESPONSE = 20"
| "flag_code STAT_FS_RESPONSE = 21"
| "flag_code MKDIR_RESPONSE = 22"
| "flag_code OPENDIR_RESPONSE = 23"
| "flag_code READDIR_RESPONSE = 24"
| "flag_code FILE_STORAGE_STAT_RESPONSE = 25"
| "flag_code READ_CHUNK = 26"
| "flag_code WRITE_CHUNK = 27"
| "flag_code DELETE_CHUNK = 28"
| "flag_code READ_CHUNK_RESPONSE = 29"
| "flag_code WRITE_CHUNK_RESPONSE = 30"
| "flag_code DELETE_CHUNK_RESPONSE = 31"

text \<open>The label a \<open>switch\<close> on a flag jumps to.\<close>

definition all_flags :: "packet_flags list" where
  "all_flags = [
    ESPRESSO_INIT, DECAFS_CLIENT_INIT, OPEN, READ,
    WRITE, CLOSE, LSEEK, REMOVE,
    SYNC, STAT_FS, MKDIR, OPENDIR,
    READDIR, FILE_STORAGE_STAT, OPEN_RESPONSE, READ_RESPONSE,
    WRITE_RESPONSE, CLOSE_RESPONSE, LSEEK_RESPONSE, REMOVE_RESPONSE,
    SYNC_RESPONSE, STAT_FS_RESPONSE, MKDIR_RESPONSE, OPENDIR_RESPONSE,
    READDIR_RESPONSE, FILE_STORAGE_STAT_RESPONSE, READ_CHUNK, WRITE_CHUNK,
    DELETE_CHUNK, READ_CHUNK_RESPONSE, WRITE_CHUNK_RESPONSE, DELETE_CHUNK_RESPONSE]"

definition flag_of :: "u32 \<Rightarrow> packet_flags option" where
  "flag_of w = (if unat w < length all_flags then Some (all_flags ! unat w) else None)"

lemma flag_of_code [simp]: "flag_of (flag_code f) = Some f"
  by (cases f) (simp_all add: flag_of_def all_flags_def)

declare flag_code.simps [simp del]

section \<open>One word\<close>

text \<open>Most of the small packets carry a single word after the header.\<close>

definition word_packet :: "(nat \<Rightarrow> u8) \<Rightarrow> packet_flags \<Rightarrow> int \<Rightarrow> packet option" where
  "word_packet heap flag x = packet_new heap 0 (flag_code flag) 4 \<bind> put_at 0 (word_bytes (word_of_int x))"

definition word_of :: "u8 list \<Rightarrow> u32 option" where
  "word_of buf = packet_of buf \<bind> (\<lambda>_. word_at buf 12)"

definition int_of :: "u8 list \<Rightarrow> int option" where
  "int_of buf = map_option sint (word_of buf)"

definition EspressoInit :: "(nat \<Rightarrow> u8) \<Rightarrow> int \<Rightarrow> packet option" where
  "EspressoInit heap node_id = word_packet heap ESPRESSO_INIT node_id"

definition EspressoInit_of :: "u8 list \<Rightarrow> u32 option" where
  "EspressoInit_of buf = word_of buf"

definition DecafsClientInit :: "(nat \<Rightarrow> u8) \<Rightarrow> int \<Rightarrow> packet option" where
  "DecafsClientInit heap user = word_packet heap DECAFS_CLIENT_INIT user"

definition DecafsClientInit_of :: "u8 list \<Rightarrow> u32 option" where
  "DecafsClientInit_of buf = word_of buf"

definition ClosePacket :: "(nat \<Rightarrow> u8) \<Rightarrow> int \<Rightarrow> packet option" where
  "ClosePacket heap fd = word_packet heap CLOSE fd"

definition ClosePacket_of :: "u8 list \<Rightarrow> u32 option" where
  "ClosePacket_of buf = word_of buf"

definition OpenPacketResponse :: "(nat \<Rightarrow> u8) \<Rightarrow> int \<Rightarrow> packet option" where
  "OpenPacketResponse heap response = word_packet heap OPEN_RESPONSE response"

definition OpenPacketResponse_of :: "u8 list \<Rightarrow> u32 option" where
  "OpenPacketResponse_of buf = word_of buf"

definition CloseResponsePacket :: "(nat \<Rightarrow> u8) \<Rightarrow> int \<Rightarrow> packet option" where
  "CloseResponsePacket heap result = word_packet heap CLOSE_RESPONSE result"

definition CloseResponsePacket_of :: "u8 list \<Rightarrow> int option" where
  "CloseResponsePacket_of buf = int_of buf"

definition LseekResponsePacket :: "(nat \<Rightarrow> u8) \<Rightarrow> int \<Rightarrow> packet option" where
  "LseekResponsePacket heap result = word_packet heap LSEEK_RESPONSE result"

definition LseekResponsePacket_of :: "u8 list \<Rightarrow> int option" where
  "LseekResponsePacket_of buf = int_of buf"

definition MkdirResponsePacket :: "(nat \<Rightarrow> u8) \<Rightarrow> int \<Rightarrow> packet option" where
  "MkdirResponsePacket heap result = word_packet heap MKDIR_RESPONSE result"

definition MkdirResponsePacket_of :: "u8 list \<Rightarrow> int option" where
  "MkdirResponsePacket_of buf = int_of buf"

definition RemoveResponsePacket :: "(nat \<Rightarrow> u8) \<Rightarrow> int \<Rightarrow> packet option" where
  "RemoveResponsePacket heap result = word_packet heap REMOVE_RESPONSE result"

definition RemoveResponsePacket_of :: "u8 list \<Rightarrow> int option" where
  "RemoveResponsePacket_of buf = int_of buf"

section \<open>Strings\<close>

definition string_packet :: "(nat \<Rightarrow> u8) \<Rightarrow> packet_flags \<Rightarrow> string \<Rightarrow> packet option" where
  "string_packet heap flag s =
     packet_new heap 0 (flag_code flag) (int (length s) + 1) \<bind> put_at 0 (string_bytes s)"

definition string_of :: "u8 list \<Rightarrow> string option" where
  "string_of buf = packet_of buf \<bind> (\<lambda>_. string_at buf 12)"

definition RemovePacket :: "(nat \<Rightarrow> u8) \<Rightarrow> string \<Rightarrow> packet option" where
  "RemovePacket heap filename = string_packet heap REMOVE filename"

definition RemovePacket_of :: "u8 list \<Rightarrow> string option" where
  "RemovePacket_of buf = string_of buf"

definition OpendirPacket :: "(nat \<Rightarrow> u8) \<Rightarrow> string \<Rightarrow> packet option" where
  "OpendirPacket heap filename = string_packet heap OPENDIR filename"

definition OpendirPacket_of :: "u8 list \<Rightarrow> string option" where
  "OpendirPacket_of buf = string_of buf"

definition FileStorageStatPacket :: "(nat \<Rightarrow> u8) \<Rightarrow> string \<Rightarrow> packet option" where
  "FileStorageStatPacket heap filepath = string_packet heap FILE_STORAGE_STAT filepath"

definition FileStorageStatPacket_of :: "u8 list \<Rightarrow> string option" where
  "FileStorageStatPacket_of buf = string_of buf"

definition FileStorageStatResponsePacket :: "(nat \<Rightarrow> u8) \<Rightarrow> string \<Rightarrow> packet option" where
  "FileStorageStatResponsePacket heap data = string_packet heap FILE_STORAGE_STAT_RESPONSE data"

definition FileStorageStatResponsePacket_of :: "u8 list \<Rightarrow> string option" where
  "FileStorageStatResponsePacket_of buf = string_of buf"

section \<open>Words and a string\<close>

definition OpenPacket :: "(nat \<Rightarrow> u8) \<Rightarrow> int \<Rightarrow> string \<Rightarrow> packet option" where
  "OpenPacket heap flags filename = do {
     p \<leftarrow> packet_new heap 0 (flag_code OPEN) (int (length filename) + 1 + 4);
     p \<leftarrow> put_at 0 (word_bytes (word_of_int flags)) p;
     p \<leftarrow> put_at 4 (map byte_of_char filename) p;
     put_at (4 + length filename) [0] p
   }"

definition OpenPacket_of :: "u8 list \<Rightarrow> (int \<times> string) option" where
  "OpenPacket_of buf = do {
     _ \<leftarrow> packet_of buf;
     open_flags \<leftarrow> word_at buf 12;
     filepath \<leftarrow> string_at buf 16;
     Some (sint open_flags, filepath)
   }"

definition MkdirPacket :: "(nat \<Rightarrow> u8) \<Rightarrow> string \<Rightarrow> u32 \<Rightarrow> packet option" where
  "MkdirPacket heap filename mode = do {
     p \<leftarrow> packet_new heap 0 (flag_code MKDIR) (int (length filename) + 1 + 4);
     p \<leftarrow> put_at 0 (word_bytes mode) p;
     put_at 4 (string_bytes filename) p
   }"

definition MkdirPacket_of :: "u8 list \<Rightarrow> (string \<times> u32) option" where
  "MkdirPacket_of buf = do {
     _ \<leftarrow> packet_of buf;
     mode \<leftarrow> word_at buf 12;
     filepath \<leftarrow> string_at buf 16;
     Some (filepath, mode)
   }"

definition LseekPacket :: "(nat \<Rightarrow> u8) \<Rightarrow> int \<Rightarrow> int \<Rightarrow> int \<Rightarrow> packet option" where
  "LseekPacket heap fd offset whence = do {
     p \<leftarrow> packet_new heap 0 (flag_code LSEEK) 12;
     p \<leftarrow> put_at 0 (word_bytes (word_of_int fd)) p;
     p \<leftarrow> put_at 4 (word_bytes (word_of_int offset)) p;
     put_at 8 (word_bytes (word_of_int whence)) p
   }"

definition LseekPacket_of :: "u8 list \<Rightarrow> (int \<times> int \<times> int) option" where
  "LseekPacket_of buf = do {
     _ \<leftarrow> packet_of buf;
     fd \<leftarrow> word_at buf 12;
     offset \<leftarrow> word_at buf 16;
     whence \<leftarrow> word_at buf 20;
     Some (sint fd, sint offset, sint whence)
   }"

section \<open>FilePacket and its subclasses\<close>

record file_packet =
  fp_fd :: u32
  fp_file_id :: u32
  fp_stripe_id :: u32
  fp_chunk_num :: u32
  fp_offset :: u32
  fp_count :: int

definition FilePacket :: "(nat \<Rightarrow> u8) \<Rightarrow> u32 \<Rightarrow> packet_flags \<Rightarrow> int \<Rightarrow> file_packet \<Rightarrow> packet option" where
  "FilePacket heap i flag derived_size m = do {
     p \<leftarrow> packet_new heap i (flag_code flag) (derived_size + 24);
     p \<leftarrow> put_at 0 (word_bytes (fp_fd m)) p;
     p \<leftarrow> put_at 4 (word_bytes (fp_file_id m)) p;
     p \<leftarrow> put_at 8 (word_bytes (fp_stripe_id m)) p;
     p \<leftarrow> put_at 12 (word_bytes (fp_chunk_num m)) p;
     p \<leftarrow> put_at 16 (word_bytes (fp_offset m)) p;
     put_at 20 (word_bytes (word_of_int (fp_count m))) p
   }"

definition FilePacket_of :: "u8 list \<Rightarrow> (u32 \<times> file_packet) option" where
  "FilePacket_of buf = do {
     p \<leftarrow> packet_of buf;
     fd \<leftarrow> word_at buf 12;
     f \<leftarrow> word_at buf 16;
     s \<leftarrow> word_at buf 20;
     c \<leftarrow> word_at buf 24;
     offset \<leftarrow> word_at buf 28;
     count \<leftarrow> word_at buf 32;
     Some (pk_id p, \<lparr>fp_fd = fd, fp_file_id = f, fp_stripe_id = s, fp_chunk_num = c, fp_offset = offset,
       fp_count = sint count\<rparr>)
   }"

text \<open>The data of a \<open>FileDataPacket\<close> is what its pointer and its count denote, nothing when the pointer is \<open>NULL\<close>.\<close>

definition FileDataPacket ::
    "(nat \<Rightarrow> u8) \<Rightarrow> u32 \<Rightarrow> packet_flags \<Rightarrow> file_packet \<Rightarrow> u8 list \<Rightarrow> packet option" where
  "FileDataPacket heap i flag m buf = do {
     p \<leftarrow> FilePacket heap i flag (max 0 (fp_count m)) m;
     if fp_count m > 0
     then bytes_at buf 0 (nat (fp_count m)) \<bind> (\<lambda>bs. put_at 24 bs p)
     else Some p
   }"

definition FileDataPacket_of :: "u8 list \<Rightarrow> (u32 \<times> file_packet \<times> u8 list) option" where
  "FileDataPacket_of buf = do {
     (i, m) \<leftarrow> FilePacket_of buf;
     bs \<leftarrow> (if fp_count m > 0 then bytes_at buf 36 (nat (fp_count m)) else Some []);
     Some (i, m, bs)
   }"

definition ReadChunkRequest :: "(nat \<Rightarrow> u8) \<Rightarrow> u32 \<Rightarrow> file_packet \<Rightarrow> packet option" where
  "ReadChunkRequest heap i m = FilePacket heap i READ_CHUNK 0 m"

definition WriteChunkResponse :: "(nat \<Rightarrow> u8) \<Rightarrow> u32 \<Rightarrow> file_packet \<Rightarrow> packet option" where
  "WriteChunkResponse heap i m = FilePacket heap i WRITE_CHUNK_RESPONSE 0 m"

definition WriteChunkRequest :: "(nat \<Rightarrow> u8) \<Rightarrow> u32 \<Rightarrow> file_packet \<Rightarrow> u8 list \<Rightarrow> packet option" where
  "WriteChunkRequest heap i m buf = FileDataPacket heap i WRITE_CHUNK m buf"

definition ReadChunkResponse :: "(nat \<Rightarrow> u8) \<Rightarrow> u32 \<Rightarrow> file_packet \<Rightarrow> u8 list \<Rightarrow> packet option" where
  "ReadChunkResponse heap i m buf = FileDataPacket heap i READ_CHUNK_RESPONSE m buf"

text \<open>
  The two delete packets hand the member \<open>fd\<close> to the base constructor before it has a value;
  \<open>junk\<close> is what it holds. Offset and count are -1.
\<close>

definition delete_message :: "u32 \<Rightarrow> u32 \<Rightarrow> u32 \<Rightarrow> u32 \<Rightarrow> file_packet" where
  "delete_message junk f s c =
     \<lparr>fp_fd = junk, fp_file_id = f, fp_stripe_id = s, fp_chunk_num = c, fp_offset = -1, fp_count = -1\<rparr>"

definition DeleteChunkRequest :: "(nat \<Rightarrow> u8) \<Rightarrow> u32 \<Rightarrow> u32 \<Rightarrow> u32 \<Rightarrow> u32 \<Rightarrow> u32 \<Rightarrow> packet option" where
  "DeleteChunkRequest heap junk i f s c = FilePacket heap i DELETE_CHUNK 0 (delete_message junk f s c)"

definition DeleteChunkResponse :: "(nat \<Rightarrow> u8) \<Rightarrow> u32 \<Rightarrow> u32 \<Rightarrow> u32 \<Rightarrow> u32 \<Rightarrow> u32 \<Rightarrow> packet option" where
  "DeleteChunkResponse heap junk i f s c = FilePacket heap i DELETE_CHUNK_RESPONSE 0 (delete_message junk f s c)"

text \<open>The packets between client and barista use the file descriptor and the count only.\<close>

definition fd_message :: "u32 \<Rightarrow> u32 \<Rightarrow> file_packet" where
  "fd_message fd count =
     \<lparr>fp_fd = fd, fp_file_id = 0, fp_stripe_id = 0, fp_chunk_num = 0, fp_offset = 0, fp_count = sint count\<rparr>"

definition ReadRequest :: "(nat \<Rightarrow> u8) \<Rightarrow> u32 \<Rightarrow> u32 \<Rightarrow> packet option" where
  "ReadRequest heap fd count = FilePacket heap 0 READ 0 (fd_message fd count)"

definition ReadResponsePacket :: "(nat \<Rightarrow> u8) \<Rightarrow> u32 \<Rightarrow> u32 \<Rightarrow> u8 list \<Rightarrow> packet option" where
  "ReadResponsePacket heap fd count buf = FileDataPacket heap 0 READ_RESPONSE (fd_message fd count) buf"

definition WritePacket :: "(nat \<Rightarrow> u8) \<Rightarrow> u32 \<Rightarrow> u32 \<Rightarrow> u8 list \<Rightarrow> packet option" where
  "WritePacket heap fd count buf = FileDataPacket heap 0 WRITE (fd_message fd count) buf"

definition WriteResponsePacket :: "(nat \<Rightarrow> u8) \<Rightarrow> u32 \<Rightarrow> u32 \<Rightarrow> packet option" where
  "WriteResponsePacket heap fd count = FilePacket heap 0 WRITE_RESPONSE 0 (fd_message fd count)"

section \<open>Every constructor fills its buffer\<close>

text \<open>
  The images of the packets: what the stores leave in the buffer. None of them reaches outside
  the buffer and none leaves a byte of it fresh.
\<close>

definition file_body :: "file_packet \<Rightarrow> u8 list" where
  "file_body m = word_bytes (fp_fd m) @ word_bytes (fp_file_id m) @ word_bytes (fp_stripe_id m) @
     word_bytes (fp_chunk_num m) @ word_bytes (fp_offset m) @ word_bytes (word_of_int (fp_count m))"

lemma length_file_body [simp]: "length (file_body m) = 24"
  by (simp add: file_body_def)

lemma word_packet_image:
  "word_packet heap flag x = Some (packet_image 0 (flag_code flag) (word_bytes (word_of_int x)))"
  using packet_new_part[of 4 heap 0 "flag_code flag"] by (simp add: word_packet_def)

lemma string_packet_image:
  assumes "length s < 2 ^ 31 - 100"
  shows "string_packet heap flag s = Some (packet_image 0 (flag_code flag) (string_bytes s))"
  using assms packet_new_part[of "length s + 1" heap 0 "flag_code flag"]
  by (simp add: string_packet_def ac_simps)

lemma OpenPacket_image:
  assumes "length s < 2 ^ 31 - 100"
  shows "OpenPacket heap flags s =
    Some (packet_image 0 (flag_code OPEN) (word_bytes (word_of_int flags) @ string_bytes s))"
  using assms packet_new_part[of "length s + 5" heap 0 "flag_code OPEN"]
  by (simp add: OpenPacket_def string_bytes_def ac_simps)

lemma MkdirPacket_image:
  assumes "length s < 2 ^ 31 - 100"
  shows "MkdirPacket heap s mode =
    Some (packet_image 0 (flag_code MKDIR) (word_bytes mode @ string_bytes s))"
  using assms packet_new_part[of "length s + 5" heap 0 "flag_code MKDIR"]
  by (simp add: MkdirPacket_def ac_simps)

lemma LseekPacket_image:
  "LseekPacket heap fd offset whence = Some (packet_image 0 (flag_code LSEEK)
     (word_bytes (word_of_int fd) @ word_bytes (word_of_int offset) @ word_bytes (word_of_int whence)))"
  using packet_new_part[of 12 heap 0 "flag_code LSEEK"] by (simp add: LseekPacket_def)

lemma FilePacket_part:
  assumes "n < 2 ^ 31 - 100"
  shows "FilePacket heap i flag (int n) m = Some (part heap i (flag_code flag) (n + 24) (file_body m))"
  using assms packet_new_part[of "n + 24" heap i "flag_code flag"]
  by (simp add: FilePacket_def file_body_def)

lemma FilePacket_image:
  "FilePacket heap i flag 0 m = Some (packet_image i (flag_code flag) (file_body m))"
  using FilePacket_part[of 0 heap i flag m] by simp

lemma FileDataPacket_image:
  assumes "fp_count m < 2 ^ 31 - 100" "fp_count m \<le> int (length buf)"
  shows "FileDataPacket heap i flag m buf =
    Some (packet_image i (flag_code flag) (file_body m @ take (nat (fp_count m)) buf))"
proof -
  have "max 0 (fp_count m) = int (nat (fp_count m))" by simp
  then show ?thesis
    using assms FilePacket_part[of "nat (fp_count m)" heap i flag m]
    by (simp add: FileDataPacket_def bytes_at_def nat_le_iff del: int_nat_eq)
qed

section \<open>Every packet is read back as it was built\<close>

definition fits_int :: "int \<Rightarrow> bool" where
  "fits_int x \<longleftrightarrow> - (2 ^ 31) \<le> x \<and> x < 2 ^ 31"

lemma fits_int_sint [simp]: "fits_int (sint (x :: u32))"
  using sint_greater_eq[of x] sint_lt[of x] by (simp add: fits_int_def)

lemma sint_of_fit [simp]: "fits_int x \<Longrightarrow> sint (word_of_int x :: u32) = x"
  by (simp add: fits_int_def u32_sint_of_int)

lemma word_of_image [simp]: "word_of (pk_buf (packet_image i flag (word_bytes w))) = Some w"
  by (simp add: word_of_def)

lemma string_of_image [simp]: "c_string s \<Longrightarrow> string_of (pk_buf (packet_image i flag (string_bytes s))) = Some s"
  by (simp add: string_of_def)

lemma OpenPacket_of_image [simp]:
  "c_string s \<Longrightarrow> OpenPacket_of (pk_buf (packet_image i flag (word_bytes w @ string_bytes s))) = Some (sint w, s)"
  by (simp add: OpenPacket_of_def)

lemma MkdirPacket_of_image [simp]:
  "c_string s \<Longrightarrow> MkdirPacket_of (pk_buf (packet_image i flag (word_bytes w @ string_bytes s))) = Some (s, w)"
  by (simp add: MkdirPacket_of_def)

lemma LseekPacket_of_image [simp]:
  "LseekPacket_of (pk_buf (packet_image i flag (word_bytes a @ word_bytes b @ word_bytes c))) =
     Some (sint a, sint b, sint c)"
  by (simp add: LseekPacket_of_def)

lemma FilePacket_of_image [simp]:
  "fits_int (fp_count m) \<Longrightarrow> FilePacket_of (pk_buf (packet_image i flag (file_body m @ bs))) = Some (i, m)"
  by (simp add: FilePacket_of_def file_body_def)

lemma FilePacket_of_image_nil [simp]:
  "fits_int (fp_count m) \<Longrightarrow> FilePacket_of (pk_buf (packet_image i flag (file_body m))) = Some (i, m)"
  using FilePacket_of_image[of m i flag "[]"] by simp

lemma FileDataPacket_of_image:
  assumes "fits_int (fp_count m)" "length bs = nat (fp_count m)"
  shows "FileDataPacket_of (pk_buf (packet_image i flag (file_body m @ bs))) = Some (i, m, bs)"
  using assms bytes_at_all[of bs] by (cases "fp_count m > 0") (simp_all add: FileDataPacket_of_def)

end
