(* ===== verification/Messages.thy ===== *)
theory Messages
  imports Packets Barista_State
begin

text \<open>
  The messages of the protocol. \<open>barista_message\<close> is what the barista's \<open>switch\<close> accepts, sent
  by clients (\<open>decafs_client.cpp\<close>) and espresso nodes (\<open>espresso_client.cpp\<close>);
  \<open>chunk_message\<close> is what an espresso node accepts, sent by \<open>barista_network_helper.cpp\<close>; the
  replies of that file go to clients. For each of them: the packet a sender builds and the
  message a receiver makes of the bytes. The locale \<open>packet_stream\<close> is the contract between the
  two, and its consequences for a stream of packets on one connection.
\<close>

section \<open>The contract\<close>

definition small_body :: "u8 list \<Rightarrow> bool" where
  "small_body body \<longleftrightarrow> length body < 2 ^ 31 - 12"

text \<open>
  \<open>decode\<close> gets the flag and the buffer that \<open>take_packet\<close> found. \<open>valid\<close> are the messages whose
  fields fit their places in the packet.
\<close>

locale packet_stream =
  fixes encode :: "(nat \<Rightarrow> u8) \<Rightarrow> 'm \<Rightarrow> packet option"
    and decode :: "u32 \<Rightarrow> u8 list \<Rightarrow> 'm option"
    and valid :: "'m \<Rightarrow> bool"
  assumes encode_image: "valid m \<Longrightarrow> \<exists>i flag body. small_body body \<and>
    (\<forall>heap. encode heap m = Some (packet_image i flag body)) \<and> decode flag (pk_buf (packet_image i flag body)) = Some m"

fun take_packets :: "(nat \<Rightarrow> u8) \<Rightarrow> nat \<Rightarrow> u8 list \<Rightarrow> ((u32 \<times> u8 list) list \<times> u8 list) outcome" where
  "take_packets heap 0 avail = Returned ([], avail)"
| "take_packets heap (Suc n) avail =
     outcome_bind (take_packet heap avail) (\<lambda>(flag, buffer, rest).
     outcome_bind (take_packets heap n rest) (\<lambda>(ps, rest'). Returned ((flag, buffer) # ps, rest')))"

context packet_stream
begin

lemma one_packet:
  assumes "valid m"
  obtains p flag where "\<And>heap. encode heap m = Some p" "decode flag (pk_buf p) = Some m"
    "\<And>heap rest. take_packet heap (pk_buf p @ rest) = Returned (flag, pk_buf p, rest)"
    "unat (pk_size p) = length (pk_buf p)"
proof -
  obtain i flag body where *: "small_body body" "\<And>heap. encode heap m = Some (packet_image i flag body)"
    "decode flag (pk_buf (packet_image i flag body)) = Some m"
    using encode_image[OF assms] by blast
  show thesis
  proof (rule that[of "packet_image i flag body" flag])
    show "take_packet heap (pk_buf (packet_image i flag body) @ rest) =
      Returned (flag, pk_buf (packet_image i flag body), rest)" for heap rest
      using *(1) by (simp add: small_body_def take_packet_image)
    show "unat (pk_size (packet_image i flag body)) = length (pk_buf (packet_image i flag body))"
      using *(1) by (simp add: small_body_def unat_of_nat del: of_nat_add)
  qed (use * in simp_all)
qed

text \<open>Packets sent one after the other on a connection are taken apart again as they were sent.\<close>

lemma stream_in_order:
  assumes "list_all valid ms"
  shows "\<exists>ps rs. map (encode heap) ms = map Some ps \<and> map (\<lambda>(flag, b). decode flag b) rs = map Some ms \<and>
    take_packets heap' (length ms) (concat (map pk_buf ps) @ rest) = Returned (rs, rest)"
  using assms
proof (induction ms)
  case (Cons m ms)
  then obtain ps rs where *: "map (encode heap) ms = map Some ps" "map (\<lambda>(flag, b). decode flag b) rs = map Some ms"
    "take_packets heap' (length ms) (concat (map pk_buf ps) @ rest) = Returned (rs, rest)"
    by auto
  from Cons.prems have "valid m" by simp
  then obtain p flag where p: "\<And>heap. encode heap m = Some p" "decode flag (pk_buf p) = Some m"
    "\<And>heap rest. take_packet heap (pk_buf p @ rest) = Returned (flag, pk_buf p, rest)"
    by (rule one_packet) blast
  show ?case
    by (rule exI[of _ "p # ps"], rule exI[of _ "(flag, pk_buf p) # rs"]) (use * p in simp)
qed simp

lemma junk_free: "valid m \<Longrightarrow> encode heap m = encode heap' m"
  using encode_image[of m] by auto

end

section \<open>What the barista receives\<close>

datatype barista_message =
    Storage_Stat string
  | Make_Dir string u32
  | Remove_File string
  | Open_Dir string
  | Open_File string int
  | Read_File u32 int
  | Write_File u32 int "u8 list"
  | Close_File u32
  | Espresso_Connects u32
  | Client_Connects u32
  | Chunk_Read u32 file_packet "u8 list"
  | Chunk_Written u32 file_packet
  | Chunk_Deleted u32 file_packet
  | Seek_File int int int

text \<open>The packet construction and the labels of \<open>handleMessageFromClient\<close>; \<open>None\<close> inside: no label, nothing is done.\<close>

definition parse_message :: "u32 \<Rightarrow> u8 list \<Rightarrow> barista_message option option" where
  "parse_message flag buf =
     (case flag_of flag of
        Some FILE_STORAGE_STAT \<Rightarrow> map_option (\<lambda>s. Some (Storage_Stat s)) (FileStorageStatPacket_of buf)
      | Some MKDIR \<Rightarrow> map_option (\<lambda>(s, mode). Some (Make_Dir s mode)) (MkdirPacket_of buf)
      | Some REMOVE \<Rightarrow> map_option (\<lambda>s. Some (Remove_File s)) (RemovePacket_of buf)
      | Some OPENDIR \<Rightarrow> map_option (\<lambda>s. Some (Open_Dir s)) (OpendirPacket_of buf)
      | Some OPEN \<Rightarrow> map_option (\<lambda>(flags, s). Some (Open_File s flags)) (OpenPacket_of buf)
      | Some READ \<Rightarrow> map_option (\<lambda>(_, m). Some (Read_File (fp_fd m) (fp_count m))) (FilePacket_of buf)
      | Some WRITE \<Rightarrow>
          map_option (\<lambda>(_, m, bs). Some (Write_File (fp_fd m) (fp_count m) bs)) (FileDataPacket_of buf)
      | Some CLOSE \<Rightarrow> map_option (\<lambda>fd. Some (Close_File fd)) (ClosePacket_of buf)
      | Some ESPRESSO_INIT \<Rightarrow> map_option (\<lambda>n. Some (Espresso_Connects n)) (EspressoInit_of buf)
      | Some DECAFS_CLIENT_INIT \<Rightarrow> map_option (\<lambda>u. Some (Client_Connects u)) (DecafsClientInit_of buf)
      | Some READ_CHUNK_RESPONSE \<Rightarrow>
          map_option (\<lambda>(i, m, bs). Some (Chunk_Read i m bs)) (FileDataPacket_of buf)
      | Some WRITE_CHUNK_RESPONSE \<Rightarrow> map_option (\<lambda>(i, m). Some (Chunk_Written i m)) (FilePacket_of buf)
      | Some DELETE_CHUNK_RESPONSE \<Rightarrow> map_option (\<lambda>(i, m). Some (Chunk_Deleted i m)) (FilePacket_of buf)
      | Some LSEEK \<Rightarrow> map_option (\<lambda>(fd, off, wh). Some (Seek_File fd off wh)) (LseekPacket_of buf)
      | _ \<Rightarrow> Some None)"

text \<open>The packets the senders build for them.\<close>

fun message_packet :: "(nat \<Rightarrow> u8) \<Rightarrow> barista_message \<Rightarrow> packet option" where
  "message_packet heap (Storage_Stat s) = FileStorageStatPacket heap s"
| "message_packet heap (Make_Dir s mode) = MkdirPacket heap s mode"
| "message_packet heap (Remove_File s) = RemovePacket heap s"
| "message_packet heap (Open_Dir s) = OpendirPacket heap s"
| "message_packet heap (Open_File s flags) = OpenPacket heap flags s"
| "message_packet heap (Read_File fd count) = ReadRequest heap fd (word_of_int count)"
| "message_packet heap (Write_File fd count bs) = WritePacket heap fd (word_of_int count) bs"
| "message_packet heap (Close_File fd) = ClosePacket heap (sint fd)"
| "message_packet heap (Espresso_Connects n) = EspressoInit heap (sint n)"
| "message_packet heap (Client_Connects u) = DecafsClientInit heap (sint u)"
| "message_packet heap (Chunk_Read i m bs) = ReadChunkResponse heap i m bs"
| "message_packet heap (Chunk_Written i m) = WriteChunkResponse heap i m"
| "message_packet heap (Chunk_Deleted i m) =
     DeleteChunkResponse heap (fp_fd m) i (fp_file_id m) (fp_stripe_id m) (fp_chunk_num m)"
| "message_packet heap (Seek_File fd off wh) = LseekPacket heap fd off wh"

definition valid_string :: "string \<Rightarrow> bool" where
  "valid_string s \<longleftrightarrow> c_string s \<and> length s < 2 ^ 31 - 100"

definition valid_data :: "int \<Rightarrow> u8 list \<Rightarrow> bool" where
  "valid_data count bs \<longleftrightarrow> fits_int count \<and> count < 2 ^ 31 - 100 \<and> length bs = nat count"

fun valid_message :: "barista_message \<Rightarrow> bool" where
  "valid_message (Storage_Stat s) = valid_string s"
| "valid_message (Make_Dir s mode) = valid_string s"
| "valid_message (Remove_File s) = valid_string s"
| "valid_message (Open_Dir s) = valid_string s"
| "valid_message (Open_File s flags) = (valid_string s \<and> fits_int flags)"
| "valid_message (Read_File fd count) = fits_int count"
| "valid_message (Write_File fd count bs) = valid_data count bs"
| "valid_message (Chunk_Read i m bs) = valid_data (fp_count m) bs"
| "valid_message (Chunk_Written i m) = fits_int (fp_count m)"
| "valid_message (Chunk_Deleted i m) \<longleftrightarrow> fp_offset m = -1 \<and> fp_count m = -1"
| "valid_message (Seek_File fd off wh) \<longleftrightarrow> fits_int fd \<and> fits_int off \<and> fits_int wh"
| "valid_message _ = True"

definition decode_message :: "u32 \<Rightarrow> u8 list \<Rightarrow> barista_message option" where
  "decode_message flag buf = (case parse_message flag buf of Some (Some m) \<Rightarrow> Some m | _ \<Rightarrow> None)"

lemmas packet_class_defs = EspressoInit_def DecafsClientInit_def ClosePacket_def OpenPacketResponse_def
  CloseResponsePacket_def LseekResponsePacket_def MkdirResponsePacket_def RemoveResponsePacket_def
  RemovePacket_def OpendirPacket_def FileStorageStatPacket_def FileStorageStatResponsePacket_def
  ReadChunkRequest_def WriteChunkResponse_def WriteChunkRequest_def ReadChunkResponse_def
  DeleteChunkRequest_def DeleteChunkResponse_def ReadRequest_def ReadResponsePacket_def WritePacket_def
  WriteResponsePacket_def

lemmas packet_class_of_defs = EspressoInit_of_def DecafsClientInit_of_def ClosePacket_of_def
  OpenPacketResponse_of_def CloseResponsePacket_of_def LseekResponsePacket_of_def MkdirResponsePacket_of_def
  RemoveResponsePacket_of_def RemovePacket_of_def OpendirPacket_of_def FileStorageStatPacket_of_def
  FileStorageStatResponsePacket_of_def int_of_def

lemmas packet_images = word_packet_image string_packet_image OpenPacket_image MkdirPacket_image
  LseekPacket_image FilePacket_image

text \<open>What the packet of a message holds: its id, its flag and its body.\<close>

fun message_parts :: "barista_message \<Rightarrow> u32 \<times> packet_flags \<times> u8 list" where
  "message_parts (Storage_Stat s) = (0, FILE_STORAGE_STAT, string_bytes s)"
| "message_parts (Make_Dir s mode) = (0, MKDIR, word_bytes mode @ string_bytes s)"
| "message_parts (Remove_File s) = (0, REMOVE, string_bytes s)"
| "message_parts (Open_Dir s) = (0, OPENDIR, string_bytes s)"
| "message_parts (Open_File s flags) = (0, OPEN, word_bytes (word_of_int flags) @ string_bytes s)"
| "message_parts (Read_File fd count) = (0, READ, file_body (fd_message fd (word_of_int count)))"
| "message_parts (Write_File fd count bs) = (0, WRITE, file_body (fd_message fd (word_of_int count)) @ bs)"
| "message_parts (Close_File fd) = (0, CLOSE, word_bytes fd)"
| "message_parts (Espresso_Connects n) = (0, ESPRESSO_INIT, word_bytes n)"
| "message_parts (Client_Connects u) = (0, DECAFS_CLIENT_INIT, word_bytes u)"
| "message_parts (Chunk_Read i m bs) = (i, READ_CHUNK_RESPONSE, file_body m @ bs)"
| "message_parts (Chunk_Written i m) = (i, WRITE_CHUNK_RESPONSE, file_body m)"
| "message_parts (Chunk_Deleted i m) = (i, DELETE_CHUNK_RESPONSE, file_body m)"
| "message_parts (Seek_File fd off wh) =
     (0, LSEEK, word_bytes (word_of_int fd) @ word_bytes (word_of_int off) @ word_bytes (word_of_int wh))"

lemma small_bodies [simp]:
  "small_body (word_bytes w)" "small_body (file_body m)"
  "length s < 2 ^ 31 - 100 \<Longrightarrow> small_body (string_bytes s)"
  "length s < 2 ^ 31 - 100 \<Longrightarrow> small_body (word_bytes w @ string_bytes s)"
  "length bs < 2 ^ 31 - 100 \<Longrightarrow> small_body (file_body m @ bs)"
  "small_body (word_bytes a @ word_bytes b @ word_bytes c)"
  by (simp_all add: small_body_def)

lemma fd_message_simps [simp]:
  "fp_fd (fd_message fd c) = fd" "fp_count (fd_message fd c) = sint c"
  by (simp_all add: fd_message_def)

lemma FileDataPacket_exact:
  assumes "valid_data (fp_count m) bs"
  shows "FileDataPacket heap i flag m bs = Some (packet_image i (flag_code flag) (file_body m @ bs))"
    and "FileDataPacket_of (pk_buf (packet_image i w (file_body m @ bs))) = Some (i, m, bs)"
    and "small_body (file_body m @ bs)"
proof -
  have *: "fits_int (fp_count m)" "fp_count m < 2 ^ 31 - 100" "length bs = nat (fp_count m)"
    using assms by (simp_all add: valid_data_def)
  then have "fp_count m \<le> int (length bs)" "take (nat (fp_count m)) bs = bs" by simp_all
  then show "FileDataPacket heap i flag m bs = Some (packet_image i (flag_code flag) (file_body m @ bs))"
    using * FileDataPacket_image[of m bs heap i flag] by simp
  show "FileDataPacket_of (pk_buf (packet_image i w (file_body m @ bs))) = Some (i, m, bs)"
    using * by (rule_tac FileDataPacket_of_image)
  show "small_body (file_body m @ bs)" using * by (auto simp: small_body_def nat_less_iff)
qed

lemma message_packet_parts:
  assumes "valid_message m" "message_parts m = (i, flag, body)"
  shows "message_packet heap m = Some (packet_image i (flag_code flag) body)" "small_body body"
proof -
  have "message_packet heap m = Some (packet_image i (flag_code flag) body) \<and> small_body body"
  proof (cases m)
    case (Write_File fd count bs)
    with assms FileDataPacket_exact[of "fd_message fd (word_of_int count)" bs] show ?thesis
      by (auto simp: packet_class_defs valid_data_def)
  next
    case (Chunk_Read i c bs)
    with assms FileDataPacket_exact[of c bs] show ?thesis by (auto simp: packet_class_defs)
  next
    case (Chunk_Deleted i c)
    with assms have "delete_message (fp_fd c) (fp_file_id c) (fp_stripe_id c) (fp_chunk_num c) = c"
      by (cases c) (simp add: delete_message_def)
    with assms Chunk_Deleted show ?thesis by (auto simp: packet_class_defs packet_images)
  qed (use assms in \<open>auto simp: packet_class_defs packet_images valid_string_def\<close>)
  then show "message_packet heap m = Some (packet_image i (flag_code flag) body)" "small_body body"
    by simp_all
qed

lemma parse_message_parts:
  assumes "valid_message m" "message_parts m = (i, flag, body)"
  shows "parse_message (flag_code flag) (pk_buf (packet_image i (flag_code flag) body)) = Some (Some m)"
proof (cases m)
  case (Write_File fd count bs)
  with assms FileDataPacket_exact(2)[of "fd_message fd (word_of_int count)" bs] show ?thesis
    by (auto simp: parse_message_def valid_data_def)
next
  case (Chunk_Read i c bs)
  with assms FileDataPacket_exact(2)[of c bs] show ?thesis by (auto simp: parse_message_def)
next
  case (Chunk_Deleted i c)
  with assms show ?thesis by (auto simp: parse_message_def fits_int_def)
qed (use assms in \<open>auto simp: packet_class_of_defs valid_string_def parse_message_def\<close>)

interpretation barista_stream: packet_stream message_packet decode_message valid_message
proof
  fix m assume v: "valid_message m"
  obtain i flag body where p: "message_parts m = (i, flag, body)" by (cases "message_parts m")
  show "\<exists>i flag body. small_body body \<and> (\<forall>heap. message_packet heap m = Some (packet_image i flag body)) \<and>
    decode_message flag (pk_buf (packet_image i flag body)) = Some m"
    using message_packet_parts[OF v p] parse_message_parts[OF v p]
    by (intro exI[of _ i] exI[of _ "flag_code flag"] exI[of _ body]) (simp add: decode_message_def)
qed

section \<open>What an espresso node receives\<close>

datatype chunk_message =
    Get_Chunk u32 file_packet
  | Put_Chunk u32 file_packet "u8 list"
  | Drop_Chunk u32 file_packet

text \<open>The packet construction and the labels of \<open>EspressoClient::handleMessageFromServer\<close>.\<close>

definition parse_chunk_message :: "u32 \<Rightarrow> u8 list \<Rightarrow> chunk_message option option" where
  "parse_chunk_message flag buf =
     (case flag_of flag of
        Some READ_CHUNK \<Rightarrow> map_option (\<lambda>(i, m). Some (Get_Chunk i m)) (FilePacket_of buf)
      | Some WRITE_CHUNK \<Rightarrow> map_option (\<lambda>(i, m, bs). Some (Put_Chunk i m bs)) (FileDataPacket_of buf)
      | Some DELETE_CHUNK \<Rightarrow> map_option (\<lambda>(i, m). Some (Drop_Chunk i m)) (FilePacket_of buf)
      | _ \<Rightarrow> Some None)"

definition decode_chunk_message :: "u32 \<Rightarrow> u8 list \<Rightarrow> chunk_message option" where
  "decode_chunk_message flag buf = (case parse_chunk_message flag buf of Some (Some m) \<Rightarrow> Some m | _ \<Rightarrow> None)"

fun chunk_message_packet :: "(nat \<Rightarrow> u8) \<Rightarrow> chunk_message \<Rightarrow> packet option" where
  "chunk_message_packet heap (Get_Chunk i m) = ReadChunkRequest heap i m"
| "chunk_message_packet heap (Put_Chunk i m bs) = WriteChunkRequest heap i m bs"
| "chunk_message_packet heap (Drop_Chunk i m) =
     DeleteChunkRequest heap (fp_fd m) i (fp_file_id m) (fp_stripe_id m) (fp_chunk_num m)"

fun valid_chunk_message :: "chunk_message \<Rightarrow> bool" where
  "valid_chunk_message (Get_Chunk i m) = fits_int (fp_count m)"
| "valid_chunk_message (Put_Chunk i m bs) = valid_data (fp_count m) bs"
| "valid_chunk_message (Drop_Chunk i m) \<longleftrightarrow> fp_offset m = -1 \<and> fp_count m = -1"

fun chunk_message_parts :: "chunk_message \<Rightarrow> u32 \<times> packet_flags \<times> u8 list" where
  "chunk_message_parts (Get_Chunk i m) = (i, READ_CHUNK, file_body m)"
| "chunk_message_parts (Put_Chunk i m bs) = (i, WRITE_CHUNK, file_body m @ bs)"
| "chunk_message_parts (Drop_Chunk i m) = (i, DELETE_CHUNK, file_body m)"

lemma chunk_message_parts:
  assumes "valid_chunk_message m" "chunk_message_parts m = (i, flag, body)"
  shows "chunk_message_packet heap m = Some (packet_image i (flag_code flag) body) \<and> small_body body \<and>
    parse_chunk_message (flag_code flag) (pk_buf (packet_image i (flag_code flag) body)) = Some (Some m)"
proof (cases m)
  case (Put_Chunk i c bs)
  with assms FileDataPacket_exact[of c bs] show ?thesis
    by (auto simp: packet_class_defs parse_chunk_message_def)
next
  case (Drop_Chunk i c)
  with assms have "delete_message (fp_fd c) (fp_file_id c) (fp_stripe_id c) (fp_chunk_num c) = c"
    by (cases c) (simp add: delete_message_def)
  with assms Drop_Chunk show ?thesis
    by (auto simp: packet_class_defs packet_images parse_chunk_message_def fits_int_def)
qed (use assms in \<open>auto simp: packet_class_defs packet_images parse_chunk_message_def\<close>)

interpretation espresso_stream: packet_stream chunk_message_packet decode_chunk_message valid_chunk_message
proof
  fix m assume v: "valid_chunk_message m"
  obtain i flag body where p: "chunk_message_parts m = (i, flag, body)" by (cases "chunk_message_parts m")
  show "\<exists>i flag body. small_body body \<and> (\<forall>heap. chunk_message_packet heap m = Some (packet_image i flag body)) \<and>
    decode_chunk_message flag (pk_buf (packet_image i flag body)) = Some m"
    using chunk_message_parts[OF v p]
    by (intro exI[of _ i] exI[of _ "flag_code flag"] exI[of _ body]) (simp add: decode_chunk_message_def)
qed

section \<open>barista_network_helper.cpp\<close>

text \<open>
  The three functions that send a request of the I/O manager to a node: the message they put
  into a packet (the file descriptor is always 0), and the node it goes to. \<open>junk\<close> is the
  descriptor that \<open>DeleteChunkRequest\<close> leaves uninitialised.
\<close>

definition chunk_fields :: "u32 \<Rightarrow> file_chunk \<Rightarrow> int \<Rightarrow> int \<Rightarrow> file_packet" where
  "chunk_fields fd c offset count =
     \<lparr>fp_fd = fd, fp_file_id = fc_file_id c, fp_stripe_id = fc_stripe_id c, fp_chunk_num = fc_chunk_num c,
      fp_offset = word_of_int offset, fp_count = count\<rparr>"

fun network_message :: "u32 \<Rightarrow> chunk_request \<Rightarrow> chunk_message" where
  "network_message junk (Read_Chunk i c node offset count) = Get_Chunk i (chunk_fields 0 c offset (sint count))"
| "network_message junk (Write_Chunk i c node offset data) =
     Put_Chunk i (chunk_fields 0 c offset (int (length data))) data"
| "network_message junk (Delete_Chunk i c node) = Drop_Chunk i (chunk_fields junk c (-1) (-1))"

text \<open>
  \<open>sendToEspresso\<close>: the connection of the node, \<open>NULL\<close> when it has none, and the bytes handed
  to it. \<open>sock\<close> gives the result of \<open>send\<close>.
\<close>

definition sendToEspresso ::
    "(net_log \<Rightarrow> conn \<Rightarrow> u8 list \<Rightarrow> int) \<Rightarrow> (int \<times> conn) list \<Rightarrow> int \<Rightarrow> net_log \<Rightarrow> packet \<Rightarrow> int outcome" where
  "sendToEspresso sock nodes node log p =
     (case om_find (<) node nodes of
        None \<Rightarrow> Unspecified
      | Some peer \<Rightarrow> Returned (sock log peer (take (unat (pk_size p)) (pk_buf p))))"

definition network_of ::
    "(nat \<Rightarrow> u8) \<Rightarrow> u32 \<Rightarrow> (net_log \<Rightarrow> conn \<Rightarrow> u8 list \<Rightarrow> int) \<Rightarrow> (int \<times> conn) list \<Rightarrow> network" where
  "network_of heap junk sock nodes log r =
     (case chunk_message_packet heap (network_message junk r) of
        None \<Rightarrow> Unspecified
      | Some p \<Rightarrow> sendToEspresso sock nodes (request_node r) log p)"

text \<open>The replies to a client.\<close>

fun reply_packet :: "(nat \<Rightarrow> u8) \<Rightarrow> reply \<Rightarrow> packet option" where
  "reply_packet heap (Open_Result c result) = OpenPacketResponse heap result"
| "reply_packet heap (Read_Result c fd count data) = ReadResponsePacket heap (word_of_int fd) (word_of_int count) data"
| "reply_packet heap (Write_Result c fd count) = WriteResponsePacket heap (word_of_int fd) (word_of_int count)"
| "reply_packet heap (Close_Result c result) = CloseResponsePacket heap result"
| "reply_packet heap (Seek_Result c result) = LseekResponsePacket heap result"
| "reply_packet heap (Remove_Result c result) = RemoveResponsePacket heap result"
| "reply_packet heap (Storage_Stat_Result c data) = FileStorageStatResponsePacket heap data"

fun reply_client :: "reply \<Rightarrow> client" where
  "reply_client (Open_Result c result) = c"
| "reply_client (Read_Result c fd count data) = c"
| "reply_client (Write_Result c fd count) = c"
| "reply_client (Close_Result c result) = c"
| "reply_client (Seek_Result c result) = c"
| "reply_client (Remove_Result c result) = c"
| "reply_client (Storage_Stat_Result c data) = c"

section \<open>Receiving a message\<close>

text \<open>
  The two \<open>handleMessage\<close> functions up to the body of their \<open>switch\<close>: take a packet off the
  socket and build the packet object its flag names.
\<close>

definition receive_message :: "(nat \<Rightarrow> u8) \<Rightarrow> u8 list \<Rightarrow> (barista_message option \<times> u8 list) outcome" where
  "receive_message heap avail =
     outcome_bind (take_packet heap avail) (\<lambda>(flag, buffer, rest).
       case parse_message flag buffer of None \<Rightarrow> Unspecified | Some m \<Rightarrow> Returned (m, rest))"

definition receive_chunk_message :: "(nat \<Rightarrow> u8) \<Rightarrow> u8 list \<Rightarrow> (chunk_message option \<times> u8 list) outcome" where
  "receive_chunk_message heap avail =
     outcome_bind (take_packet heap avail) (\<lambda>(flag, buffer, rest).
       case parse_chunk_message flag buffer of None \<Rightarrow> Unspecified | Some m \<Rightarrow> Returned (m, rest))"

lemma message_received:
  assumes "valid_message m"
  obtains p where "\<And>heap. message_packet heap m = Some p"
    "\<And>heap rest. receive_message heap (pk_buf p @ rest) = Returned (Some m, rest)"
    "unat (pk_size p) = length (pk_buf p)"
proof -
  obtain p flag where p: "\<And>heap. message_packet heap m = Some p" "decode_message flag (pk_buf p) = Some m"
    "\<And>heap rest. take_packet heap (pk_buf p @ rest) = Returned (flag, pk_buf p, rest)"
    "unat (pk_size p) = length (pk_buf p)"
    by (rule barista_stream.one_packet[OF assms]) blast
  have "parse_message flag (pk_buf p) = Some (Some m)"
    using p(2) by (simp add: decode_message_def split: option.splits)
  with p show thesis by (intro that[of p]) (simp_all add: receive_message_def)
qed

lemma chunk_message_received:
  assumes "valid_chunk_message m"
  obtains p where "\<And>heap. chunk_message_packet heap m = Some p"
    "\<And>heap rest. receive_chunk_message heap (pk_buf p @ rest) = Returned (Some m, rest)"
    "unat (pk_size p) = length (pk_buf p)"
proof -
  obtain p flag where p: "\<And>heap. chunk_message_packet heap m = Some p"
    "decode_chunk_message flag (pk_buf p) = Some m"
    "\<And>heap rest. take_packet heap (pk_buf p @ rest) = Returned (flag, pk_buf p, rest)"
    "unat (pk_size p) = length (pk_buf p)"
    by (rule espresso_stream.one_packet[OF assms]) blast
  have "parse_chunk_message flag (pk_buf p) = Some (Some m)"
    using p(2) by (simp add: decode_chunk_message_def split: option.splits)
  with p show thesis by (intro that[of p]) (simp_all add: receive_chunk_message_def)
qed

section \<open>Properties\<close>

lemma network_message_valid:
  assumes "case r of Write_Chunk i c node offset data \<Rightarrow> length data < 2 ^ 31 - 100 | _ \<Rightarrow> True"
  shows "valid_chunk_message (network_message junk r)"
  using assms by (cases r) (auto simp: chunk_fields_def valid_data_def fits_int_sint fits_int_def[of "int _"] fits_int_def[of "-1"])

lemma messages_arrive:
  assumes "list_all valid_message ms"
  shows "\<exists>ps rs. map (message_packet heap) ms = map Some ps \<and>
    map (\<lambda>(flag, b). parse_message flag b) rs = map (Some \<circ> Some) ms \<and>
    take_packets heap' (length ms) (concat (map pk_buf ps) @ rest) = Returned (rs, rest)"
proof -
  obtain ps rs where *: "map (message_packet heap) ms = map Some ps"
    "map (\<lambda>(flag, b). decode_message flag b) rs = map Some ms"
    "take_packets heap' (length ms) (concat (map pk_buf ps) @ rest) = Returned (rs, rest)"
    using barista_stream.stream_in_order[OF assms] by blast
  have "parse_message flag b = Some (Some m)" if "decode_message flag b = Some m" for flag b m
    using that by (simp add: decode_message_def split: option.splits)
  then have "map (\<lambda>(flag, b). parse_message flag b) rs = map (Some \<circ> Some) ms"
    using *(2) by (auto simp: list_eq_iff_nth_eq split_beta)
  with * show ?thesis by blast
qed

text \<open>
  C28: the packets a client or a node sends one after the other on its connection are received by
  the barista as the same messages in the same order, whatever fresh memory holds, and nothing
  of the bytes that follow is consumed.
\<close>

theorem barista_messages_arrive:
  assumes "list_all valid_message ms"
  shows "\<exists>ps rs. map (message_packet heap) ms = map Some ps \<and>
    map (\<lambda>(flag, b). parse_message flag b) rs = map (Some \<circ> Some) ms \<and>
    take_packets heap' (length ms) (concat (map pk_buf ps) @ rest) = Returned (rs, rest)"
  by (rule messages_arrive[OF assms])

definition demo_messages :: "barista_message list" where
  "demo_messages = [Open_File ''a'' 2, Write_File 1 3 [7, 8, 9], Close_File 1]"

lemma barista_messages_arrive_witness:
  "\<exists>ps rs. map (message_packet (\<lambda>_. 0)) demo_messages = map Some ps \<and>
    map (\<lambda>(flag, b). parse_message flag b) rs = map (Some \<circ> Some) demo_messages \<and>
    take_packets (\<lambda>_. 1) (length demo_messages) (concat (map pk_buf ps) @ [5]) = Returned (rs, [5])"
  by (rule barista_messages_arrive)
    (simp add: demo_messages_def valid_string_def c_string_def fits_int_def valid_data_def)

text \<open>
  A request for a chunk reaches the node the I/O manager chose, and the node receives the
  chunk, the range and the data that were asked for; without a connection to that node the
  barista has no defined behaviour.
\<close>

theorem chunk_request_arrives:
  assumes "case r of Write_Chunk i c node offset data \<Rightarrow> length data < 2 ^ 31 - 100 | _ \<Rightarrow> True"
  shows "case om_find (<) (request_node r) nodes of
      None \<Rightarrow> network_of heap junk sock nodes log r = Unspecified
    | Some peer \<Rightarrow> \<exists>bytes. network_of heap junk sock nodes log r = Returned (sock log peer bytes) \<and>
        receive_chunk_message heap' (bytes @ rest) = Returned (Some (network_message junk r), rest)"
proof -
  obtain p where "chunk_message_packet heap (network_message junk r) = Some p"
    "receive_chunk_message heap' (pk_buf p @ rest) = Returned (Some (network_message junk r), rest)"
    "unat (pk_size p) = length (pk_buf p)"
    by (rule chunk_message_received[OF network_message_valid[OF assms, of junk]]) blast
  then show ?thesis by (auto simp: network_of_def sendToEspresso_def split: option.split)
qed

lemma chunk_request_arrives_witness:
  "\<exists>bytes. network_of (\<lambda>_. 0) 3 (\<lambda>_ _ bs. int (length bs)) [(1, 40)] []
      (Write_Chunk 5 (mk_chunk 1 1 1) 1 0 [1, 2]) = Returned (int (length bytes)) \<and>
    receive_chunk_message (\<lambda>_. 0) bytes =
      Returned (Some (Put_Chunk 5 (chunk_fields 0 (mk_chunk 1 1 1) 0 2) [1, 2]), [])"
  using chunk_request_arrives[where r = "Write_Chunk 5 (mk_chunk 1 1 1) 1 0 [1, 2]" and nodes = "[(1, 40)]"
      and heap = "\<lambda>_. 0" and heap' = "\<lambda>_. 0" and junk = 3 and sock = "\<lambda>_ _ bs. int (length bs)"
      and log = "[]" and rest = "[]"]
  by (auto simp: om_find_def oc_find_def oc_lower_bound_def)

text \<open>
  A packet whose count exceeds the bytes it brings is not refused: reading it runs past the
  end of the buffer that was allocated for it, wherever the packet comes from.
\<close>

theorem count_is_trusted:
  assumes "fits_int count" "int (length bs) < count"
  shows "parse_message (flag_code WRITE)
      (pk_buf (packet_image 0 (flag_code WRITE) (file_body (fd_message fd (word_of_int count)) @ bs))) = None"
  using assms by (auto simp: parse_message_def FileDataPacket_of_def bytes_at_def)

lemma count_is_trusted_witness:
  "parse_message (flag_code WRITE)
      (pk_buf (packet_image 0 (flag_code WRITE) (file_body (fd_message 1 (word_of_int 5)) @ [1, 2]))) = None"
  using count_is_trusted[of 5 "[1, 2]" 1] by (simp add: fits_int_def)

end
