(* ===== verification/Storage_Stat.thy ===== *)
theory Storage_Stat
  imports Barista_Delete
begin

text \<open>
  The storage report of a file: \<open>IO_Manager::process_file_storage_stat\<close>, which prints the file's
  chunks with their nodes through a \<open>stringstream\<close>, and \<open>file_storage_stat\<close> of the core, which
  sends it to the client.
\<close>

section \<open>Numbers on a stream\<close>

definition digit :: "nat \<Rightarrow> char" where
  "digit d = char_of (48 + d)"

fun decimal :: "nat \<Rightarrow> string" where
  "decimal n = (if n < 10 then [digit n] else decimal (n div 10) @ [digit (n mod 10)])"

declare decimal.simps [simp del]

definition decimal_int :: "int \<Rightarrow> string" where
  "decimal_int x = (if x < 0 then ''-'' @ decimal (nat (- x)) else decimal (nat x))"

definition newline :: string where
  "newline = [CHR 0x0A]"

section \<open>The report\<close>

definition report_header :: "file_stat \<Rightarrow> string" where
  \<open>report_header info =
     ''{'' @ newline @ ''  "file_id": '' @ decimal (unat (fs_file_id info)) @
     newline @ ''  "stripe_size": '' @ decimal (unat (fs_stripe_size info)) @
     newline @ ''  "chunk_size": '' @ decimal (unat (fs_chunk_size info)) @
     newline @ ''  "stripes": [''\<close>

definition close_stripe :: string where
  \<open>close_stripe = newline @ ''      ]'' @ newline @ ''    }''\<close>

definition open_stripe :: "int \<Rightarrow> string" where
  \<open>open_stripe s = newline @ ''    {'' @ newline @ ''      "stripe_id": '' @ decimal_int s @
     newline @ ''      "chunks": [''\<close>

definition chunk_entry :: "io_state \<Rightarrow> file_chunk \<Rightarrow> int \<Rightarrow> string" where
  \<open>chunk_entry st c node =
     newline @ ''        {'' @
     newline @ ''          "chunk_num": '' @ decimal (unat (fc_chunk_num c)) @
     newline @ ''          "node": '' @ decimal_int node @
     (case node_find c (io_replica st) of
        None \<Rightarrow> []
      | Some replica \<Rightarrow> newline @ ''          "replica_node": '' @ decimal_int replica) @
     newline @ ''        }''\<close>

text \<open>One iteration of the loop on what was printed, the last stripe and the flag for the first stripe.\<close>

definition report_chunk :: "io_state \<Rightarrow> file_chunk \<Rightarrow> string \<times> int \<times> bool \<Rightarrow> string \<times> int \<times> bool" where
  "report_chunk st c acc =
     (case acc of (text, last_stripe, first_stripe) \<Rightarrow>
      case node_find c (io_node st) of
        None \<Rightarrow> acc
      | Some node \<Rightarrow>
          if sint (fc_stripe_id c) > last_stripe
          then (text @ (if first_stripe then [] else close_stripe) @ open_stripe (sint (fc_stripe_id c)) @
                  chunk_entry st c node, sint (fc_stripe_id c), False)
          else (text @ chunk_entry st c node, last_stripe, first_stripe))"

definition process_file_storage_stat :: "file_stat \<Rightarrow> io_state \<Rightarrow> string" where
  "process_file_storage_stat info st =
     (case fold (report_chunk st) (get_all_chunks st (fs_file_id info)) (report_header info, -1, True) of
        (text, last_stripe, first_stripe) \<Rightarrow>
          text @ (if first_stripe then [] else close_stripe) @ newline @ ''  ]'' @ newline @ ''}'' @ newline)"

definition file_storage_stat :: "string \<Rightarrow> client \<Rightarrow> barista \<Rightarrow> barista outcome" where
  "file_storage_stat path c st =
     outcome_bind (core_decafs_file_sstat path c st) (\<lambda>((r, info), st1).
       if r < 0 then Returned (send_reply (Storage_Stat_Result c ''File not found.'') st1)
       else Returned (send_reply (Storage_Stat_Result c
              (process_file_storage_stat (the info) (br_io st1))) st1))"

section \<open>What is printed\<close>

text \<open>The number a string of digits denotes: \<open>decimal\<close> prints it without loss.\<close>

definition digits_value :: "string \<Rightarrow> nat" where
  "digits_value s = foldl (\<lambda>n c. 10 * n + (of_char c - 48)) 0 s"

lemma of_char_digit: "d < 10 \<Longrightarrow> of_char (digit d) = 48 + d"
  by (simp add: digit_def)

lemma digits_value_decimal [simp]: "digits_value (decimal n) = n"
proof (induction n rule: decimal.induct)
  case (1 n)
  show ?case
  proof (cases "n < 10")
    case True
    then show ?thesis by (simp add: decimal.simps[of n] digits_value_def of_char_digit)
  next
    case False
    then have "digits_value (decimal n) = 10 * digits_value (decimal (n div 10)) + n mod 10"
      by (simp add: decimal.simps[of n] digits_value_def of_char_digit)
    with 1 False show ?thesis by simp
  qed
qed

text \<open>The chunks of one stripe, each with its entry, between the brackets of the stripe.\<close>

definition entries :: "io_state \<Rightarrow> file_chunk list \<Rightarrow> string" where
  "entries st cs = concat (map (\<lambda>c. chunk_entry st c (the (node_find c (io_node st)))) cs)"

definition stripe_text :: "io_state \<Rightarrow> int \<times> file_chunk list \<Rightarrow> string" where
  "stripe_text st g = open_stripe (fst g) @ entries st (snd g)"

definition stripe_group :: "io_state \<Rightarrow> int \<times> file_chunk list \<Rightarrow> bool" where
  "stripe_group st g \<longleftrightarrow> snd g \<noteq> [] \<and>
     list_all (\<lambda>c. sint (fc_stripe_id c) = fst g \<and> node_find c (io_node st) \<noteq> None) (snd g)"

lemma report_same_stripe:
  assumes "list_all (\<lambda>c. sint (fc_stripe_id c) = s \<and> node_find c (io_node st) \<noteq> None) cs"
  shows "fold (report_chunk st) cs (out, s, first) = (out @ entries st cs, s, first)"
  using assms
  by (induction cs arbitrary: out) (auto simp: report_chunk_def entries_def)

lemma report_group:
  assumes "stripe_group st g" "prev < fst g"
  shows "fold (report_chunk st) (snd g) (out, prev, first) =
    (out @ (if first then [] else close_stripe) @ stripe_text st g, fst g, False)"
proof -
  obtain c cs where g: "snd g = c # cs" using assms(1) by (cases "snd g") (auto simp: stripe_group_def)
  have c: "sint (fc_stripe_id c) = fst g" "node_find c (io_node st) \<noteq> None"
    and cs: "list_all (\<lambda>c. sint (fc_stripe_id c) = fst g \<and> node_find c (io_node st) \<noteq> None) cs"
    using assms(1) g by (simp_all add: stripe_group_def)
  obtain node where n: "node_find c (io_node st) = Some node" using c(2) by auto
  have "report_chunk st c (out, prev, first) =
    (out @ (if first then [] else close_stripe) @ open_stripe (fst g) @ chunk_entry st c node, fst g, False)"
    using c(1) n assms(2) by (simp add: report_chunk_def)
  with n show ?thesis
    by (simp add: g report_same_stripe[OF cs] stripe_text_def entries_def)
qed

definition separated :: "string list \<Rightarrow> string" where
  "separated ts = (case ts of [] \<Rightarrow> [] | t # ts \<Rightarrow> t @ concat (map (\<lambda>t. close_stripe @ t) ts) @ close_stripe)"

lemma report_groups:
  assumes "list_all (stripe_group st) gs" "sorted_wrt (<) (prev # map fst gs)"
  shows "\<exists>l. fold (report_chunk st) (concat (map snd gs)) (out, prev, False) =
    (out @ concat (map (\<lambda>g. close_stripe @ stripe_text st g) gs), l, False)"
  using assms
proof (induction gs arbitrary: out prev)
  case (Cons g gs)
  have so: "sorted_wrt (<) (fst g # map fst gs)" "prev < fst g" using Cons.prems(2) by simp_all
  have ok: "stripe_group st g" "list_all (stripe_group st) gs" using Cons.prems(1) by simp_all
  obtain l where "fold (report_chunk st) (concat (map snd gs)) (out @ close_stripe @ stripe_text st g, fst g, False) =
      (out @ close_stripe @ stripe_text st g @ concat (map (\<lambda>g. close_stripe @ stripe_text st g) gs), l, False)"
    using Cons.IH[OF ok(2) so(1), of "out @ close_stripe @ stripe_text st g"] by auto
  with report_group[OF ok(1) so(2), of out False] show ?case by simp
qed simp

lemma report_of_groups:
  assumes "user_id c \<noteq> 0" "meta_free st" "decafs_file_sstat (br_pm st) path = (P_META_SUCCESS, Some info)"
    and "get_all_chunks (br_io st) (fs_file_id info) = concat (map snd gs)"
    and "list_all (stripe_group (br_io st)) gs" "sorted_wrt (<) (- 1 # map fst gs)"
  shows "file_storage_stat path c st = Returned (send_reply (Storage_Stat_Result c
    (report_header info @ separated (map (stripe_text (br_io st)) gs) @ newline @ ''  ]'' @ newline @ ''}'' @ newline))
    (touch_meta c st))"
proof -
  have "process_file_storage_stat info (br_io st) =
    report_header info @ separated (map (stripe_text (br_io st)) gs) @ newline @ ''  ]'' @ newline @ ''}'' @ newline"
  proof (cases gs)
    case Nil
    with assms(4) show ?thesis by (simp add: process_file_storage_stat_def separated_def)
  next
    case (Cons g hs)
    then have g: "stripe_group (br_io st) g" "- 1 < fst g" "list_all (stripe_group (br_io st)) hs"
      "sorted_wrt (<) (fst g # map fst hs)"
      using assms(5,6) by simp_all
    from report_groups[OF g(3,4), of "report_header info @ stripe_text (br_io st) g"]
    show ?thesis
      using assms(4) Cons report_group[OF g(1,2), of "report_header info" True]
      by (auto simp: process_file_storage_stat_def separated_def comp_def)
  qed
  with assms(1-3) show ?thesis
    by (simp add: file_storage_stat_def core_sstat_eq pmeta_codes)
qed

text \<open>The chunks of a list, cut where the stripe number changes.\<close>

fun stripe_groups :: "file_chunk list \<Rightarrow> (int \<times> file_chunk list) list" where
  "stripe_groups [] = []"
| "stripe_groups (c # cs) =
     (case stripe_groups cs of
        [] \<Rightarrow> [(sint (fc_stripe_id c), [c])]
      | (s, ds) # gs \<Rightarrow>
          if s = sint (fc_stripe_id c) then (s, c # ds) # gs else (sint (fc_stripe_id c), [c]) # (s, ds) # gs)"

lemma concat_stripe_groups: "concat (map snd (stripe_groups cs)) = cs"
  by (induction cs) (auto split: list.splits)

lemma stripe_groups_ok:
  "list_all (\<lambda>c. node_find c (io_node st) \<noteq> None) cs \<Longrightarrow> list_all (stripe_group st) (stripe_groups cs)"
  by (induction cs) (auto simp: stripe_group_def split: list.splits)

lemma stripe_groups_keys: "fst ` set (stripe_groups cs) = (\<lambda>c. sint (fc_stripe_id c)) ` set cs"
proof (induction cs)
  case (Cons c cs)
  have "fst ` set (stripe_groups (c # cs)) = insert (sint (fc_stripe_id c)) (fst ` set (stripe_groups cs))"
    by (auto split: list.split)
  with Cons show ?case by (simp del: stripe_groups.simps)
qed simp

lemma stripe_groups_sorted:
  "sorted_wrt (\<lambda>c d. sint (fc_stripe_id c) \<le> sint (fc_stripe_id d)) cs \<Longrightarrow>
   sorted_wrt (<) (map fst (stripe_groups cs))"
proof (induction cs)
  case (Cons c cs)
  have so: "sorted_wrt (<) (map fst (stripe_groups cs))" using Cons by simp
  have le: "\<forall>k \<in> fst ` set (stripe_groups cs). sint (fc_stripe_id c) \<le> k"
    unfolding stripe_groups_keys using Cons.prems by auto
  show ?case
  proof (cases "stripe_groups cs")
    case (Cons g gs)
    obtain s ds where g: "g = (s, ds)" by (cases g)
    show ?thesis using so le by (auto simp: Cons g)
  qed simp
qed simp

lemma chunks_by_stripe:
  assumes "maps_ok lo hi st" "\<forall>ch \<in> set (get_all_chunks st f). uint (fc_stripe_id ch) < 2 ^ 31"
  shows "sorted_wrt (\<lambda>c d. sint (fc_stripe_id c) \<le> sint (fc_stripe_id d)) (get_all_chunks st f)"
proof -
  have "sorted_wrt file_chunk_less (get_all_chunks st f)"
    using assms(1) by (simp add: maps_ok_def oc_sorted_def get_all_chunks_def sorted_wrt_map sorted_wrt_filter)
  then show ?thesis
  proof (rule sorted_wrt_mono_rel[rotated])
    fix c d assume m: "c \<in> set (get_all_chunks st f)" "d \<in> set (get_all_chunks st f)" "file_chunk_less c d"
    have w: "c \<in> chunk_window lo hi" "d \<in> chunk_window lo hi" "fc_file_id c = f" "fc_file_id d = f"
      using m(1,2) get_all_chunks_facts(2)[OF assms(1)] by blast+
    then have "fc_stripe_id c \<le> fc_stripe_id d"
      using m(3) by (auto simp: file_chunk_less_def chunk_window_def split: if_splits)
    then have "uint (fc_stripe_id c) \<le> uint (fc_stripe_id d)" by (simp add: word_le_def)
    moreover have "sint (fc_stripe_id e) = uint (fc_stripe_id e)" if "e \<in> set (get_all_chunks st f)" for e
      using assms(2) that by (simp add: u32_sint_uint)
    ultimately show "sint (fc_stripe_id c) \<le> sint (fc_stripe_id d)" using m(1,2) by simp
  qed
qed

text \<open>
  C33: the storage report of a file has one section for each stripe in which the maps list chunks of
  the file, in ascending order, and in it one entry for each of these chunks, once, with its number,
  its node and its replica node. The entries of the maps lie in a chunk window (\<open>maps_ok\<close>): at most
  one stripe number up to the file's id and one above it, those that the order on chunks keeps
  apart. For a file with an id from 2 on this leaves out that both stripe 1 and stripe 2 are listed,
  which never happens, since they share their entries.
\<close>

theorem storage_report_lists_chunks:
  assumes "user_id c \<noteq> 0" "meta_free st" "decafs_file_sstat (br_pm st) path = (P_META_SUCCESS, Some info)"
    and "chunks = get_all_chunks (br_io st) (fs_file_id info)" "maps_ok lo hi (br_io st)"
    and "\<forall>ch \<in> set chunks. uint (fc_stripe_id ch) < 2 ^ 31" "gs = stripe_groups chunks"
  shows "file_storage_stat path c st = Returned (send_reply (Storage_Stat_Result c
      (report_header info @ separated (map (stripe_text (br_io st)) gs) @ newline @ ''  ]'' @ newline @ ''}'' @ newline))
      (touch_meta c st)) \<and>
    list_all (stripe_group (br_io st)) gs \<and> sorted_wrt (<) (map fst gs) \<and>
    concat (map snd gs) = chunks \<and> distinct chunks \<and>
    (\<forall>ch \<in> chunk_window lo hi. ch \<in> set chunks \<longleftrightarrow>
       fc_file_id ch = fs_file_id info \<and> node_find ch (io_node (br_io st)) \<noteq> None)"
proof -
  note facts = get_all_chunks_facts[OF assms(5), where f = "fs_file_id info", folded assms(4)]
  have ok: "list_all (stripe_group (br_io st)) gs"
    unfolding assms(7) by (rule stripe_groups_ok) (use facts(2) in \<open>auto simp: list_all_iff\<close>)
  have so: "sorted_wrt (<) (map fst gs)"
    unfolding assms(7) by (rule stripe_groups_sorted) (use chunks_by_stripe[OF assms(5)] assms(4,6) in simp)
  have "0 \<le> k" if "k \<in> fst ` set gs" for k
    using that assms(6) by (auto simp: assms(7) stripe_groups_keys u32_sint_uint)
  then have "sorted_wrt (<) (- 1 # map fst gs)" using so by fastforce
  from report_of_groups[OF assms(1-3) _ ok this] show ?thesis
    using ok so facts assms(4,7) concat_stripe_groups[of chunks] by auto
qed

lemma storage_report_lists_chunks_witness:
  "\<exists>st'. file_storage_stat ''/a'' (demo_client 7 5) demo_barista = Returned st' \<and>
    length (br_replies st') = 1"
proof -
  have f: "decafs_file_sstat demo_pm ''/a'' = (P_META_SUCCESS, Some (stat_of (new_info 1 ''/a'' 512 256 256 (0, 0))))"
    using stat_of_view[OF demo_pm_facts(1), of "''/a''"] demo_pm_facts(2) by simp
  have c: "get_all_chunks one_chunk_io 1 = [mk_chunk 1 1 1]"
    by (simp add: get_all_chunks_def one_chunk_io_def)
  have m: "maps_ok (\<lambda>_. 1) (\<lambda>_. 2) one_chunk_io"
    by (simp add: one_chunk_io_def maps_ok_def oc_sorted_def chunk_window_def)
  show ?thesis
    using storage_report_lists_chunks[of "demo_client 7 5" demo_barista "''/a''" _ "[mk_chunk 1 1 1]" "\<lambda>_. 1" "\<lambda>_. 2" "stripe_groups [mk_chunk 1 1 1]"] m
    by (simp add: demo_barista_facts f c)
qed

end
