(* ===== verification/Barista_Invariant.thy ===== *)
theory Barista_Invariant
  imports Storage_Stat
begin

text \<open>
  What every handler of the core keeps, whatever the request and the network: the metadata lock
  is free again when a handler is done, no handler brings a node up, replies are only added, and
  the tables of active requests stay consistent. The proofs are by a small calculus of
  postconditions over \<open>outcome\<close>.
\<close>

section \<open>Postconditions\<close>

definition ends :: "('a \<Rightarrow> bool) \<Rightarrow> 'a outcome \<Rightarrow> bool" where
  "ends Q m \<longleftrightarrow> (\<forall>x. m = Returned x \<longrightarrow> Q x)"

lemma endsD: "ends Q m \<Longrightarrow> m = Returned x \<Longrightarrow> Q x"
  by (simp add: ends_def)

lemma ends_simps [simp]:
  "ends Q (Returned x) = Q x" "ends Q Aborted" "ends Q Unspecified" "ends Q Running"
  "ends Q (guard_assert b m) \<longleftrightarrow> (b \<longrightarrow> ends Q m)" "ends Q (guard_defined b m) \<longleftrightarrow> (b \<longrightarrow> ends Q m)"
  by (auto simp: ends_def guard_assert_def guard_defined_def)

lemma ends_bind:
  assumes "ends P m" "\<And>x. P x \<Longrightarrow> ends Q (f x)"
  shows "ends Q (outcome_bind m f)"
  using assms by (cases m) (auto simp: ends_def)

lemma ends_mono: "ends P m \<Longrightarrow> (\<And>x. P x \<Longrightarrow> Q x) \<Longrightarrow> ends Q m"
  by (auto simp: ends_def)

lemma ends_any: "ends (\<lambda>_. True) m"
  by (simp add: ends_def)

lemma ends_case_option:
  "(x = None \<Longrightarrow> ends Q a) \<Longrightarrow> (\<And>y. x = Some y \<Longrightarrow> ends Q (f y)) \<Longrightarrow>
   ends Q (case x of None \<Rightarrow> a | Some y \<Rightarrow> f y)"
  by (cases x) auto

lemma ends_case_prod: "(\<And>a b. x = (a, b) \<Longrightarrow> ends Q (f a b)) \<Longrightarrow> ends Q (case x of (a, b) \<Rightarrow> f a b)"
  by (cases x) auto

lemma ends_if: "(b \<Longrightarrow> ends Q m) \<Longrightarrow> (\<not> b \<Longrightarrow> ends Q m') \<Longrightarrow> ends Q (if b then m else m')"
  by simp

lemma ends_let: "(\<And>y. y = x \<Longrightarrow> ends Q (f y)) \<Longrightarrow> ends Q (let y = x in f y)"
  by simp

lemma ends_guards:
  "(b \<Longrightarrow> ends Q m) \<Longrightarrow> ends Q (guard_assert b m)" "(b \<Longrightarrow> ends Q m) \<Longrightarrow> ends Q (guard_defined b m)"
  by simp_all

lemmas ends_cases = ends_case_option ends_if ends_let ends_guards

section \<open>The relation\<close>

text \<open>Every id in the lookup table leads to an active write that carries this id.\<close>

definition tables_ok :: "barista \<Rightarrow> bool" where
  "tables_ok st \<longleftrightarrow>
     oc_sorted (<) UNIV fst (br_reads st) \<and> oc_sorted (<) UNIV fst (br_deletes st) \<and>
     oc_sorted (<) UNIV fst (br_write_lookups st) \<and> oc_sorted write_request_less UNIV fst (br_writes st) \<and>
     (\<forall>r q. om_find (<) r (br_write_lookups st) = Some q \<longrightarrow>
        om_find write_request_less q (br_writes st) \<noteq> None \<and>
        (r = wq_request_id q \<or> r = wq_replica_request_id q))"

definition up_set :: "io_state \<Rightarrow> u32 set" where
  "up_set io = set (vm_up_nodes (io_vmeta io))"

text \<open>No node comes up, and the handler calls still tell which nodes are up.\<close>

definition nodes_leave :: "vmeta \<Rightarrow> vmeta \<Rightarrow> bool" where
  "nodes_leave v v' \<longleftrightarrow> set (vm_up_nodes v') \<subseteq> set (vm_up_nodes v) \<and> (nodes_inv v \<longrightarrow> nodes_inv v')"

lemma nodes_leave_trans: "nodes_leave u v \<Longrightarrow> nodes_leave v w \<Longrightarrow> nodes_leave u w"
  by (auto simp: nodes_leave_def)

lemma nodes_leave_same: "vm_up_nodes v' = vm_up_nodes v \<Longrightarrow> vm_events v' = vm_events v \<Longrightarrow> nodes_leave v v'"
  by (simp add: nodes_leave_def nodes_inv_def)

lemma nodes_leave_refl [simp]: "nodes_leave v v"
  by (rule nodes_leave_same) simp_all

lemma set_node_nodes_inv:
  assumes "nodes_inv st"
  shows "nodes_inv (snd (set_node_down st n))" "nodes_inv (snd (set_node_up st n))"
  using assms by (auto simp: nodes_inv_def set_node_down_def set_node_up_def up_nodes_contains_def distinct_removeAll)

lemma nodes_leave_node_down: "nodes_leave v (snd (set_node_down v n))"
  using set_node_nodes_inv(1) by (auto simp: nodes_leave_def set_node_down_def)

definition evolves :: "barista \<Rightarrow> barista \<Rightarrow> bool" where
  "evolves st st' \<longleftrightarrow>
     (meta_free st \<longrightarrow> meta_free st') \<and> nodes_leave (br_vm st) (br_vm st') \<and>
     (\<exists>rs. br_replies st' = br_replies st @ rs) \<and> (tables_ok st \<longrightarrow> tables_ok st')"

lemma evolves_refl [simp]: "evolves st st"
  by (simp add: evolves_def)

lemma evolves_trans: "evolves st1 st2 \<Longrightarrow> evolves st2 st3 \<Longrightarrow> evolves st1 st3"
  by (auto simp: evolves_def intro: nodes_leave_trans)

text \<open>A step that leaves lock, replies and tables alone.\<close>

lemma evolves_same:
  assumes "evolves base st" "meta_free st \<Longrightarrow> meta_free st'" "nodes_leave (br_vm st) (br_vm st')"
    and "br_replies st' = br_replies st" "br_reads st' = br_reads st" "br_deletes st' = br_deletes st"
    and "br_write_lookups st' = br_write_lookups st" "br_writes st' = br_writes st"
  shows "evolves base st'"
  using assms by (auto simp: evolves_def tables_ok_def intro: nodes_leave_trans)

lemma evolves_reply [simp]: "evolves base st \<Longrightarrow> evolves base (send_reply r st)"
  by (auto simp: evolves_def tables_ok_def)

lemma evolves_locks [simp]: "evolves base st \<Longrightarrow> evolves base (st\<lparr>br_locks := l\<rparr>)"
  by (rule evolves_same) simp_all

lemma evolves_io: "evolves base st \<Longrightarrow> nodes_leave (br_vm st) (io_vmeta io) \<Longrightarrow> evolves base (st\<lparr>br_io := io\<rparr>)"
  by (rule evolves_same) simp_all

lemma evolves_vm:
  "evolves base st \<Longrightarrow> vm_up_nodes v = vm_up_nodes (br_vm st) \<Longrightarrow> vm_events v = vm_events (br_vm st) \<Longrightarrow>
   evolves base (set_vm v st)"
  by (rule evolves_io) (simp_all add: nodes_leave_same)

lemma evolves_read [simp]:
  "evolves base st \<Longrightarrow> br_reads st = t \<Longrightarrow> evolves base (st\<lparr>br_reads := om_update (<) r x t\<rparr>)"
  "evolves base st \<Longrightarrow> br_reads st = t \<Longrightarrow> evolves base (st\<lparr>br_reads := om_erase (<) r t\<rparr>)"
  by (auto simp: evolves_def tables_ok_def u32_order.sorted_om_update u32_order.sorted_om_erase)

lemma evolves_delete [simp]:
  "evolves base st \<Longrightarrow> br_deletes st = t \<Longrightarrow> evolves base (st\<lparr>br_deletes := om_update (<) r x t\<rparr>)"
  "evolves base st \<Longrightarrow> br_deletes st = t \<Longrightarrow> evolves base (st\<lparr>br_deletes := om_erase (<) r t\<rparr>)"
  by (auto simp: evolves_def tables_ok_def u32_order.sorted_om_update u32_order.sorted_om_erase)

section \<open>The I/O manager brings no node up\<close>

abbreviation not_up :: "io_state \<Rightarrow> io_state \<Rightarrow> bool" where
  "not_up base io \<equiv> nodes_leave (io_vmeta base) (io_vmeta io)"

lemma place_chunk_vmeta [simp]: "io_vmeta (place_chunk c io) = io_vmeta io"
  by (simp add: place_chunk_def Let_def)

lemma not_up_node_down [simp]: "not_up base io \<Longrightarrow> not_up base (node_down n io)"
  by (auto simp: node_down_def intro: nodes_leave_trans nodes_leave_node_down)

lemma send_request_not_up: "not_up base io \<Longrightarrow> ends (\<lambda>(x, io'). not_up base io') (send_request net r io)"
  by (auto simp: ends_def send_request_def)

lemma read_stripe_loop_not_up:
  "not_up base io \<Longrightarrow> ends (\<lambda>(k, io'). not_up base io') (read_stripe_loop net n rid f s cs len ch off br num io)"
proof (induction n arbitrary: ch off br num io)
  case (Suc n)
  then show ?case
    by (auto simp: Let_def split: option.split
        intro!: ends_bind[OF send_request_not_up[where base = base]] not_up_node_down)
qed simp

lemma write_replica_not_up:
  "not_up base io \<Longrightarrow> ends (not_up base) (write_replica net rrid c node off data io)"
  unfolding write_replica_def
  by (auto simp: Let_def intro!: ends_bind[OF send_request_not_up[where base = base]] not_up_node_down)

lemma write_stripe_loop_not_up:
  "not_up base io \<Longrightarrow> ends (\<lambda>(k, io'). not_up base io') (write_stripe_loop net n rid rrid f s cs buf len ch off bw num io)"
proof (induction n arbitrary: ch off bw num io)
  case (Suc n)
  then show ?case
    by (auto simp: Let_def split: option.split
        intro!: ends_bind[OF send_request_not_up[where base = base]] ends_bind[OF write_replica_not_up[where base = base]] not_up_node_down)
qed simp

lemma process_stripe_not_up:
  "ends (\<lambda>(k, io'). not_up io io') (process_read_stripe net n rid f s ss cs off len io)"
  "ends (\<lambda>(k, io'). not_up io io') (process_write_stripe net n rid rrid f s ss cs buf off len io)"
  by (auto simp: process_read_stripe_def process_write_stripe_def
      intro!: ends_bind[OF ends_any] read_stripe_loop_not_up write_stripe_loop_not_up)

lemma delete_chunks_not_up:
  "not_up base (snd x) \<Longrightarrow> ends (\<lambda>(k, io'). not_up base io') (delete_chunks net rid f cs x)"
proof (induction cs arbitrary: x)
  case (Cons c cs)
  have p: "ends (\<lambda>y. not_up base (snd y)) (delete_primary net rid f c x)" if "not_up base (snd x)" for x
    using that by (auto simp: delete_primary_def Let_def split_beta intro!: ends_bind[OF send_request_not_up[where base = base]])
  have r: "ends (\<lambda>y. not_up base (snd y)) (delete_replica net rid f c x)" if "not_up base (snd x)" for x
    using that by (auto simp: delete_replica_def Let_def split_beta intro!: ends_bind[OF send_request_not_up[where base = base]])
  show ?case
    unfolding delete_chunks.simps
    by (rule ends_bind[OF p[OF Cons.prems]], rule ends_bind[OF r], assumption, rule Cons.IH)
qed (simp add: split_beta)

lemma process_delete_not_up: "ends (\<lambda>(k, io'). not_up io io') (process_delete_file net rid f io)"
  unfolding process_delete_file_def by (rule delete_chunks_not_up) simp

section \<open>The calls through\<close>

lemma with_metadata_lock_evolves:
  assumes "evolves base st"
  shows "ends (\<lambda>(r, st'). evolves base st') (with_metadata_lock c f e st)"
proof -
  have "evolves base st'" if "with_metadata_lock c f e st = Returned (r, st')" for r st'
  proof (rule evolves_same[OF assms with_metadata_lock_free[OF _ that]])
  qed (use that in \<open>auto simp: with_metadata_lock_def split: if_splits prod.splits\<close>)
  then show ?thesis by (auto simp: ends_def)
qed

lemma core_calls_evolve:
  assumes "evolves base st"
  shows "ends (\<lambda>(r, st'). evolves base st') (core_decafs_file_sstat p c st)"
    and "ends (\<lambda>(r, st'). evolves base st') (core_decafs_file_stat f c st)"
    and "ends (\<lambda>(r, st'). evolves base st') (core_add_file p ss cs rs t c st)"
    and "ends (\<lambda>(r, st'). evolves base st') (core_delete_file_contents f c st)"
    and "ends (\<lambda>(r, st'). evolves base st') (core_update_file_size f d c st)"
  unfolding core_decafs_file_sstat_def core_decafs_file_stat_def core_add_file_def
    core_delete_file_contents_def core_update_file_size_def
  by (rule with_metadata_lock_evolves[OF assms])+

lemma core_new_request_id_evolves:
  "evolves base st \<Longrightarrow> core_new_request_id st = (r, st') \<Longrightarrow> evolves base st'"
  by (auto simp: core_new_request_id_def get_new_request_id_def split: prod.splits intro!: evolves_vm)

lemma core_cursor_evolves:
  "evolves base st \<Longrightarrow> core_new_file_cursor f c st = (r, st') \<Longrightarrow> evolves base st'"
  "evolves base st \<Longrightarrow> core_close_file_cursor fd c st = (r, st') \<Longrightarrow> evolves base st'"
  by (auto simp: core_new_file_cursor_def new_file_cursor_def core_close_file_cursor_def close_file_cursor_def
      get_new_fd_def Let_def split: prod.splits if_splits option.splits intro!: evolves_vm)

lemma set_file_cursor_up:
  "ends (\<lambda>(r, v). vm_up_nodes v = vm_up_nodes st \<and> vm_events v = vm_events st) (set_file_cursor stat st fd off c)"
  by (auto simp: set_file_cursor_def Let_def split: option.split intro!: ends_bind[OF ends_any])

lemma core_set_file_cursor_evolves:
  assumes "evolves base st"
  shows "ends (\<lambda>(r, st'). evolves base st') (core_set_file_cursor fd off c st)"
  using assms unfolding core_set_file_cursor_def
  by (auto split: option.split intro!: ends_bind[OF core_calls_evolve(2)] ends_bind[OF set_file_cursor_up]
      evolves_vm)

section \<open>The handlers\<close>

lemma evolves_io_step:
  "evolves base st \<Longrightarrow> not_up (br_io st) io \<Longrightarrow> evolves base (st\<lparr>br_io := io\<rparr>)"
  by (rule evolves_io)

lemma open_cursor_evolves:
  assumes "evolves base st3"
  shows "ends (evolves base) (case core_new_file_cursor f c st3 of (cursor, st4) \<Rightarrow>
    outcome_bind (if b then core_set_file_cursor (word_of_int cursor) off c st4 else Returned (0, st4))
      (\<lambda>(_, st5). Returned (send_reply (Open_Result c cursor) st5)))"
proof (cases "core_new_file_cursor f c st3")
  case (Pair cursor st4)
  then have "evolves base st4" using core_cursor_evolves(1)[OF assms] by blast
  then have *: "ends (\<lambda>(_, st5). evolves base st5)
      (if b then core_set_file_cursor (word_of_int cursor) off c st4 else Returned (0, st4))"
    using core_set_file_cursor_evolves[of base st4] by simp
  show ?thesis unfolding Pair prod.case by (rule ends_bind[OF *]) auto
qed

lemma open_target_evolves:
  assumes "evolves base st1"
  shows "ends (\<lambda>(file, st2). evolves base st2)
     (if r = FILE_NOT_FOUND then
          if bit flags 1 then
            outcome_bind (core_add_file p ss cs rs time c st1) (\<lambda>(f, st2). Returned (Some (word_of_int f, junk), st2))
          else Returned (None, send_reply (Open_Result c FILE_NOT_FOUND_FOR_READING) st1)
        else
          let s = (case info of Some i \<Rightarrow> i | None \<Rightarrow> junk) in Returned (Some (fs_file_id s, s), st1))"
  using assms by (auto simp: Let_def intro!: ends_bind[OF core_calls_evolve(3)])

lemma open_file_evolves:
  assumes "evolves base st"
  shows "ends (evolves base) (open_file junk time p flags c st)"
  unfolding open_file_def
  apply (rule ends_bind[OF core_calls_evolve(1)[OF assms]], clarify)
  apply (rule ends_bind[OF open_target_evolves], assumption, clarify, intro ends_cases)
   apply simp
  apply (rule ends_case_prod, rule ends_bind[OF ends_any], clarify, intro ends_cases)
   apply simp
  apply (rule open_cursor_evolves, simp)
  done

lemma unlock_evolves:
  "evolves base st \<Longrightarrow> ends (evolves base) (if b then outcome_bind (release_lock c f (br_locks st))
      (\<lambda>(_, locks). Returned (st\<lparr>br_locks := locks\<rparr>)) else Returned st)"
  by (auto intro!: ends_bind[OF ends_any])

lemma close_file_evolves:
  assumes "evolves base st"
  shows "ends (evolves base) (close_file fd c st)"
proof (cases "core_close_file_cursor (word_of_int fd) c st")
  case (Pair f st1)
  then have "evolves base st1" using core_cursor_evolves(2)[OF assms] by blast
  then show ?thesis
    unfolding close_file_def Pair prod.case by (rule ends_bind[OF unlock_evolves]) simp
qed

lemma read_check_evolves: "evolves base st \<Longrightarrow> ends (evolves base) (check_read_complete r st)"
  by (auto simp: check_read_complete_def Let_def split: option.split)

section \<open>The table of writes\<close>

lemma tables_okD:
  assumes "tables_ok st"
  shows "oc_sorted (<) UNIV fst (br_write_lookups st)" "oc_sorted write_request_less UNIV fst (br_writes st)"
    and "om_find (<) r (br_write_lookups st) = Some q \<Longrightarrow> om_find write_request_less q (br_writes st) \<noteq> None"
    and "om_find (<) r (br_write_lookups st) = Some q \<Longrightarrow> r = wq_request_id q \<or> r = wq_replica_request_id q"
  using assms by (auto simp: tables_ok_def)

lemma lookup_update [simp]:
  fixes r s :: u32
  assumes "oc_sorted (<) UNIV fst m"
  shows "om_find (<) s (om_update (<) r v m) = (if s = r then Some v else om_find (<) s m)"
    and "om_find (<) s (om_erase (<) r m) = (if s = r then None else om_find (<) s m)"
  using assms by (simp_all add: u32_order.om_find_map_of[OF u32_order.sorted_om_update]
      u32_order.om_find_map_of[OF u32_order.sorted_om_erase] u32_order.om_find_map_of
      u32_order.map_of_om_update u32_order.map_of_om_erase)

lemma write_table_update [simp]:
  assumes "oc_sorted write_request_less UNIV fst m"
  shows "om_find write_request_less s (om_update write_request_less r v m) =
      (if s = r then Some v else om_find write_request_less s m)"
    and "om_find write_request_less s (om_erase write_request_less r m) =
      (if s = r then None else om_find write_request_less s m)"
  using assms by (simp_all add: write_request_order.om_find_map_of[OF write_request_order.sorted_om_update]
      write_request_order.om_find_map_of[OF write_request_order.sorted_om_erase]
      write_request_order.om_find_map_of write_request_order.map_of_om_update write_request_order.map_of_om_erase)

lemma evolves_tables:
  assumes "evolves base st" "tables_ok st \<Longrightarrow> tables_ok st'" "br_meta st' = br_meta st" "br_io st' = br_io st"
    and "br_replies st' = br_replies st"
  shows "evolves base st'"
  using assms by (auto simp: evolves_def meta_free_def)

lemma evolves_write_started:
  assumes "evolves base st" "wq_request_id q = r" "wq_replica_request_id q = rr"
  shows "evolves base (st\<lparr>br_write_lookups := om_update (<) rr q (om_update (<) r q (br_write_lookups st)),
    br_writes := om_update write_request_less q x (br_writes st)\<rparr>)"
proof (rule evolves_tables[OF assms(1)])
  assume t: "tables_ok st"
  note so = tables_okD(1,2)[OF t]
  show "tables_ok (st\<lparr>br_write_lookups := om_update (<) rr q (om_update (<) r q (br_write_lookups st)),
    br_writes := om_update write_request_less q x (br_writes st)\<rparr>)"
    using t so assms(2,3) u32_order.sorted_om_update[OF so(1)] u32_order.sorted_om_update[OF u32_order.sorted_om_update[OF so(1)]]
      write_request_order.sorted_om_update[OF so(2)]
    by (auto simp: tables_ok_def)
qed simp_all

lemma evolves_write_updated:
  assumes "evolves base st" "br_writes st = t"
  shows "evolves base (st\<lparr>br_writes := om_update write_request_less q x t\<rparr>)"
proof (rule evolves_tables[OF assms(1)])
  assume t: "tables_ok st"
  show "tables_ok (st\<lparr>br_writes := om_update write_request_less q x t\<rparr>)"
    using t tables_okD(2)[OF t] write_request_order.sorted_om_update[OF tables_okD(2)[OF t]] assms(2)
    by (auto simp: tables_ok_def)
qed simp_all

lemma evolves_write_finished:
  assumes "evolves base st" "br_writes st = t" "br_write_lookups st = l"
  shows "evolves base (st\<lparr>br_writes := om_erase write_request_less q t,
    br_write_lookups := om_erase (<) (wq_replica_request_id q) (om_erase (<) (wq_request_id q) l)\<rparr>)"
proof (rule evolves_tables[OF assms(1)])
  assume t: "tables_ok st"
  note so = tables_okD(1,2)[OF t]
  note so1 = u32_order.sorted_om_erase[OF so(1)]
  show "tables_ok (st\<lparr>br_writes := om_erase write_request_less q t,
    br_write_lookups := om_erase (<) (wq_replica_request_id q) (om_erase (<) (wq_request_id q) l)\<rparr>)"
    using t so so1 u32_order.sorted_om_erase[OF so1] write_request_order.sorted_om_erase[OF so(2)] assms(2,3)
    by (auto simp: tables_ok_def)
qed simp_all

section \<open>Reading, writing, deleting, seeking\<close>

lemma write_check_evolves: "evolves base st \<Longrightarrow> ends (evolves base) (check_write_complete r st)"
  by (auto simp: check_write_complete_def intro!: evolves_write_finished split: option.split)

lemma retry_evolves: "evolves base st \<Longrightarrow> ends (evolves base) (retry_delete_contents n f c st)"
proof (induction n arbitrary: st)
  case (Suc n)
  then show ?case by (auto intro!: ends_bind[OF core_calls_evolve(4)])
qed simp

lemma delete_check_evolves:
  assumes "evolves base st"
  shows "ends (evolves base) (check_delete_complete n r st)"
  unfolding check_delete_complete_def
  apply (intro ends_cases, simp_all add: assms)
  apply (rule ends_bind[OF retry_evolves[where base = base]], simp add: assms)
  apply (rule ends_bind[OF ends_any], simp add: split_beta)
  done

lemma evolves_delete_started:
  "evolves base st \<Longrightarrow> not_up (br_io st) io \<Longrightarrow> evolves base (st\<lparr>br_locks := l, br_io := io,
     br_deletes := om_update (<) r y (om_update (<) r x (br_deletes st))\<rparr>)"
proof -
  assume "evolves base st" "not_up (br_io st) io"
  then have "evolves base (st\<lparr>br_locks := l, br_io := io\<rparr>)"
    using evolves_io[of base "st\<lparr>br_locks := l\<rparr>" io] by simp
  from evolves_delete(1)[OF evolves_delete(1)[OF this refl] refl] show ?thesis by simp
qed

lemma read_loop_evolves:
  "evolves base st \<Longrightarrow> ends (\<lambda>(k, st'). evolves base st') (read_loop net m n rid f fd stat len c s off br num st)"
proof (induction n arbitrary: s off br num st)
  case (Suc n)
  show ?case
    unfolding read_loop.simps
    apply (intro ends_cases, rule ends_bind[OF process_stripe_not_up(1)], clarify, intro ends_cases)
     apply (rule ends_bind[OF core_set_file_cursor_evolves[where base = base]])
      apply (simp add: evolves_io_step Suc.prems)
     apply (clarify, rule Suc.IH, assumption)
    apply (simp add: Suc.prems)
    done
qed simp

lemma write_loop_evolves:
  "evolves base st \<Longrightarrow>
   ends (\<lambda>(k, st'). evolves base st') (write_loop net m n rid rrid f fd stat buf len c s off bw num st)"
proof (induction n arbitrary: s off bw num st)
  case (Suc n)
  show ?case
    unfolding write_loop.simps
    apply (intro ends_cases, rule ends_bind[OF process_stripe_not_up(2)], clarify)
     apply (rule ends_bind[OF core_calls_evolve(5)[where base = base]])
      apply (simp add: evolves_io_step Suc.prems)
     apply (clarify, rule ends_bind[OF core_set_file_cursor_evolves[where base = base]], assumption)
     apply (clarify, rule Suc.IH, assumption)
    apply (simp add: Suc.prems)
    done
qed simp

lemma response_handlers_evolve:
  assumes "evolves base st"
  shows "ends (evolves base) (read_response_handler rid ch k data st)"
    and "ends (evolves base) (write_response_handler rid k st)"
    and "ends (evolves base) (delete_response_handler n rid st)"
  using assms
  by (auto simp: read_response_handler_def write_response_handler_def delete_response_handler_def Let_def
      split: option.split intro!: read_check_evolves write_check_evolves delete_check_evolves evolves_write_updated)

lemma file_storage_stat_evolves: "evolves base st \<Longrightarrow> ends (evolves base) (file_storage_stat p c st)"
  unfolding file_storage_stat_def by (auto intro!: ends_bind[OF core_calls_evolve(1)[where base = base]])

lemma file_seek_evolves:
  assumes "evolves base st"
  shows "ends (evolves base) (file_seek fd off wh c st)"
proof -
  have opt: "ends (\<lambda>(_, st'). evolves base st') (if b then core_set_file_cursor w x c st1 else Returned (0, st1))"
    if "evolves base st1" for b w x st1
    using that core_set_file_cursor_evolves[OF that] by simp
  show ?thesis
    unfolding file_seek_def
    apply (intro ends_cases)
     apply (rule ends_bind[OF core_set_file_cursor_evolves[OF assms]], simp add: split_beta)
    apply (rule ends_bind[OF opt[OF assms]], clarify, intro ends_cases)
    apply (rule ends_bind[OF opt], assumption, simp add: split_beta)
    done
qed

lemma delete_file_evolves:
  assumes "evolves base st"
  shows "ends (evolves base) (delete_file net n p c st)"
proof (cases "core_new_request_id st")
  case (Pair r st1)
  then have e: "evolves base st1" using core_new_request_id_evolves[OF assms] by blast
  show ?thesis
    unfolding delete_file_def Pair prod.case
    apply (rule ends_bind[OF core_calls_evolve(1)[OF e]], clarify, intro ends_cases)
     apply simp
    apply (rule ends_bind[OF ends_any], clarify, intro ends_cases)
     apply simp
    apply (rule ends_bind[OF process_delete_not_up], clarify, rule delete_check_evolves)
    apply (simp add: evolves_delete_started)
    done
qed

lemma read_file_evolves:
  assumes "evolves base st"
  shows "ends (evolves base) (read_file net n fd len c st)"
proof (cases "core_new_request_id st")
  case (Pair r st1)
  then have e: "evolves base st1" using core_new_request_id_evolves[OF assms] by blast
  show ?thesis
    unfolding read_file_def Pair prod.case read_refusal_def
    apply (intro ends_cases, rule ends_bind[OF ends_any], rule ends_bind[OF ends_any], intro ends_cases)
     apply (simp add: e)
    apply (rule ends_bind[OF core_calls_evolve(2)[OF e]], clarify, intro ends_cases)
       apply (simp_all add: e)
    apply (rule ends_bind[OF ends_any], clarify)
    apply (rule ends_bind[OF read_loop_evolves[where base = base]], simp)
    apply (clarify, intro ends_cases, simp)
    apply (rule read_check_evolves, simp)
    done
qed

lemma write_file_evolves:
  assumes "evolves base st"
  shows "ends (evolves base) (write_file net n fd buf len c st)"
proof (cases "core_new_request_id st")
  case (Pair r st1)
  then have e1: "evolves base st1" using core_new_request_id_evolves[OF assms] by blast
  obtain rr st2 where q: "core_new_request_id st1 = (rr, st2)" by fastforce
  then have e: "evolves base st2" using core_new_request_id_evolves[OF e1] by blast
  show ?thesis
    unfolding write_file_def Pair prod.case q write_refusal_def
    apply (intro ends_cases, rule ends_bind[OF ends_any], intro ends_cases)
     apply (simp add: e)
    apply (rule ends_bind[OF core_calls_evolve(2)[OF e]], clarify, intro ends_cases)
       apply (simp_all add: e)
    apply (rule ends_bind[OF ends_any], clarify)
    apply (rule ends_bind[OF write_loop_evolves[where base = base]], simp add: evolves_write_started)
    apply (clarify, intro ends_cases)
    apply (rule write_check_evolves, rule evolves_write_updated, simp_all)
    done
qed

text \<open>What the core can be asked to do, by a client or by a node's answer.\<close>

datatype core_event =
    Open_Event string u32 client
  | Close_Event int client
  | Read_Event int nat client
  | Write_Event int "u8 list" nat client
  | Delete_Event string client
  | Seek_Event int u32 int client
  | Report_Event string client
  | Read_Answer u32 file_chunk int "u8 list"
  | Write_Answer u32 int
  | Delete_Answer u32

fun core_step :: "network \<Rightarrow> nat \<Rightarrow> file_stat \<Rightarrow> timeval \<Rightarrow> core_event \<Rightarrow> barista \<Rightarrow> barista outcome" where
  "core_step net n junk time (Open_Event p flags c) st = open_file junk time p flags c st"
| "core_step net n junk time (Close_Event fd c) st = close_file fd c st"
| "core_step net n junk time (Read_Event fd len c) st = read_file net n fd len c st"
| "core_step net n junk time (Write_Event fd buf len c) st = write_file net n fd buf len c st"
| "core_step net n junk time (Delete_Event p c) st = delete_file net n p c st"
| "core_step net n junk time (Seek_Event fd off wh c) st = file_seek fd off wh c st"
| "core_step net n junk time (Report_Event p c) st = file_storage_stat p c st"
| "core_step net n junk time (Read_Answer i ch k data) st = read_response_handler i ch k data st"
| "core_step net n junk time (Write_Answer i k) st = write_response_handler i k st"
| "core_step net n junk time (Delete_Answer i) st = delete_response_handler n i st"

lemma core_step_ends: "ends (evolves st) (core_step net n junk time x st)"
  by (cases x)
    (simp_all add: open_file_evolves close_file_evolves read_file_evolves write_file_evolves delete_file_evolves
      file_seek_evolves file_storage_stat_evolves response_handlers_evolve)

lemma core_step_evolves [decafs_inv]:
  "core_step net n junk time x st = Returned st' \<Longrightarrow> evolves st st'"
  by (rule endsD[OF core_step_ends])

text \<open>The states the core reaches from its start, whatever it is asked and whatever the network does.\<close>

inductive core_reach :: "barista \<Rightarrow> bool" where
  started: "barista_core_init argc stripe chunk num new_barista = Some b \<Longrightarrow> core_reach b"
| stepped: "core_reach st \<Longrightarrow> core_step net n junk time x st = Returned st' \<Longrightarrow> core_reach st'"
| node_change: "core_reach st \<Longrightarrow> v = snd (set_node_up (br_vm st) w) \<or> v = snd (set_node_down (br_vm st) w) \<Longrightarrow>
    core_reach (set_vm v st)"

lemma new_barista_ok: "meta_free new_barista" "tables_ok new_barista"
  by (simp_all add: new_barista_def meta_free_def new_meta_lock_def tables_ok_def oc_sorted_def
      om_find_def oc_find_def oc_lower_bound_def)

lemma tables_ok_io [simp]: "tables_ok (st\<lparr>br_io := io\<rparr>) = tables_ok st"
  by (simp add: tables_ok_def)

lemma core_init_ok:
  "barista_core_init argc stripe chunk num st = Some b \<Longrightarrow> meta_free b = meta_free st \<and> tables_ok b = tables_ok st"
  by (auto simp: barista_core_init_def split: if_splits prod.splits)

lemma core_reach_ok [decafs_inv]: "core_reach st \<Longrightarrow> meta_free st \<and> tables_ok st"
proof (induction rule: core_reach.induct)
  case (started argc stripe chunk num b)
  then show ?case using core_init_ok new_barista_ok by blast
next
  case (stepped st net n junk time x st')
  then show ?case using core_step_evolves[of net n junk time x st st'] by (simp add: evolves_def)
next
  case (node_change st v w)
  then show ?case by simp
qed

lemma core_reach_nodes [decafs_inv]: "core_reach st \<Longrightarrow> nodes_inv (br_vm st)"
proof (induction rule: core_reach.induct)
  case (started argc stripe chunk num b)
  have "nodes_inv (br_vm new_barista)"
    by (simp add: new_barista_def empty_io_def new_vmeta_def nodes_inv_def)
  moreover have "nodes_leave (br_vm new_barista) (br_vm b)"
    using started by (auto simp: barista_core_init_def set_stripe_size_def set_chunk_size_def set_num_espressos_def
        split: if_splits prod.splits intro!: nodes_leave_same)
  ultimately show ?case by (simp add: nodes_leave_def)
next
  case (stepped st net n junk time x st')
  then show ?case using core_step_evolves[of net n junk time x st st'] by (simp add: evolves_def nodes_leave_def)
next
  case (node_change st v w)
  then show ?case using set_node_nodes_inv[of "br_vm st" w] by auto
qed

text \<open>
  C14: between two events the core holds no metadata lock, so no call through to the metadata is
  ever refused with \<open>NO_METADATA_LOCK\<close>; and an answer to a chunk write is matched with an active
  write whenever its id is known, so the assertions of the handler fail only for unknown ids.
\<close>

theorem core_always_consistent:
  assumes "core_reach st"
  shows "meta_free st \<and>
    (case om_find (<) rid (br_write_lookups st) of
       None \<Rightarrow> write_response_handler rid k st = Aborted
     | Some q \<Rightarrow> (rid = wq_request_id q \<or> rid = wq_replica_request_id q) \<and>
         (\<exists>st'. write_response_handler rid k st = Returned st'))"
proof -
  have ok: "meta_free st" "tables_ok st" using core_reach_ok[OF assms] by simp_all
  show ?thesis
  proof (cases "om_find (<) rid (br_write_lookups st)")
    case None
    with ok show ?thesis by (simp add: write_response_handler_def)
  next
    case (Some q)
    then obtain wr where "om_find write_request_less q (br_writes st) = Some wr"
      using tables_okD(3)[OF ok(2)] by blast
    with Some ok tables_okD(2,4)[OF ok(2)] show ?thesis
      by (auto simp: write_response_handler_def Let_def check_write_complete_def)
  qed
qed

lemma core_always_consistent_witness:
  "\<exists>b. barista_core_init 6 512 256 4 new_barista = Some b \<and> meta_free b \<and>
    write_response_handler 7 10 b = Aborted"
proof -
  obtain b where b: "barista_core_init 6 512 256 4 new_barista = Some b"
    by (simp add: barista_core_init_def set_stripe_size_def set_chunk_size_def set_num_espressos_def limits_defs
        new_barista_def empty_io_def new_vmeta_def)
  then have "br_write_lookups b = []"
    by (auto simp: barista_core_init_def new_barista_def split: if_splits prod.splits)
  with b core_always_consistent[OF core_reach.started[OF b], of 7 10] show ?thesis
    by (simp add: om_find_def oc_find_def oc_lower_bound_def)
qed

end
