(* ===== verification/Barista_Server.thy ===== *)
theory Barista_Server
  imports Messages Barista_Invariant
begin

text \<open>
  \<open>barista_server.cpp\<close>: the connections of the barista, which of them are espresso nodes and
  which are clients, and the dispatch of their messages to the core. What the core replies is
  put into packets and handed to the client's connection (\<open>bs_out\<close>); a reply for a client
  without a connection, the client a default constructor makes, dereferences \<open>NULL\<close>.
\<close>

section \<open>State\<close>

text \<open>\<open>m_pending_clients\<close> maps every member to 1.\<close>

record barista_server =
  bs_pending :: "(conn \<times> int) list"
  bs_espressos :: "(int \<times> conn) list"
  bs_espressos_rev :: "(conn \<times> int) list"
  bs_clients :: "(conn \<times> client) list"
  bs_core :: barista
  bs_out :: "(conn \<times> u8 list) list"

definition new_server :: "barista \<Rightarrow> barista_server" where
  "new_server b = \<lparr>bs_pending = [], bs_espressos = [], bs_espressos_rev = [], bs_clients = [], bs_core = b,
     bs_out = []\<rparr>"

text \<open>
  What the server finds around it: fresh memory, the uninitialised \<open>fd\<close> of a delete packet and
  \<open>stat\<close> of \<open>open_file\<close>, the clock, the bound on loops, the text of a peer's address and the
  result of \<open>send\<close>.
\<close>

record environment =
  env_heap :: "nat \<Rightarrow> u8"
  env_fd :: u32
  env_stat :: file_stat
  env_time :: timeval
  env_fuel :: nat
  env_address :: "conn \<Rightarrow> string"
  env_send :: "net_log \<Rightarrow> conn \<Rightarrow> u8 list \<Rightarrow> int"

section \<open>Connections\<close>

abbreviation server_vm :: "barista_server \<Rightarrow> vmeta" where
  "server_vm s \<equiv> br_vm (bs_core s)"

abbreviation put_vm :: "vmeta \<Rightarrow> barista_server \<Rightarrow> barista_server" where
  "put_vm v s \<equiv> s\<lparr>bs_core := set_vm v (bs_core s)\<rparr>"

definition clientConnected :: "conn \<Rightarrow> barista_server \<Rightarrow> barista_server" where
  "clientConnected k s = s\<lparr>bs_pending := om_update (<) k 1 (bs_pending s)\<rparr>"

definition clientDisconnected :: "conn \<Rightarrow> barista_server \<Rightarrow> barista_server" where
  "clientDisconnected k s =
     (if om_find (<) k (bs_pending s) \<noteq> None then s\<lparr>bs_pending := om_erase (<) k (bs_pending s)\<rparr>
      else if om_find (<) k (bs_clients s) \<noteq> None then s\<lparr>bs_clients := om_erase (<) k (bs_clients s)\<rparr>
      else case om_find (<) k (bs_espressos_rev s) of
          None \<Rightarrow> s
        | Some node_id \<Rightarrow>
            put_vm (snd (set_node_down (server_vm s) (word_of_int node_id)))
              (s\<lparr>bs_espressos_rev := om_erase (<) k (bs_espressos_rev s),
                 bs_espressos := om_erase (<) node_id (bs_espressos s)\<rparr>))"

definition addEspressoNode :: "u32 \<Rightarrow> conn \<Rightarrow> barista_server \<Rightarrow> barista_server" where
  "addEspressoNode node k s =
     (if om_find (<) k (bs_pending s) \<noteq> None then
        put_vm (snd (set_node_up (server_vm s) node))
          (s\<lparr>bs_pending := om_erase (<) k (bs_pending s),
             bs_espressos := om_update (<) (sint node) k (bs_espressos s),
             bs_espressos_rev := om_update (<) k (sint node) (bs_espressos_rev s)\<rparr>)
      else s)"

definition addDecafsClient :: "environment \<Rightarrow> u32 \<Rightarrow> conn \<Rightarrow> barista_server \<Rightarrow> barista_server" where
  "addDecafsClient e user k s =
     (if om_find (<) k (bs_pending s) \<noteq> None then
        s\<lparr>bs_pending := om_erase (<) k (bs_pending s),
          bs_clients := om_update (<) k \<lparr>ip = \<lparr>addr = env_address e k\<rparr>, user_id = user, ctc = k\<rparr> (bs_clients s)\<rparr>
      else s)"

text \<open>\<open>m_decafs_clients[client]\<close> inserts a default client when there is none.\<close>

definition client_at :: "conn \<Rightarrow> barista_server \<Rightarrow> client \<times> barista_server" where
  "client_at k s =
     (case om_find (<) k (bs_clients s) of
        Some c \<Rightarrow> (c, s)
      | None \<Rightarrow> (null_client, s\<lparr>bs_clients := om_update (<) k null_client (bs_clients s)\<rparr>))"

section \<open>Handing replies to connections\<close>

fun deliver :: "environment \<Rightarrow> reply list \<Rightarrow> (conn \<times> u8 list) list \<Rightarrow> (conn \<times> u8 list) list outcome" where
  "deliver e [] sent = Returned sent"
| "deliver e (r # rs) sent =
     guard_defined (ctc (reply_client r) \<noteq> 0)
      (case reply_packet (env_heap e) r of
         None \<Rightarrow> Unspecified
       | Some p \<Rightarrow> deliver e rs (sent @ [(ctc (reply_client r), take (unat (pk_size p)) (pk_buf p))]))"

text \<open>A handler of the core, with what it replied since its start.\<close>

definition on_core :: "environment \<Rightarrow> (barista \<Rightarrow> barista outcome) \<Rightarrow> barista_server \<Rightarrow> barista_server outcome" where
  "on_core e f s =
     outcome_bind (f (bs_core s)) (\<lambda>b.
     outcome_bind (deliver e (drop (length (br_replies (bs_core s))) (br_replies b)) (bs_out s))
       (\<lambda>sent. Returned (s\<lparr>bs_core := b, bs_out := sent\<rparr>)))"

section \<open>Messages\<close>

text \<open>An \<open>int32_t\<close> passed as \<open>size_t\<close>.\<close>

definition size_of_int :: "int \<Rightarrow> nat" where
  "size_of_int x = nat (x mod 2 ^ 64)"

definition server_net :: "environment \<Rightarrow> barista_server \<Rightarrow> network" where
  "server_net e s = network_of (env_heap e) (env_fd e) (env_send e) (bs_espressos s)"

definition for_client :: "environment \<Rightarrow> conn \<Rightarrow> (network \<Rightarrow> client \<Rightarrow> barista \<Rightarrow> barista outcome) \<Rightarrow>
    barista_server \<Rightarrow> barista_server outcome" where
  "for_client e k f s = (case client_at k s of (c, s1) \<Rightarrow> on_core e (f (server_net e s1) c) s1)"

definition message_chunk :: "file_packet \<Rightarrow> file_chunk" where
  "message_chunk m = mk_chunk (fp_file_id m) (fp_stripe_id m) (fp_chunk_num m)"

text \<open>The bodies of the \<open>switch\<close> of \<open>handleMessageFromClient\<close>; \<open>make_dir\<close> and \<open>open_dir\<close> are empty.\<close>

fun serve :: "environment \<Rightarrow> conn \<Rightarrow> barista_message \<Rightarrow> barista_server \<Rightarrow> barista_server outcome" where
  "serve e k (Storage_Stat path) s = for_client e k (\<lambda>net. file_storage_stat path) s"
| "serve e k (Make_Dir path mode) s = for_client e k (\<lambda>net c. Returned) s"
| "serve e k (Remove_File path) s = for_client e k (\<lambda>net. delete_file net (env_fuel e) path) s"
| "serve e k (Open_Dir path) s = for_client e k (\<lambda>net c. Returned) s"
| "serve e k (Open_File path flags) s =
     for_client e k (\<lambda>net. open_file (env_stat e) (env_time e) path (word_of_int flags)) s"
| "serve e k (Read_File fd len) s =
     for_client e k (\<lambda>net. read_file net (env_fuel e) (sint fd) (size_of_int len)) s"
| "serve e k (Write_File fd len data) s =
     for_client e k (\<lambda>net. write_file net (env_fuel e) (sint fd) data (size_of_int len)) s"
| "serve e k (Close_File fd) s = for_client e k (\<lambda>net. close_file (sint fd)) s"
| "serve e k (Espresso_Connects node) s = Returned (addEspressoNode node k s)"
| "serve e k (Client_Connects user) s = Returned (addDecafsClient e user k s)"
| "serve e k (Chunk_Read i m data) s = on_core e (read_response_handler i (message_chunk m) (fp_count m) data) s"
| "serve e k (Chunk_Written i m) s = on_core e (write_response_handler i (fp_count m)) s"
| "serve e k (Chunk_Deleted i m) s = on_core e (delete_response_handler (env_fuel e) i) s"
| "serve e k (Seek_File fd offset whence) s =
     for_client e k (\<lambda>net. file_seek fd (word_of_int offset) whence) s"

definition handleMessageFromClient ::
    "environment \<Rightarrow> conn \<Rightarrow> u8 list \<Rightarrow> barista_server \<Rightarrow> (barista_server \<times> u8 list) outcome" where
  "handleMessageFromClient e k avail s =
     outcome_bind (receive_message (env_heap e) avail) (\<lambda>(msg, rest).
     outcome_bind (case msg of None \<Rightarrow> Returned s | Some m \<Rightarrow> serve e k m s)
       (\<lambda>s'. Returned (s', rest)))"

section \<open>Reachable servers\<close>

inductive server_reach :: "barista_server \<Rightarrow> bool" where
  started: "core_reach b \<Longrightarrow> up_set (br_io b) = {} \<Longrightarrow> server_reach (new_server b)"
| connected: "server_reach s \<Longrightarrow> server_reach (clientConnected k s)"
| disconnected: "server_reach s \<Longrightarrow> server_reach (clientDisconnected k s)"
| message: "server_reach s \<Longrightarrow> handleMessageFromClient e k avail s = Returned (s', rest) \<Longrightarrow> server_reach s'"

definition server_inv :: "barista_server \<Rightarrow> bool" where
  "server_inv s \<longleftrightarrow>
     oc_sorted (<) UNIV fst (bs_espressos s) \<and> meta_free (bs_core s) \<and> tables_ok (bs_core s) \<and>
     nodes_inv (server_vm s) \<and>
     (\<forall>w \<in> up_set (br_io (bs_core s)). om_find (<) (sint w) (bs_espressos s) \<noteq> None)"

lemma node_table_update [simp]:
  fixes n :: int
  assumes "oc_sorted (<) UNIV fst m"
  shows "om_find (<) k (om_update (<) n v m) = (if k = n then Some v else om_find (<) k m)"
    and "om_find (<) k (om_erase (<) n m) = (if k = n then None else om_find (<) k m)"
  using assms by (simp_all add: int_order.om_find_map_of[OF int_order.sorted_om_update]
      int_order.om_find_map_of[OF int_order.sorted_om_erase] int_order.om_find_map_of
      int_order.map_of_om_update int_order.map_of_om_erase)

lemma conn_table_update [simp]:
  fixes n :: conn
  assumes "oc_sorted (<) UNIV fst m"
  shows "om_find (<) k (om_update (<) n v m) = (if k = n then Some v else om_find (<) k m)"
    and "om_find (<) k (om_erase (<) n m) = (if k = n then None else om_find (<) k m)"
  using assms by (simp_all add: conn_order.om_find_map_of[OF conn_order.sorted_om_update]
      conn_order.om_find_map_of[OF conn_order.sorted_om_erase] conn_order.om_find_map_of
      conn_order.map_of_om_update conn_order.map_of_om_erase)

lemma server_inv_core:
  assumes "server_inv s" "evolves (bs_core s) b" "bs_core s' = b" "bs_espressos s' = bs_espressos s"
  shows "server_inv s'"
  using assms by (auto simp: server_inv_def evolves_def nodes_leave_def up_set_def)

lemma on_core_inv:
  assumes "server_inv s" "ends (evolves (bs_core s)) (f (bs_core s))"
  shows "ends server_inv (on_core e f s)"
  unfolding on_core_def
  by (rule ends_bind[OF assms(2)], rule ends_bind[OF ends_any]) (simp add: server_inv_core[OF assms(1)])

lemma client_at_facts:
  "client_at k s = (c, s1) \<Longrightarrow> bs_core s1 = bs_core s \<and> bs_espressos s1 = bs_espressos s"
  by (auto simp: client_at_def split: option.splits)

lemma for_client_inv:
  assumes "server_inv s" "\<And>net c st. ends (evolves st) (f net c st)"
  shows "ends server_inv (for_client e k f s)"
proof (cases "client_at k s")
  case (Pair c s1)
  then have "server_inv s1" using assms(1) client_at_facts[OF Pair] by (simp add: server_inv_def)
  then show ?thesis unfolding for_client_def Pair prod.case by (rule on_core_inv) (rule assms(2))
qed

lemma addEspressoNode_inv: "server_inv s \<Longrightarrow> server_inv (addEspressoNode node k s)"
  using set_node_nodes_inv(2)[of "server_vm s" node]
  by (auto simp: server_inv_def addEspressoNode_def up_set_def set_node_up_def int_order.sorted_om_update
      split: if_splits)

lemma clientDisconnected_inv:
  assumes "server_inv s"
  shows "server_inv (clientDisconnected k s)"
  using assms set_node_nodes_inv(1)[of "server_vm s"]
  by (auto simp: server_inv_def clientDisconnected_def up_set_def set_node_down_def
      up_nodes_contains_def int_order.sorted_om_erase split: option.split)

lemma serve_inv: "server_inv s \<Longrightarrow> ends server_inv (serve e k m s)"
proof (cases m)
  case (Client_Connects user)
  then show "server_inv s \<Longrightarrow> ?thesis" by (simp add: addDecafsClient_def server_inv_def)
qed (auto intro!: for_client_inv on_core_inv open_file_evolves close_file_evolves read_file_evolves
    write_file_evolves delete_file_evolves file_seek_evolves file_storage_stat_evolves
    response_handlers_evolve addEspressoNode_inv)

lemma server_reach_inv [decafs_inv]: "server_reach s \<Longrightarrow> server_inv s"
proof (induction rule: server_reach.induct)
  case (started b)
  then show ?case using core_reach_ok[of b] core_reach_nodes[of b] by (simp add: server_inv_def new_server_def oc_sorted_def)
next
  case (connected s k)
  then show ?case by (simp add: server_inv_def clientConnected_def)
next
  case (disconnected s k)
  then show ?case by (simp add: clientDisconnected_inv)
next
  case (message s e k avail s' rest)
  have "ends (\<lambda>(s', rest). server_inv s') (handleMessageFromClient e k avail s)"
    unfolding handleMessageFromClient_def
    by (rule ends_bind[OF ends_any], clarify, rule ends_bind[where P = server_inv])
      (auto simp: message.IH serve_inv split: option.split)
  from endsD[OF this message.hyps(2)] show ?case by simp
qed

section \<open>Properties\<close>

lemma message_handled:
  assumes "valid_message m"
  shows "\<exists>p. message_packet heap m = Some p \<and>
    (\<forall>e rest. handleMessageFromClient e k (pk_buf p @ rest) s =
       outcome_bind (serve e k m s) (\<lambda>s'. Returned (s', rest)))"
proof -
  obtain p where "\<And>heap. message_packet heap m = Some p"
    "\<And>heap rest. receive_message heap (pk_buf p @ rest) = Returned (Some m, rest)"
    using message_received[OF assms] by metis
  then show ?thesis by (intro exI[of _ p]) (simp add: handleMessageFromClient_def)
qed

definition demo_core :: barista where
  "demo_core = the (barista_core_init 6 512 256 4 new_barista)"

lemma demo_core_facts:
  "barista_core_init 6 512 256 4 new_barista = Some demo_core" "up_set (br_io demo_core) = {}"
  "vm_cursors (br_vm demo_core) = []"
  by (simp_all add: demo_core_def barista_core_init_def set_stripe_size_def set_chunk_size_def
      set_num_espressos_def limits_defs new_barista_def empty_io_def new_vmeta_def up_set_def)

definition demo_env :: environment where
  "demo_env = \<lparr>env_heap = \<lambda>_. 0, env_fd = 9,
     env_stat = \<lparr>fs_file_id = 0, fs_size = 0, fs_stripe_size = 0, fs_chunk_size = 0, fs_replica_size = 0,
       fs_last_access_time = (0, 0)\<rparr>,
     env_time = (0, 0), env_fuel = 100, env_address = \<lambda>_. ''10.0.0.1'', env_send = \<lambda>_ _ bs. int (length bs)\<rparr>"

text \<open>Node 1 has connected on connection 40.\<close>

definition demo_server :: barista_server where
  "demo_server = addEspressoNode 1 40 (clientConnected 40 (new_server demo_core))"

lemma demo_server_reach: "server_reach demo_server"
proof -
  let ?s = "clientConnected 40 (new_server demo_core)"
  have s: "server_reach ?s"
    using demo_core_facts by (intro server_reach.intros core_reach.started) simp_all
  have v: "valid_message (Espresso_Connects 1)" by simp
  obtain p :: packet where "\<And>e rest. handleMessageFromClient e 40 (pk_buf p @ rest) ?s =
      outcome_bind (serve e 40 (Espresso_Connects 1) ?s) (\<lambda>s'. Returned (s', rest))"
    using message_handled[OF v, of "\<lambda>_. 0" 40 ?s] by blast
  then have "handleMessageFromClient demo_env 40 (pk_buf p @ []) ?s = Returned (demo_server, [])"
    by (simp only: serve.simps) (simp add: demo_server_def)
  then show ?thesis by (rule server_reach.message[OF s])
qed

lemma demo_server_facts:
  "bs_pending demo_server = []" "bs_espressos demo_server = [(1, 40)]"
  "bs_espressos_rev demo_server = [(40, 1)]" "bs_clients demo_server = []"
  "vm_up_nodes (server_vm demo_server) = [1]" "vm_cursors (server_vm demo_server) = []"
  using demo_core_facts(2,3)
  by (simp_all add: demo_server_def addEspressoNode_def clientConnected_def new_server_def om_update_def
      om_erase_def oc_erase_def om_find_def oc_find_def oc_lower_bound_def oc_insert_def oc_before_def
      set_node_up_def up_nodes_contains_def up_set_def)

text \<open>
  C15: in every state the server can reach, whatever connects, disconnects or is received, a node
  that is marked up has a connection: a chunk request for such a node is handed to \<open>send\<close> and
  never follows a missing connection.
\<close>

theorem up_nodes_connected:
  assumes "server_reach s" "fits_int (request_node r)" "node_up (br_io (bs_core s)) (request_node r)"
    and "case r of Write_Chunk i c node offset data \<Rightarrow> length data < 2 ^ 31 - 100 | _ \<Rightarrow> True"
  shows "\<exists>peer bytes. om_find (<) (request_node r) (bs_espressos s) = Some peer \<and>
    server_net e s log r = Returned (env_send e log peer bytes) \<and>
    receive_chunk_message heap (bytes @ rest) = Returned (Some (network_message (env_fd e) r), rest)"
proof -
  have "word_of_int (request_node r) \<in> up_set (br_io (bs_core s))"
    using assms(3) by (simp add: node_up_def is_node_up_def up_nodes_contains_def up_set_def split: if_splits)
  then have "om_find (<) (sint (word_of_int (request_node r) :: u32)) (bs_espressos s) \<noteq> None"
    using server_reach_inv[OF assms(1)] by (simp add: server_inv_def)
  then obtain peer where peer: "om_find (<) (request_node r) (bs_espressos s) = Some peer"
    using assms(2) by auto
  obtain p where "\<And>heap. chunk_message_packet heap (network_message (env_fd e) r) = Some p"
    "\<And>heap rest. receive_chunk_message heap (pk_buf p @ rest) = Returned (Some (network_message (env_fd e) r), rest)"
    "unat (pk_size p) = length (pk_buf p)"
    by (rule chunk_message_received[OF network_message_valid[OF assms(4)]]) blast
  with peer show ?thesis by (auto simp: server_net_def network_of_def sendToEspresso_def)
qed

lemma up_nodes_connected_witness:
  "\<exists>bytes. server_net demo_env demo_server [] (Read_Chunk 5 (mk_chunk 1 1 1) 1 0 10) =
      Returned (env_send demo_env [] 40 bytes) \<and>
    receive_chunk_message (\<lambda>_. 0) bytes = Returned (Some (Get_Chunk 5 (chunk_fields 0 (mk_chunk 1 1 1) 0 10)), [])"
  using up_nodes_connected[OF demo_server_reach, where r = "Read_Chunk 5 (mk_chunk 1 1 1) 1 0 10" and e = demo_env
      and log = "[]" and heap = "\<lambda>_. 0" and rest = "[]"]
  by (auto simp: demo_server_facts node_up_def is_node_up_def up_nodes_contains_def fits_int_def
      om_find_def oc_find_def oc_lower_bound_def)

text \<open>
  A connection that sends a request for a path before it has introduced itself ends the
  process: the request is served for a default client, whose user id 0 an assertion of the
  metadata lock refuses.
\<close>

theorem unregistered_client_aborts:
  assumes "om_find (<) k (bs_clients s) = None" "valid_message m"
    and "m \<in> {Open_File path flags, Remove_File path, Storage_Stat path}"
  shows "\<exists>p. message_packet heap m = Some p \<and> handleMessageFromClient e k (pk_buf p @ rest) s = Aborted"
proof -
  obtain p where p: "message_packet heap m = Some p"
    "\<And>e rest. handleMessageFromClient e k (pk_buf p @ rest) s = outcome_bind (serve e k m s) (\<lambda>s'. Returned (s', rest))"
    using message_handled[OF assms(2), of heap k s] by blast
  have c: "client_at k s = (null_client, s\<lparr>bs_clients := om_update (<) k null_client (bs_clients s)\<rparr>)"
    using assms(1) by (simp add: client_at_def)
  have "core_decafs_file_sstat path null_client b = Aborted" for b
    unfolding core_decafs_file_sstat_def by (rule with_metadata_lock_aborts) (simp add: null_client_def)
  then have "serve e k m s = Aborted"
    using assms(3) c
    by (auto simp: for_client_def on_core_def open_file_def file_storage_stat_def delete_file_def split: prod.split)
  with p show ?thesis by simp
qed

lemma unregistered_client_aborts_witness:
  "\<exists>p. message_packet (\<lambda>_. 0) (Open_File ''/a'' 2) = Some p \<and>
    handleMessageFromClient demo_env 41 (pk_buf p @ []) (clientConnected 41 demo_server) = Aborted"
  by (rule unregistered_client_aborts[where path = "''/a''" and flags = 2])
    (simp_all add: clientConnected_def demo_server_facts om_find_def oc_find_def oc_lower_bound_def
      valid_string_def c_string_def fits_int_def)

text \<open>
  C40: when a node introduces itself on a new connection before the end of its old connection has
  been noticed, then right after the old connection's end has been noticed the node is marked down and
  has no connection in the table of nodes, although its new connection stands and is still listed
  under the node's id in the reverse table. The node is not used until it introduces itself again on
  yet another connection.
\<close>

theorem reconnected_node_lost:
  assumes "om_find (<) new (bs_pending s) \<noteq> None" "om_find (<) old (bs_pending s) = None"
    and "om_find (<) old (bs_clients s) = None" "om_find (<) old (bs_espressos_rev s) = Some (sint node)"
    and "old \<noteq> new" "server_inv s" "oc_sorted (<) UNIV fst (bs_pending s)" "oc_sorted (<) UNIV fst (bs_espressos_rev s)"
  shows "let s' = clientDisconnected old (addEspressoNode node new s) in
    om_find (<) (sint node) (bs_espressos s') = None \<and> \<not> is_node_up (server_vm s') node \<and>
    om_find (<) new (bs_espressos_rev s') = Some (sint node)"
proof -
  have "oc_sorted (<) UNIV fst (bs_espressos s)" using assms(6) by (simp add: server_inv_def)
  with assms show ?thesis
    by (simp add: Let_def clientDisconnected_def addEspressoNode_def is_node_up_def up_nodes_contains_def
        set_node_down_def set_node_up_def int_order.sorted_om_update conn_order.sorted_om_update)
qed

lemma reconnected_node_lost_witness:
  "om_find (<) 1 (bs_espressos (clientDisconnected 40 (addEspressoNode 1 41 (clientConnected 41 demo_server)))) = None"
proof -
  have inv: "server_inv (clientConnected 41 demo_server)"
    by (intro server_reach_inv server_reach.connected demo_server_reach)
  have tables: "bs_pending (clientConnected 41 demo_server) = [(41, 1)]"
    "bs_espressos_rev (clientConnected 41 demo_server) = [(40, 1)]" "bs_clients (clientConnected 41 demo_server) = []"
    by (simp_all add: clientConnected_def demo_server_facts om_update_def oc_find_def oc_lower_bound_def oc_insert_def
        oc_before_def)
  show ?thesis
    using reconnected_node_lost[of 41 "clientConnected 41 demo_server" 40 1] inv
    by (simp add: tables Let_def oc_sorted_def om_find_def oc_find_def oc_lower_bound_def)
qed

lemma directory_requests_unanswered:
  assumes "om_find (<) k (bs_clients s) = Some c" "valid_message m"
    and "m \<in> {Make_Dir path mode, Open_Dir path}"
  shows "\<exists>p. message_packet heap m = Some p \<and> handleMessageFromClient e k (pk_buf p @ rest) s = Returned (s, rest)"
proof -
  obtain p where p: "message_packet heap m = Some p"
    "\<And>e rest. handleMessageFromClient e k (pk_buf p @ rest) s = outcome_bind (serve e k m s) (\<lambda>s'. Returned (s', rest))"
    using message_handled[OF assms(2), of heap k s] by blast
  have "serve e k m s = Returned s"
    using assms(1,3) by (auto simp: for_client_def client_at_def on_core_def)
  with p show ?thesis by simp
qed

text \<open>A client has connected on connection 41.\<close>

definition demo_client_server :: barista_server where
  "demo_client_server = addDecafsClient demo_env 7 41 (clientConnected 41 demo_server)"

lemma demo_client_server_facts:
  "om_find (<) 41 (bs_clients demo_client_server) = Some \<lparr>ip = \<lparr>addr = ''10.0.0.1''\<rparr>, user_id = 7, ctc = 41\<rparr>"
  "bs_core demo_client_server = bs_core demo_server"
  by (simp_all add: demo_client_server_def addDecafsClient_def demo_env_def clientConnected_def demo_server_facts
      om_find_def om_update_def oc_find_def oc_lower_bound_def oc_insert_def oc_before_def)

end
