(* ===== verification/Extents.thy ===== *)
theory Extents
  imports Ordered_Containers
begin

text \<open>
  The space manager of an Espresso node (\<open>src/lib/espresso_storage\<close>): the extents of the
  data file that hold no chunk, kept as the ordered set \<open>free_extents\<close>, and
  \<open>allocate_chunk\<close>, \<open>deallocate_chunk\<close>, \<open>reallocate_chunk\<close> of \<open>espresso_storage.cc\<close>.
  An iterator is a position of the list. \<open>extent_allocator\<close> is the contract the chunk
  operations use: space as a set of byte offsets, taken by allocation and given back.
\<close>

section \<open>Types\<close>

record data_address =
  da_offset :: int
  da_size :: int

definition data_address_less :: "data_address \<Rightarrow> data_address \<Rightarrow> bool" where
  "data_address_less a b \<longleftrightarrow> da_offset a < da_offset b"

abbreviation mk_address :: "int \<Rightarrow> int \<Rightarrow> data_address" where
  "mk_address off sz \<equiv> \<lparr>da_offset = off, da_size = sz\<rparr>"

interpretation address_order: strict_weak_order data_address_less UNIV
  by unfold_locales (auto simp: data_address_less_def)

abbreviation fe_insert :: "data_address \<Rightarrow> data_address list \<Rightarrow> data_address list" where
  "fe_insert \<equiv> oc_insert data_address_less id"

abbreviation fe_before :: "data_address \<Rightarrow> data_address list \<Rightarrow> data_address list" where
  "fe_before \<equiv> oc_before data_address_less id"

abbreviation fe_lower_bound :: "data_address \<Rightarrow> data_address list \<Rightarrow> data_address list" where
  "fe_lower_bound \<equiv> oc_lower_bound data_address_less id"

section \<open>Operations\<close>

text \<open>First fit; the rest of the chosen extent is inserted before the extent is erased.\<close>

definition allocate_chunk ::
    "data_address list \<Rightarrow> int \<Rightarrow> (data_address \<times> data_address list) option" where
  "allocate_chunk free sz =
     (case List.find (\<lambda>it. sz \<le> da_size it) free of
        None \<Rightarrow> None
      | Some it \<Rightarrow>
          let a = mk_address (da_offset it) sz;
              extra = mk_address (da_offset it + sz) (da_size it - sz);
              free1 = (if sz < da_size it then fe_insert extra free else free)
          in Some (a, remove1 it free1))"

definition merge_before :: "data_address \<Rightarrow> data_address list \<Rightarrow> data_address \<times> data_address list" where
  "merge_before a pre =
     (if pre = [] then (a, pre)
      else let before = last pre in
        if da_offset before + da_size before = da_offset a
        then (\<lparr>da_offset = da_offset before, da_size = da_size a + da_size before\<rparr>, butlast pre)
        else (a, pre))"

text \<open>The extent at \<open>after\<close>, the first of \<open>post\<close>, begins where \<open>a\<close> ends.\<close>

definition meets_after :: "data_address \<Rightarrow> data_address list \<Rightarrow> bool" where
  "meets_after a post \<longleftrightarrow> post \<noteq> [] \<and> da_offset (hd post) = da_offset a + da_size a"

text \<open>
  \<open>before\<close> is a copy of \<open>after\<close>. When \<open>after\<close> is merged it is erased, and then \<open>before\<close> is
  compared with \<open>begin()\<close> and stepped back: an iterator that no longer points anywhere, so what
  follows is \<open>Unspecified\<close>.
\<close>

definition deallocate_chunk :: "data_address list \<Rightarrow> data_address \<Rightarrow> data_address list outcome" where
  "deallocate_chunk free a =
     (if free = [] then Returned (fe_insert a free)
      else
        let pre = fe_before a free; post = fe_lower_bound a free in
        guard_defined (\<not> meets_after a post)
         (case merge_before a pre of (a1, pre1) \<Rightarrow> Returned (fe_insert a1 (pre1 @ post))))"

text \<open>
  The clean-up after a failed reallocation. \<open>it\<close> is the extent the freed chunk was merged
  into; a failed \<open>assert\<close> is \<open>Aborted\<close>, stepping back from \<open>begin()\<close> is \<open>Unspecified\<close>.
\<close>

definition undo_deallocate :: "data_address list \<Rightarrow> data_address \<Rightarrow> data_address list outcome" where
  "undo_deallocate free a =
     (let pre = fe_before a free; post = fe_lower_bound a free in
      if post = [] \<or> da_offset (hd post) > da_offset a then
        guard_defined (pre \<noteq> [])
         (let it = last pre in
          guard_assert (da_size it > da_size a)
           (let free_before = da_offset a - da_offset it;
                free1 = (if da_size it > free_before + da_size a
                         then fe_insert (mk_address (da_offset a + da_size a)
                                (da_size it - da_size a - free_before)) free
                         else free)
            in Returned (fe_insert (mk_address (da_offset it) free_before) (remove1 it free1))))
      else
        let it = hd post in
        if da_size it > da_size a then
          guard_assert (da_offset it = da_offset a)
           (Returned (remove1 it (fe_insert (mk_address (da_offset a + da_size a)
              (da_size it - da_size a)) free)))
        else
          guard_assert (da_offset it = da_offset a)
           (guard_assert (da_size it = da_size a)
             (Returned (remove1 it free))))"

text \<open>Result: 0 with the new address, or -1 with the old one.\<close>

definition reallocate_chunk ::
    "data_address list \<Rightarrow> data_address \<Rightarrow> int \<Rightarrow> (int \<times> data_address \<times> data_address list) outcome" where
  "reallocate_chunk free a sz =
     outcome_bind (deallocate_chunk free a) (\<lambda>free1.
      case allocate_chunk free1 sz of
        Some (a', free2) \<Rightarrow> Returned (0, a', free2)
      | None \<Rightarrow> outcome_bind (undo_deallocate free1 a) (\<lambda>free2. Returned (-1, a, free2)))"

section \<open>Space as a set of bytes\<close>

definition extent :: "data_address \<Rightarrow> int set" where
  "extent a = {da_offset a ..< da_offset a + da_size a}"

definition free_space :: "data_address list \<Rightarrow> int set" where
  "free_space free = (\<Union>e \<in> set free. extent e)"

text \<open>
  Free extents are non-empty, in order, and never adjacent: two neighbours would have been
  merged.
\<close>

definition gap_before :: "data_address \<Rightarrow> data_address \<Rightarrow> bool" where
  "gap_before a b \<longleftrightarrow> da_offset a + da_size a < da_offset b"

definition coalesced :: "data_address list \<Rightarrow> bool" where
  "coalesced free \<longleftrightarrow> sorted_wrt gap_before free \<and> (\<forall>e \<in> set free. 0 < da_size e)"

lemma extent_empty_iff [simp]: "extent a = {} \<longleftrightarrow> da_size a \<le> 0"
  by (simp add: extent_def not_less)

lemma free_space_simps [simp]:
  "free_space [] = {}"
  "free_space (e # es) = extent e \<union> free_space es"
  "free_space (es @ fs) = free_space es \<union> free_space fs"
  by (auto simp: free_space_def)

lemma extent_disjoint_iff:
  "0 < da_size a \<Longrightarrow> 0 < da_size b \<Longrightarrow>
   extent a \<inter> extent b = {} \<longleftrightarrow>
     da_offset a + da_size a \<le> da_offset b \<or> da_offset b + da_size b \<le> da_offset a"
  by (auto simp: extent_def)

lemma coalesced_Nil [simp]: "coalesced []"
  by (simp add: coalesced_def)

lemma coalesced_Cons [simp]:
  "coalesced (e # es) \<longleftrightarrow> 0 < da_size e \<and> (\<forall>x \<in> set es. gap_before e x) \<and> coalesced es"
  by (auto simp: coalesced_def)

lemma coalesced_append [simp]:
  "coalesced (xs @ ys) \<longleftrightarrow>
     coalesced xs \<and> coalesced ys \<and> (\<forall>x \<in> set xs. \<forall>y \<in> set ys. gap_before x y)"
  by (auto simp: coalesced_def sorted_wrt_append)

lemma coalesced_size: "coalesced free \<Longrightarrow> e \<in> set free \<Longrightarrow> 0 < da_size e"
  by (simp add: coalesced_def)

lemma gap_before_less: "gap_before a b \<Longrightarrow> 0 < da_size a \<Longrightarrow> data_address_less a b"
  by (simp add: gap_before_def data_address_less_def)

lemma coalesced_offsets:
  assumes "coalesced (xs @ it # ys)"
  shows "\<forall>x \<in> set xs. da_offset x < da_offset it" "\<forall>y \<in> set ys. da_offset it < da_offset y"
  using assms coalesced_size[of xs] by (force simp: gap_before_def)+

subsection \<open>Splitting at an address\<close>

lemma fe_split:
  assumes "\<forall>x \<in> set xs. da_offset x < da_offset a" "\<forall>y \<in> set ys. da_offset a \<le> da_offset y"
  shows "fe_before a (xs @ ys) = xs" "fe_lower_bound a (xs @ ys) = ys"
proof -
  have "\<forall>x \<in> set xs. data_address_less x a" using assms(1) by (simp add: data_address_less_def)
  moreover have "ys = [] \<or> \<not> data_address_less (hd ys) a"
    using assms(2) by (cases ys) (auto simp: data_address_less_def)
  ultimately show "fe_before a (xs @ ys) = xs" "fe_lower_bound a (xs @ ys) = ys"
    by (cases ys; simp add: oc_before_def oc_lower_bound_def)+
qed

lemma fe_insert_between:
  assumes "\<forall>x \<in> set xs. da_offset x < da_offset a" "\<forall>y \<in> set ys. da_offset a < da_offset y"
  shows "fe_insert a (xs @ ys) = xs @ a # ys"
proof -
  have "fe_before a (xs @ ys) = xs" "fe_lower_bound a (xs @ ys) = ys"
    using fe_split[of xs a ys] assms by (simp_all add: order.strict_implies_order)
  then show ?thesis using assms(2)
    by (cases ys) (auto simp: oc_insert_def oc_find_def data_address_less_def)
qed

lemma split_free:
  fixes a :: data_address
  assumes "coalesced free"
  obtains xs ys where "free = xs @ ys" "\<forall>x \<in> set xs. da_offset x < da_offset a"
    "\<forall>y \<in> set ys. da_offset a \<le> da_offset y"
proof
  show "free = fe_before a free @ fe_lower_bound a free"
    by (rule address_order.split_at)
  show "\<forall>x \<in> set (fe_before a free). da_offset x < da_offset a"
    using address_order.sorted_before_less[of _ id a free] by (auto simp: data_address_less_def)
  have "oc_sorted data_address_less UNIV id free"
    using assms by (induction free) (auto simp: oc_sorted_def gap_before_less)
  then show "\<forall>y \<in> set (fe_lower_bound a free). da_offset a \<le> da_offset y"
    using address_order.sorted_lower_bound_not_less[of id free a] by (auto simp: data_address_less_def not_less)
qed

section \<open>Allocation\<close>

lemma find_split:
  "List.find P xs = Some x \<Longrightarrow> \<exists>as bs. xs = as @ x # bs \<and> P x \<and> (\<forall>y \<in> set as. \<not> P y)"
proof (induction xs)
  case (Cons y ys)
  show ?case
  proof (cases "P y")
    case True
    with Cons.prems show ?thesis by (intro exI[of _ "[]"] exI[of _ ys]) auto
  next
    case False
    with Cons obtain as bs where "ys = as @ x # bs" "P x" "\<forall>z \<in> set as. \<not> P z" by auto
    with False show ?thesis by (intro exI[of _ "y # as"] exI[of _ bs]) auto
  qed
qed simp

definition remainder :: "data_address \<Rightarrow> int \<Rightarrow> data_address list" where
  "remainder it sz =
     (if sz < da_size it then [mk_address (da_offset it + sz) (da_size it - sz)] else [])"

lemma allocate_chunk_Some:
  assumes "coalesced free" "0 < sz" "allocate_chunk free sz = Some (a, free')"
  obtains xs it ys where "free = xs @ it # ys" "sz \<le> da_size it" "\<forall>x \<in> set xs. da_size x < sz"
    "a = mk_address (da_offset it) sz" "free' = xs @ remainder it sz @ ys"
proof -
  from assms(3) obtain it where "List.find (\<lambda>e. sz \<le> da_size e) free = Some it"
    by (auto simp: allocate_chunk_def split: option.splits)
  then obtain xs ys where it: "free = xs @ it # ys" "sz \<le> da_size it" "\<forall>x \<in> set xs. \<not> sz \<le> da_size x"
    and fnd: "List.find (\<lambda>e. sz \<le> da_size e) free = Some it"
    using find_split[of "\<lambda>e. sz \<le> da_size e" free it] by blast
  let ?e = "mk_address (da_offset it + sz) (da_size it - sz)"
  have c: "coalesced (xs @ it # ys)" using assms(1) it(1) by simp
  then have "it \<notin> set xs" by (auto simp: gap_before_def)
  moreover have "fe_insert ?e ((xs @ [it]) @ ys) = (xs @ [it]) @ ?e # ys"
    using c assms(2) it(2) coalesced_offsets[OF c]
    by (intro fe_insert_between) (auto simp: gap_before_def)
  ultimately have eq: "a = mk_address (da_offset it) sz" "free' = xs @ remainder it sz @ ys"
    using assms(3) fnd it(1)
    by (auto simp: allocate_chunk_def remainder_def Let_def remove1_append)
  have "\<forall>x \<in> set xs. da_size x < sz" using it(3) by (simp add: not_le)
  then show thesis by (rule that[OF it(1,2) _ eq])
qed

lemma allocate_chunk_None:
  "allocate_chunk free sz = None \<longleftrightarrow> (\<forall>e \<in> set free. da_size e < sz)"
  by (auto simp: allocate_chunk_def Let_def find_None_iff not_le split: option.splits
      dest!: find_split)

lemma remainder_facts:
  assumes "0 < sz" "sz \<le> da_size it" "r \<in> set (remainder it sz)"
  shows "0 < da_size r" "da_offset it < da_offset r"
    "da_offset r + da_size r = da_offset it + da_size it" "da_offset it + sz = da_offset r"
  using assms by (auto simp: remainder_def split: if_splits)

lemma coalesced_remainder: "coalesced (remainder it sz)"
  by (simp add: remainder_def)

lemma extent_remainder:
  "0 < sz \<Longrightarrow> sz \<le> da_size it \<Longrightarrow>
   free_space (remainder it sz) = extent it - extent (mk_address (da_offset it) sz)"
  by (auto simp: remainder_def extent_def)

lemma coalesced_disjoint:
  "coalesced (xs @ it # ys) \<Longrightarrow> extent it \<inter> free_space xs = {} \<and> extent it \<inter> free_space ys = {}"
  by (fastforce simp: free_space_def extent_def gap_before_def)

lemma allocate_chunk_coalesced:
  assumes "coalesced free" "0 < sz" "allocate_chunk free sz = Some (a, free')"
  shows "coalesced free'"
proof -
  from allocate_chunk_Some[OF assms] obtain xs it ys where
    eq: "free = xs @ it # ys" "sz \<le> da_size it" "free' = xs @ remainder it sz @ ys" by metis
  have "gap_before x r" if "x \<in> set xs" "r \<in> set (remainder it sz)" for x r
    using that assms(1) eq(1) remainder_facts[OF assms(2) eq(2) that(2)] by (auto simp: gap_before_def)
  moreover have "gap_before r y" if "y \<in> set ys" "r \<in> set (remainder it sz)" for y r
    using that assms(1) eq(1) remainder_facts[OF assms(2) eq(2) that(2)] by (auto simp: gap_before_def)
  ultimately show ?thesis using assms(1) eq by (auto simp: coalesced_remainder)
qed

lemma allocate_chunk_space:
  assumes "coalesced free" "0 < sz" "allocate_chunk free sz = Some (a, free')"
  shows "da_size a = sz" "extent a \<subseteq> free_space free" "free_space free' = free_space free - extent a"
proof -
  from allocate_chunk_Some[OF assms] obtain xs it ys where
    eq: "free = xs @ it # ys" "sz \<le> da_size it" "a = mk_address (da_offset it) sz"
      "free' = xs @ remainder it sz @ ys" by metis
  show "da_size a = sz" using eq by simp
  have sub: "extent a \<subseteq> extent it" using eq by (auto simp: extent_def)
  then show "extent a \<subseteq> free_space free" using eq by auto
  have "extent it \<inter> free_space xs = {}" "extent it \<inter> free_space ys = {}"
    using assms(1) eq(1) coalesced_disjoint by blast+
  then show "free_space free' = free_space free - extent a"
    using eq sub extent_remainder[OF assms(2) eq(2)] by auto
qed

section \<open>Deallocation\<close>

text \<open>Where a disjoint extent \<open>a\<close> lies among the free extents.\<close>

lemma split_disjoint:
  assumes "coalesced free" "0 < da_size a" "extent a \<inter> free_space free = {}"
  obtains xs ys where "free = xs @ ys"
    "\<forall>x \<in> set xs. da_offset x + da_size x \<le> da_offset a"
    "\<forall>y \<in> set ys. da_offset a + da_size a \<le> da_offset y"
    "fe_before a free = xs" "fe_lower_bound a free = ys"
proof -
  obtain xs ys where f: "free = xs @ ys" "\<forall>x \<in> set xs. da_offset x < da_offset a"
    "\<forall>y \<in> set ys. da_offset a \<le> da_offset y"
    using split_free[OF assms(1)] .
  have d: "extent a \<inter> extent e = {}" "0 < da_size e" if "e \<in> set free" for e
    using that assms by (auto simp: free_space_def coalesced_size)
  have "da_offset x + da_size x \<le> da_offset a" if "x \<in> set xs" for x
    using that d[of x] f extent_disjoint_iff[OF assms(2), of x] assms(2) by auto
  moreover have "da_offset a + da_size a \<le> da_offset y" if "y \<in> set ys" for y
    using that d[of y] f extent_disjoint_iff[OF assms(2), of y] by auto
  ultimately show thesis using that[OF f(1)] fe_split[OF f(2,3)] f(1) by simp
qed

lemma merge_before_cases:
  obtains "merge_before a xs = (a, xs)" "xs = [] \<or> da_offset (last xs) + da_size (last xs) \<noteq> da_offset a"
  | p xs' where "xs = xs' @ [p]" "da_offset p + da_size p = da_offset a"
      "merge_before a xs = (mk_address (da_offset p) (da_size a + da_size p), xs')"
  by (cases xs rule: rev_cases) (auto simp: merge_before_def Let_def)

lemma gaps_before:
  assumes "coalesced xs" "\<forall>x \<in> set xs. da_offset x + da_size x \<le> da_offset a"
    and "xs = [] \<or> da_offset (last xs) + da_size (last xs) \<noteq> da_offset a"
  shows "\<forall>x \<in> set xs. gap_before x a"
proof (cases xs rule: rev_cases)
  case (snoc xs' l)
  with assms(2,3) have l: "gap_before l a" by (auto simp: gap_before_def)
  have "gap_before x l" if "x \<in> set xs'" for x using that snoc assms(1) by simp
  with l snoc assms(1) show ?thesis by (force simp: gap_before_def)
qed simp

lemma gaps_after:
  assumes "coalesced ys" "\<forall>y \<in> set ys. da_offset a + da_size a \<le> da_offset y"
    and "ys = [] \<or> da_offset (hd ys) \<noteq> da_offset a + da_size a"
  shows "\<forall>y \<in> set ys. gap_before a y"
proof (cases ys)
  case (Cons l ys')
  with assms(2,3) have l: "gap_before a l" by (auto simp: gap_before_def)
  have "gap_before l y" if "y \<in> set ys'" for y using that Cons assms(1) by simp
  with l Cons assms(1) show ?thesis by (force simp: gap_before_def)
qed simp

text \<open>\<open>a\<close> ends where a free extent begins.\<close>

definition next_to_free :: "data_address list \<Rightarrow> data_address \<Rightarrow> bool" where
  "next_to_free free a \<longleftrightarrow> (\<exists>q \<in> set free. da_offset q = da_offset a + da_size a)"

lemma deallocate_undefined:
  assumes "coalesced free" "0 < da_size a" "extent a \<inter> free_space free = {}"
  shows "next_to_free free a \<Longrightarrow> deallocate_chunk free a = Unspecified"
    and "\<not> next_to_free free a \<Longrightarrow> \<exists>free'. deallocate_chunk free a = Returned free'"
proof -
  obtain xs ys where f: "free = xs @ ys"
    and le: "\<forall>x \<in> set xs. da_offset x + da_size x \<le> da_offset a"
    and ge: "\<forall>y \<in> set ys. da_offset a + da_size a \<le> da_offset y"
    and sp: "fe_before a free = xs" "fe_lower_bound a free = ys"
    using split_disjoint[OF assms] .
  have c: "coalesced xs" "coalesced ys" using assms(1) f by simp_all
  have "meets_after a ys" if q: "q \<in> set free" "da_offset q = da_offset a + da_size a" for q
  proof -
    have "q \<notin> set xs" using le q assms(1,2) coalesced_size[OF assms(1)] f by force
    then have "q \<in> set ys" using q f by simp
    then obtain h t where ys: "ys = h # t" by (cases ys) auto
    have "h = q"
    proof (rule ccontr)
      assume "h \<noteq> q"
      then have "gap_before h q" using \<open>q \<in> set ys\<close> c(2) ys by auto
      then show False using ge q c(2) ys by (auto simp: gap_before_def)
    qed
    with ys q show ?thesis by (simp add: meets_after_def)
  qed
  moreover have "next_to_free free a" if "meets_after a ys"
    using that f by (cases ys) (auto simp: meets_after_def next_to_free_def)
  ultimately have m: "meets_after a ys \<longleftrightarrow> next_to_free free a" by (auto simp: next_to_free_def)
  show "deallocate_chunk free a = Unspecified" if "next_to_free free a"
    using that m sp by (auto simp: deallocate_chunk_def Let_def next_to_free_def)
  show "\<exists>free'. deallocate_chunk free a = Returned free'" if "\<not> next_to_free free a"
    using that m sp by (auto simp: deallocate_chunk_def Let_def split: prod.split)
qed

lemma deallocate_cases:
  assumes "coalesced free" "0 < da_size a" "extent a \<inter> free_space free = {}" "deallocate_chunk free a = Returned free'"
  obtains
    (apart) xs ys where "free = xs @ ys" "free' = xs @ a # ys"
      "\<forall>x \<in> set xs. gap_before x a" "\<forall>y \<in> set ys. gap_before a y"
  | (before) xs p ys where "free = xs @ p # ys" "da_offset p + da_size p = da_offset a"
      "free' = xs @ mk_address (da_offset p) (da_size a + da_size p) # ys"
      "\<forall>y \<in> set ys. gap_before a y"
proof -
  obtain xs ys where f: "free = xs @ ys"
    and xs: "\<forall>x \<in> set xs. da_offset x + da_size x \<le> da_offset a"
    and ys: "\<forall>y \<in> set ys. da_offset a + da_size a \<le> da_offset y"
    and sp: "fe_before a free = xs" "fe_lower_bound a free = ys"
    using split_disjoint[OF assms(1-3)] .
  have c: "coalesced xs" "coalesced ys" using assms(1) f by simp_all
  have n: "\<not> meets_after a ys"
    using assms(4) sp f by (cases ys) (auto simp: deallocate_chunk_def Let_def meets_after_def split: if_splits)
  then have gy: "\<forall>y \<in> set ys. gap_before a y" using gaps_after[OF c(2) ys] by (auto simp: meets_after_def)
  obtain a1 pre where m: "merge_before a xs = (a1, pre)" by (cases "merge_before a xs")
  have d: "free' = fe_insert a1 (pre @ ys)"
    using assms(4) sp f m n by (auto simp: deallocate_chunk_def Let_def merge_before_def split: if_splits)
  show thesis
  proof (rule merge_before_cases[of a xs])
    assume B: "merge_before a xs = (a, xs)" "xs = [] \<or> da_offset (last xs) + da_size (last xs) \<noteq> da_offset a"
    have sz: "0 < da_size x" if "x \<in> set xs" for x using that c(1) coalesced_size by blast
    have "da_offset x < da_offset a" if "x \<in> set xs" for x using that sz[OF that] xs by fastforce
    moreover have "da_offset a < da_offset y" if "y \<in> set ys" for y using that ys assms(2) by fastforce
    ultimately have "fe_insert a (xs @ ys) = xs @ a # ys" by (intro fe_insert_between) blast+
    with d m B f gaps_before[OF c(1) xs] gy apart show thesis by auto
  next
    fix p xs' assume B: "xs = xs' @ [p]" "da_offset p + da_size p = da_offset a"
      "merge_before a xs = (mk_address (da_offset p) (da_size a + da_size p), xs')"
    have "fe_insert (mk_address (da_offset p) (da_size a + da_size p)) (xs' @ ys) =
        xs' @ mk_address (da_offset p) (da_size a + da_size p) # ys"
      using coalesced_offsets[of xs' p ys] assms(1) f B by (intro fe_insert_between) auto
    with d m B f gy before[of xs' p ys] show thesis by auto
  qed
qed

lemma mk_address_collapse [simp]: "mk_address (da_offset q) (da_size q) = q" for q :: data_address
  by simp

lemma deallocate_chunk_coalesced:
  assumes "coalesced free" "0 < da_size a" "extent a \<inter> free_space free = {}" "deallocate_chunk free a = Returned free'"
  shows "coalesced free'"
  using assms
proof (cases rule: deallocate_cases)
  case (apart xs ys)
  then show ?thesis using assms(1,2) by simp
next
  case (before xs p ys)
  then show ?thesis using assms(1,2) by (force simp: gap_before_def)
qed

lemma deallocate_chunk_space:
  assumes "coalesced free" "0 < da_size a" "extent a \<inter> free_space free = {}" "deallocate_chunk free a = Returned free'"
  shows "free_space free' = free_space free \<union> extent a"
  using assms
proof (cases rule: deallocate_cases)
  case (apart xs ys)
  then show ?thesis by auto
next
  case (before xs p ys)
  have "0 < da_size p" using assms(1) before(1) by simp
  then have "extent (mk_address (da_offset p) (da_size a + da_size p)) = extent p \<union> extent a"
    using before(2) assms(2) by (auto simp: extent_def)
  with before show ?thesis by auto
qed

section \<open>Undoing a deallocation\<close>

lemma remove1_mid: "coalesced (xs @ it # ys) \<Longrightarrow> remove1 it (xs @ it # ys) = xs @ ys"
  using coalesced_offsets(1)[of xs it ys] by (auto simp: remove1_append)

lemma fe_split_mid:
  assumes "coalesced (xs @ it # ys)"
  shows "da_offset it < da_offset a \<Longrightarrow> \<forall>y \<in> set ys. da_offset a \<le> da_offset y \<Longrightarrow>
      fe_before a (xs @ it # ys) = xs @ [it] \<and> fe_lower_bound a (xs @ it # ys) = ys"
    and "da_offset a = da_offset it \<Longrightarrow>
      fe_before a (xs @ it # ys) = xs \<and> fe_lower_bound a (xs @ it # ys) = it # ys"
proof -
  note o = coalesced_offsets[OF assms]
  assume "da_offset it < da_offset a" "\<forall>y \<in> set ys. da_offset a \<le> da_offset y"
  with o fe_split[of "xs @ [it]" a ys]
  show "fe_before a (xs @ it # ys) = xs @ [it] \<and> fe_lower_bound a (xs @ it # ys) = ys" by force
next
  note o = coalesced_offsets[OF assms]
  assume "da_offset a = da_offset it"
  with o fe_split[of xs a "it # ys"]
  show "fe_before a (xs @ it # ys) = xs \<and> fe_lower_bound a (xs @ it # ys) = it # ys"
    by (simp add: order.strict_implies_order)
qed

text \<open>The extent that \<open>deallocate_chunk\<close> joined to an earlier one is found before the chunk.\<close>

lemma split_joined:
  assumes "coalesced (xs @ mk_address (da_offset p) n # ys)" "da_offset p + da_size p = da_offset a" "0 < da_size p"
    and "\<forall>y \<in> set ys. da_offset a < da_offset y"
  shows "fe_before a (xs @ mk_address (da_offset p) n # ys) = xs @ [mk_address (da_offset p) n]"
    "fe_lower_bound a (xs @ mk_address (da_offset p) n # ys) = ys"
  using fe_split_mid(1)[OF assms(1), of a] assms(2-4) by (auto simp: order.strict_implies_order)

lemma undo_before:
  assumes c: "coalesced (xs @ p # ys)" and c': "coalesced (xs @ mk_address (da_offset p) (da_size a + da_size p) # ys)"
    and p: "da_offset p + da_size p = da_offset a" and a: "0 < da_size a" and ys: "\<forall>y \<in> set ys. gap_before a y"
  shows "undo_deallocate (xs @ mk_address (da_offset p) (da_size a + da_size p) # ys) a = Returned (xs @ p # ys)"
proof -
  have ys': "\<forall>y \<in> set ys. da_offset a < da_offset y" using ys a by (auto simp: gap_before_def)
  have e: "da_offset a - da_offset p = da_size p" using p by simp
  have "fe_insert p (xs @ ys) = xs @ p # ys"
    using coalesced_offsets[OF c] by (intro fe_insert_between) auto
  moreover have "0 < da_size p" using c by simp
  ultimately show ?thesis using p split_joined[OF c' p _ ys'] remove1_mid[OF c'] ys ys'
    by (cases ys) (auto simp: undo_deallocate_def Let_def e)
qed

lemma undo_deallocate_restores:
  assumes "coalesced free" "0 < da_size a" "extent a \<inter> free_space free = {}" "deallocate_chunk free a = Returned free'"
  shows "undo_deallocate free' a = Returned free"
proof -
  note c = deallocate_chunk_coalesced[OF assms]
  from assms show ?thesis
  proof (cases rule: deallocate_cases)
    case (apart xs ys)
    then have c': "coalesced (xs @ a # ys)" using c by simp
    from apart fe_split_mid(2)[OF c' refl] remove1_mid[OF c']
    show ?thesis by (simp add: undo_deallocate_def Let_def)
  next
    case (before xs p ys)
    with c assms show ?thesis using undo_before[of xs p ys a] by simp
  qed
qed

lemma reallocate_chunk_eq:
  assumes "coalesced free" "0 < da_size a" "extent a \<inter> free_space free = {}"
  shows "reallocate_chunk free a sz =
    (if next_to_free free a then Unspecified
     else outcome_bind (deallocate_chunk free a) (\<lambda>f. case allocate_chunk f sz of
       Some (a', free') \<Rightarrow> Returned (0, a', free')
     | None \<Rightarrow> Returned (-1, a, free)))"
  using deallocate_undefined[OF assms] undo_deallocate_restores[OF assms]
  by (auto simp: reallocate_chunk_def split: option.splits)

section \<open>Free extents are canonical\<close>

lemma coalesced_first:
  assumes "coalesced (e # es)" "x \<in> free_space (e # es)"
  shows "da_offset e \<le> x"
  using assms by (fastforce simp: free_space_def extent_def gap_before_def)

lemma coalesced_bounds:
  assumes "coalesced (e # es)"
  shows "da_offset e \<in> free_space (e # es)" "da_offset e + da_size e \<notin> free_space (e # es)"
    and "free_space es = free_space (e # es) - extent e"
proof -
  show "da_offset e \<in> free_space (e # es)" using assms by (simp add: extent_def)
  show "da_offset e + da_size e \<notin> free_space (e # es)"
    using assms by (fastforce simp: free_space_def extent_def gap_before_def)
  show "free_space es = free_space (e # es) - extent e"
    using coalesced_disjoint[of "[]" e es] assms by auto
qed

text \<open>Two coalesced lists that cover the same bytes are the same list.\<close>

lemma coalesced_unique:
  "coalesced f \<Longrightarrow> coalesced g \<Longrightarrow> free_space f = free_space g \<Longrightarrow> f = g"
proof (induction f arbitrary: g)
  case Nil
  then show ?case using coalesced_bounds(1) by (cases g) auto
next
  case (Cons e es)
  then obtain h hs where g: "g = h # hs" using coalesced_bounds(1)[of e es] by (cases g) auto
  note ch = Cons.prems(2)[unfolded g] and eq = Cons.prems(3)[unfolded g]
  note ce = Cons.prems(1)
  have "da_offset e \<in> free_space (h # hs)" "da_offset h \<in> free_space (e # es)"
    using coalesced_bounds(1)[OF ce] coalesced_bounds(1)[OF ch] eq by (simp_all only:)
  then have off: "da_offset e = da_offset h"
    using coalesced_first[OF ce] coalesced_first[OF ch] by (intro antisym) simp_all
  have "da_offset e + da_size e \<notin> extent h" "da_offset h + da_size h \<notin> extent e"
    using coalesced_bounds(2)[OF ce] coalesced_bounds(2)[OF ch] eq by auto
  then have "da_size e = da_size h" using off ce ch by (auto simp: extent_def)
  with off have "e = h" by simp
  moreover have "es = hs"
  proof (rule Cons.IH)
    show "coalesced es" "coalesced hs" using ce ch by simp_all
    show "free_space es = free_space hs"
      by (simp only: coalesced_bounds(3)[OF ce] coalesced_bounds(3)[OF ch] eq) (simp only: \<open>e = h\<close>)
  qed
  ultimately show ?case using g by simp
qed

section \<open>The allocator's contract\<close>

text \<open>
  \<open>partition V F m\<close>: the bytes \<open>V\<close> of the volume are the free bytes \<open>F\<close> and the extents
  of the map \<open>m\<close>, none of which overlap.
\<close>

definition partition :: "int set \<Rightarrow> int set \<Rightarrow> ('k \<rightharpoonup> data_address) \<Rightarrow> bool" where
  "partition V F m \<longleftrightarrow>
     (\<forall>k a. m k = Some a \<longrightarrow> 0 < da_size a \<and> extent a \<inter> F = {}) \<and>
     (\<forall>k l a b. m k = Some a \<longrightarrow> m l = Some b \<longrightarrow> k \<noteq> l \<longrightarrow> extent a \<inter> extent b = {}) \<and>
     F \<union> (\<Union>a \<in> ran m. extent a) = V"

lemma partitionD:
  assumes "partition V F m"
  shows "m k = Some a \<Longrightarrow> 0 < da_size a"
    and "m k = Some a \<Longrightarrow> extent a \<inter> F = {}"
    and "m k = Some a \<Longrightarrow> extent a \<subseteq> V"
    and "m k = Some a \<Longrightarrow> m l = Some b \<Longrightarrow> k \<noteq> l \<Longrightarrow> extent a \<inter> extent b = {}"
    and "F \<subseteq> V"
  using assms by (auto simp: partition_def ran_def)

lemma partition_add:
  assumes "partition V F m" "m k = None" "0 < da_size a" "extent a \<subseteq> F"
  shows "partition V (F - extent a) (m(k \<mapsto> a))"
proof -
  have "extent b \<inter> extent a = {}" if "m l = Some b" for l b
    using partitionD(2)[OF assms(1) that] assms(4) by blast
  moreover have "ran (m(k \<mapsto> a)) = insert a (ran m)" using assms(2) by simp
  ultimately show ?thesis using assms by (fastforce simp: partition_def split: if_splits)
qed

lemma partition_remove:
  assumes "partition V F m" "m k = Some a"
  shows "partition V (F \<union> extent a) (m(k := None))"
proof -
  have "ran m = insert a (ran (m(k := None)))"
    using assms(2) by (auto simp: ran_def) (metis option.inject)
  then have u: "F \<union> extent a \<union> (\<Union>b \<in> ran (m(k := None)). extent b) = V"
    using assms(1) unfolding partition_def by auto
  have d: "extent b \<inter> (F \<union> extent a) = {}" if "m l = Some b" "l \<noteq> k" for l b
    using partitionD(2)[OF assms(1) that(1)] partitionD(4)[OF assms(1) that(1) assms(2) that(2)] by blast
  show ?thesis using assms(1) d u unfolding partition_def by simp
qed

locale extent_allocator =
  fixes alloc :: "'f \<Rightarrow> int \<Rightarrow> (data_address \<times> 'f) option"
    and dealloc :: "'f \<Rightarrow> data_address \<Rightarrow> 'f outcome"
    and ok :: "'f \<Rightarrow> bool"
    and space :: "'f \<Rightarrow> int set"
  assumes alloc_ok: "ok f \<Longrightarrow> 0 < n \<Longrightarrow> alloc f n = Some (a, f') \<Longrightarrow> ok f'"
    and alloc_size: "ok f \<Longrightarrow> 0 < n \<Longrightarrow> alloc f n = Some (a, f') \<Longrightarrow> da_size a = n"
    and alloc_from_free: "ok f \<Longrightarrow> 0 < n \<Longrightarrow> alloc f n = Some (a, f') \<Longrightarrow> extent a \<subseteq> space f"
    and alloc_space: "ok f \<Longrightarrow> 0 < n \<Longrightarrow> alloc f n = Some (a, f') \<Longrightarrow> space f' = space f - extent a"
    and dealloc_ok: "ok f \<Longrightarrow> 0 < da_size a \<Longrightarrow> extent a \<inter> space f = {} \<Longrightarrow> dealloc f a = Returned f' \<Longrightarrow> ok f'"
    and dealloc_space: "ok f \<Longrightarrow> 0 < da_size a \<Longrightarrow> extent a \<inter> space f = {} \<Longrightarrow> dealloc f a = Returned f' \<Longrightarrow>
      space f' = space f \<union> extent a"
begin

lemma alloc_partition:
  assumes "ok f" "partition V (space f) m" "m k = None" "0 < n" "alloc f n = Some (a, f')"
  shows "ok f'" and "da_size a = n" and "partition V (space f') (m(k \<mapsto> a))"
proof -
  show "ok f'" by (rule alloc_ok[OF assms(1,4,5)])
  show sz: "da_size a = n" by (rule alloc_size[OF assms(1,4,5)])
  show "partition V (space f') (m(k \<mapsto> a))"
    using partition_add[OF assms(2,3) _ alloc_from_free[OF assms(1,4,5)]]
    by (simp add: sz assms(4) alloc_space[OF assms(1,4,5)])
qed

lemma dealloc_partition:
  assumes "ok f" "partition V (space f) m" "m k = Some a" "dealloc f a = Returned f'"
  shows "ok f'" and "partition V (space f') (m(k := None))"
proof -
  note a = partitionD(1)[OF assms(2,3)] partitionD(2)[OF assms(2,3)] assms(4)
  show "ok f'" using assms(1) a by (rule dealloc_ok)
  show "partition V (space f') (m(k := None))"
    using partition_remove[OF assms(2,3)] by (simp only: dealloc_space[OF assms(1) a])
qed

lemma alloc_dealloc_space:
  assumes "ok f" "0 < n" "alloc f n = Some (a, f')" "dealloc f' a = Returned f''"
  shows "space f'' = space f"
proof -
  note s = alloc_from_free[OF assms(1-3)] alloc_space[OF assms(1-3)]
  have "extent a \<inter> space f' = {}" unfolding s(2) by (rule Diff_disjoint)
  moreover have "0 < da_size a" using alloc_size[OF assms(1-3)] assms(2) by simp
  ultimately have "space f'' = (space f - extent a) \<union> extent a"
    using dealloc_space[OF alloc_ok[OF assms(1-3)] _ _ assms(4)] by (simp only: s(2))
  then show ?thesis using s(1) by blast
qed

end

interpretation espresso_space: extent_allocator allocate_chunk deallocate_chunk coalesced free_space
  by unfold_locales
    (fact allocate_chunk_coalesced allocate_chunk_space deallocate_chunk_coalesced
      deallocate_chunk_space)+

end
