(* ===== verification/Espresso_Storage.thy ===== *)
theory Espresso_Storage
  imports Extents
begin

text \<open>
  The chunk store of an Espresso node: \<open>espresso_types.h\<close>, \<open>espresso_state.h\<close>,
  \<open>espresso_data.cc\<close> and the chunk operations of \<open>espresso_storage.cc\<close>.

  The data file is its bytes (0 where never written) and its length. A \<open>void *buf\<close> is the
  memory from the pointer on, \<open>nat \<Rightarrow> u8\<close>, so reading past an allocation reads what lies
  behind it. \<open>read(2)\<close> and \<open>write(2)\<close> on the open data file do not fail; \<open>lseek\<close> fails
  on a negative position.
\<close>

section \<open>State\<close>

record data_descriptor =
  dd_file_id :: int
  dd_stripe_id :: int
  dd_chunk_num :: int

definition data_descriptor_less :: "data_descriptor \<Rightarrow> data_descriptor \<Rightarrow> bool" where
  "data_descriptor_less d1 d2 \<longleftrightarrow>
     (if dd_file_id d1 \<noteq> dd_file_id d2 then dd_file_id d1 < dd_file_id d2
      else if dd_stripe_id d1 \<noteq> dd_stripe_id d2 then dd_stripe_id d1 < dd_stripe_id d2
      else dd_chunk_num d1 < dd_chunk_num d2)"

interpretation descriptor_order: strict_total_order data_descriptor_less UNIV
proof
  show "data_descriptor_less x y \<or> data_descriptor_less y x" if "x \<noteq> y" for x y
  proof -
    have "dd_file_id x \<noteq> dd_file_id y \<or> dd_stripe_id x \<noteq> dd_stripe_id y \<or> dd_chunk_num x \<noteq> dd_chunk_num y"
      using that by (cases x; cases y) auto
    then show ?thesis by (auto simp: data_descriptor_less_def)
  qed
qed (auto simp: data_descriptor_less_def split: if_splits)

record espresso =
  es_bytes :: "int \<Rightarrow> u8"
  es_len :: int
  es_metadata :: "(data_descriptor \<times> data_address) list"
  es_free :: "data_address list"

definition es_lookup :: "espresso \<Rightarrow> data_descriptor \<Rightarrow> data_address option" where
  "es_lookup st d = om_find data_descriptor_less d (es_metadata st)"

text \<open>\<open>espresso_global_data_init\<close>, after the three files have been opened.\<close>

definition espresso_global_data_init :: "espresso \<Rightarrow> int \<Rightarrow> espresso" where
  "espresso_global_data_init st max_size =
     (if es_free st = []
      then st\<lparr>es_free := oc_insert data_address_less id (mk_address 0 max_size) (es_free st)\<rparr>
      else st)"

definition empty_espresso :: espresso where
  "empty_espresso = \<lparr>es_bytes = (\<lambda>_. 0), es_len = 0, es_metadata = [], es_free = []\<rparr>"

section \<open>espresso_data.cc\<close>

text \<open>A negative \<open>count\<close> becomes a \<open>size_t\<close> above \<open>SSIZE_MAX\<close>, for which \<open>read\<close> is unspecified.\<close>

definition sys_read :: "espresso \<Rightarrow> int \<Rightarrow> int \<Rightarrow> (int \<times> u8 list) outcome" where
  "sys_read st pos count =
     guard_defined (0 \<le> count)
      (let n = max 0 (min count (es_len st - pos))
       in Returned (n, map (\<lambda>i. es_bytes st (pos + int i)) [0..<nat n]))"

definition sys_write :: "espresso \<Rightarrow> int \<Rightarrow> (nat \<Rightarrow> u8) \<Rightarrow> int \<Rightarrow> espresso" where
  "sys_write st pos buf count =
     (if count = 0 then st
      else st\<lparr>es_bytes := (\<lambda>p. if pos \<le> p \<and> p < pos + count then buf (nat (p - pos))
                              else es_bytes st p),
              es_len := max (es_len st) (pos + count)\<rparr>)"

definition read_data :: "espresso \<Rightarrow> data_descriptor \<Rightarrow> int \<Rightarrow> int \<Rightarrow> (int \<times> u8 list) outcome" where
  "read_data st d offset count =
     (if count < 0 then Returned (-1, [])
      else case es_lookup st d of
        None \<Rightarrow> Returned (-1, [])
      | Some a \<Rightarrow>
          let count' = (if count > da_size a - offset then da_size a - offset else count) in
          if da_offset a + offset < 0 then Returned (-1, [])
          else sys_read st (da_offset a + offset) count')"

definition write_data ::
    "espresso \<Rightarrow> data_descriptor \<Rightarrow> int \<Rightarrow> (nat \<Rightarrow> u8) \<Rightarrow> int \<Rightarrow> int \<times> espresso" where
  "write_data st d offset buf count =
     (if count < 0 then (-1, st)
      else case es_lookup st d of
        None \<Rightarrow> (-1, st)
      | Some a \<Rightarrow>
          if count > da_size a - offset then (-1, st)
          else if da_offset a + offset < 0 then (-1, st)
          else (count, sys_write st (da_offset a + offset) buf count))"

section \<open>espresso_storage.cc\<close>

definition read_chunk :: "espresso \<Rightarrow> data_descriptor \<Rightarrow> int \<Rightarrow> int \<Rightarrow> (int \<times> u8 list) outcome" where
  "read_chunk st d offset count = read_data st d offset count"

text \<open>
  \<open>old_chunk\<close> is an array of the chunk's size; \<open>heap\<close> is what fresh memory holds where \<open>read\<close> stops
  short. The array is written back with \<open>a->second.size\<close> bytes after \<open>reallocate_chunk\<close> has set that
  size to the new one: \<open>write\<close> with a count beyond the end of its buffer is \<open>Unspecified\<close>.
\<close>

definition write_chunk ::
    "(nat \<Rightarrow> u8) \<Rightarrow> espresso \<Rightarrow> data_descriptor \<Rightarrow> int \<Rightarrow> (nat \<Rightarrow> u8) \<Rightarrow> int \<Rightarrow> (int \<times> espresso) outcome" where
  "write_chunk heap st d offset buf count =
     (if count < 0 then Returned (-1, st)
      else case es_lookup st d of
        None \<Rightarrow>
          (case allocate_chunk (es_free st) (offset + count) of
             None \<Rightarrow> Returned (-1, st)
           | Some (new_a, free') \<Rightarrow>
               let st1 = st\<lparr>es_metadata := oc_insert data_descriptor_less fst (d, new_a) (es_metadata st),
                            es_free := free'\<rparr>
               in Returned (write_data st1 d offset buf count))
      | Some a \<Rightarrow>
          if offset + count > da_size a then
            outcome_bind (read_data st d 0 (da_size a)) (\<lambda>(n, old).
              if n = -1 then Returned (-1, st)
              else outcome_bind (reallocate_chunk (es_free st) a (offset + count)) (\<lambda>(r, a', free').
                let st1 = st\<lparr>es_metadata := om_update data_descriptor_less d a' (es_metadata st),
                             es_free := free'\<rparr>;
                    old_chunk = (\<lambda>i. if i < length old then old ! i else heap i)
                in if r = -1 then Returned (-1, st1)
                   else guard_defined (da_size a' \<le> da_size a)
                    (case write_data st1 d 0 old_chunk (da_size a') of (w, st2) \<Rightarrow>
                       if w = -1 then Returned (-1, st2)
                       else Returned (write_data st2 d offset buf count))))
          else Returned (write_data st d offset buf count))"

definition delete_chunk :: "espresso \<Rightarrow> data_descriptor \<Rightarrow> (int \<times> espresso) outcome" where
  "delete_chunk st d =
     (case es_lookup st d of
        None \<Rightarrow> Returned (-1, st)
      | Some a \<Rightarrow>
          outcome_bind (deallocate_chunk (es_free st) a) (\<lambda>free'.
            Returned (0, st\<lparr>es_metadata := om_erase data_descriptor_less d (es_metadata st), es_free := free'\<rparr>)))"

section \<open>The chunk store as a map from chunks to bytes\<close>

definition chunk_size_of :: "espresso \<Rightarrow> data_descriptor \<Rightarrow> int" where
  "chunk_size_of st d = (case es_lookup st d of None \<Rightarrow> 0 | Some a \<Rightarrow> da_size a)"

definition chunk_view :: "espresso \<Rightarrow> data_descriptor \<Rightarrow> int \<Rightarrow> u8 option" where
  "chunk_view st d i =
     (case es_lookup st d of
        None \<Rightarrow> None
      | Some a \<Rightarrow> if 0 \<le> i \<and> i < da_size a then Some (es_bytes st (da_offset a + i)) else None)"

definition space_inv :: "int \<Rightarrow> espresso \<Rightarrow> bool" where
  "space_inv vol st \<longleftrightarrow>
     coalesced (es_free st) \<and>
     oc_sorted data_descriptor_less UNIV fst (es_metadata st) \<and>
     partition {0..<vol} (free_space (es_free st)) (es_lookup st)"

definition backed :: "espresso \<Rightarrow> bool" where
  "backed st \<longleftrightarrow> (\<forall>d a. es_lookup st d = Some a \<longrightarrow> da_offset a + da_size a \<le> es_len st)"

definition espresso_inv :: "int \<Rightarrow> espresso \<Rightarrow> bool" where
  "espresso_inv vol st \<longleftrightarrow> space_inv vol st \<and> backed st"

subsection \<open>Lookups after updates\<close>

lemma es_lookup_cong [simp]:
  "es_lookup (st\<lparr>es_free := f\<rparr>) = es_lookup st"
  "es_lookup (st\<lparr>es_bytes := b\<rparr>) = es_lookup st"
  "es_lookup (st\<lparr>es_len := n\<rparr>) = es_lookup st"
  by (simp_all add: es_lookup_def fun_eq_iff)

lemma es_lookup_sys_write [simp]: "es_lookup (sys_write st pos buf count) = es_lookup st"
  by (simp add: sys_write_def)

lemma es_free_sys_write [simp]:
  "es_free (sys_write st pos buf count) = es_free st"
  "es_metadata (sys_write st pos buf count) = es_metadata st"
  by (simp_all add: sys_write_def)

lemma space_inv_sys_write [simp]: "space_inv vol (sys_write st pos buf count) = space_inv vol st"
  by (simp add: space_inv_def)

lemma es_lookup_metadata: "es_metadata st' = es_metadata st \<Longrightarrow> es_lookup st' = es_lookup st"
  by (simp add: es_lookup_def fun_eq_iff)

lemma om_find_update_fun:
  "oc_sorted data_descriptor_less UNIV fst m \<Longrightarrow>
   (\<lambda>x. om_find data_descriptor_less x (om_update data_descriptor_less d a m)) =
   (\<lambda>x. om_find data_descriptor_less x m)(d \<mapsto> a)"
  by (auto simp: fun_eq_iff descriptor_order.kv.find_upd)

lemma om_find_erase_fun:
  "oc_sorted data_descriptor_less UNIV fst m \<Longrightarrow>
   (\<lambda>x. om_find data_descriptor_less x (om_erase data_descriptor_less d m)) =
   (\<lambda>x. om_find data_descriptor_less x m)(d := None)"
  by (auto simp: fun_eq_iff descriptor_order.kv.find_era)

lemma insert_as_update:
  "om_find data_descriptor_less d m = None \<Longrightarrow>
   oc_insert data_descriptor_less fst (d, a) m = om_update data_descriptor_less d a m"
  by (simp add: om_find_def om_update_def)

lemma es_lookup_update:
  "space_inv vol st \<Longrightarrow>
   es_lookup (st\<lparr>es_metadata := om_update data_descriptor_less d a (es_metadata st)\<rparr>) = (es_lookup st)(d \<mapsto> a)"
  using om_find_update_fun[of "es_metadata st" d a] by (simp add: es_lookup_def fun_eq_iff space_inv_def)

lemma es_lookup_erase:
  "space_inv vol st \<Longrightarrow>
   es_lookup (st\<lparr>es_metadata := om_erase data_descriptor_less d (es_metadata st)\<rparr>) = (es_lookup st)(d := None)"
  using om_find_erase_fun[of "es_metadata st" d] by (simp add: es_lookup_def fun_eq_iff space_inv_def)

lemma space_invD:
  assumes "space_inv vol st" "es_lookup st d = Some a"
  shows "0 < da_size a" "0 \<le> da_offset a" "da_offset a + da_size a \<le> vol"
    and "extent a \<inter> free_space (es_free st) = {}"
proof -
  have p: "partition {0..<vol} (free_space (es_free st)) (es_lookup st)"
    using assms(1) by (simp add: space_inv_def)
  show pos: "0 < da_size a" and "extent a \<inter> free_space (es_free st) = {}"
    using partitionD(1,2)[OF p assms(2)] .
  have "extent a \<subseteq> {0..<vol}" using partitionD(3)[OF p assms(2)] .
  with pos show "0 \<le> da_offset a" "da_offset a + da_size a \<le> vol"
    by (auto simp: extent_def)
qed

lemma space_inv_disjoint:
  assumes "space_inv vol st" "es_lookup st d = Some a" "es_lookup st e = Some b" "d \<noteq> e"
  shows "extent a \<inter> extent b = {}"
  using assms partitionD(4)[of "{0..<vol}" "free_space (es_free st)" "es_lookup st" d a e b]
  by (simp add: space_inv_def)

subsection \<open>Space bookkeeping of the operations\<close>

lemma space_inv_allocate:
  assumes "space_inv vol st" "es_lookup st d = None" "0 < n"
    and "allocate_chunk (es_free st) n = Some (a, f)"
  defines "st1 \<equiv> st\<lparr>es_metadata := oc_insert data_descriptor_less fst (d, a) (es_metadata st), es_free := f\<rparr>"
  shows "space_inv vol st1" "es_lookup st1 = (es_lookup st)(d \<mapsto> a)" "da_size a = n"
proof -
  note inv = assms(1)[unfolded space_inv_def]
  have m: "es_metadata st1 = om_update data_descriptor_less d a (es_metadata st)"
    using assms(2) by (simp add: st1_def es_lookup_def insert_as_update)
  then have "es_lookup st1 = es_lookup (st\<lparr>es_metadata := om_update data_descriptor_less d a (es_metadata st)\<rparr>)"
    by (intro es_lookup_metadata) simp
  then show l: "es_lookup st1 = (es_lookup st)(d \<mapsto> a)" using es_lookup_update[OF assms(1)] by simp
  note p = espresso_space.alloc_partition[of "es_free st" "{0..<vol}" "es_lookup st" d n a f]
  show "da_size a = n" using p(2) inv assms(2-4) by simp
  have "es_free st1 = f" by (simp add: st1_def)
  then show "space_inv vol st1"
    using p(1,3) inv m l assms(2-4) descriptor_order.sorted_om_update[of "es_metadata st" d a] by (simp add: space_inv_def)
qed

lemma space_inv_deallocate:
  assumes "space_inv vol st" "es_lookup st d = Some a" "deallocate_chunk (es_free st) a = Returned f"
  defines "st1 \<equiv> st\<lparr>es_metadata := om_erase data_descriptor_less d (es_metadata st), es_free := f\<rparr>"
  shows "space_inv vol st1" "es_lookup st1 = (es_lookup st)(d := None)"
proof -
  note inv = assms(1)[unfolded space_inv_def]
  have "es_lookup st1 = es_lookup (st\<lparr>es_metadata := om_erase data_descriptor_less d (es_metadata st)\<rparr>)"
    by (intro es_lookup_metadata) (simp add: st1_def)
  then show l: "es_lookup st1 = (es_lookup st)(d := None)" using es_lookup_erase[OF assms(1)] by simp
  note p = espresso_space.dealloc_partition[of "es_free st" "{0..<vol}" "es_lookup st" d a f]
  have "es_free st1 = f" "es_metadata st1 = om_erase data_descriptor_less d (es_metadata st)"
    by (simp_all add: st1_def)
  then show "space_inv vol st1"
    using p inv l assms(2,3) descriptor_order.sorted_erase[of fst "es_metadata st" d]
    by (simp add: space_inv_def om_erase_def)
qed

subsection \<open>Reading and writing inside a chunk\<close>

lemma write_data_inside:
  assumes "space_inv vol st" "es_lookup st d = Some a" "0 \<le> offset" "0 \<le> count"
    and "offset + count \<le> da_size a"
  shows "write_data st d offset buf count = (count, sys_write st (da_offset a + offset) buf count)"
  using assms space_invD[OF assms(1,2)] by (simp add: write_data_def)

lemma chunk_view_sys_write:
  assumes "space_inv vol st" "es_lookup st d = Some a" "0 \<le> offset" "0 \<le> count"
    and "offset + count \<le> da_size a"
  shows "chunk_view (sys_write st (da_offset a + offset) buf count) e i =
    (if e = d \<and> offset \<le> i \<and> i < offset + count then Some (buf (nat (i - offset)))
     else chunk_view st e i)"
proof (cases "e = d")
  case True
  then show ?thesis using assms by (auto simp: chunk_view_def sys_write_def)
next
  case False
  show ?thesis
  proof (cases "es_lookup st e")
    case (Some b)
    have "extent a \<inter> extent b = {}" using space_inv_disjoint[OF assms(1,2) Some] False by simp
    then have "da_offset a + da_size a \<le> da_offset b \<or> da_offset b + da_size b \<le> da_offset a"
      using space_invD(1)[OF assms(1)] assms(2) Some extent_disjoint_iff by metis
    with Some False assms(3-5) show ?thesis by (auto simp: chunk_view_def sys_write_def)
  qed (use False in \<open>simp add: chunk_view_def\<close>)
qed

lemma read_data_inside:
  assumes "espresso_inv vol st" "es_lookup st d = Some a" "0 \<le> offset" "0 \<le> count"
    and "offset \<le> da_size a"
  defines "n \<equiv> min count (da_size a - offset)"
  shows "read_data st d offset count =
    Returned (n, map (\<lambda>i. es_bytes st (da_offset a + offset + int i)) [0..<nat n])"
proof -
  have "da_offset a + da_size a \<le> es_len st"
    using assms(1,2) by (simp add: espresso_inv_def backed_def)
  moreover have "0 \<le> da_offset a" using assms(1,2) space_invD(2) by (auto simp: espresso_inv_def)
  ultimately show ?thesis using assms(2-5)
    by (auto simp: read_data_def sys_read_def n_def min_def Let_def)
qed

lemma read_data_missing: "es_lookup st d = None \<Longrightarrow> read_data st d offset count = Returned (-1, [])"
  by (simp add: read_data_def)

lemma chunk_view_lookup:
  "es_lookup st' e = es_lookup st e \<Longrightarrow> es_bytes st' = es_bytes st \<Longrightarrow> chunk_view st' e = chunk_view st e"
  by (rule ext) (simp add: chunk_view_def split: option.split)

lemma chunk_view_None: "chunk_view st d i = None \<longleftrightarrow> \<not> (0 \<le> i \<and> i < chunk_size_of st d)"
  by (simp add: chunk_view_def chunk_size_of_def split: option.splits)

lemma chunk_size_of_sys_write [simp]: "chunk_size_of (sys_write st pos buf count) = chunk_size_of st"
  by (simp add: chunk_size_of_def fun_eq_iff)

lemma chunk_size_of_Some: "es_lookup st d = Some a \<Longrightarrow> chunk_size_of st d = da_size a"
  by (simp add: chunk_size_of_def)

lemma backed_sys_write: "backed st \<Longrightarrow> backed (sys_write st pos buf count)"
  by (fastforce simp: backed_def sys_write_def)

lemma backed_write_end:
  assumes "backed st" "es_lookup st1 = (es_lookup st)(d \<mapsto> a)" "es_len st \<le> es_len st1"
    and "0 < count" "offset + count = da_size a"
  shows "backed (sys_write st1 (da_offset a + offset) buf count)"
  unfolding backed_def
proof (intro allI impI)
  fix e b assume "es_lookup (sys_write st1 (da_offset a + offset) buf count) e = Some b"
  then have l: "((es_lookup st)(d \<mapsto> a)) e = Some b" using assms(2) by simp
  show "da_offset b + da_size b \<le> es_len (sys_write st1 (da_offset a + offset) buf count)"
  proof (cases "e = d")
    case True
    with l assms(4,5) show ?thesis by (simp add: sys_write_def)
  next
    case False
    with l assms(1) have "da_offset b + da_size b \<le> es_len st" by (simp add: backed_def)
    with assms(3) show ?thesis by (auto simp: sys_write_def)
  qed
qed

section \<open>Effect of a write\<close>

text \<open>\<open>room st d\<close>: the free extents a new chunk \<open>d\<close> can be placed in.\<close>

definition room :: "espresso \<Rightarrow> data_descriptor \<Rightarrow> data_address list" where
  "room st d = (case es_lookup st d of None \<Rightarrow> es_free st | Some a \<Rightarrow> [])"

text \<open>What a successful write of \<open>count\<close> bytes does to the chunks.\<close>

definition written ::
    "espresso \<Rightarrow> data_descriptor \<Rightarrow> int \<Rightarrow> (nat \<Rightarrow> u8) \<Rightarrow> int \<Rightarrow> espresso \<Rightarrow> bool" where
  "written st d offset buf count st' \<longleftrightarrow>
     (\<forall>e. e \<noteq> d \<longrightarrow> chunk_view st' e = chunk_view st e) \<and>
     (\<forall>i. offset \<le> i \<and> i < offset + count \<longrightarrow> chunk_view st' d i = Some (buf (nat (i - offset)))) \<and>
     (\<forall>i. 0 \<le> i \<and> i < chunk_size_of st d \<and> \<not> (offset \<le> i \<and> i < offset + count) \<longrightarrow>
        chunk_view st' d i = chunk_view st d i) \<and>
     chunk_size_of st' d = max (chunk_size_of st d) (offset + count)"

lemma write_inside:
  assumes "espresso_inv vol st" "es_lookup st d = Some a" "0 \<le> offset" "0 < count"
    and "offset + count \<le> da_size a"
  obtains st' where "write_chunk heap st d offset buf count = Returned (count, st')"
    "espresso_inv vol st'" "written st d offset buf count st'"
proof
  have sp: "space_inv vol st" using assms(1) by (simp add: espresso_inv_def)
  let ?st' = "sys_write st (da_offset a + offset) buf count"
  show "write_chunk heap st d offset buf count = Returned (count, ?st')"
    using assms write_data_inside[OF sp assms(2,3) _ assms(5)] by (simp add: write_chunk_def)
  show "espresso_inv vol ?st'"
    using assms(1) by (simp add: espresso_inv_def backed_sys_write)
  show "written st d offset buf count ?st'"
    using assms(3-5) chunk_view_sys_write[OF sp assms(2,3) _ assms(5)]
    by (auto simp: written_def chunk_size_of_Some[OF assms(2)] fun_eq_iff)
qed

lemma write_new:
  assumes "espresso_inv vol st" "es_lookup st d = None" "0 \<le> offset" "0 < count"
    and "allocate_chunk (es_free st) (offset + count) = Some (a, f)"
  obtains st' where "write_chunk heap st d offset buf count = Returned (count, st')"
    "espresso_inv vol st'" "written st d offset buf count st'"
proof
  let ?st1 = "st\<lparr>es_metadata := oc_insert data_descriptor_less fst (d, a) (es_metadata st), es_free := f\<rparr>"
  let ?st' = "sys_write ?st1 (da_offset a + offset) buf count"
  have sp: "space_inv vol st" and bk: "backed st" using assms(1) by (simp_all add: espresso_inv_def)
  have n: "0 < offset + count" using assms(3,4) by simp
  note s1 = space_inv_allocate[OF sp assms(2) n assms(5)]
  have l: "es_lookup ?st1 d = Some a" using s1(2) by simp
  have le: "offset + count \<le> da_size a" using s1(3) by simp
  show "write_chunk heap st d offset buf count = Returned (count, ?st')"
    using assms(2-5) write_data_inside[OF s1(1) l assms(3) _ le]
    by (simp add: write_chunk_def Let_def)
  show "espresso_inv vol ?st'"
    using backed_write_end[OF bk s1(2) _ assms(4)] s1(1,3) by (simp add: espresso_inv_def)
  have v: "chunk_view ?st1 e = chunk_view st e" if "e \<noteq> d" for e
    using that s1(2) by (intro chunk_view_lookup) simp_all
  show "written st d offset buf count ?st'"
    using assms(3,4) chunk_view_sys_write[OF s1(1) l assms(3) _ le, of buf] v s1(3)
      chunk_size_of_Some[OF l] assms(2)
    by (auto simp: written_def fun_eq_iff chunk_size_of_def[of st])
qed

text \<open>A write that makes an existing chunk larger.\<close>

lemma write_growing:
  assumes "espresso_inv vol st" "es_lookup st d = Some a" "da_size a < offset + count" "0 \<le> count"
  shows "deallocate_chunk (es_free st) a = Unspecified \<Longrightarrow> write_chunk heap st d offset buf count = Unspecified"
    and "deallocate_chunk (es_free st) a = Returned f \<Longrightarrow> \<exists>e \<in> set f. offset + count \<le> da_size e \<Longrightarrow>
      write_chunk heap st d offset buf count = Unspecified"
    and "deallocate_chunk (es_free st) a = Returned f \<Longrightarrow> \<forall>e \<in> set f. da_size e < offset + count \<Longrightarrow>
      \<exists>st'. write_chunk heap st d offset buf count = Returned (-1, st') \<and> espresso_inv vol st' \<and>
        chunk_view st' = chunk_view st \<and> es_free st' = es_free st"
proof -
  have sp: "space_inv vol st" using assms(1) by (simp add: espresso_inv_def)
  then have co: "coalesced (es_free st)" by (simp add: space_inv_def)
  have pos: "0 < da_size a" using space_invD(1)[OF sp assms(2)] .
  note un = deallocate_undefined[OF co pos space_invD(4)[OF sp assms(2)]]
  note re = reallocate_chunk_eq[OF co pos space_invD(4)[OF sp assms(2)], of "offset + count"]
  obtain old where rd: "read_data st d 0 (da_size a) = Returned (da_size a, old)"
    using read_data_inside[OF assms(1,2), of 0 "da_size a"] pos by simp
  have w: "write_chunk heap st d offset buf count =
      outcome_bind (reallocate_chunk (es_free st) a (offset + count)) (\<lambda>(r, a', free').
        let st1 = st\<lparr>es_metadata := om_update data_descriptor_less d a' (es_metadata st), es_free := free'\<rparr>;
            old_chunk = (\<lambda>i. if i < length old then old ! i else heap i)
        in if r = -1 then Returned (-1, st1)
           else guard_defined (da_size a' \<le> da_size a)
            (case write_data st1 d 0 old_chunk (da_size a') of (w, st2) \<Rightarrow>
               if w = -1 then Returned (-1, st2) else Returned (write_data st2 d offset buf count)))"
    using assms(2-4) rd pos by (simp add: write_chunk_def)
  show "write_chunk heap st d offset buf count = Unspecified" if "deallocate_chunk (es_free st) a = Unspecified"
    using that re unfolding w by (simp split: if_splits)
  show "write_chunk heap st d offset buf count = Unspecified"
    if d: "deallocate_chunk (es_free st) a = Returned f" "\<exists>e \<in> set f. offset + count \<le> da_size e"
  proof -
    have "allocate_chunk f (offset + count) \<noteq> None" using d(2) by (auto simp: allocate_chunk_None not_less)
    then obtain b g where al: "allocate_chunk f (offset + count) = Some (b, g)" by auto
    have "0 < offset + count" using assms(3) pos by simp
    then have "da_size b = offset + count"
      using allocate_chunk_space(1)[OF deallocate_chunk_coalesced[OF co pos space_invD(4)[OF sp assms(2)] d(1)] _ al] by simp
    moreover have "\<not> next_to_free (es_free st) a" using un(1) d(1) by auto
    ultimately show ?thesis using assms(3) al re d(1) unfolding w by (simp add: Let_def)
  qed
  show "\<exists>st'. write_chunk heap st d offset buf count = Returned (-1, st') \<and> espresso_inv vol st' \<and>
        chunk_view st' = chunk_view st \<and> es_free st' = es_free st"
    if d: "deallocate_chunk (es_free st) a = Returned f" "\<forall>e \<in> set f. da_size e < offset + count"
  proof -
    let ?st' = "st\<lparr>es_metadata := om_update data_descriptor_less d a (es_metadata st), es_free := es_free st\<rparr>"
    have "es_lookup ?st' = es_lookup (st\<lparr>es_metadata := om_update data_descriptor_less d a (es_metadata st)\<rparr>)"
      by (intro es_lookup_metadata) simp
    then have l: "es_lookup ?st' = es_lookup st"
      using es_lookup_update[OF sp, of d a] assms(2) by (simp add: fun_upd_idem)
    have "allocate_chunk f (offset + count) = None" using d(2) by (simp add: allocate_chunk_None)
    moreover have "\<not> next_to_free (es_free st) a" using un(1) d(1) by auto
    ultimately have "write_chunk heap st d offset buf count = Returned (-1, ?st')"
      using re d(1) unfolding w by (simp add: Let_def)
    moreover have "space_inv vol ?st'"
      using sp l descriptor_order.sorted_om_update[of "es_metadata st" d a] by (simp add: space_inv_def)
    then have "espresso_inv vol ?st'" using assms(1) l by (simp add: espresso_inv_def backed_def)
    moreover have "chunk_view ?st' = chunk_view st" using l chunk_view_lookup[of ?st' _ st] by (simp add: fun_eq_iff)
    ultimately show ?thesis by (intro exI[of _ ?st']) simp
  qed
qed

lemma write_no_room:
  assumes "es_lookup st d = None" "0 \<le> count" "\<forall>e \<in> set (es_free st). da_size e < offset + count"
  shows "write_chunk heap st d offset buf count = Returned (-1, st)"
  using assms by (simp add: write_chunk_def allocate_chunk_None[THEN iffD2])

lemma write_succeeds:
  assumes "espresso_inv vol st" "0 \<le> offset" "0 < count"
    and "offset + count \<le> chunk_size_of st d \<or> (\<exists>e \<in> set (room st d). offset + count \<le> da_size e)"
  shows "\<exists>st'. write_chunk heap st d offset buf count = Returned (count, st') \<and> espresso_inv vol st' \<and>
    written st d offset buf count st'"
proof (cases "es_lookup st d")
  case None
  then have "allocate_chunk (es_free st) (offset + count) \<noteq> None"
    using assms(2-4) by (auto simp: allocate_chunk_None room_def chunk_size_of_def not_less)
  then obtain a f where "allocate_chunk (es_free st) (offset + count) = Some (a, f)" by auto
  from write_new[OF assms(1) None assms(2,3) this] show ?thesis by metis
next
  case (Some a)
  then have "offset + count \<le> da_size a" using assms(4) by (simp add: room_def chunk_size_of_def)
  from write_inside[OF assms(1) Some assms(2,3) this] show ?thesis by metis
qed

text \<open>A write has succeeded, has failed without effect, or is undefined.\<close>

lemma write_chunk_cases:
  assumes "espresso_inv vol st" "0 \<le> offset" "0 < count"
  shows "(\<exists>st'. write_chunk heap st d offset buf count = Returned (count, st') \<and> espresso_inv vol st' \<and>
      written st d offset buf count st') \<or>
    (\<exists>st'. write_chunk heap st d offset buf count = Returned (-1, st') \<and> espresso_inv vol st' \<and>
      chunk_view st' = chunk_view st \<and> es_free st' = es_free st) \<or>
    write_chunk heap st d offset buf count = Unspecified"
proof (cases "offset + count \<le> chunk_size_of st d \<or> (\<exists>e \<in> set (room st d). offset + count \<le> da_size e)")
  case True
  with write_succeeds[OF assms] show ?thesis by blast
next
  case False
  show ?thesis
  proof (cases "es_lookup st d")
    case None
    then have "\<forall>e \<in> set (es_free st). da_size e < offset + count" using False by (auto simp: room_def)
    with write_no_room[OF None] assms(1,3) show ?thesis by simp
  next
    case (Some a)
    then have g: "da_size a < offset + count" using False by (simp add: chunk_size_of_def)
    have sp: "space_inv vol st" using assms(1) by (simp add: espresso_inv_def)
    note w = write_growing[OF assms(1) Some g]
    have "deallocate_chunk (es_free st) a = Unspecified \<or> (\<exists>f. deallocate_chunk (es_free st) a = Returned f)"
      using deallocate_undefined[of "es_free st" a] space_invD[OF sp Some] sp by (auto simp: space_inv_def)
    then show ?thesis using w assms(3) by (metis not_le order.strict_implies_order)
  qed
qed

lemma write_chunk_effect:
  assumes "espresso_inv vol st" "0 \<le> offset" "0 < count" "write_chunk heap st d offset buf count = Returned (r, st')"
  shows "espresso_inv vol st' \<and> (r = count \<and> written st d offset buf count st' \<or>
    r = -1 \<and> chunk_view st' = chunk_view st \<and> es_free st' = es_free st)"
  using write_chunk_cases[OF assms(1-3), of heap d buf] assms(4) by auto

lemma init_empty [simp]:
  "es_lookup (espresso_global_data_init empty_espresso n) = Map.empty"
  "es_free (espresso_global_data_init empty_espresso n) = [mk_address 0 n]"
  "es_metadata (espresso_global_data_init empty_espresso n) = []"
  by (simp_all add: espresso_global_data_init_def empty_espresso_def fun_eq_iff
      es_lookup_def om_find_def oc_find_def oc_lower_bound_def oc_insert_def oc_before_def)

lemma init_espresso_inv:
  "0 < n \<Longrightarrow> espresso_inv n (espresso_global_data_init empty_espresso n)"
  by (simp add: espresso_inv_def space_inv_def backed_def oc_sorted_def partition_def extent_def)

lemma init_room: "room (espresso_global_data_init empty_espresso n) d = [mk_address 0 n]"
  by (simp add: room_def)

lemma read_chunk_view:
  assumes "espresso_inv vol st" "es_lookup st d = Some a" "0 \<le> offset" "offset \<le> da_size a" "0 \<le> count"
  obtains bs where "read_chunk st d offset count = Returned (int (length bs), bs)"
    "int (length bs) = min count (da_size a - offset)"
    "\<And>i. i < length bs \<Longrightarrow> chunk_view st d (offset + int i) = Some (bs ! i)"
proof
  let ?n = "min count (da_size a - offset)"
  let ?bs = "map (\<lambda>i. es_bytes st (da_offset a + offset + int i)) [0..<nat ?n]"
  show "read_chunk st d offset count = Returned (int (length ?bs), ?bs)"
    using read_data_inside[OF assms(1-3,5,4)] assms(3-5) by (simp add: read_chunk_def)
  show "int (length ?bs) = ?n" using assms(4,5) by simp
  show "chunk_view st d (offset + int i) = Some (?bs ! i)" if "i < length ?bs" for i
    using that assms(2,3) by (simp add: chunk_view_def ac_simps)
qed

lemma read_chunk_content:
  assumes "espresso_inv vol st" "0 \<le> offset" "0 \<le> count" "offset + count \<le> chunk_size_of st d"
    and "es_lookup st d \<noteq> None"
    and "\<And>i. i < nat count \<Longrightarrow> chunk_view st d (offset + int i) = Some (f i)"
  shows "read_chunk st d offset count = Returned (count, map f [0..<nat count])"
proof -
  obtain a where a: "es_lookup st d = Some a" using assms(5) by auto
  then have le: "offset \<le> da_size a" and sz: "offset + count \<le> da_size a"
    using assms(3,4) by (simp_all add: chunk_size_of_def)
  obtain bs where bs: "read_chunk st d offset count = Returned (int (length bs), bs)"
    "int (length bs) = min count (da_size a - offset)"
    "\<And>i. i < length bs \<Longrightarrow> chunk_view st d (offset + int i) = Some (bs ! i)"
    using read_chunk_view[OF assms(1) a assms(2) le assms(3)] by metis
  have len: "length bs = nat count" using bs(2) sz by simp
  have "bs = map f [0..<nat count]"
  proof (rule nth_equalityI)
    fix i assume i: "i < length bs"
    then have "Some (bs ! i) = Some (f i)" using bs(3)[of i] assms(6)[of i] len by simp
    with i len show "bs ! i = map f [0..<nat count] ! i" by simp
  qed (use len in simp)
  with bs(1) len assms(3) show ?thesis by simp
qed

text \<open>
  C16: what a write of at least one byte at a non-negative offset does, on every branch. When the
  chunk reaches far enough, or is new and some free extent can hold it, the bytes are stored, every
  other byte of every chunk is as before, and chunks and free extents still partition the volume.
  When a new chunk fits nowhere, -1 is returned without effect. A write that makes an existing chunk
  larger never succeeds: it is undefined when the chunk is followed by free space, because an erased
  iterator is stepped back, and when space for it is found, because the old contents are written
  back with the new, larger size; otherwise it returns -1 without effect.
\<close>

theorem write_chunk_correct:
  assumes "espresso_inv vol st" "0 \<le> offset" "0 < count"
  shows "if offset + count \<le> chunk_size_of st d \<or> (\<exists>e \<in> set (room st d). offset + count \<le> da_size e)
    then \<exists>st'. write_chunk heap st d offset buf count = Returned (count, st') \<and> espresso_inv vol st' \<and>
      written st d offset buf count st'
    else case es_lookup st d of
        None \<Rightarrow> write_chunk heap st d offset buf count = Returned (-1, st)
      | Some a \<Rightarrow>
          if next_to_free (es_free st) a then write_chunk heap st d offset buf count = Unspecified
          else \<exists>free. deallocate_chunk (es_free st) a = Returned free \<and>
            (if \<exists>e \<in> set free. offset + count \<le> da_size e
             then write_chunk heap st d offset buf count = Unspecified
             else \<exists>st'. write_chunk heap st d offset buf count = Returned (-1, st') \<and> espresso_inv vol st' \<and>
               chunk_view st' = chunk_view st \<and> es_free st' = es_free st)"
proof (cases "offset + count \<le> chunk_size_of st d \<or> (\<exists>e \<in> set (room st d). offset + count \<le> da_size e)")
  case True
  then show ?thesis using write_succeeds[OF assms] by simp
next
  case False
  show ?thesis
  proof (cases "es_lookup st d")
    case None
    then have "\<forall>e \<in> set (es_free st). da_size e < offset + count" using False by (auto simp: room_def)
    with False None write_no_room[OF None] assms(3) show ?thesis by simp
  next
    case (Some a)
    then have g: "da_size a < offset + count" using False by (simp add: chunk_size_of_def)
    have sp: "space_inv vol st" and c: "0 \<le> count" using assms(1,3) by (simp_all add: espresso_inv_def)
    have co: "coalesced (es_free st)" using sp by (simp add: space_inv_def)
    note u = deallocate_undefined[OF co space_invD(1,4)[OF sp Some]]
    note w = write_growing[OF assms(1) Some g c]
    show ?thesis
    proof (cases "next_to_free (es_free st) a")
      case True
      with False Some u(1) w(1) show ?thesis by simp
    next
      case nx: False
      then obtain free where free: "deallocate_chunk (es_free st) a = Returned free" using u(2) by blast
      show ?thesis
      proof (cases "\<exists>e \<in> set free. offset + count \<le> da_size e")
        case True
        with w(2)[OF free] free nx show ?thesis unfolding Some option.case if_not_P[OF False] by simp
      next
        case nf: False
        then have "\<forall>e \<in> set free. da_size e < offset + count" by (simp add: not_le)
        with w(3)[OF free] free nx nf show ?thesis unfolding Some option.case if_not_P[OF False] by simp
      qed
    qed
  qed
qed

abbreviation demo_store :: espresso where
  "demo_store \<equiv> espresso_global_data_init empty_espresso 1024"

abbreviation demo_chunk :: data_descriptor where
  "demo_chunk \<equiv> \<lparr>dd_file_id = 1, dd_stripe_id = 1, dd_chunk_num = 1\<rparr>"

lemma es_lookup_map_of:
  "oc_sorted data_descriptor_less UNIV fst (es_metadata st) \<Longrightarrow> es_lookup st = map_of (es_metadata st)"
  by (simp add: es_lookup_def fun_eq_iff descriptor_order.om_find_map_of)

text \<open>A volume of 1024 bytes filled by two chunks of 512 bytes.\<close>

definition full_store :: espresso where
  "full_store = \<lparr>es_bytes = (\<lambda>_. 0), es_len = 1024,
     es_metadata = [(demo_chunk, mk_address 0 512), (demo_chunk\<lparr>dd_chunk_num := 2\<rparr>, mk_address 512 512)],
     es_free = []\<rparr>"

lemma full_store_lookup:
  "es_lookup full_store = map_of
     [(demo_chunk, mk_address 0 512), (demo_chunk\<lparr>dd_chunk_num := 2\<rparr>, mk_address 512 512)]"
  by (subst es_lookup_map_of) (simp_all add: full_store_def oc_sorted_def data_descriptor_less_def)

lemma full_store_inv: "espresso_inv 1024 full_store"
  unfolding espresso_inv_def space_inv_def
proof (intro conjI)
  show "coalesced (es_free full_store)" by (simp add: full_store_def)
  show "oc_sorted data_descriptor_less UNIV fst (es_metadata full_store)"
    by (simp add: full_store_def oc_sorted_def data_descriptor_less_def)
  show "partition {0..<1024} (free_space (es_free full_store)) (es_lookup full_store)"
    unfolding partition_def full_store_lookup
    by (subst ran_distinct) (auto simp: full_store_def extent_def)
  show "backed full_store"
    unfolding backed_def full_store_lookup by (simp add: full_store_def)
qed

text \<open>The same volume with only the first chunk.\<close>

definition half_store :: espresso where
  "half_store = \<lparr>es_bytes = (\<lambda>_. 0), es_len = 512, es_metadata = [(demo_chunk, mk_address 0 512)],
     es_free = [mk_address 512 512]\<rparr>"

lemma half_store_lookup: "es_lookup half_store = map_of [(demo_chunk, mk_address 0 512)]"
  by (subst es_lookup_map_of) (simp_all add: half_store_def oc_sorted_def data_descriptor_less_def)

lemma half_store_inv: "espresso_inv 1024 half_store"
  unfolding espresso_inv_def space_inv_def
proof (intro conjI)
  show "coalesced (es_free half_store)" by (simp add: half_store_def)
  show "oc_sorted data_descriptor_less UNIV fst (es_metadata half_store)"
    by (simp add: half_store_def oc_sorted_def data_descriptor_less_def)
  show "partition {0..<1024} (free_space (es_free half_store)) (es_lookup half_store)"
    unfolding partition_def half_store_lookup
    by (subst ran_distinct) (auto simp: half_store_def extent_def)
  show "backed half_store"
    unfolding backed_def half_store_lookup by (simp add: half_store_def)
qed

lemma demo_store_write:
  assumes "0 < count" "count \<le> 1024"
  shows "\<exists>st'. write_chunk heap demo_store d 0 buf count = Returned (count, st') \<and> espresso_inv 1024 st' \<and>
    written demo_store d 0 buf count st'"
  using write_succeeds[OF init_espresso_inv[of 1024], of 0 count d heap buf] assms by (simp add: init_room)

text \<open>Ten bytes more for a chunk of 512 bytes that is followed by free space.\<close>

lemma write_chunk_correct_witness:
  "(\<exists>st'. write_chunk (\<lambda>_. 0) demo_store demo_chunk 0 (\<lambda>_. 7) 512 = Returned (512, st') \<and>
     written demo_store demo_chunk 0 (\<lambda>_. 7) 512 st') \<and>
   write_chunk (\<lambda>_. 0) half_store demo_chunk 512 (\<lambda>_. 7) 10 = Unspecified"
proof -
  have l: "es_lookup half_store demo_chunk = Some (mk_address 0 512)" by (simp add: half_store_lookup)
  have "next_to_free (es_free half_store) (mk_address 0 512)" by (simp add: next_to_free_def half_store_def)
  then have "write_chunk (\<lambda>_. 0) half_store demo_chunk 512 (\<lambda>_. 7) 10 = Unspecified"
    using write_chunk_correct[OF half_store_inv, of 512 10 demo_chunk "\<lambda>_. 0" "\<lambda>_. 7"] l
    by (simp add: room_def chunk_size_of_def)
  then show ?thesis
    using write_chunk_correct[OF init_espresso_inv[of 1024], of 0 512 demo_chunk "\<lambda>_. 0" "\<lambda>_. 7"]
    by (auto simp: init_room)
qed

text \<open>
  Reading back the range just written returns exactly the bytes written, wherever the
  chunk was placed or moved, and a later write to another chunk does not change the answer.
\<close>

theorem read_after_write:
  assumes "espresso_inv vol st" "0 \<le> offset" "0 < count"
    and "write_chunk heap st d offset buf count = Returned (count, st1)"
    and "e \<noteq> d" "0 \<le> offset'" "0 < count'"
    and "write_chunk heap st1 e offset' buf' count' = Returned (r, st2)"
  shows "read_chunk st1 d offset count = Returned (count, map buf [0..<nat count]) \<and>
    read_chunk st2 d offset count = Returned (count, map buf [0..<nat count])"
proof -
  have w: "espresso_inv vol st1" "written st d offset buf count st1"
    using write_chunk_effect[OF assms(1-4)] assms(3) by simp_all
  have w2: "espresso_inv vol st2" "chunk_view st2 d = chunk_view st1 d"
    using write_chunk_effect[OF w(1) assms(6-8)] assms(5) by (auto simp: written_def)
  have v: "chunk_view st1 d (offset + int i) = Some (buf i)" if "i < nat count" for i
    using w(2) that assms(2,3) by (simp add: written_def)
  have v2: "chunk_view st2 d (offset + int i) = Some (buf i)" if "i < nat count" for i
    using v[OF that] w2(2) by simp
  note last = v[of "nat (count - 1)"] v2[of "nat (count - 1)"]
  have "\<not> (chunk_view st1 d (offset + count - 1) = None)" "\<not> (chunk_view st2 d (offset + count - 1) = None)"
    using last assms(2,3) by (auto simp: algebra_simps)
  then have sz: "offset + count \<le> chunk_size_of st1 d" "offset + count \<le> chunk_size_of st2 d"
    by (auto simp: chunk_view_None)
  moreover have "es_lookup st1 d \<noteq> None" "es_lookup st2 d \<noteq> None"
    using sz assms(2,3) by (auto simp: chunk_size_of_def split: option.splits)
  ultimately show ?thesis
    using read_chunk_content[OF w(1) assms(2) _ _ _ v] read_chunk_content[OF w2(1) assms(2) _ _ _ v2] assms(3)
    by simp_all
qed

lemma read_after_write_witness:
  "\<exists>st2. read_chunk st2 demo_chunk 0 512 = Returned (512, replicate 512 7)"
proof -
  let ?e = "demo_chunk\<lparr>dd_chunk_num := 2\<rparr>" and ?st1 = "sys_write full_store 0 (\<lambda>_. 7) 512"
  have w: "write_chunk (\<lambda>_. 0) full_store demo_chunk 0 (\<lambda>_. 7) 512 = Returned (512, ?st1)"
    "write_chunk (\<lambda>_. 0) ?st1 ?e 0 (\<lambda>_. 8) 512 = Returned (512, sys_write ?st1 512 (\<lambda>_. 8) 512)"
    by (simp_all add: write_chunk_def write_data_def full_store_lookup)
  show ?thesis
    using read_after_write[OF full_store_inv _ _ w(1) _ _ _ w(2)] by (auto simp: map_replicate_const)
qed

subsection \<open>Deleting\<close>

lemma delete_effect:
  assumes "espresso_inv vol st" "es_lookup st d = Some a" "delete_chunk st d = Returned (r, st')"
  shows "r = 0 \<and> espresso_inv vol st' \<and> es_lookup st' = (es_lookup st)(d := None) \<and>
    free_space (es_free st') = free_space (es_free st) \<union> extent a \<and> es_bytes st' = es_bytes st"
proof -
  obtain f where f: "deallocate_chunk (es_free st) a = Returned f" "r = 0"
    "st' = st\<lparr>es_metadata := om_erase data_descriptor_less d (es_metadata st), es_free := f\<rparr>"
    using assms(2,3) by (auto simp: delete_chunk_def)
  have sp: "space_inv vol st" and bk: "backed st" using assms(1) by (simp_all add: espresso_inv_def)
  note d = space_inv_deallocate[OF sp assms(2) f(1), folded f(3)]
  have "backed st'" unfolding backed_def d(2) using bk f(3) by (simp add: backed_def)
  moreover have "free_space f = free_space (es_free st) \<union> extent a"
    using deallocate_chunk_space[OF _ _ _ f(1)] space_invD[OF sp assms(2)] sp by (simp add: space_inv_def)
  ultimately show ?thesis using d f(2,3) by (simp add: espresso_inv_def)
qed

lemma delete_defined:
  assumes "espresso_inv vol st" "es_lookup st d = Some a"
  shows "next_to_free (es_free st) a \<Longrightarrow> delete_chunk st d = Unspecified"
    and "\<not> next_to_free (es_free st) a \<Longrightarrow> \<exists>st'. delete_chunk st d = Returned (0, st')"
proof -
  have sp: "space_inv vol st" using assms(1) by (simp add: espresso_inv_def)
  note u = deallocate_undefined[OF _ space_invD(1,4)[OF sp assms(2)]]
  show "delete_chunk st d = Unspecified" if "next_to_free (es_free st) a"
    using u(1)[OF _ that] sp assms(2) by (simp add: delete_chunk_def space_inv_def)
  show "\<exists>st'. delete_chunk st d = Returned (0, st')" if "\<not> next_to_free (es_free st) a"
    using u(2)[OF _ that] sp assms(2) by (auto simp: delete_chunk_def space_inv_def)
qed

text \<open>
  Deleting a chunk that exists has no defined outcome when free space follows the chunk. Otherwise it
  returns 0, removes exactly that chunk, gives exactly its bytes back to the free space and keeps
  every other chunk and the invariant. Deleting one that does not exist returns -1 and changes nothing.
\<close>

theorem delete_chunk_correct:
  assumes "espresso_inv vol st"
  shows "case es_lookup st d of
      None \<Rightarrow> delete_chunk st d = Returned (-1, st)
    | Some a \<Rightarrow>
        if next_to_free (es_free st) a then delete_chunk st d = Unspecified
        else \<exists>st'. delete_chunk st d = Returned (0, st') \<and> espresso_inv vol st' \<and>
          free_space (es_free st') = free_space (es_free st) \<union> extent a \<and>
          chunk_view st' = (chunk_view st)(d := \<lambda>_. None) \<and>
          read_chunk st' d offset count = Returned (-1, [])"
proof (cases "es_lookup st d")
  case None
  then show ?thesis by (simp add: delete_chunk_def)
next
  case (Some a)
  have "\<exists>st'. delete_chunk st d = Returned (0, st') \<and> espresso_inv vol st' \<and>
          free_space (es_free st') = free_space (es_free st) \<union> extent a \<and>
          chunk_view st' = (chunk_view st)(d := \<lambda>_. None) \<and>
          read_chunk st' d offset count = Returned (-1, [])" if nx: "\<not> next_to_free (es_free st) a"
  proof -
    obtain st' where st': "delete_chunk st d = Returned (0, st')" using delete_defined(2)[OF assms Some nx] by blast
    note d = delete_effect[OF assms Some st']
    have "chunk_view st' e = ((chunk_view st)(d := \<lambda>_. None)) e" for e
      using d chunk_view_lookup[of st' e st] by (cases "e = d") (auto simp: chunk_view_def)
    moreover have "read_chunk st' d offset count = Returned (-1, [])"
      using d by (simp add: read_chunk_def read_data_missing)
    ultimately show ?thesis using d st' by (auto simp: fun_eq_iff)
  qed
  with delete_defined(1)[OF assms Some] Some show ?thesis by simp
qed

lemma delete_chunk_correct_witness:
  "delete_chunk half_store demo_chunk = Unspecified \<and> (\<exists>st'. delete_chunk full_store demo_chunk = Returned (0, st'))"
proof -
  have l: "es_lookup half_store demo_chunk = Some (mk_address 0 512)" "next_to_free (es_free half_store) (mk_address 0 512)"
    "es_lookup full_store demo_chunk = Some (mk_address 0 512)" "\<not> next_to_free (es_free full_store) (mk_address 0 512)"
    by (simp_all add: half_store_lookup full_store_lookup next_to_free_def) (simp_all add: half_store_def full_store_def)
  then show ?thesis
    using delete_chunk_correct[OF half_store_inv, of demo_chunk 0 0] delete_chunk_correct[OF full_store_inv, of demo_chunk 0 0]
    by auto
qed

subsection \<open>Reachable stores\<close>

text \<open>
  The stores a node that started with an empty volume can be in: writes of at least one byte
  at non-negative offsets, successful or not, and deletions.
\<close>

inductive espresso_reach :: "int \<Rightarrow> espresso \<Rightarrow> bool" for vol where
  started: "espresso_reach vol (espresso_global_data_init empty_espresso vol)"
| written_to: "espresso_reach vol st \<Longrightarrow> 0 \<le> offset \<Longrightarrow> 0 < count \<Longrightarrow>
    write_chunk heap st d offset buf count = Returned (r, st') \<Longrightarrow> espresso_reach vol st'"
| deleted: "espresso_reach vol st \<Longrightarrow> delete_chunk st d = Returned (r, st') \<Longrightarrow> espresso_reach vol st'"

lemma espresso_reach_inv [decafs_inv]:
  assumes "espresso_reach vol st" "0 < vol"
  shows "espresso_inv vol st"
  using assms
proof induction
  case started
  then show ?case by (rule init_espresso_inv)
next
  case (written_to st offset count heap d buf r st')
  then show ?case using write_chunk_effect[of vol st offset count heap d buf r st'] by blast
next
  case (deleted st d r st')
  show ?case
  proof (cases "es_lookup st d")
    case None
    with deleted show ?thesis by (simp add: delete_chunk_def)
  next
    case (Some a)
    with deleted delete_effect[of vol st d a r st'] show ?thesis by blast
  qed
qed

text \<open>
  C17: in every store that is reached from an empty volume by writes of at least one byte at
  non-negative offsets and by deletions, each with a defined outcome (\<open>espresso_reach\<close>), each byte of the
  volume is either free or belongs to exactly one chunk, no two free extents touch, and a chunk never
  reaches outside the volume. Merging with the extent behind a freed one is undefined in the code and
  so not part of these runs.
\<close>

theorem volume_partitioned:
  assumes "espresso_reach vol st" "0 < vol" "0 \<le> p" "p < vol"
  shows "coalesced (es_free st) \<and>
    (if p \<in> free_space (es_free st)
     then \<forall>d a. es_lookup st d = Some a \<longrightarrow> p \<notin> extent a
     else \<exists>!d. \<exists>a. es_lookup st d = Some a \<and> p \<in> extent a \<and> extent a \<subseteq> {0..<vol})"
proof -
  have sp: "space_inv vol st"
    using espresso_reach_inv[OF assms(1,2)] by (simp add: espresso_inv_def)
  then have part: "partition {0..<vol} (free_space (es_free st)) (es_lookup st)"
    by (simp add: space_inv_def)
  show ?thesis
  proof (cases "p \<in> free_space (es_free st)")
    case True
    then show ?thesis using sp partitionD(2)[OF part] by (auto simp: space_inv_def)
  next
    case False
    have "p \<in> free_space (es_free st) \<union> (\<Union>a \<in> ran (es_lookup st). extent a)"
      using part assms(3,4) by (simp add: partition_def)
    then obtain d a where d: "es_lookup st d = Some a" "p \<in> extent a"
      using False by (auto simp: ran_def)
    have "\<exists>!d. \<exists>a. es_lookup st d = Some a \<and> p \<in> extent a \<and> extent a \<subseteq> {0..<vol}"
    proof (rule ex1I[of _ d])
      show "\<exists>a. es_lookup st d = Some a \<and> p \<in> extent a \<and> extent a \<subseteq> {0..<vol}"
        using d partitionD(3)[OF part d(1)] by blast
      show "e = d" if "\<exists>b. es_lookup st e = Some b \<and> p \<in> extent b \<and> extent b \<subseteq> {0..<vol}" for e
        using that d space_inv_disjoint[OF sp _ d(1)] by blast
    qed
    with False sp show ?thesis by (simp add: space_inv_def)
  qed
qed

lemma volume_partitioned_witness:
  "\<exists>st'. write_chunk (\<lambda>_. 0) demo_store demo_chunk 0 (\<lambda>_. 7) 512 = Returned (512, st') \<and>
     (0 \<in> free_space (es_free st') \<or>
      (\<exists>!d. \<exists>a. es_lookup st' d = Some a \<and> 0 \<in> extent a \<and> extent a \<subseteq> {0..<1024}))"
proof -
  obtain st' where w: "write_chunk (\<lambda>_. 0) demo_store demo_chunk 0 (\<lambda>_. 7) 512 = Returned (512, st')"
    using demo_store_write[of 512 "\<lambda>_. 0" demo_chunk "\<lambda>_. 7"] by auto
  have "espresso_reach 1024 st'"
    by (rule espresso_reach.written_to[OF espresso_reach.started _ _ w]) simp_all
  from volume_partitioned[OF this, of 0] w show ?thesis by (auto split: if_splits)
qed

lemma new_chunk_address:
  assumes "espresso_inv vol st" "es_lookup st d = None" "0 \<le> offset" "0 < count"
    and "write_chunk heap st d offset buf count = Returned (count, st1)"
  obtains a f where "allocate_chunk (es_free st) (offset + count) = Some (a, f)" "es_lookup st1 d = Some a" "es_free st1 = f"
proof -
  obtain a f where al: "allocate_chunk (es_free st) (offset + count) = Some (a, f)"
    using assms(2-5) by (auto simp: write_chunk_def split: option.splits if_splits)
  let ?st = "st\<lparr>es_metadata := oc_insert data_descriptor_less fst (d, a) (es_metadata st), es_free := f\<rparr>"
  have sp: "space_inv vol st" and n: "0 < offset + count" using assms(1,3,4) by (simp_all add: espresso_inv_def)
  note s1 = space_inv_allocate[OF sp assms(2) n al]
  have l: "es_lookup ?st d = Some a" using s1(2) by simp
  have "st1 = sys_write ?st (da_offset a + offset) buf count"
    using assms(2-5) al s1(3) write_data_inside[OF s1(1) l assms(3), of count buf]
    by (simp add: write_chunk_def Let_def)
  with al l show thesis by (intro that[of a f]) simp_all
qed

text \<open>
  A chunk that has just been written into a larger free extent is followed by the rest of it, so
  it cannot be deleted again with a defined outcome, nor made larger.
\<close>

theorem fresh_chunk_not_deletable:
  assumes "espresso_inv vol st" "es_lookup st d = None" "0 \<le> offset" "0 < count"
    and "write_chunk heap st d offset buf count = Returned (count, st1)"
    and "\<forall>e \<in> set (es_free st). da_size e \<noteq> offset + count"
  shows "delete_chunk st1 d = Unspecified \<and>
    (\<forall>heap' offset' buf' count'. 0 \<le> offset' \<longrightarrow> 0 < count' \<longrightarrow> offset + count < offset' + count' \<longrightarrow>
       write_chunk heap' st1 d offset' buf' count' = Unspecified)"
proof -
  obtain a f where a: "allocate_chunk (es_free st) (offset + count) = Some (a, f)" "es_lookup st1 d = Some a" "es_free st1 = f"
    by (rule new_chunk_address[OF assms(1-5)])
  have co: "coalesced (es_free st)" and n: "0 < offset + count" using assms(1,3,4) by (simp_all add: espresso_inv_def space_inv_def)
  obtain xs it ys where e: "es_free st = xs @ it # ys" "offset + count \<le> da_size it"
    "a = mk_address (da_offset it) (offset + count)" "f = xs @ remainder it (offset + count) @ ys"
    using allocate_chunk_Some[OF co n a(1)] by metis
  have nx: "next_to_free (es_free st1) a"
    using e assms(6) a(3) by (auto simp: next_to_free_def remainder_def)
  have inv: "espresso_inv vol st1" using write_chunk_effect[OF assms(1,3-5)] by blast
  have sp: "space_inv vol st1" using inv by (simp add: espresso_inv_def)
  note u = deallocate_undefined[OF _ space_invD(1,4)[OF sp a(2)]]
  have "deallocate_chunk (es_free st1) a = Unspecified"
    by (rule u(1)) (use inv nx in \<open>simp_all add: espresso_inv_def space_inv_def\<close>)
  then show ?thesis
    using delete_defined(1)[OF inv a(2) nx] write_growing(1)[OF inv a(2)] e(3) by simp
qed

lemma fresh_chunk_not_deletable_witness:
  "\<exists>st1. write_chunk (\<lambda>_. 0) demo_store demo_chunk 0 (\<lambda>_. 7) 512 = Returned (512, st1) \<and>
     delete_chunk st1 demo_chunk = Unspecified"
proof -
  obtain st1 where "write_chunk (\<lambda>_. 0) demo_store demo_chunk 0 (\<lambda>_. 7) 512 = Returned (512, st1)"
    using demo_store_write[of 512 "\<lambda>_. 0" demo_chunk "\<lambda>_. 7"] by auto
  from fresh_chunk_not_deletable[OF init_espresso_inv[of 1024] _ _ _ this] this show ?thesis by auto
qed

text \<open>
  When deleting a chunk just written is defined, it gives back exactly the free extents there were,
  not only the same bytes.
\<close>

theorem write_delete_free_list:
  assumes "espresso_inv vol st" "es_lookup st d = None" "0 \<le> offset" "0 < count"
    and "write_chunk heap st d offset buf count = Returned (count, st1)" "delete_chunk st1 d = Returned (r, st2)"
  shows "r = 0 \<and> es_free st2 = es_free st \<and> chunk_view st2 = chunk_view st"
proof -
  have co: "coalesced (es_free st)" using assms(1) by (simp add: espresso_inv_def space_inv_def)
  have n: "0 < offset + count" using assms(3,4) by simp
  obtain a f where a: "allocate_chunk (es_free st) (offset + count) = Some (a, f)" "es_lookup st1 d = Some a" "es_free st1 = f"
    by (rule new_chunk_address[OF assms(1-5)])
  have i1: "espresso_inv vol st1" and w: "written st d offset buf count st1"
    using write_chunk_effect[OF assms(1,3-5)] assms(4) by simp_all
  note d = delete_effect[OF i1 a(2) assms(6)]
  have "free_space f = free_space (es_free st) - extent a" "extent a \<subseteq> free_space (es_free st)"
    using allocate_chunk_space[OF co n a(1)] by simp_all
  then have "free_space (es_free st2) = free_space (es_free st)" using d a(3) by auto
  moreover have "coalesced (es_free st2)" using d by (simp add: espresso_inv_def space_inv_def)
  ultimately have "es_free st2 = es_free st" using coalesced_unique co by blast
  moreover have "chunk_view st2 e = chunk_view st e" for e
    using d w chunk_view_lookup[of st2 e st1] assms(2)
    by (cases "e = d") (auto simp: written_def chunk_view_def)
  ultimately show ?thesis using d by (auto simp: fun_eq_iff)
qed

text \<open>A chunk that fills the volume.\<close>

lemma whole_volume:
  assumes "write_chunk heap (espresso_global_data_init empty_espresso n) d 0 buf n = Returned (n, st1)" "0 < n"
  shows "es_lookup st1 = [d \<mapsto> mk_address 0 n]" "es_free st1 = []" "\<exists>st2. delete_chunk st1 d = Returned (0, st2)"
proof -
  have "st1 = sys_write ((espresso_global_data_init empty_espresso n)\<lparr>es_metadata := [(d, mk_address 0 n)], es_free := []\<rparr>) 0 buf n"
    using assms by (simp add: write_chunk_def allocate_chunk_def write_data_def Let_def es_lookup_def oc_insert_def oc_before_def
        oc_lower_bound_def oc_find_def om_find_def data_descriptor_less_def split: if_splits)
  then show l: "es_lookup st1 = [d \<mapsto> mk_address 0 n]" and f: "es_free st1 = []"
    by (simp_all add: es_lookup_def fun_eq_iff descriptor_order.om_find_map_of oc_sorted_def)
  show "\<exists>st2. delete_chunk st1 d = Returned (0, st2)" using l f by (simp add: delete_chunk_def deallocate_chunk_def)
qed

lemma write_delete_free_list_witness:
  "\<exists>st1 st2. delete_chunk st1 demo_chunk = Returned (0, st2) \<and> es_free st2 = [mk_address 0 1024]"
proof -
  obtain st1 where st1: "write_chunk (\<lambda>_. 0) demo_store demo_chunk 0 (\<lambda>_. 7) 1024 = Returned (1024, st1)"
    using demo_store_write[of 1024 "\<lambda>_. 0" demo_chunk "\<lambda>_. 7"] by auto
  obtain st2 where "delete_chunk st1 demo_chunk = Returned (0, st2)" using whole_volume(3)[OF st1] by auto
  with write_delete_free_list[OF init_espresso_inv[of 1024] _ _ _ st1 this] show ?thesis by auto
qed

section \<open>Where the store loses bytes\<close>

lemma allocate_zero:
  assumes "coalesced (e # es)"
  shows "allocate_chunk (e # es) 0 = Some (mk_address (da_offset e) 0, es)"
proof -
  have "0 < da_size e" using assms by simp
  moreover have "oc_find data_address_less id (mk_address (da_offset e) (da_size e)) (e # es) = Some e"
    by (simp add: oc_find_def oc_lower_bound_def data_address_less_def)
  ultimately show ?thesis by (simp add: allocate_chunk_def Let_def oc_insert_def)
qed

text \<open>
  A first write of zero bytes at offset 0 drops the whole first free extent: it is no longer
  free and no chunk owns any byte of it.
\<close>

theorem empty_write_loses_extent:
  assumes "espresso_inv vol st" "es_lookup st d = None" "es_free st = e # es"
  shows "\<exists>st'. write_chunk heap st d 0 buf 0 = Returned (0, st') \<and> es_free st' = es \<and>
    extent e \<noteq> {} \<and> extent e \<inter> free_space (es_free st') = {} \<and>
    (\<forall>c a. es_lookup st' c = Some a \<longrightarrow> extent e \<inter> extent a = {})"
proof -
  have sp: "space_inv vol st" using assms(1) by (simp add: espresso_inv_def)
  then have co: "coalesced (e # es)" using assms(3) by (simp add: space_inv_def)
  let ?a = "mk_address (da_offset e) 0"
  let ?st' = "st\<lparr>es_metadata := oc_insert data_descriptor_less fst (d, ?a) (es_metadata st), es_free := es\<rparr>"
  have "es_lookup ?st' = es_lookup (st\<lparr>es_metadata := om_update data_descriptor_less d ?a (es_metadata st)\<rparr>)"
    using assms(2) by (intro es_lookup_metadata) (simp add: es_lookup_def insert_as_update)
  then have l: "es_lookup ?st' = (es_lookup st)(d \<mapsto> ?a)"
    using es_lookup_update[OF sp] by simp
  have e: "0 < da_size e" using co by simp
  have "e \<in> set (es_free st)" using assms(3) by simp
  then have "extent e \<subseteq> free_space (es_free st)" by (auto simp: free_space_def)
  then have own: "extent e \<inter> extent a = {}" if "es_lookup st c = Some a" for c a
    using space_invD(4)[OF sp that] by blast
  have "partition {0..<vol} (free_space (es_free st)) (es_lookup st)" using sp by (simp add: space_inv_def)
  then have "free_space (es_free st) \<subseteq> {0..<vol}" by (rule partitionD(5))
  then have "0 \<le> da_offset e" using assms(3) e by (auto simp: extent_def)
  with e l assms(2,3) co have w: "write_chunk heap st d 0 buf 0 = Returned (0, ?st')"
    by (simp add: write_chunk_def allocate_zero Let_def write_data_def sys_write_def)
  have "extent e \<inter> extent a = {}" if "es_lookup ?st' c = Some a" for c a
    using that own l by (auto simp: extent_def split: if_splits)
  moreover have "extent e \<inter> free_space es = {}" using coalesced_disjoint[of "[]" e es] co by simp
  ultimately show ?thesis using w e by (intro exI[of _ ?st']) simp
qed

lemma empty_write_loses_extent_witness:
  "\<exists>st'. write_chunk (\<lambda>_. 0) demo_store demo_chunk 0 (\<lambda>_. 0) 0 = Returned (0, st') \<and> es_free st' = []"
  using empty_write_loses_extent[OF init_espresso_inv[of 1024], of demo_chunk "mk_address 0 1024" "[]"
      "\<lambda>_. 0" "\<lambda>_. 0"] by auto

text \<open>
  \<open>write_chunk\<close> does not reject a negative offset: the write succeeds and overwrites the
  bytes of whatever chunk lies before.
\<close>

theorem negative_offset_overwrites:
  assumes "espresso_inv vol st" "es_lookup st d = Some a" "es_lookup st e = Some b" "e \<noteq> d"
    and "offset < 0" "0 \<le> da_offset a + offset" "0 < count" "offset + count \<le> da_size a"
    and "p \<in> extent b" "da_offset a + offset \<le> p" "p < da_offset a + offset + count"
  shows "\<exists>st'. write_chunk heap st d offset buf count = Returned (count, st') \<and>
    chunk_view st' e (p - da_offset b) = Some (buf (nat (p - (da_offset a + offset))))"
proof (intro exI conjI)
  let ?st' = "sys_write st (da_offset a + offset) buf count"
  show "write_chunk heap st d offset buf count = Returned (count, ?st')"
    using assms by (simp add: write_chunk_def write_data_def)
  show "chunk_view ?st' e (p - da_offset b) = Some (buf (nat (p - (da_offset a + offset))))"
    using assms by (simp add: chunk_view_def extent_def sys_write_def)
qed

lemma negative_offset_overwrites_witness:
  "\<exists>st'. write_chunk (\<lambda>_. 0) full_store (demo_chunk\<lparr>dd_chunk_num := 2\<rparr>) (-512) (\<lambda>_. 7) 1 = Returned (1, st') \<and>
     chunk_view st' demo_chunk 0 = Some 7"
  using negative_offset_overwrites[OF full_store_inv, of "demo_chunk\<lparr>dd_chunk_num := 2\<rparr>" "mk_address 512 512"
      demo_chunk "mk_address 0 512" "-512" 1 0 "\<lambda>_. 0" "\<lambda>_. 7"]
  by (simp add: full_store_lookup extent_def)

text \<open>
  A start that finds chunks and an empty free list makes the whole volume free, so every byte
  of every chunk is offered to the next write.
\<close>

theorem restart_full_frees_chunks:
  assumes "espresso_inv vol st" "es_free st = []"
  defines "st' \<equiv> espresso_global_data_init st vol"
  shows "es_lookup st' = es_lookup st \<and>
    (\<forall>d a. es_lookup st d = Some a \<longrightarrow> extent a \<subseteq> free_space (es_free st') \<and> \<not> espresso_inv vol st')"
proof -
  have f: "es_free st' = [mk_address 0 vol]" and l: "es_lookup st' = es_lookup st"
    using assms(2) by (simp_all add: st'_def espresso_global_data_init_def oc_insert_def oc_before_def
        oc_lower_bound_def oc_find_def)
  have "extent a \<subseteq> free_space (es_free st')" "\<not> espresso_inv vol st'" if "es_lookup st d = Some a" for d a
  proof -
    have a: "0 < da_size a" "0 \<le> da_offset a" "da_offset a + da_size a \<le> vol"
      using assms(1) space_invD[of vol st d a] that by (simp_all add: espresso_inv_def)
    then show sub: "extent a \<subseteq> free_space (es_free st')" using f by (auto simp: extent_def)
    have "extent a \<noteq> {}" using a by simp
    with sub have "extent a \<inter> free_space (es_free st') \<noteq> {}" by blast
    then show "\<not> espresso_inv vol st'"
      using space_invD(4)[of vol st' d a] that l by (auto simp: espresso_inv_def)
  qed
  with l show ?thesis by simp
qed

lemma restart_full_frees_chunks_witness:
  "\<not> espresso_inv 1024 (espresso_global_data_init full_store 1024)"
proof -
  have "es_lookup full_store demo_chunk = Some (mk_address 0 512)" by (simp add: full_store_lookup)
  moreover have "es_free full_store = []" by (simp add: full_store_def)
  ultimately show ?thesis using restart_full_frees_chunks[OF full_store_inv] by blast
qed

end
