(* ===== verification/Espresso_Node.thy ===== *)
theory Espresso_Node
  imports Messages Espresso_Storage
begin

text \<open>
  An espresso node: \<open>espresso_packet_processor.cpp\<close>, which serves the three chunk requests from
  the store of \<open>Espresso_Storage\<close>, and \<open>espresso_client.cpp\<close>, which receives them on the
  connection to the barista and sends the answers back.
\<close>

section \<open>espresso_packet_processor.cpp\<close>

definition descriptor_of :: "file_packet \<Rightarrow> data_descriptor" where
  "descriptor_of m = \<lparr>dd_file_id = sint (fp_file_id m), dd_stripe_id = sint (fp_stripe_id m),
     dd_chunk_num = sint (fp_chunk_num m)\<rparr>"

definition built :: "packet option \<Rightarrow> packet outcome" where
  "built p = (case p of None \<Rightarrow> Unspecified | Some p \<Rightarrow> Returned p)"

text \<open>The answer is read into an array of 65536 bytes.\<close>

definition process_read_packet :: "(nat \<Rightarrow> u8) \<Rightarrow> espresso \<Rightarrow> u32 \<Rightarrow> file_packet \<Rightarrow> packet outcome" where
  "process_read_packet heap st i m =
     outcome_bind (read_chunk st (descriptor_of m) (sint (fp_offset m)) (fp_count m)) (\<lambda>(bytes_read, buffer).
       guard_defined (length buffer \<le> 65536)
        (built (ReadChunkResponse heap i (m\<lparr>fp_count := bytes_read\<rparr>) buffer)))"

definition process_write_packet ::
    "(nat \<Rightarrow> u8) \<Rightarrow> espresso \<Rightarrow> u32 \<Rightarrow> file_packet \<Rightarrow> u8 list \<Rightarrow> (packet \<times> espresso) outcome" where
  "process_write_packet heap st i m data =
     outcome_bind (write_chunk heap st (descriptor_of m) (sint (fp_offset m))
         (\<lambda>k. if k < length data then data ! k else heap k) (fp_count m)) (\<lambda>(bytes_written, st').
     outcome_bind (built (WriteChunkResponse heap i (m\<lparr>fp_count := bytes_written\<rparr>)))
       (\<lambda>p. Returned (p, st')))"

text \<open>The result of \<open>delete_chunk\<close> is dropped.\<close>

definition process_delete_packet ::
    "(nat \<Rightarrow> u8) \<Rightarrow> u32 \<Rightarrow> espresso \<Rightarrow> u32 \<Rightarrow> file_packet \<Rightarrow> (packet \<times> espresso) outcome" where
  "process_delete_packet heap junk st i m =
     outcome_bind (delete_chunk st (descriptor_of m)) (\<lambda>(_, st').
     outcome_bind (built (DeleteChunkResponse heap junk i (fp_file_id m) (fp_stripe_id m) (fp_chunk_num m)))
       (\<lambda>p. Returned (p, st')))"

section \<open>espresso_client.cpp\<close>

definition espresso_hello :: "(nat \<Rightarrow> u8) \<Rightarrow> u32 \<Rightarrow> packet option" where
  "espresso_hello heap node_id = EspressoInit heap (sint node_id)"

text \<open>
  \<open>handleMessageFromServer\<close>: the bytes it sends back (none for a packet it does not know), the
  store, and the bytes left on the socket.
\<close>

definition espresso_handle ::
    "(nat \<Rightarrow> u8) \<Rightarrow> u32 \<Rightarrow> espresso \<Rightarrow> u8 list \<Rightarrow> (u8 list \<times> espresso \<times> u8 list) outcome" where
  "espresso_handle heap junk st avail =
     outcome_bind (receive_chunk_message heap avail) (\<lambda>(msg, rest).
     outcome_bind
       (case msg of
          None \<Rightarrow> Returned ([], st)
        | Some (Get_Chunk i m) \<Rightarrow>
            outcome_bind (process_read_packet heap st i m) (\<lambda>p. Returned (take (unat (pk_size p)) (pk_buf p), st))
        | Some (Put_Chunk i m data) \<Rightarrow>
            outcome_bind (process_write_packet heap st i m data)
              (\<lambda>(p, st'). Returned (take (unat (pk_size p)) (pk_buf p), st'))
        | Some (Drop_Chunk i m) \<Rightarrow>
            outcome_bind (process_delete_packet heap junk st i m)
              (\<lambda>(p, st'). Returned (take (unat (pk_size p)) (pk_buf p), st')))
       (\<lambda>(out, st'). Returned (out, st', rest)))"

section \<open>What the node answers\<close>

lemma answer_bytes:
  assumes "valid_message m" "message_packet heap m = Some p"
  shows "receive_message heap' (take (unat (pk_size p)) (pk_buf p)) = Returned (Some m, [])"
proof -
  obtain q where q: "\<And>heap. message_packet heap m = Some q"
    "\<And>heap rest. receive_message heap (pk_buf q @ rest) = Returned (Some m, rest)"
    "unat (pk_size q) = length (pk_buf q)"
    by (rule message_received[OF assms(1)]) blast
  with assms(2) have "p = q" by simp
  with q(2)[of heap' "[]"] q(3) show ?thesis by simp
qed

lemma built_message:
  assumes "valid_message m"
  obtains p where "built (message_packet heap m) = Returned p"
    "\<And>heap. receive_message heap (take (unat (pk_size p)) (pk_buf p)) = Returned (Some m, [])"
proof -
  obtain p where p: "message_packet heap m = Some p" using message_received[OF assms] by metis
  with answer_bytes[OF assms p] show thesis by (intro that[of p]) (simp_all add: built_def)
qed

text \<open>A request of the barista as the bytes the node finds on its socket.\<close>

definition request_bytes :: "u32 \<Rightarrow> chunk_request \<Rightarrow> u8 list" where
  "request_bytes junk r =
     (case chunk_message_packet (\<lambda>_. 0) (network_message junk r) of Some p \<Rightarrow> pk_buf p | None \<Rightarrow> [])"

lemma request_bytes_received:
  assumes "case r of Write_Chunk i c node offset data \<Rightarrow> length data < 2 ^ 31 - 100 | _ \<Rightarrow> True"
  shows "receive_chunk_message heap (request_bytes junk r @ rest) = Returned (Some (network_message junk r), rest)"
  using chunk_message_received[OF network_message_valid[OF assms, of junk]]
  by (metis option.simps(5) request_bytes_def)

definition chunk_descriptor :: "file_chunk \<Rightarrow> data_descriptor" where
  "chunk_descriptor c = \<lparr>dd_file_id = sint (fc_file_id c), dd_stripe_id = sint (fc_stripe_id c),
     dd_chunk_num = sint (fc_chunk_num c)\<rparr>"

lemma descriptor_of_fields [simp]: "descriptor_of (chunk_fields fd c offset count) = chunk_descriptor c"
  by (simp add: descriptor_of_def chunk_fields_def chunk_descriptor_def)

lemma chunk_fields_simps [simp]:
  "fp_count (chunk_fields fd c offset count) = count"
  "fp_offset (chunk_fields fd c offset count) = word_of_int offset"
  "(chunk_fields fd c offset count)\<lparr>fp_count := k\<rparr> = chunk_fields fd c offset k"
  by (simp_all add: chunk_fields_def)

lemma sint_offset: "0 \<le> off \<Longrightarrow> off < 2 ^ 31 \<Longrightarrow> sint (word_of_int off :: u32) = off"
  by (simp add: u32_sint_of_int)

text \<open>A write request at the node is a \<open>write_chunk\<close> and a packet with its result.\<close>

lemma node_write_chunk:
  assumes "0 \<le> off" "off < 2 ^ 31" "length data < 2 ^ 31 - 100"
  shows "espresso_handle heap junk st (request_bytes junk' (Write_Chunk i c node off data) @ rest) =
    outcome_bind (write_chunk heap st (chunk_descriptor c) off (\<lambda>k. if k < length data then data ! k else heap k)
      (int (length data))) (\<lambda>(r, st').
    outcome_bind (built (message_packet heap (Chunk_Written i (chunk_fields 0 c off r))))
      (\<lambda>p. Returned (take (unat (pk_size p)) (pk_buf p), st', rest)))"
proof -
  have "receive_chunk_message heap (request_bytes junk' (Write_Chunk i c node off data) @ rest) =
      Returned (Some (Put_Chunk i (chunk_fields 0 c off (int (length data))) data), rest)"
    using request_bytes_received[of "Write_Chunk i c node off data" heap junk' rest] assms(3) by simp
  then show ?thesis
    using assms(1,2)
    by (simp add: espresso_handle_def process_write_packet_def sint_offset outcome_bind_assoc case_prod_unfold)
qed

text \<open>What the node has done when it has served a write, and when it does.\<close>

lemma node_wrote:
  fixes c :: file_chunk
  assumes "espresso_inv vol st" "0 \<le> off" "off < 2 ^ 31" "0 < length data" "length data < 2 ^ 31 - 100"
    and "espresso_handle heap junk st (request_bytes junk' (Write_Chunk i c node off data) @ rest) = Returned (out, st', rest')"
  defines "d \<equiv> chunk_descriptor c" and "n \<equiv> int (length data)"
  shows "rest' = rest \<and> espresso_inv vol st' \<and> (\<exists>r buf. (\<forall>k < length data. buf k = data ! k) \<and>
    (\<forall>heap'. receive_message heap' out = Returned (Some (Chunk_Written i (chunk_fields 0 c off r)), [])) \<and>
    (r = n \<and> written st d off buf n st' \<or> r = -1 \<and> chunk_view st' = chunk_view st \<and> es_free st' = es_free st))"
proof -
  let ?buf = "\<lambda>k. if k < length data then data ! k else heap k"
  have n: "0 < n" "n < 2 ^ 31" using assms by simp_all
  obtain r p where w: "write_chunk heap st d off ?buf n = Returned (r, st')"
    "built (message_packet heap (Chunk_Written i (chunk_fields 0 c off r))) = Returned p"
    "out = take (unat (pk_size p)) (pk_buf p)" "rest' = rest"
    using assms(6) unfolding node_write_chunk[OF assms(2,3,5)] d_def n_def by auto
  note e = write_chunk_effect[OF assms(1,2) n(1) w(1)]
  have "fits_int r" using e n by (auto simp: fits_int_def)
  then have v: "valid_message (Chunk_Written i (chunk_fields 0 c off r))" by simp
  obtain q where q: "built (message_packet heap (Chunk_Written i (chunk_fields 0 c off r))) = Returned q"
    "\<And>heap. receive_message heap (take (unat (pk_size q)) (pk_buf q)) =
       Returned (Some (Chunk_Written i (chunk_fields 0 c off r)), [])"
    by (rule built_message[OF v]) blast
  have b: "\<forall>k < length data. ?buf k = data ! k" by simp
  have "receive_message heap' out = Returned (Some (Chunk_Written i (chunk_fields 0 c off r)), [])" for heap'
    using q w(2,3) by simp
  with b have "\<exists>r buf. (\<forall>k < length data. buf k = data ! k) \<and>
    (\<forall>heap'. receive_message heap' out = Returned (Some (Chunk_Written i (chunk_fields 0 c off r)), [])) \<and>
    (r = n \<and> written st d off buf n st' \<or> r = -1 \<and> chunk_view st' = chunk_view st \<and> es_free st' = es_free st)"
    using conjunct2[OF e] by (intro exI[of _ r] exI[of _ ?buf]) simp
  with e w(4) show ?thesis by simp
qed

lemma node_writes:
  fixes c :: file_chunk
  assumes "espresso_inv vol st" "0 \<le> off" "off < 2 ^ 31" "0 < length data" "length data < 2 ^ 31 - 100"
    and "off + int (length data) \<le> chunk_size_of st (chunk_descriptor c) \<or>
      (\<exists>e \<in> set (room st (chunk_descriptor c)). off + int (length data) \<le> da_size e)"
  defines "d \<equiv> chunk_descriptor c" and "n \<equiv> int (length data)"
  shows "\<exists>out st' buf. espresso_handle heap junk st (request_bytes junk' (Write_Chunk i c node off data) @ rest) =
      Returned (out, st', rest) \<and> espresso_inv vol st' \<and>
    (\<forall>heap'. receive_message heap' out = Returned (Some (Chunk_Written i (chunk_fields 0 c off n)), [])) \<and>
    (\<forall>k < length data. buf k = data ! k) \<and> written st d off buf n st'"
proof -
  let ?buf = "\<lambda>k. if k < length data then data ! k else heap k"
  have n: "0 < n" "n < 2 ^ 31" using assms by simp_all
  obtain st' where w: "write_chunk heap st d off ?buf n = Returned (n, st')" "espresso_inv vol st'" "written st d off ?buf n st'"
    using write_succeeds[OF assms(1,2) n(1), of d heap ?buf] assms(6) by (auto simp: n_def d_def)
  have v: "valid_message (Chunk_Written i (chunk_fields 0 c off n))" using n by (simp add: fits_int_def)
  obtain p where p: "built (message_packet heap (Chunk_Written i (chunk_fields 0 c off n))) = Returned p"
    "\<And>heap. receive_message heap (take (unat (pk_size p)) (pk_buf p)) =
       Returned (Some (Chunk_Written i (chunk_fields 0 c off n)), [])"
    by (rule built_message[OF v]) blast
  have h: "espresso_handle heap junk st (request_bytes junk' (Write_Chunk i c node off data) @ rest) =
      Returned (take (unat (pk_size p)) (pk_buf p), st', rest)"
    using w(1) p(1) unfolding node_write_chunk[OF assms(2,3,5)] d_def n_def by simp
  show ?thesis
  proof (intro exI conjI)
    show "\<forall>k < length data. ?buf k = data ! k" by simp
  qed (rule h w(2,3) allI p(2))+
qed

lemma node_reads:
  assumes "espresso_inv vol st" "0 \<le> off" "off < 2 ^ 31" "length data \<le> 65536"
    and "es_lookup st (chunk_descriptor c) \<noteq> None"
    and "off + int (length data) \<le> chunk_size_of st (chunk_descriptor c)"
    and "\<And>k. k < length data \<Longrightarrow> chunk_view st (chunk_descriptor c) (off + int k) = Some (data ! k)"
  shows "\<exists>out. espresso_handle heap junk st
      (request_bytes junk' (Read_Chunk i c node off (of_nat (length data))) @ rest) = Returned (out, st, rest) \<and>
    (\<forall>heap'. receive_message heap' out =
       Returned (Some (Chunk_Read i (chunk_fields 0 c off (int (length data))) data), []))"
proof -
  let ?n = "int (length data)"
  have n: "sint (of_nat (length data) :: u32) = ?n"
    using assms(4) u32_sint_uint[of "of_nat (length data)"] uint_of_nat_small[of "length data"] by simp
  have "read_chunk st (chunk_descriptor c) off ?n = Returned (?n, map ((!) data) [0..<nat ?n])"
    using assms(6,7) by (intro read_chunk_content[OF assms(1,2) _ _ assms(5)]) simp_all
  then have r: "read_chunk st (chunk_descriptor c) off ?n = Returned (?n, data)" by (simp add: map_nth)
  have v: "valid_message (Chunk_Read i (chunk_fields 0 c off ?n) data)"
    using assms(4) by (simp add: valid_data_def fits_int_def)
  obtain p where p: "built (message_packet heap (Chunk_Read i (chunk_fields 0 c off ?n) data)) = Returned p"
    "\<And>heap. receive_message heap (take (unat (pk_size p)) (pk_buf p)) =
       Returned (Some (Chunk_Read i (chunk_fields 0 c off ?n) data), [])"
    by (rule built_message[OF v]) blast
  have "receive_chunk_message heap
      (request_bytes junk' (Read_Chunk i c node off (of_nat (length data))) @ rest) =
      Returned (Some (Get_Chunk i (chunk_fields 0 c off ?n)), rest)"
    using request_bytes_received[of "Read_Chunk i c node off (of_nat (length data))" heap junk' rest] n by simp
  then have "espresso_handle heap junk st
      (request_bytes junk' (Read_Chunk i c node off (of_nat (length data))) @ rest) =
      Returned (take (unat (pk_size p)) (pk_buf p), st, rest)"
    using r p(1) assms(2-4) by (simp add: espresso_handle_def process_read_packet_def sint_offset)
  with p(2) show ?thesis by blast
qed

text \<open>
  C18: data that the barista sends to a node in a write request, for a range inside the chunk the
  node has or for a new chunk that fits one of its free extents (a chunk that would have to grow is
  not covered, see C16), comes back in the answer to a read request for the same range: through both
  packets, the node's store and both answers, byte for byte.
\<close>

theorem chunk_round_trip:
  assumes "espresso_inv vol st" "0 \<le> off" "off < 2 ^ 31" "0 < length data" "length data \<le> 65536"
    and "off + int (length data) \<le> chunk_size_of st (chunk_descriptor c) \<or>
      (\<exists>e \<in> set (room st (chunk_descriptor c)). off + int (length data) \<le> da_size e)"
  shows "\<exists>out1 st1 out2. espresso_handle heap junk st (request_bytes junk (Write_Chunk i c node off data)) =
      Returned (out1, st1, []) \<and>
    receive_message heap out1 = Returned (Some (Chunk_Written i (chunk_fields 0 c off (int (length data)))), []) \<and>
    espresso_handle heap junk st1 (request_bytes junk (Read_Chunk j c node off (of_nat (length data)))) =
      Returned (out2, st1, []) \<and>
    receive_message heap out2 = Returned (Some (Chunk_Read j (chunk_fields 0 c off (int (length data))) data), [])"
proof -
  let ?d = "chunk_descriptor c" and ?n = "int (length data)"
  have len: "length data < 2 ^ 31 - 100" using assms(5) by simp
  obtain out1 st1 buf where w: "espresso_handle heap junk st (request_bytes junk (Write_Chunk i c node off data)) =
      Returned (out1, st1, [])" "espresso_inv vol st1"
    "receive_message heap out1 = Returned (Some (Chunk_Written i (chunk_fields 0 c off ?n)), [])"
    "\<forall>k < length data. buf k = data ! k" "written st ?d off buf ?n st1"
    using node_writes[OF assms(1-4) len assms(6), where heap = heap and junk = junk and junk' = junk and i = i
      and node = node and rest = "[]"] by auto
  have view: "chunk_view st1 ?d (off + int k) = Some (data ! k)" if "k < length data" for k
    using w(4,5) that assms(2) by (simp add: written_def)
  have "\<exists>out. espresso_handle heap junk st1 (request_bytes junk (Read_Chunk j c node off (of_nat (length data))) @ []) =
      Returned (out, st1, []) \<and> (\<forall>heap'. receive_message heap' out =
       Returned (Some (Chunk_Read j (chunk_fields 0 c off ?n) data), []))"
  proof (rule node_reads[OF w(2) assms(2,3,5) _ _ view])
    show "es_lookup st1 ?d \<noteq> None" using view[of 0] assms(4) by (cases "es_lookup st1 ?d") (simp_all add: chunk_view_def)
    show "off + ?n \<le> chunk_size_of st1 ?d" using w(5) by (simp add: written_def)
  qed
  with w(1,3) show ?thesis by auto
qed

lemma chunk_round_trip_witness:
  "\<exists>out1 st1 out2. espresso_handle (\<lambda>_. 0) 9 demo_store (request_bytes 9 (Write_Chunk 1 (mk_chunk 1 1 1) 2 0 [3, 4, 5])) =
      Returned (out1, st1, []) \<and>
    espresso_handle (\<lambda>_. 0) 9 st1 (request_bytes 9 (Read_Chunk 2 (mk_chunk 1 1 1) 2 0 3)) = Returned (out2, st1, []) \<and>
    receive_message (\<lambda>_. 0) out2 =
      Returned (Some (Chunk_Read 2 (chunk_fields 0 (mk_chunk 1 1 1) 0 3) [3, 4, 5]), [])"
  using chunk_round_trip[OF init_espresso_inv[of 1024], where off = 0 and data = "[3, 4, 5]"
      and c = "mk_chunk 1 1 1" and heap = "\<lambda>_. 0" and junk = 9 and i = 1 and j = 2 and node = 2]
  by (auto simp: init_room)

end
