(* ===== verification/Cluster.thy ===== *)
theory Cluster
  imports Barista_Read Barista_Server Espresso_Node
begin

text \<open>
  The barista and its espresso nodes together: the requests that a write of a file sends are
  served by the stores of the nodes, and a later read of the same range finds there the bytes
  that were written. Requests and answers go through the packets; each node serves the requests
  it gets in the order in which they were sent. A run of the nodes (\<open>cluster_run\<close>) returns only when
  every store operation in it has a defined outcome.
\<close>

section \<open>Serving requests\<close>

type_synonym cluster = "int \<Rightarrow> espresso"

text \<open>A node serves a request from its connection; the barista decodes what the node sends back.\<close>

definition node_step ::
    "(nat \<Rightarrow> u8) \<Rightarrow> u32 \<Rightarrow> chunk_request \<Rightarrow> cluster \<Rightarrow> (barista_message option \<times> cluster) outcome" where
  "node_step heap junk r cl =
     outcome_bind (espresso_handle heap junk (cl (request_node r)) (request_bytes junk r)) (\<lambda>(out, e, _).
     outcome_bind (receive_message heap out) (\<lambda>(m, _). Returned (m, cl(request_node r := e))))"

fun cluster_run ::
    "(nat \<Rightarrow> u8) \<Rightarrow> u32 \<Rightarrow> chunk_request list \<Rightarrow> cluster \<Rightarrow> (barista_message option list \<times> cluster) outcome" where
  "cluster_run heap junk [] cl = Returned ([], cl)"
| "cluster_run heap junk (r # rs) cl =
     outcome_bind (node_step heap junk r cl) (\<lambda>(m, cl1).
     outcome_bind (cluster_run heap junk rs cl1) (\<lambda>(ms, cl2). Returned (m # ms, cl2)))"

section \<open>Writes\<close>

text \<open>The answer to a write that succeeded, and what the node holds then.\<close>

fun stored_answer :: "chunk_request \<Rightarrow> barista_message option" where
  "stored_answer (Write_Chunk i c nd off data) = Some (Chunk_Written i (chunk_fields 0 c off (int (length data))))"
| "stored_answer r = None"

fun stored :: "cluster \<Rightarrow> chunk_request \<Rightarrow> bool" where
  "stored cl (Write_Chunk i c nd off data) \<longleftrightarrow>
     (\<forall>k < length data. chunk_view (cl nd) (chunk_descriptor c) (off + int k) = Some (data ! k))"
| "stored cl r \<longleftrightarrow> False"

fun proper_write :: "chunk_request \<Rightarrow> bool" where
  "proper_write (Write_Chunk i c nd off data) \<longleftrightarrow> 0 \<le> off \<and> off < 2 ^ 31 \<and> 0 < length data \<and> length data < 2 ^ 31 - 100"
| "proper_write r \<longleftrightarrow> False"

text \<open>Two writes that go to different chunks or nodes, or write the same bytes to the same place.\<close>

fun agrees :: "chunk_request \<Rightarrow> chunk_request \<Rightarrow> bool" where
  "agrees (Write_Chunk i c nd off data) (Write_Chunk i' c' nd' off' data') \<longleftrightarrow>
     nd \<noteq> nd' \<or> c \<noteq> c' \<or> off = off' \<and> data = data'"
| "agrees r r' \<longleftrightarrow> True"

definition cluster_inv :: "int \<Rightarrow> cluster \<Rightarrow> bool" where
  "cluster_inv vol cl \<longleftrightarrow> (\<forall>nd. espresso_inv vol (cl nd))"

lemma chunk_descriptor_inj: "chunk_descriptor c = chunk_descriptor c' \<longleftrightarrow> c = c'"
  for c c' :: file_chunk
  by (auto simp: chunk_descriptor_def intro: file_chunk.equality signed_word_eqI)

lemma write_step:
  assumes "cluster_inv vol cl" "proper_write r" "node_step heap junk r cl = Returned (stored_answer r, cl')"
  shows "cluster_inv vol cl' \<and> stored cl' r \<and> (\<forall>r'. agrees r r' \<longrightarrow> stored cl r' \<longrightarrow> stored cl' r')"
proof -
  obtain i c nd off data where r: "r = Write_Chunk i c nd off data" using assms(2) by (cases r) auto
  let ?d = "chunk_descriptor c" and ?n = "int (length data)"
  have b: "0 \<le> off" "off < 2 ^ 31" "0 < length data" "length data < 2 ^ 31 - 100" using assms(2) r by simp_all
  have inv: "espresso_inv vol (cl nd)" using assms(1) by (simp add: cluster_inv_def)
  obtain out e rest where h: "espresso_handle heap junk (cl nd) (request_bytes junk (Write_Chunk i c nd off data) @ []) = Returned (out, e, rest)"
    "cl' = cl(nd := e)" "\<exists>rest. receive_message heap out = Returned (stored_answer r, rest)"
    using assms(3) by (auto simp: node_step_def r)
  obtain buf k where w: "espresso_inv vol e" "receive_message heap out = Returned (Some (Chunk_Written i (chunk_fields 0 c off k)), [])"
    "\<forall>j < length data. buf j = data ! j" "k = ?n \<and> written (cl nd) ?d off buf ?n e \<or> k = -1"
    using node_wrote[OF inv b h(1)] by blast
  have cl': "cl' = cl(nd := e)" "chunk_fields 0 c off k = chunk_fields 0 c off ?n"
    using h(2,3) w(2) by (simp_all add: r)
  then have "k = ?n" by (metis chunk_fields_simps(1))
  with w(4) have wr: "written (cl nd) ?d off buf ?n e" by auto
  then have st: "stored cl' r" using w(3) cl'(1) by (simp add: r written_def)
  have "stored cl' r'" if "agrees r r'" "stored cl r'" for r'
  proof (cases r')
    case (Write_Chunk i' c' nd' off' data')
    show ?thesis
    proof (cases "nd' = nd \<and> c' = c")
      case True
      then show ?thesis using st that(1) Write_Chunk by (simp add: r)
    next
      case False
      then show ?thesis using wr that(2) cl'(1) Write_Chunk
        by (cases "nd' = nd") (simp_all add: written_def chunk_descriptor_inj)
    qed
  qed (use that in auto)
  moreover have "cluster_inv vol cl'" using assms(1) w(1) cl'(1) by (simp add: cluster_inv_def)
  ultimately show ?thesis using st by blast
qed

lemma run_writes:
  assumes "cluster_inv vol cl" "\<forall>r \<in> set rs. proper_write r" "\<forall>r \<in> set rs. \<forall>r' \<in> set rs. agrees r r'"
    and "cluster_run heap junk rs cl = Returned (map stored_answer rs, cl')"
  shows "cluster_inv vol cl' \<and> (\<forall>r \<in> set rs. stored cl' r) \<and>
    (\<forall>r'. (\<forall>r \<in> set rs. agrees r r') \<longrightarrow> stored cl r' \<longrightarrow> stored cl' r')"
  using assms
proof (induction rs arbitrary: cl)
  case (Cons r rs)
  obtain cl1 where s: "node_step heap junk r cl = Returned (stored_answer r, cl1)"
    "cluster_run heap junk rs cl1 = Returned (map stored_answer rs, cl')"
    using Cons.prems(4) by auto
  have p: "proper_write r" "\<forall>r \<in> set rs. proper_write r" "\<forall>r \<in> set rs. \<forall>r' \<in> set rs. agrees r r'"
    "\<forall>r' \<in> set rs. agrees r' r" using Cons.prems(2,3) by simp_all
  note w = write_step[OF Cons.prems(1) p(1) s(1)]
  note ih = Cons.IH[OF _ p(2,3) s(2)]
  show ?case using w ih p(4) by auto
qed simp

section \<open>Reads\<close>

lemma read_step:
  assumes "cluster_inv vol cl" "stored cl (Write_Chunk j c nd off data)"
    and "0 \<le> off" "off < 2 ^ 31" "0 < length data" "length data \<le> 65536"
  shows "node_step heap junk (Read_Chunk i c nd off (of_nat (length data))) cl =
    Returned (Some (Chunk_Read i (chunk_fields 0 c off (int (length data))) data), cl)"
proof -
  let ?d = "chunk_descriptor c"
  have inv: "espresso_inv vol (cl nd)" using assms(1) by (simp add: cluster_inv_def)
  have v: "chunk_view (cl nd) ?d (off + int k) = Some (data ! k)" if "k < length data" for k
    using assms(2) that by simp
  obtain a where a: "es_lookup (cl nd) ?d = Some a"
    using v[of 0] assms(5) by (cases "es_lookup (cl nd) ?d") (simp_all add: chunk_view_def)
  have "off + (int (length data) - 1) < da_size a"
    using v[of "length data - 1"] a assms(5) by (simp add: chunk_view_def split: if_splits)
  then have sz: "off + int (length data) \<le> chunk_size_of (cl nd) ?d"
    using a assms(5) by (simp add: chunk_size_of_def)
  obtain out where "espresso_handle heap junk (cl nd)
      (request_bytes junk (Read_Chunk i c nd off (of_nat (length data))) @ []) = Returned (out, cl nd, [])"
    "\<forall>heap'. receive_message heap' out = Returned (Some (Chunk_Read i (chunk_fields 0 c off (int (length data))) data), [])"
    using node_reads[OF inv assms(3,4,6) _ sz v, where heap = heap and junk = junk and junk' = junk and i = i and node = nd and rest = "[]"] a
    by blast
  then show ?thesis by (simp add: node_step_def)
qed

lemma run_reads:
  "\<forall>x \<in> set xs. node_step heap junk (f x) cl = Returned (g x, cl) \<Longrightarrow>
   cluster_run heap junk (map f xs) cl = Returned (map g xs, cl)"
  by (induction xs) auto

section \<open>Deletions\<close>





section \<open>The requests of a file's parts\<close>

text \<open>The parts of a range by chunk, each with its stripe, and the two writes of a part.\<close>

abbreviation file_chunks :: "u32 \<Rightarrow> (int \<times> int \<times> int) list \<Rightarrow> (int \<times> int \<times> int \<times> int) list" where
  "file_chunks cs segs \<equiv> concat (map (\<lambda>(s, off, len). map (Pair s) (stripe_segments cs off (nat len))) segs)"

definition part_writes ::
    "u32 \<Rightarrow> u32 \<Rightarrow> u32 \<Rightarrow> u32 \<Rightarrow> u32 \<Rightarrow> (int \<Rightarrow> u8) \<Rightarrow> (file_chunk \<Rightarrow> int option) \<Rightarrow> (file_chunk \<Rightarrow> int option) \<Rightarrow>
     int \<times> int \<times> int \<times> int \<Rightarrow> chunk_request list" where
  "part_writes rid rrid f ss cs F N M = (\<lambda>(s, q).
     let c = fst (part_answer F f ss cs s q); data = snd (part_answer F f ss cs s q)
     in [Write_Chunk rid c (the (N c)) (fst (snd q)) data, Write_Chunk rrid c (the (M c)) (fst (snd q)) data])"

lemma slice_of_buffer:
  assumes "0 \<le> d" "0 \<le> len" "d + len \<le> int (length buf)"
    and "\<And>x. 0 \<le> x \<Longrightarrow> x < len \<Longrightarrow> F (b + x) = buf ! nat (d + x)"
  shows "take (nat len) (drop (nat d) buf) = map F [b .. b + len - 1]"
proof (rule nth_equalityI)
  show "length (take (nat len) (drop (nat d) buf)) = length (map F [b .. b + len - 1])"
    using assms(1-3) by simp
  show "take (nat len) (drop (nat d) buf) ! k = map F [b .. b + len - 1] ! k"
    if "k < length (take (nat len) (drop (nat d) buf))" for k
    using that assms(1-3) assms(4)[of "int k"] by (simp add: nth_upto nat_add_distrib)
qed

lemma write_batch_parts:
  assumes "0 < uint cs"
  shows "sz = uint cs \<Longrightarrow> 0 \<le> d \<Longrightarrow> 0 \<le> off \<Longrightarrow> off \<le> sz \<Longrightarrow> 0 \<le> cnt \<Longrightarrow> d + cnt \<le> int (length buf) \<Longrightarrow>
    (\<And>x. 0 \<le> x \<Longrightarrow> x < cnt \<Longrightarrow> F ((s - 1) * uint ss + ((k - 1) * sz + off + x)) = buf ! nat (d + x)) \<Longrightarrow>
    write_batch rid rrid f (word_of_int s) buf N M d (segments sz k off cnt) =
    concat (map (part_writes rid rrid f ss cs F N M) (map (Pair s) (segments sz k off cnt)))"
proof (induction sz k off cnt arbitrary: d rule: segments.induct)
  case (1 sz k off cnt)
  show ?case
  proof (cases "cnt = 0")
    case False
    let ?l = "min cnt (sz - off)"
    have pos: "0 < cnt" "0 < sz" "0 \<le> ?l" using False 1(2,4-6) assms by auto
    have sg: "segments sz k off cnt = (k, off, ?l) # segments sz (k + 1) 0 (cnt - ?l)"
      using segments_Cons[OF pos(1,2)] 1(4,5) by simp
    have data: "take (nat ?l) (drop (nat d) buf) =
        map (\<lambda>x. F ((s - 1) * uint ss + x)) [(k - 1) * sz + off .. (k - 1) * sz + off + ?l - 1]"
      using 1(3,7,8) pos(3) by (intro slice_of_buffer) (auto simp: min_def split: if_splits)
    have nx: "F ((s - 1) * uint ss + ((k + 1 - 1) * sz + 0 + x)) = buf ! nat (d + ?l + x)"
      if "0 \<le> x" "x < cnt - ?l" for x
    proof -
      have "?l = sz - off" using that by (auto simp: min_def)
      then show ?thesis using 1(8)[of "?l + x"] that pos(3) by (simp add: algebra_simps)
    qed
    have "write_batch rid rrid f (word_of_int s) buf N M (d + ?l) (segments sz (k + 1) 0 (cnt - ?l)) =
        concat (map (part_writes rid rrid f ss cs F N M) (map (Pair s) (segments sz (k + 1) 0 (cnt - ?l))))"
      using 1(2,3,4-7) pos nx by (intro 1(1)) auto
    then show ?thesis unfolding sg using data 1(2)
      by (simp add: part_writes_def part_answer_def seg_bytes_def Let_def)
  qed simp
qed

lemma write_batches_parts:
  assumes "0 < uint cs" "0 < uint ss"
  shows "sz = uint ss \<Longrightarrow> 0 \<le> d \<Longrightarrow> 0 \<le> off \<Longrightarrow> off \<le> sz \<Longrightarrow> 0 \<le> cnt \<Longrightarrow> d + cnt \<le> int (length buf) \<Longrightarrow>
    (\<And>x. 0 \<le> x \<Longrightarrow> x < cnt \<Longrightarrow> F ((k - 1) * sz + off + x) = buf ! nat (d + x)) \<Longrightarrow>
    write_batches rid rrid f cs buf N M d (segments sz k off cnt) =
    concat (map (part_writes rid rrid f ss cs F N M) (file_chunks cs (segments sz k off cnt)))"
proof (induction sz k off cnt arbitrary: d rule: segments.induct)
  case (1 sz k off cnt)
  show ?case
  proof (cases "cnt = 0")
    case False
    let ?l = "min cnt (sz - off)" and ?u = "unit_index (uint cs) off"
    have pos: "0 < cnt" "0 < sz" "0 \<le> ?l" using False 1(2,4-6) assms by auto
    have sg: "segments sz k off cnt = (k, off, ?l) # segments sz (k + 1) 0 (cnt - ?l)"
      using segments_Cons[OF pos(1,2)] 1(4,5) by simp
    note b = unit_index_bounds[OF assms(1) 1(4)]
    have le: "nat d \<le> length buf" using 1(3,6,7) by linarith
    have "write_batch rid rrid f (word_of_int k) (drop (nat d) buf) N M 0 (stripe_segments cs off (nat ?l)) =
        concat (map (part_writes rid rrid f ss cs F N M) (map (Pair k) (stripe_segments cs off (nat ?l))))"
    proof (rule write_batch_parts[OF assms(1) refl])
      show "F ((k - 1) * uint ss + ((1 + ?u - 1) * uint cs + (off - ?u * uint cs) + x)) = drop (nat d) buf ! nat (0 + x)"
        if "0 \<le> x" "x < int (nat ?l)" for x
        using 1(8)[of x] that 1(2,3) pos nth_drop[OF le, of "nat x"] by (simp add: nat_add_distrib algebra_simps)
    qed (use b 1(3,7) pos in \<open>auto simp: min_def\<close>)
    moreover have nx: "F ((k + 1 - 1) * sz + 0 + x) = buf ! nat (d + ?l + x)" if "0 \<le> x" "x < cnt - ?l" for x
    proof -
      have "?l = sz - off" using that by (auto simp: min_def)
      then show ?thesis using 1(8)[of "?l + x"] that pos(3) by (simp add: algebra_simps)
    qed
    then have "write_batches rid rrid f cs buf N M (d + ?l) (segments sz (k + 1) 0 (cnt - ?l)) =
        concat (map (part_writes rid rrid f ss cs F N M) (file_chunks cs (segments sz (k + 1) 0 (cnt - ?l))))"
      using 1(2,3,4-7) pos by (intro 1(1)) auto
    ultimately show ?thesis unfolding sg by simp
  qed simp
qed

lemma range_answers_chunks:
  "range_answers F f ss cs segs = map (\<lambda>(s, q). part_answer F f ss cs s q) (file_chunks cs segs)"
  by (induction segs) (auto simp: range_answers_def)

lemma stripe_reads_chunks:
  "concat (map (stripe_reads rid f cs a io) segs) =
   map (\<lambda>(s, q). read_request rid f (word_of_int s) a io q) (file_chunks cs segs)"
  by (induction segs) auto

section \<open>Property\<close>

text \<open>The numbers a transfer needs: sizes of the file that fit an \<open>int\<close>, and enough iterations.\<close>

definition transfer_ok :: "nat \<Rightarrow> persistent_metadata_info \<Rightarrow> file_instance \<Rightarrow> nat \<Rightarrow> bool" where
  "transfer_ok n i inst cnt \<longleftrightarrow> 0 < cnt \<and> 0 < uint (pm_chunk_size i) \<and> uint (pm_chunk_size i) \<le> 65536 \<and>
     0 < uint (pm_stripe_size i) \<and> uint (pm_stripe_size i) < 2 ^ 31 \<and> cnt + 2 < n \<and>
     uint (pm_stripe_size i) \<le> int n * uint (pm_chunk_size i) \<and> uint (fi_offset inst) \<le> int n * uint (pm_stripe_size i)"

lemma file_chunks_bounds:
  assumes "(s, k, off, len) \<in> set (file_chunks cs segs)"
  shows "0 \<le> off \<and> off + len \<le> uint cs \<and> (k, off, len) \<in> set (chunk_parts cs segs)"
proof -
  obtain off' len' where seg: "(s, off', len') \<in> set segs" "(k, off, len) \<in> set (stripe_segments cs off' (nat len'))"
    using assms by (auto simp del: int_nat_eq)
  then have "(k, off, len) \<in> set (chunk_parts cs segs)" by (force simp del: int_nat_eq)
  then show ?thesis using segments_bounds[OF seg(2)] by simp
qed

lemma part_answer_length: "length (snd (part_answer F f ss cs s (k, off, len))) = nat len"
  by (simp add: part_answer_def seg_bytes_def)

abbreviation part_chunk :: "u32 \<Rightarrow> int \<times> int \<times> int \<times> int \<Rightarrow> file_chunk" where
  "part_chunk f x \<equiv> mk_chunk f (word_of_int (fst x)) (word_of_int (fst (snd x)))"

lemma file_chunks_inj:
  assumes "0 < uint cs" "0 \<le> offset" "0 < uint ss" "uint ss < 2 ^ 31" "offset + int cnt < 2 ^ 31"
    and "in_window lo hi f (file_parts ss offset cnt)"
  shows "inj_on (part_chunk f) (set (file_chunks cs (file_parts ss offset cnt)))"
proof -
  have "oc_sorted file_chunk_less (chunk_window lo hi) fst (range_answers F f ss cs (file_parts ss offset cnt))" for F
    by (rule file_answers_sorted[OF assms(3,4,1,2,5,6)])
  then have "distinct (map fst (range_answers F f ss cs (file_parts ss offset cnt)))" for F
    by (rule chunk_order.sorted_distinct_keys)
  then show ?thesis
    unfolding range_answers_chunks map_map distinct_map by (simp add: o_def case_prod_beta fst_part_answer del: set_concat)
qed

text \<open>The writes of distinct chunks are proper and do not disturb each other.\<close>

lemma part_writes_ok:
  assumes "inj_on (part_chunk f) (set xs)" "uint cs \<le> 65536"
    and "\<And>s k off len. (s, k, off, len) \<in> set xs \<Longrightarrow> 0 \<le> off \<and> off + len \<le> uint cs \<and> 0 < len"
    and "x \<in> set xs" "r \<in> set (part_writes rid rrid f ss cs F N M x)"
  shows "proper_write r"
    and "y \<in> set xs \<Longrightarrow> r' \<in> set (part_writes rid rrid f ss cs F N M y) \<Longrightarrow> agrees r r'"
proof -
  obtain s k off len where x: "x = (s, k, off, len)" by (cases x)
  have b: "0 \<le> off" "off + len \<le> uint cs" "0 < len" using assms(3,4) x by auto
  then show "proper_write r" using assms(2,5) x
    by (auto simp: part_writes_def Let_def part_answer_length)
  assume y: "y \<in> set xs" "r' \<in> set (part_writes rid rrid f ss cs F N M y)"
  show "agrees r r'"
  proof (cases "y = x")
    case True
    then show ?thesis using assms(5) y(2) x by (auto simp: part_writes_def Let_def)
  next
    case False
    then have "part_chunk f y \<noteq> part_chunk f x" using inj_onD[OF assms(1) _ y(1) assms(4)] by blast
    then show ?thesis using assms(5) y(2) by (auto simp: part_writes_def Let_def fst_part_answer case_prod_beta)
  qed
qed

text \<open>Reading back parts whose writes are stored, from the node or the replica node of each.\<close>

definition part_message :: "u32 \<Rightarrow> u32 \<Rightarrow> u32 \<Rightarrow> u32 \<Rightarrow> (int \<Rightarrow> u8) \<Rightarrow> int \<times> int \<times> int \<times> int \<Rightarrow> barista_message" where
  "part_message rid f ss cs F x = (case x of (s, k, off, len) \<Rightarrow>
     Chunk_Read rid (chunk_fields 0 (part_chunk f x) off len) (snd (part_answer F f ss cs s (k, off, len))))"

lemma stored_parts_read:
  assumes "cluster_inv vol cl" "\<And>x r. x \<in> set xs \<Longrightarrow> r \<in> set (part_writes rid rrid f ss cs F N M x) \<Longrightarrow> stored cl r"
    and "\<And>s k off len. (s, k, off, len) \<in> set xs \<Longrightarrow> 0 \<le> off \<and> off + len \<le> uint cs \<and> 0 < len" "uint cs \<le> 65536"
    and "\<And>x. x \<in> set xs \<Longrightarrow> serving a io (part_chunk f x) \<in> {the (N (part_chunk f x)), the (M (part_chunk f x))}"
  shows "cluster_run heap junk (map (\<lambda>(s, q). read_request rid' f (word_of_int s) a io q) xs) cl =
    Returned (map (\<lambda>x. Some (part_message rid' f ss cs F x)) xs, cl)"
proof (rule run_reads, rule ballI)
  fix x assume x: "x \<in> set xs"
  obtain s k off len where q: "x = (s, k, off, len)" by (cases x)
  let ?data = "snd (part_answer F f ss cs s (k, off, len))"
  have b: "0 \<le> off" "off + len \<le> uint cs" "0 < len" using assms(3) x q by auto
  have l: "int (length ?data) = len" using b by (simp add: part_answer_length)
  obtain j where "Write_Chunk j (part_chunk f x) (serving a io (part_chunk f x)) off ?data \<in> set (part_writes rid rrid f ss cs F N M x)"
    using assms(5)[OF x] q by (auto simp: part_writes_def Let_def fst_part_answer)
  then have st: "stored cl (Write_Chunk j (part_chunk f x) (serving a io (part_chunk f x)) off ?data)" using assms(2) x by blast
  have "0 < length ?data" "length ?data \<le> 65536" using b l assms(4) by linarith+
  moreover have "off < 2 ^ 31" using b assms(4) by simp
  moreover have "(of_nat (length ?data) :: u32) = word_of_int len" using l by (metis of_int_of_nat_eq)
  ultimately show "node_step heap junk (case x of (s, q) \<Rightarrow> read_request rid' f (word_of_int s) a io q) cl =
      Returned (Some (part_message rid' f ss cs F x), cl)"
    using read_step[OF assms(1) st b(1), of heap junk rid'] l q by (simp add: part_message_def)
qed

text \<open>What the core does with an answer of a node (\<open>handleMessageFromClient\<close>).\<close>

fun answer_handler :: "nat \<Rightarrow> barista_message \<Rightarrow> barista \<Rightarrow> barista outcome" where
  "answer_handler n (Chunk_Read i m data) b = read_response_handler i (message_chunk m) (fp_count m) data b"
| "answer_handler n (Chunk_Written i m) b = write_response_handler i (fp_count m) b"
| "answer_handler n (Chunk_Deleted i m) b = delete_response_handler n i b"
| "answer_handler n m b = Returned b"

lemma run_handlers_map:
  "(\<And>m. m \<in> set ms \<Longrightarrow> h m = g (f m)) \<Longrightarrow> run_handlers h ms = run_handlers g (map f ms)"
proof (induction ms)
  case (Cons m ms)
  then have "run_handlers h ms = run_handlers g (map f ms)" "h m = g (f m)" by simp_all
  then show ?case by (intro ext) simp
qed (intro ext, simp)

lemma part_message_handled:
  assumes "0 \<le> len"
  shows "answer_handler n (part_message rid f ss cs F (s, k, off, len)) =
    (\<lambda>(chunk, data). read_response_handler rid chunk (int (length data)) data) (part_answer F f ss cs s (k, off, len))"
  using assms part_answer_length[of F f ss cs s k off len] fst_part_answer[of F f ss cs s "(k, off, len)"]
  by (simp add: part_message_def fun_eq_iff case_prod_beta message_chunk_def chunk_fields_def)

lemma write_requests:
  fixes cnt :: nat and st st1 :: barista
  assumes "at_work c (word_of_int fd) p i inst st" "0 < fd"
      "has_exclusive_lock c (pm_file_id i) (br_locks st) = Returned 1" "reachable_net net" "maps_ok lo hi (br_io st)"
      "oc_sorted (<) UNIV fst (br_write_lookups st)" "oc_sorted write_request_less UNIV fst (br_writes st)"
    and "transfer_ok n i inst cnt" "uint (pm_size i) + int cnt < 2 ^ 31" "cnt \<le> length buf"
      "segs = file_parts (pm_stripe_size i) (uint (fi_offset inst)) cnt" "in_window lo hi (pm_file_id i) segs"
    and "write_file net n fd buf cnt c st = Returned st1"
      "W = drop (length (io_sent (br_io st))) (map fst (io_sent (br_io st1)))"
    and F: "\<And>x. F x = buf ! nat (x - uint (fi_offset inst))"
  shows "W = concat (map (part_writes (vm_request_id (br_vm st) + 1) (vm_request_id (br_vm st) + 1 + 1) (pm_file_id i)
    (pm_stripe_size i) (pm_chunk_size i) F (\<lambda>ch. node_find ch (io_node (br_io st1))) (\<lambda>ch. node_find ch (io_replica (br_io st1))))
    (file_chunks (pm_chunk_size i) segs))"
proof -
  let ?cur = "uint (fi_offset inst)" and ?ss = "pm_stripe_size i"
  have num: "0 < cnt" "0 < uint (pm_chunk_size i)" "uint (pm_chunk_size i) < 2 ^ 31" "0 < uint ?ss" "uint ?ss < 2 ^ 31" "cnt + 2 < n"
    "uint ?ss \<le> int n * uint (pm_chunk_size i)" "?cur \<le> int n * uint ?ss"
    using assms(8) by (simp_all add: transfer_ok_def)
  obtain st' where st': "write_file net n fd buf cnt c st = Returned st'"
    "map fst (io_sent (br_io st')) = map fst (io_sent (br_io st)) @
       write_batches (vm_request_id (br_vm st) + 1) (vm_request_id (br_vm st) + 1 + 1) (pm_file_id i) (pm_chunk_size i) buf
         (\<lambda>ch. node_find ch (io_node (br_io st'))) (\<lambda>ch. node_find ch (io_replica (br_io st'))) 0 segs"
    using write_file_sends[OF assms(1-5,12) num(1) assms(9) num(2-5) assms(6,7) num(6-8) refl refl assms(11), of buf] by blast
  note b = unit_index_bounds[OF num(4) uint_ge_0[of "fi_offset inst"]]
  have "W = write_batches (vm_request_id (br_vm st) + 1) (vm_request_id (br_vm st) + 1 + 1) (pm_file_id i) (pm_chunk_size i) buf
      (\<lambda>ch. node_find ch (io_node (br_io st1))) (\<lambda>ch. node_find ch (io_replica (br_io st1))) 0 segs"
    using st' assms(13,14) by simp
  then show ?thesis unfolding assms(11)
    using b assms(10) by (subst (asm) write_batches_parts[OF num(2,4) refl]) (auto simp: F algebra_simps)
qed

lemma run_part_writes:
  assumes "inj_on (part_chunk f) (set xs)" "uint cs \<le> 65536"
    and "\<And>s k off len. (s, k, off, len) \<in> set xs \<Longrightarrow> 0 \<le> off \<and> off + len \<le> uint cs \<and> 0 < len"
    and "cluster_inv vol cl" "W = concat (map (part_writes rid rrid f ss cs F N M) xs)"
    and "cluster_run heap junk W cl = Returned (map stored_answer W, cl1)"
  shows "cluster_inv vol cl1"
    "x \<in> set xs \<Longrightarrow> r \<in> set (part_writes rid rrid f ss cs F N M x) \<Longrightarrow> stored cl1 r"
proof -
  note ok = part_writes_ok[OF assms(1-3)]
  have "\<forall>r \<in> set W. proper_write r" "\<forall>r \<in> set W. \<forall>r' \<in> set W. agrees r r'"
    using ok unfolding assms(5) by (auto; blast)+
  from run_writes[OF assms(4) this assms(6)] show "cluster_inv vol cl1"
    "x \<in> set xs \<Longrightarrow> r \<in> set (part_writes rid rrid f ss cs F N M x) \<Longrightarrow> stored cl1 r"
    unfolding assms(5) by auto
qed

lemma ex_map_conv_mset: "mset ms = mset (map f xs) \<Longrightarrow> \<exists>ys. ms = map f ys \<and> mset ys = mset xs"
proof (induction xs arbitrary: ms)
  case (Cons x xs)
  then obtain as bs where ms: "ms = as @ f x # bs" by (metis in_set_conv_decomp list.set_intros(1) list.simps(9) mset_eq_setD)
  with Cons.prems have "mset (as @ bs) = mset (map f xs)" by simp
  from Cons.IH[OF this] obtain ys where ys: "as @ bs = map f ys" "mset ys = mset xs" by blast
  let ?k = "length as"
  have "as = map f (take ?k ys)" "bs = map f (drop ?k ys)"
    using ys(1) by (metis append_eq_conv_conj take_map, metis append_eq_conv_conj drop_map)
  then have "ms = map f (take ?k ys @ x # drop ?k ys)" using ms by simp
  moreover have "mset (take ?k ys @ x # drop ?k ys) = mset (x # xs)"
    using ys(2) by (simp add: union_code[symmetric]) (metis append_take_drop_id mset_append)
  ultimately show ?case by blast
qed simp

lemma part_messages_handled:
  assumes "\<And>s k off len. (s, k, off, len) \<in> set xs \<Longrightarrow> 0 \<le> len" "mset ms = mset (map (part_message rid f ss cs F) xs)"
  obtains rs where "mset rs = mset (map (\<lambda>(s, q). part_answer F f ss cs s q) xs)"
    "run_handlers (answer_handler n) ms = run_handlers (\<lambda>(chunk, data). read_response_handler rid chunk (int (length data)) data) rs"
proof -
  let ?h = "\<lambda>(chunk, data). read_response_handler rid chunk (int (length data)) data"
  obtain ys where ys: "ms = map (part_message rid f ss cs F) ys" "mset ys = mset xs"
    using ex_map_conv_mset[OF assms(2)] by blast
  have h: "answer_handler n (part_message rid f ss cs F x) = ?h (case x of (s, q) \<Rightarrow> part_answer F f ss cs s q)" if "x \<in> set ys" for x
  proof -
    obtain s k off len where x: "x = (s, k, off, len)" by (cases x)
    with that ys(2) have "0 \<le> len" using assms(1) mset_eq_setD by blast
    from part_message_handled[OF this] show ?thesis unfolding x by simp
  qed
  have "run_handlers (\<lambda>x. answer_handler n (part_message rid f ss cs F x)) ys =
      run_handlers ?h (map (\<lambda>(s, q). part_answer F f ss cs s q) ys)" by (rule run_handlers_map, rule h)
  moreover have "run_handlers (\<lambda>x. answer_handler n (part_message rid f ss cs F x)) ys = run_handlers (answer_handler n) ms"
    unfolding ys(1) by (rule run_handlers_map) simp
  ultimately show thesis using ys(2) by (intro that[of "map (\<lambda>(s, q). part_answer F f ss cs s q) ys"]) simp_all
qed

text \<open>
  A read of a range whose parts the nodes have stored: every request is answered, and the answers,
  in any order, give the client the bytes \<open>F\<close> of the file.
\<close>

lemma stored_range_read:
  fixes cnt :: nat and sr :: barista
  assumes reader: "at_work c (word_of_int fd) p i inst sr" "0 < fd"
      "has_exclusive_lock c (pm_file_id i) (br_locks sr) = Returned e"
      "has_shared_lock c (pm_file_id i) (br_locks sr) = Returned h" "0 < e \<or> 0 < h"
      "only_fails a net" "node_number a" "reads_sorted sr"
    and range: "transfer_ok n i inst cnt" "uint (fi_offset inst) + int cnt \<le> uint (pm_size i)" "uint (pm_size i) < 2 ^ 31"
      "segs = file_parts (pm_stripe_size i) (uint (fi_offset inst)) cnt" "in_window lo hi (pm_file_id i) segs"
      "parts_readable a (br_io sr) (pm_file_id i) (pm_chunk_size i) segs"
    and stored: "cluster_inv vol cl" "\<And>x r. x \<in> set (file_chunks (pm_chunk_size i) segs) \<Longrightarrow>
      r \<in> set (part_writes rid rrid (pm_file_id i) (pm_stripe_size i) (pm_chunk_size i) F N M x) \<Longrightarrow> stored cl r"
      "\<And>s k off len. (s, k, off, len) \<in> set (file_chunks (pm_chunk_size i) segs) \<Longrightarrow> 0 \<le> off \<and> off + len \<le> uint (pm_chunk_size i) \<and> 0 < len"
      "\<And>x. x \<in> set (file_chunks (pm_chunk_size i) segs) \<Longrightarrow>
        serving a (br_io sr) (part_chunk (pm_file_id i) x) \<in> {the (N (part_chunk (pm_file_id i) x)), the (M (part_chunk (pm_file_id i) x))}"
  shows "\<exists>sr1 ms. read_file net n fd cnt c sr = Returned sr1 \<and>
    cluster_run heap junk (drop (length (delivered (io_sent (br_io sr)))) (delivered (io_sent (br_io sr1)))) cl =
      Returned (map Some ms, cl) \<and>
    (\<forall>ms'. mset ms' = mset ms \<longrightarrow> (\<exists>sr2. run_handlers (answer_handler n) ms' sr1 = Returned sr2 \<and>
       br_replies sr2 = br_replies sr @ [Read_Result c fd (int cnt) (map F [uint (fi_offset inst) .. uint (fi_offset inst) + int cnt - 1])]))"
proof -
  let ?f = "pm_file_id i" and ?cs = "pm_chunk_size i" and ?ss = "pm_stripe_size i" and ?rid = "vm_request_id (br_vm sr) + 1"
  let ?xs = "file_chunks ?cs segs" and ?rep = "[Read_Result c fd (int cnt) (map F [uint (fi_offset inst) .. uint (fi_offset inst) + int cnt - 1])]"
  have num: "0 < cnt" "0 < uint ?cs" "uint ?cs \<le> 65536" "uint ?cs < 2 ^ 31" "0 < uint ?ss" "uint ?ss < 2 ^ 31" "cnt + 2 < n"
    "uint ?ss \<le> int n * uint ?cs" "uint (fi_offset inst) \<le> int n * uint ?ss"
    using range(1) by (simp_all add: transfer_ok_def)
  have read: "\<exists>sr1 sr2. read_file net n fd cnt c sr = Returned sr1 \<and>
      delivered (io_sent (br_io sr1)) = delivered (io_sent (br_io sr)) @ concat (map (stripe_reads ?rid ?f ?cs a (br_io sr)) segs) \<and>
      run_handlers (\<lambda>(chunk, data). read_response_handler ?rid chunk (int (length data)) data) rs sr1 = Returned sr2 \<and>
      br_replies sr2 = br_replies sr @ ?rep"
    if "mset rs = mset (range_answers F ?f ?ss ?cs segs)" for rs
    using read_file_answered[OF reader(1-7) num(1) range(2,3) num(2,4-6) reader(8) num(7-9) range(6,5) refl range(4) that] by blast
  obtain sr1 where sr1: "read_file net n fd cnt c sr = Returned sr1"
    "delivered (io_sent (br_io sr1)) = delivered (io_sent (br_io sr)) @ concat (map (stripe_reads ?rid ?f ?cs a (br_io sr)) segs)"
    using read[OF refl] by blast
  let ?ms = "map (part_message ?rid ?f ?ss ?cs F) ?xs"
  have "drop (length (delivered (io_sent (br_io sr)))) (delivered (io_sent (br_io sr1))) =
      map (\<lambda>(s, q). read_request ?rid ?f (word_of_int s) a (br_io sr) q) ?xs"
    unfolding sr1(2) stripe_reads_chunks by simp
  moreover have "cluster_run heap junk (map (\<lambda>(s, q). read_request ?rid ?f (word_of_int s) a (br_io sr) q) ?xs) cl =
      Returned (map (\<lambda>x. Some (part_message ?rid ?f ?ss ?cs F x)) ?xs, cl)"
    by (rule stored_parts_read[OF stored(1-3) num(3) stored(4)])
  ultimately have run: "cluster_run heap junk (drop (length (delivered (io_sent (br_io sr)))) (delivered (io_sent (br_io sr1)))) cl =
      Returned (map Some ?ms, cl)" by (simp only: map_map o_def)
  have "\<exists>sr2. run_handlers (answer_handler n) ms' sr1 = Returned sr2 \<and> br_replies sr2 = br_replies sr @ ?rep"
    if ms': "mset ms' = mset ?ms" for ms'
  proof -
    obtain rs where rs: "mset rs = mset (range_answers F ?f ?ss ?cs segs)"
      "run_handlers (answer_handler n) ms' = run_handlers (\<lambda>(chunk, data). read_response_handler ?rid chunk (int (length data)) data) rs"
      unfolding range_answers_chunks by (rule part_messages_handled[OF less_imp_le[OF conjunct2[OF conjunct2[OF stored(3)]]] ms'])
    from read[OF rs(1)] sr1(1) show ?thesis unfolding rs(2) by auto
  qed
  with sr1(1) run show ?thesis by blast
qed

text \<open>
  C4: a range of a file holds what was written to it. A client writes \<open>cnt\<close> bytes at its cursor, to
  a range in a chunk window (\<open>in_window\<close>): inside one stripe, or over two of which one has a number
  up to the file's id and the other one above it, as the order on chunks keeps no others apart. The
  nodes serve the requests this sends, each with success, which they do for new chunks and for ranges
  inside chunks (C16). Later a client reads \<open>cnt\<close> bytes from the same position, with the chunks still
  placed as they were and one node possibly not answering, but for each chunk its node, if up, or else
  its replica node (\<open>parts_readable\<close>). Then the nodes answer every request of the
  read from their stores, and whatever the order in which the answers come in, the reader gets one
  reply, with exactly the bytes written.
\<close>

theorem file_round_trip:
  fixes cnt :: nat and sr st1 :: barista
  assumes writer: "at_work c (word_of_int fd) p i inst st" "0 < fd"
      "has_exclusive_lock c (pm_file_id i) (br_locks st) = Returned 1" "reachable_net net" "maps_ok lo hi (br_io st)"
      "oc_sorted (<) UNIV fst (br_write_lookups st)" "oc_sorted write_request_less UNIV fst (br_writes st)"
    and range: "transfer_ok n i inst cnt" "uint (pm_size i) + int cnt < 2 ^ 31" "cnt \<le> length buf"
      "segs = file_parts (pm_stripe_size i) (uint (fi_offset inst)) cnt" "in_window lo hi (pm_file_id i) segs"
      "\<forall>q \<in> set (chunk_parts (pm_chunk_size i) segs). 0 < seg_len q"
    and served: "write_file net n fd buf cnt c st = Returned st1"
      "W = drop (length (io_sent (br_io st))) (map fst (io_sent (br_io st1)))"
      "cluster_inv vol cl" "cluster_run heap junk W cl = Returned (map stored_answer W, cl1)"
    and reader: "at_work c' (word_of_int fd') p i' inst' sr" "0 < fd'"
      "has_exclusive_lock c' (pm_file_id i) (br_locks sr) = Returned e"
      "has_shared_lock c' (pm_file_id i) (br_locks sr) = Returned h" "0 < e \<or> 0 < h"
      "only_fails a net'" "node_number a" "reads_sorted sr"
      "uint (fi_offset inst) + int cnt \<le> uint (pm_size i')" "uint (pm_size i') < 2 ^ 31"
      "pm_file_id i' = pm_file_id i" "pm_chunk_size i' = pm_chunk_size i" "pm_stripe_size i' = pm_stripe_size i"
      "fi_offset inst' = fi_offset inst" "parts_readable a (br_io sr) (pm_file_id i) (pm_chunk_size i) segs"
    and placed: "\<forall>x \<in> set (file_chunks (pm_chunk_size i) segs).
      node_find (part_chunk (pm_file_id i) x) (io_node (br_io sr)) = node_find (part_chunk (pm_file_id i) x) (io_node (br_io st1)) \<and>
      node_find (part_chunk (pm_file_id i) x) (io_replica (br_io sr)) = node_find (part_chunk (pm_file_id i) x) (io_replica (br_io st1))"
  shows "\<exists>sr1 ms. read_file net' n fd' cnt c' sr = Returned sr1 \<and>
    cluster_run heap junk (drop (length (delivered (io_sent (br_io sr)))) (delivered (io_sent (br_io sr1)))) cl1 =
      Returned (map Some ms, cl1) \<and>
    (\<forall>ms'. mset ms' = mset ms \<longrightarrow> (\<exists>sr2. run_handlers (answer_handler n) ms' sr1 = Returned sr2 \<and>
       br_replies sr2 = br_replies sr @ [Read_Result c' fd' (int cnt) (take cnt buf)]))"
proof -
  let ?f = "pm_file_id i" and ?cs = "pm_chunk_size i" and ?ss = "pm_stripe_size i" and ?cur = "uint (fi_offset inst)"
  let ?xs = "file_chunks ?cs segs" and ?rid = "vm_request_id (br_vm st) + 1"
  let ?N = "\<lambda>ch. node_find ch (io_node (br_io st1))" and ?M = "\<lambda>ch. node_find ch (io_replica (br_io st1))"
  define F where "F = (\<lambda>x. buf ! nat (x - ?cur))"
  have num: "0 < cnt" "0 < uint ?cs" "uint ?cs \<le> 65536" "uint ?cs < 2 ^ 31" "0 < uint ?ss" "uint ?ss < 2 ^ 31" "cnt + 2 < n"
    "uint ?ss \<le> int n * uint ?cs" "?cur \<le> int n * uint ?ss"
    using range(1) by (simp_all add: transfer_ok_def)
  have lt: "?cur + int cnt < 2 ^ 31" using reader(9,10) by linarith
  have bounds: "0 \<le> off \<and> off + len \<le> uint ?cs \<and> 0 < len" if "(s, k, off, len) \<in> set ?xs" for s k off len
    using file_chunks_bounds[OF that] range(6) by auto
  have inj: "inj_on (part_chunk ?f) (set ?xs)"
    using file_chunks_inj[OF num(2) uint_ge_0 num(5,6) lt] range(5) unfolding range(4) .
  have W: "W = concat (map (part_writes ?rid (?rid + 1) ?f ?ss ?cs F ?N ?M) ?xs)"
    by (rule write_requests[OF writer range(1,2,3,4,5) served(1,2)]) (simp add: F_def)
  note stored = run_part_writes[OF inj num(3) bounds served(3) W served(4)]
  have sv: "serving a (br_io sr) (part_chunk ?f x) \<in> {the (?N (part_chunk ?f x)), the (?M (part_chunk ?f x))}" if "x \<in> set ?xs" for x
    using bspec[OF placed that] by (simp add: serving_def Let_def)
  have t: "transfer_ok n i' inst' cnt" "uint (fi_offset inst') + int cnt \<le> uint (pm_size i')"
    "segs = file_parts (pm_stripe_size i') (uint (fi_offset inst')) cnt"
    using range(1,4) reader(9,11-14) by (simp_all add: transfer_ok_def)
  have data: "take cnt buf = map F [uint (fi_offset inst') .. uint (fi_offset inst') + int cnt - 1]"
    using slice_of_buffer[of 0 "int cnt" buf F ?cur] range(3) by (simp add: F_def reader(14))
  show ?thesis
    unfolding data
    by (rule stored_range_read[OF reader(1,2) reader(3,4)[folded reader(11)] reader(5-8) t(1,2) reader(10) t(3)
        range(5)[folded reader(11)] reader(15)[folded reader(11,12)] stored(1) stored(2)[folded reader(11-13)]
        bounds[folded reader(12)] sv[folded reader(11,12)]])
qed

lemma step_succeeds:
  assumes "espresso_inv vol (cl nd)" "proper_write (Write_Chunk i c nd off data)"
    and "\<exists>x \<in> set (room (cl nd) (chunk_descriptor c)). off + int (length data) \<le> da_size x"
  shows "\<exists>e. node_step heap junk (Write_Chunk i c nd off data) cl =
    Returned (stored_answer (Write_Chunk i c nd off data), cl(nd := e))"
proof -
  have b: "0 \<le> off" "off < 2 ^ 31" "0 < length data" "length data < 2 ^ 31 - 100" using assms(2) by simp_all
  show ?thesis
    using node_writes[OF assms(1) b, where c = c and heap = heap and junk = junk and junk' = junk and i = i and node = nd and rest = "[]"]
      assms(3) by (auto simp: node_step_def)
qed

text \<open>File \<open>/a\<close>, empty, with its first chunk placed on nodes 1 and 3; a node that failed is node 1.\<close>

definition demo_writing :: barista where
  "demo_writing = demo_reader\<lparr>br_pm := demo_pm\<rparr>"

lemma demo_writing_facts:
  "at_work demo_writer (word_of_int 1) ''/a'' demo_info demo_inst demo_writing"
  "has_exclusive_lock demo_writer (pm_file_id demo_info) (br_locks demo_writing) = Returned 1"
  "maps_ok (\<lambda>_. 1) (\<lambda>_. 2) (br_io demo_writing)" "br_write_lookups demo_writing = []" "br_writes demo_writing = []"
  "io_sent (br_io demo_writing) = []" "vm_request_id (br_vm demo_writing) = 0"
proof -
  have "cursors_inv (br_vm demo_writing)" "cursor_find 1 (br_vm demo_writing) = Some demo_inst" "meta_free demo_writing"
    using demo_reader_facts(1) by (simp_all add: at_work_def demo_writing_def meta_free_def)
  moreover have "fi_client_id demo_inst = demo_writer" "fi_file_id demo_inst = 1" "fi_offset demo_inst = 0" by (simp_all add: demo_inst_def)
  ultimately show "at_work demo_writer (word_of_int 1) ''/a'' demo_info demo_inst demo_writing"
    using demo_pm_facts by (simp add: at_work_def) (simp add: demo_writing_def)
  show "has_exclusive_lock demo_writer (pm_file_id demo_info) (br_locks demo_writing) = Returned 1"
    using demo_open_facts(1) demo_reader_facts(2) by (simp add: demo_writing_def)
  show "maps_ok (\<lambda>_. 1) (\<lambda>_. 2) (br_io demo_writing)"
    using one_chunk_ok by (simp add: demo_writing_def demo_reader_def maps_ok_def)
qed (simp_all add: demo_writing_def demo_reader_def demo_open_def new_barista_def new_vmeta_def one_chunk_io_def)

lemma demo_written:
  obtains st1 cl1 W where "write_file good_net 20 1 (replicate 10 9) 10 demo_writer demo_writing = Returned st1"
    "W = drop (length (io_sent (br_io demo_writing))) (map fst (io_sent (br_io st1)))"
    "cluster_run (\<lambda>_. 0) 9 W (\<lambda>_. demo_store) = Returned (map stored_answer W, cl1)"
    "node_find (mk_chunk 1 1 1) (io_node (br_io st1)) = Some 1" "node_find (mk_chunk 1 1 1) (io_replica (br_io st1)) = Some 3"
proof -
  let ?buf = "replicate 10 9 :: u8 list" and ?segs = "[(1, 0, 10)] :: (int \<times> int \<times> int) list"
  have segs: "?segs = file_parts (pm_stripe_size demo_info) (uint (fi_offset demo_inst)) 10"
    using one_part(1) demo_open_facts(7) by simp
  have win: "in_window (\<lambda>_. 1) (\<lambda>_. 2) (pm_file_id demo_info) ?segs" by (simp add: in_window_def)
  have tr: "transfer_ok 20 demo_info demo_inst 10" using demo_open_facts(7) by (simp add: transfer_ok_def)
  obtain st1 where st1: "write_file good_net 20 1 ?buf 10 demo_writer demo_writing = Returned st1"
    "keeps (\<lambda>_. 1) (\<lambda>_. 2) (br_io demo_writing) (br_io st1)"
    using write_file_sends[OF demo_writing_facts(1) _ demo_writing_facts(2) good_net_reachable demo_writing_facts(3) win,
        where count = 10 and n = 20 and buf = ?buf, OF _ _ _ _ _ _ _ _ _ _ _ _ refl refl segs] demo_writing_facts(4,5) demo_open_facts(7)
    by simp blast
  have nf: "node_find (mk_chunk 1 1 1) (io_node (br_io st1)) = Some 1" "node_find (mk_chunk 1 1 1) (io_replica (br_io st1)) = Some 3"
    using keepsD[OF st1(2) window_one, of 1] one_chunk_find by (simp_all add: demo_writing_def demo_reader_def)
  define W where "W = drop (length (io_sent (br_io demo_writing))) (map fst (io_sent (br_io st1)))"
  let ?F = "\<lambda>x. ?buf ! nat (x - uint (fi_offset demo_inst))"
  define data where "data = snd (part_answer ?F 1 512 256 1 (1, 0, 10))"
  have "W = concat (map (part_writes (vm_request_id (br_vm demo_writing) + 1) (vm_request_id (br_vm demo_writing) + 1 + 1) (pm_file_id demo_info)
      (pm_stripe_size demo_info) (pm_chunk_size demo_info) ?F (\<lambda>ch. node_find ch (io_node (br_io st1))) (\<lambda>ch. node_find ch (io_replica (br_io st1))))
      (file_chunks (pm_chunk_size demo_info) ?segs))"
    using demo_writing_facts(4,5)
    by (intro write_requests[OF demo_writing_facts(1) _ demo_writing_facts(2) good_net_reachable demo_writing_facts(3) _ _ tr _ _ segs win st1(1) W_def]) simp_all
  then have W: "W = [Write_Chunk 1 (mk_chunk 1 1 1) 1 0 data, Write_Chunk 2 (mk_chunk 1 1 1) 3 0 data]"
    using one_part(2) nf demo_writing_facts(7) by (simp add: part_writes_def Let_def fst_part_answer data_def)
  have len: "length data = 10" by (simp add: data_def part_answer_length)
  have step: "\<exists>e. node_step (\<lambda>_. 0) 9 (Write_Chunk i (mk_chunk 1 1 1) nd 0 data) cl =
      Returned (stored_answer (Write_Chunk i (mk_chunk 1 1 1) nd 0 data), cl(nd := e))" if "cl nd = demo_store" for i nd cl
    using that len init_espresso_inv[of 1024] by (intro step_succeeds[of 1024]) (simp_all add: init_room)
  obtain e1 where e1: "node_step (\<lambda>_. 0) 9 (Write_Chunk 1 (mk_chunk 1 1 1) 1 0 data) (\<lambda>_. demo_store) =
      Returned (stored_answer (Write_Chunk 1 (mk_chunk 1 1 1) 1 0 data), (\<lambda>_. demo_store)(1 := e1))"
    using step[of "\<lambda>_. demo_store" 1 1] by blast
  obtain e2 where "node_step (\<lambda>_. 0) 9 (Write_Chunk 2 (mk_chunk 1 1 1) 3 0 data) ((\<lambda>_. demo_store)(1 := e1)) =
      Returned (stored_answer (Write_Chunk 2 (mk_chunk 1 1 1) 3 0 data), ((\<lambda>_. demo_store)(1 := e1))(3 := e2))"
    using step[of "(\<lambda>_. demo_store)(1 := e1)" 3 2] by auto
  with e1 have "cluster_run (\<lambda>_. 0) 9 W (\<lambda>_. demo_store) = Returned (map stored_answer W, ((\<lambda>_. demo_store)(1 := e1))(3 := e2))"
    unfolding W by simp
  then show thesis using that st1(1) W_def nf by blast
qed

lemma file_round_trip_witness:
  "\<exists>st1 W cl1 sr1 ms sr2. write_file good_net 20 1 (replicate 10 9) 10 demo_writer demo_writing = Returned st1 \<and>
     cluster_run (\<lambda>_. 0) 9 W (\<lambda>_. demo_store) = Returned (map stored_answer W, cl1) \<and>
     read_file (failing_net 1) 20 1 10 demo_writer demo_reader = Returned sr1 \<and>
     cluster_run (\<lambda>_. 0) 9 (delivered (io_sent (br_io sr1))) cl1 = Returned (map Some ms, cl1) \<and>
     run_handlers (answer_handler 20) ms sr1 = Returned sr2 \<and>
     br_replies sr2 = [Read_Result demo_writer 1 10 (replicate 10 9)]"
proof -
  let ?buf = "replicate 10 9 :: u8 list" and ?segs = "[(1, 0, 10)] :: (int \<times> int \<times> int) list" and ?i = "demo_info\<lparr>pm_size := 10\<rparr>"
  obtain st1 cl1 W where w: "write_file good_net 20 1 ?buf 10 demo_writer demo_writing = Returned st1"
    "W = drop (length (io_sent (br_io demo_writing))) (map fst (io_sent (br_io st1)))"
    "cluster_run (\<lambda>_. 0) 9 W (\<lambda>_. demo_store) = Returned (map stored_answer W, cl1)"
    "node_find (mk_chunk 1 1 1) (io_node (br_io st1)) = Some 1" "node_find (mk_chunk 1 1 1) (io_replica (br_io st1)) = Some 3"
    by (rule demo_written)
  have segs: "?segs = file_parts (pm_stripe_size demo_info) (uint (fi_offset demo_inst)) 10"
    using one_part(1) demo_open_facts(7) by simp
  have win: "in_window (\<lambda>_. 1) (\<lambda>_. 2) (pm_file_id demo_info) ?segs" by (simp add: in_window_def)
  have tr: "transfer_ok 20 demo_info demo_inst 10" using demo_open_facts(7) by (simp add: transfer_ok_def)
  have cl: "cluster_inv 1024 (\<lambda>_. demo_store)" using init_espresso_inv[of 1024] by (simp add: cluster_inv_def)
  have at: "at_work demo_writer (word_of_int 1) ''/a'' ?i demo_inst demo_reader" using demo_reader_facts(1) by simp
  have ex: "has_exclusive_lock demo_writer (pm_file_id demo_info) (br_locks demo_reader) = Returned 1"
    using demo_open_facts(1) demo_reader_facts(2) by simp
  have sh: "has_shared_lock demo_writer (pm_file_id demo_info) (br_locks demo_reader) = Returned 0"
    by (simp add: demo_reader_def demo_open_def has_shared_lock_def oc_find_def oc_lower_bound_def)
  have rd: "parts_readable 1 (br_io demo_reader) (pm_file_id demo_info) (pm_chunk_size demo_info) ?segs"
    using one_part(2) demo_reader_facts(6) by (simp add: parts_readable_def)
  have sorted: "oc_sorted (<) UNIV fst (br_write_lookups demo_writing)" "oc_sorted write_request_less UNIV fst (br_writes demo_writing)"
    "reads_sorted demo_reader" using demo_writing_facts(4,5) demo_reader_facts(3) by simp_all
  have num: "(0 :: int) < 1" "uint (pm_size demo_info) + int 10 < 2 ^ 31" "(10 :: nat) \<le> length ?buf"
    "\<forall>q \<in> set (chunk_parts (pm_chunk_size demo_info) ?segs). 0 < seg_len q" "(0 :: int) < 1 \<or> (0 :: int) < 0" "node_number 1"
    "uint (fi_offset demo_inst) + int 10 \<le> uint (pm_size ?i)" "uint (pm_size ?i) < 2 ^ 31"
    "pm_file_id ?i = pm_file_id demo_info" "pm_chunk_size ?i = pm_chunk_size demo_info" "pm_stripe_size ?i = pm_stripe_size demo_info"
    using one_part(2) demo_open_facts(7) by (simp_all add: node_number_def)
  have pl: "\<forall>x \<in> set (file_chunks (pm_chunk_size demo_info) ?segs).
      node_find (part_chunk (pm_file_id demo_info) x) (io_node (br_io demo_reader)) = node_find (part_chunk (pm_file_id demo_info) x) (io_node (br_io st1)) \<and>
      node_find (part_chunk (pm_file_id demo_info) x) (io_replica (br_io demo_reader)) = node_find (part_chunk (pm_file_id demo_info) x) (io_replica (br_io st1))"
    using one_part(2) w(4,5) one_chunk_find by (simp add: demo_reader_def)
  obtain sr1 ms sr2 where "read_file (failing_net 1) 20 1 10 demo_writer demo_reader = Returned sr1"
    "cluster_run (\<lambda>_. 0) 9 (drop (length (delivered (io_sent (br_io demo_reader)))) (delivered (io_sent (br_io sr1)))) cl1 = Returned (map Some ms, cl1)"
    "run_handlers (answer_handler 20) ms sr1 = Returned sr2"
    "br_replies sr2 = br_replies demo_reader @ [Read_Result demo_writer 1 (int 10) (take 10 ?buf)]"
    using file_round_trip[OF demo_writing_facts(1) num(1) demo_writing_facts(2) good_net_reachable demo_writing_facts(3) sorted(1,2) tr num(2,3)
        segs win num(4) w(1,2) cl w(3) at num(1) ex sh num(5) failing_net_only num(6) sorted(3) num(7-11) refl rd pl] by blast
  moreover have "delivered (io_sent (br_io demo_reader)) = []" by (simp add: demo_reader_def one_chunk_io_def delivered_def)
  ultimately show ?thesis using w(1,3) demo_reader_facts(4) by auto
qed



end
