(* ===== verification/File_Bytes.thy ===== *)
theory File_Bytes
  imports Cluster
begin

text \<open>
  The bytes of a file on the nodes. Every byte has its place, an offset in its chunk, and lies there
  on the node and on the replica node of the chunk. When the nodes have served all the requests of a
  write, they hold the file with the written range overwritten.
\<close>

section \<open>Bytes on nodes\<close>

definition node_byte :: "cluster \<Rightarrow> int \<Rightarrow> file_chunk \<Rightarrow> int \<Rightarrow> u8 option" where
  "node_byte cl nd ch x = chunk_view (cl nd) (chunk_descriptor ch) x"

text \<open>The bytes a write request puts on its node.\<close>

fun covers :: "chunk_request \<Rightarrow> int \<Rightarrow> file_chunk \<Rightarrow> int \<Rightarrow> bool" where
  "covers (Write_Chunk i ch nd off data) nd' ch' x \<longleftrightarrow> nd' = nd \<and> ch' = ch \<and> off \<le> x \<and> x < off + int (length data)"
| "covers r nd' ch' x \<longleftrightarrow> False"

fun request_byte :: "chunk_request \<Rightarrow> int \<Rightarrow> u8" where
  "request_byte (Write_Chunk i ch nd off data) x = data ! nat (x - off)"
| "request_byte r x = 0"

text \<open>
  A write without bytes needs its chunk to be there already: it is one that starts behind the last
  byte of a full chunk.
\<close>

fun servable :: "cluster \<Rightarrow> chunk_request \<Rightarrow> bool" where
  "servable cl (Write_Chunk i ch nd off data) \<longleftrightarrow> 0 \<le> off \<and> off < 2 ^ 31 \<and> length data < 2 ^ 31 - 100 \<and>
     (data = [] \<longrightarrow> node_byte cl nd ch (off - 1) \<noteq> None)"
| "servable cl r \<longleftrightarrow> False"

lemma chunk_of_byte:
  assumes "node_byte cl nd ch x = Some b"
  obtains a where "es_lookup (cl nd) (chunk_descriptor ch) = Some a" "0 \<le> x" "x < da_size a"
    "chunk_size_of (cl nd) (chunk_descriptor ch) = da_size a"
  using assms by (auto simp: node_byte_def chunk_view_def chunk_size_of_def split: option.splits if_splits)

lemma node_writes_nothing:
  fixes c :: file_chunk
  assumes "espresso_inv vol st" "es_lookup st (chunk_descriptor c) = Some a" "0 \<le> off" "off \<le> da_size a" "off < 2 ^ 31"
  shows "\<exists>out. espresso_handle heap junk st (request_bytes junk' (Write_Chunk i c node off []) @ rest) = Returned (out, st, rest) \<and>
    (\<forall>heap'. receive_message heap' out = Returned (Some (Chunk_Written i (chunk_fields 0 c off 0)), []))"
proof -
  have p: "partition {0..<vol} (free_space (es_free st)) (es_lookup st)"
    using assms(1) by (simp add: espresso_inv_def space_inv_def)
  then have "extent a \<subseteq> {0..<vol}" "0 < da_size a"
    using partitionD(1,3)[OF p assms(2)] by simp_all
  then have "0 \<le> da_offset a" by (force simp: extent_def)
  then have "write_chunk heap st (chunk_descriptor c) off buf 0 = Returned (0, st)" for buf
    using assms(2-4) by (simp add: write_chunk_def write_data_def sys_write_def)
  moreover have v: "valid_message (Chunk_Written i (chunk_fields 0 c off 0))" by (simp add: fits_int_def)
  obtain p where "built (message_packet heap (Chunk_Written i (chunk_fields 0 c off 0))) = Returned p"
    "\<And>heap. receive_message heap (take (unat (pk_size p)) (pk_buf p)) =
       Returned (Some (Chunk_Written i (chunk_fields 0 c off 0)), [])"
    by (rule built_message[OF v]) blast
  moreover have "receive_chunk_message heap (request_bytes junk' (Write_Chunk i c node off []) @ rest) =
      Returned (Some (Put_Chunk i (chunk_fields 0 c off 0) []), rest)"
    using request_bytes_received[of "Write_Chunk i c node off []" heap junk' rest] by simp
  ultimately show ?thesis
    using assms(3,5) by (simp add: espresso_handle_def process_write_packet_def sint_offset)
qed

text \<open>A write that succeeds: its bytes are there, and all others stay.\<close>

definition put_bytes :: "chunk_request list \<Rightarrow> cluster \<Rightarrow> cluster \<Rightarrow> bool" where
  "put_bytes W cl cl' \<longleftrightarrow>
     (\<forall>r \<in> set W. \<forall>nd ch x. covers r nd ch x \<longrightarrow> node_byte cl' nd ch x = Some (request_byte r x)) \<and>
     (\<forall>nd ch x b. (\<forall>r \<in> set W. \<not> covers r nd ch x) \<longrightarrow> node_byte cl nd ch x = Some b \<longrightarrow> node_byte cl' nd ch x = Some b)"

lemma put_bytesI:
  assumes "\<And>r nd ch x. r \<in> set W \<Longrightarrow> covers r nd ch x \<Longrightarrow> node_byte cl' nd ch x = Some (request_byte r x)"
    and "\<And>nd ch x b. (\<And>r. r \<in> set W \<Longrightarrow> \<not> covers r nd ch x) \<Longrightarrow> node_byte cl nd ch x = Some b \<Longrightarrow> node_byte cl' nd ch x = Some b"
  shows "put_bytes W cl cl'"
  using assms by (auto simp: put_bytes_def)

lemma put_bytesD:
  assumes "put_bytes W cl cl'"
  shows "r \<in> set W \<Longrightarrow> covers r nd ch x \<Longrightarrow> node_byte cl' nd ch x = Some (request_byte r x)"
    and "(\<And>r. r \<in> set W \<Longrightarrow> \<not> covers r nd ch x) \<Longrightarrow> node_byte cl nd ch x = Some b \<Longrightarrow> node_byte cl' nd ch x = Some b"
  using assms by (auto simp: put_bytes_def)

lemma put_bytes_grow:
  assumes "put_bytes W cl cl'" "node_byte cl nd ch x \<noteq> None"
  shows "node_byte cl' nd ch x \<noteq> None"
  using assms by (cases "\<exists>r \<in> set W. covers r nd ch x") (auto simp: put_bytes_def)

lemma write_step_bytes:
  assumes "cluster_inv vol cl" "servable cl r" "node_step heap junk r cl = Returned (stored_answer r, cl')"
  shows "cluster_inv vol cl' \<and> put_bytes [r] cl cl'"
proof -
  obtain i c nd off data where r: "r = Write_Chunk i c nd off data" using assms(2) by (cases r) auto
  let ?d = "chunk_descriptor c" and ?n = "int (length data)"
  have b: "0 \<le> off" "off < 2 ^ 31" "length data < 2 ^ 31 - 100" using assms(2) r by simp_all
  have inv: "espresso_inv vol (cl nd)" using assms(1) by (simp add: cluster_inv_def)
  show ?thesis
  proof (cases "data = []")
    case True
    then obtain a where a: "es_lookup (cl nd) ?d = Some a" "off \<le> da_size a"
      using assms(2) r by (auto elim: chunk_of_byte)
    obtain out where "espresso_handle heap junk (cl nd) (request_bytes junk (Write_Chunk i c nd off []) @ []) = Returned (out, cl nd, [])"
      "\<forall>heap'. receive_message heap' out = Returned (Some (Chunk_Written i (chunk_fields 0 c off 0)), [])"
      using node_writes_nothing[OF inv a(1) b(1) a(2) b(2), where rest = "[]"] by blast
    then have "cl' = cl" using assms(3) True by (simp add: r node_step_def)
    then show ?thesis using assms(1) True by (auto simp: put_bytes_def r)
  next
    case False
    then have len: "0 < length data" by simp
    obtain out e rest where h: "espresso_handle heap junk (cl nd) (request_bytes junk (Write_Chunk i c nd off data) @ []) = Returned (out, e, rest)"
      "cl' = cl(nd := e)" "\<exists>rest. receive_message heap out = Returned (stored_answer r, rest)"
      using assms(3) by (auto simp: node_step_def r)
    obtain buf k where w: "espresso_inv vol e" "receive_message heap out = Returned (Some (Chunk_Written i (chunk_fields 0 c off k)), [])"
      "\<forall>j < length data. buf j = data ! j" "k = ?n \<and> written (cl nd) ?d off buf ?n e \<or> k = -1"
      using node_wrote[OF inv b(1,2) len b(3) h(1)] by blast
    have cl': "cl' = cl(nd := e)" "chunk_fields 0 c off k = chunk_fields 0 c off ?n"
      using h(2,3) w(2) by (simp_all add: r)
    then have "k = ?n" by (metis chunk_fields_simps(1))
    with w(4) have wr: "written (cl nd) ?d off buf ?n e" by auto
    have "node_byte cl' nd' ch x = Some b" if "\<not> covers r nd' ch x" "node_byte cl nd' ch x = Some b" for nd' ch x b
    proof (cases "nd' = nd \<and> ch = c")
      case True
      moreover from that(2) obtain a where "0 \<le> x" "x < chunk_size_of (cl nd') (chunk_descriptor ch)"
        by (auto elim: chunk_of_byte)
      ultimately show ?thesis using wr that cl'(1) by (simp add: r written_def node_byte_def)
    next
      case False
      then show ?thesis using wr that(2) cl'(1)
        by (cases "nd' = nd") (auto simp: written_def node_byte_def chunk_descriptor_inj)
    qed
    moreover have "node_byte cl' nd' ch x = Some (request_byte r x)" if "covers r nd' ch x" for nd' ch x
      using that wr w(3) cl'(1) by (auto simp: r written_def node_byte_def)
    moreover have "cluster_inv vol cl'" using assms(1) w(1) cl'(1) by (simp add: cluster_inv_def)
    ultimately show ?thesis by (simp add: put_bytes_def)
  qed
qed

lemma servable_grow: "put_bytes W cl cl' \<Longrightarrow> servable cl r \<Longrightarrow> servable cl' r"
  using put_bytes_grow by (cases r) auto

text \<open>Writes that agree where they meet, one after the other.\<close>

definition consistent :: "chunk_request list \<Rightarrow> bool" where
  "consistent W \<longleftrightarrow> (\<forall>r \<in> set W. \<forall>r' \<in> set W. \<forall>nd ch x. covers r nd ch x \<longrightarrow> covers r' nd ch x \<longrightarrow> request_byte r x = request_byte r' x)"

lemma consistentD:
  "consistent W \<Longrightarrow> r \<in> set W \<Longrightarrow> r' \<in> set W \<Longrightarrow> covers r nd ch x \<Longrightarrow> covers r' nd ch x \<Longrightarrow> request_byte r x = request_byte r' x"
  unfolding consistent_def by blast

lemma consistent_tl: "consistent (r # W) \<Longrightarrow> consistent W"
  unfolding consistent_def by (meson list.set_intros(2))

lemma run_writes_bytes:
  assumes "cluster_inv vol cl" "\<forall>r \<in> set W. servable cl r" "consistent W"
    and "cluster_run heap junk W cl = Returned (map stored_answer W, cl')"
  shows "cluster_inv vol cl' \<and> put_bytes W cl cl'"
  using assms
proof (induction W arbitrary: cl)
  case (Cons r W)
  obtain cl1 where s: "node_step heap junk r cl = Returned (stored_answer r, cl1)"
    "cluster_run heap junk W cl1 = Returned (map stored_answer W, cl')"
    using Cons.prems(4) by auto
  have r: "servable cl r" using Cons.prems(2) by simp
  note w = write_step_bytes[OF Cons.prems(1) r s(1)]
  have "\<forall>r \<in> set W. servable cl1 r" using Cons.prems(2) servable_grow[OF conjunct2[OF w]] by simp
  from Cons.IH[OF conjunct1[OF w] this consistent_tl[OF Cons.prems(3)] s(2)]
  have ih: "cluster_inv vol cl'" "put_bytes W cl1 cl'" by blast+
  have "put_bytes (r # W) cl cl'"
  proof (rule put_bytesI)
    fix q nd ch x assume q: "q \<in> set (r # W)" "covers q nd ch x"
    show "node_byte cl' nd ch x = Some (request_byte q x)"
    proof (cases "\<exists>r' \<in> set W. covers r' nd ch x")
      case True
      then obtain r' where r': "r' \<in> set W" "covers r' nd ch x" by blast
      have "request_byte q x = request_byte r' x"
        by (rule consistentD[OF Cons.prems(3) q(1) _ q(2) r'(2)]) (simp add: r'(1))
      then show ?thesis using put_bytesD(1)[OF ih(2) r'] by simp
    next
      case False
      then have "q = r" using q by auto
      then have "node_byte cl1 nd ch x = Some (request_byte q x)" using put_bytesD(1)[OF conjunct2[OF w]] q(2) by simp
      then show ?thesis using put_bytesD(2)[OF ih(2)] False by blast
    qed
  next
    fix nd ch x b assume n: "\<And>q. q \<in> set (r # W) \<Longrightarrow> \<not> covers q nd ch x" "node_byte cl nd ch x = Some b"
    then have "node_byte cl1 nd ch x = Some b" using put_bytesD(2)[OF conjunct2[OF w]] by simp
    then show "node_byte cl' nd ch x = Some b" using put_bytesD(2)[OF ih(2)] n(1) by simp
  qed
  with ih(1) show ?case by simp
qed (simp add: put_bytes_def)

section \<open>Where the bytes of a file lie\<close>

definition chunk_at :: "u32 \<Rightarrow> u32 \<Rightarrow> u32 \<Rightarrow> int \<Rightarrow> file_chunk" where
  "chunk_at f ss cs x = mk_chunk f (word_of_int (x div uint ss + 1)) (word_of_int (x mod uint ss div uint cs + 1))"

definition in_chunk :: "u32 \<Rightarrow> u32 \<Rightarrow> int \<Rightarrow> int" where
  "in_chunk ss cs x = x mod uint ss mod uint cs"

lemma segments_offsets:
  "(k', off', len) \<in> set (segments sz k off cnt) \<Longrightarrow> (off' = 0 \<or> k' = k \<and> off' = off) \<and> (len = 0 \<longrightarrow> off' = sz)"
proof (induction sz k off cnt rule: segments.induct)
  case (1 sz k off cnt)
  show ?case
  proof (cases rule: segments_cases[of sz k off cnt])
    case 2
    show ?thesis
    proof (cases "(k', off', len) = (k, off, min cnt (sz - off))")
      case False
      then have "(k', off', len) \<in> set (segments sz (k + 1) 0 (cnt - min cnt (sz - off)))"
        using 1(2) unfolding 2(5) by auto
      with 1(1) 2 show ?thesis by auto
    qed (use 2 in auto)
  qed (use 1(2) in simp)
qed

lemma part_place:
  assumes "0 < uint sz" "0 \<le> pos" "(k, off, len) \<in> set (file_parts sz pos cnt)"
  shows "1 \<le> k" "0 \<le> off" "0 \<le> len" "off + len \<le> uint sz"
    and "pos \<le> (k - 1) * uint sz + off" "(k - 1) * uint sz + off + len \<le> pos + int cnt"
    and "0 < off \<Longrightarrow> (k - 1) * uint sz + off = pos" "len = 0 \<Longrightarrow> off = uint sz" "0 < cnt"
proof -
  let ?u = "unit_index (uint sz) pos"
  note b = unit_index_bounds[OF assms(1,2)] and sb = segments_bounds[OF assms(3)]
  show "1 \<le> k" "0 \<le> off" "0 \<le> len" "off + len \<le> uint sz" using b(1) sb by simp_all
  show up: "(k - 1) * uint sz + off + len \<le> pos + int cnt" using segments_within[OF assms(3)] by simp
  show first: "(k - 1) * uint sz + off = pos" if "0 < off" using segments_offsets[OF assms(3)] that by auto
  show z: "off = uint sz" if "len = 0" using segments_offsets[OF assms(3)] that by simp
  show "0 < cnt" using assms(3) by (cases "cnt = 0") auto
  show "pos \<le> (k - 1) * uint sz + off"
  proof (cases "0 < len")
    case True
    then have "(k - 1) * uint sz + off \<in> set (concat (map (seg_bytes (uint sz)) (file_parts sz pos cnt)))"
      using assms(3) by (force simp: seg_bytes_def)
    then show ?thesis unfolding file_parts_tile[OF assms(1,2)] by simp
  next
    case False
    then have "0 < off" using z sb assms(1) by fastforce
    then show ?thesis using first by simp
  qed
qed

text \<open>The position of a byte in the file, from its stripe, its chunk and its offset in the chunk.\<close>

abbreviation position :: "u32 \<Rightarrow> u32 \<Rightarrow> int \<Rightarrow> int \<Rightarrow> int \<Rightarrow> int" where
  "position ss cs s k x \<equiv> (s - 1) * uint ss + (k - 1) * uint cs + x"

lemma chunk_at_position:
  assumes "1 \<le> k" "0 \<le> x" "x < uint cs" "(k - 1) * uint cs + x < uint ss"
  shows "chunk_at f ss cs (position ss cs s k x) = mk_chunk f (word_of_int s) (word_of_int k)"
    and "in_chunk ss cs (position ss cs s k x) = x"
proof -
  let ?y = "(k - 1) * uint cs + x"
  have y: "0 \<le> ?y" "?y < uint ss" using assms by simp_all
  have e: "position ss cs s k x = ?y + uint ss * (s - 1)" by (simp add: algebra_simps)
  have "position ss cs s k x div uint ss = s - 1" "position ss cs s k x mod uint ss = ?y"
    unfolding e using y by (simp_all add: div_pos_pos_trivial mod_pos_pos_trivial)
  moreover have "?y div uint cs = k - 1" "?y mod uint cs = x"
    using assms(2,3) by (simp_all add: div_pos_pos_trivial mod_pos_pos_trivial add.commute)
  ultimately show "chunk_at f ss cs (position ss cs s k x) = mk_chunk f (word_of_int s) (word_of_int k)"
    "in_chunk ss cs (position ss cs s k x) = x"
    by (simp_all add: chunk_at_def in_chunk_def)
qed

lemma file_chunk_place:
  assumes "0 < uint ss" "0 < uint cs" "0 \<le> pos" "(s, k, off, len) \<in> set (file_chunks cs (file_parts ss pos cnt))"
  shows "1 \<le> s" "1 \<le> k" "0 \<le> off" "0 \<le> len" "off + len \<le> uint cs" "(k - 1) * uint cs + off + len \<le> uint ss"
    and "pos \<le> position ss cs s k off" "position ss cs s k off + len \<le> pos + int cnt"
    and "len = 0 \<Longrightarrow> off = uint cs \<and> position ss cs s k off = pos"
proof -
  obtain off1 len1 where q: "(s, off1, len1) \<in> set (file_parts ss pos cnt)" "(k, off, len) \<in> set (file_parts cs off1 (nat len1))"
    using assms(4) by (auto simp del: int_nat_eq)
  note a = part_place[OF assms(1,3) q(1)]
  note b = part_place[OF assms(2) a(2) q(2)]
  show "1 \<le> s" "1 \<le> k" "0 \<le> off" "0 \<le> len" "off + len \<le> uint cs" using a b by simp_all
  show "(k - 1) * uint cs + off + len \<le> uint ss" using a(4) b(6,9) by simp
  show "pos \<le> position ss cs s k off" "position ss cs s k off + len \<le> pos + int cnt"
    using a(3,5,6) b(5,6) by linarith+
  show "off = uint cs \<and> position ss cs s k off = pos" if "len = 0"
  proof -
    have o: "off = uint cs" using b(8) that by simp
    then have p: "(k - 1) * uint cs + off = off1" using b(7) assms(2) by simp
    moreover have "0 \<le> (k - 1) * uint cs" using b(1) by simp
    ultimately have "0 < off1" using o assms(2) by linarith
    then show ?thesis using a(7) o p by simp
  qed
qed

lemma range_in_chunks:
  assumes "0 < uint ss" "0 < uint cs" "0 \<le> pos" "pos \<le> x" "x < pos + int cnt"
  obtains s k off len j where "(s, k, off, len) \<in> set (file_chunks cs (file_parts ss pos cnt))" "0 \<le> j" "j < len"
    "x = position ss cs s k (off + j)"
proof -
  have "x \<in> set (concat (map (seg_bytes (uint ss)) (file_parts ss pos cnt)))"
    unfolding file_parts_tile[OF assms(1,3)] using assms(4,5) by simp
  then obtain s off1 len1 where s: "(s, off1, len1) \<in> set (file_parts ss pos cnt)"
    "(s - 1) * uint ss + off1 \<le> x" "x < (s - 1) * uint ss + off1 + len1"
    by (auto simp: seg_bytes_def)
  have "x - (s - 1) * uint ss \<in> set (concat (map (seg_bytes (uint cs)) (file_parts cs off1 (nat len1))))"
    unfolding file_parts_tile[OF assms(2) part_place(2)[OF assms(1,3) s(1)]] using s(2,3) by simp
  then obtain k off len where k: "(k, off, len) \<in> set (file_parts cs off1 (nat len1))"
    "(k - 1) * uint cs + off \<le> x - (s - 1) * uint ss" "x - (s - 1) * uint ss < (k - 1) * uint cs + off + len"
    by (auto simp: seg_bytes_def simp del: int_nat_eq)
  have "(s, k, off, len) \<in> set (file_chunks cs (file_parts ss pos cnt))"
    using s(1) k(1) by (force simp del: int_nat_eq)
  then show thesis using k(2,3) by (intro that[of s k off len "x - position ss cs s k off"]) auto
qed

lemma place_inj:
  assumes "0 < uint ss" "0 < uint cs" "0 \<le> x" "x < 2 ^ 31" "0 \<le> y" "y < 2 ^ 31"
    and "chunk_at f ss cs x = chunk_at f ss cs y" "in_chunk ss cs x = in_chunk ss cs y"
  shows "x = y"
proof -
  have le: "z div uint ss \<le> z" "z mod uint ss div uint cs \<le> z" "0 \<le> z div uint ss" "0 \<le> z mod uint ss div uint cs"
    if "0 \<le> z" for z
  proof -
    have m: "0 \<le> z mod uint ss" "z mod uint ss \<le> z" using assms(1) that zmod_le_nonneg_dividend by auto
    show "z div uint ss \<le> z" "0 \<le> z div uint ss"
      using assms(1) that by (simp_all add: zdiv_mono2[of z 1, simplified] pos_imp_zdiv_nonneg_iff)
    have "z mod uint ss div uint cs \<le> z mod uint ss"
      using assms(2) m(1) zdiv_mono2[of "z mod uint ss" 1 "uint cs"] by simp
    then show "z mod uint ss div uint cs \<le> z" using m(2) by simp
    show "0 \<le> z mod uint ss div uint cs" using assms(2) m(1) by (simp add: pos_imp_zdiv_nonneg_iff)
  qed
  have eq: "a = b" if "(word_of_int (a + 1) :: u32) = word_of_int (b + 1)" "0 \<le> a" "a < 2 ^ 31" "0 \<le> b" "b < 2 ^ 31" for a b :: int
  proof -
    have "\<not> a + 1 < b + 1" "\<not> b + 1 < a + 1"
      using small_unit_less[of "a + 1" "b + 1"] small_unit_less[of "b + 1" "a + 1"] that by (auto simp del: of_int_add)
    then show ?thesis by simp
  qed
  have d: "x div uint ss = y div uint ss"
    by (rule eq) (use assms(3-7) le[of x] le[of y] in \<open>simp_all add: chunk_at_def\<close>)
  have "x mod uint ss div uint cs = y mod uint ss div uint cs"
    by (rule eq) (use assms(3-7) le[of x] le[of y] in \<open>simp_all add: chunk_at_def\<close>)
  moreover have "x mod uint ss mod uint cs = y mod uint ss mod uint cs" using assms(8) by (simp add: in_chunk_def)
  ultimately have "x mod uint ss = y mod uint ss" by (metis div_mult_mod_eq)
  with d show ?thesis by (metis div_mult_mod_eq)
qed

text \<open>The nodes hold the bytes \<open>bs\<close> of the file, each at its place, on both nodes of its chunk.\<close>

definition holds_byte :: "u32 \<Rightarrow> u32 \<Rightarrow> u32 \<Rightarrow> io_state \<Rightarrow> cluster \<Rightarrow> int \<Rightarrow> u8 \<Rightarrow> bool" where
  "holds_byte f ss cs io cl x b \<longleftrightarrow> (\<exists>p r. node_find (chunk_at f ss cs x) (io_node io) = Some p \<and>
     node_find (chunk_at f ss cs x) (io_replica io) = Some r \<and>
     node_byte cl p (chunk_at f ss cs x) (in_chunk ss cs x) = Some b \<and>
     node_byte cl r (chunk_at f ss cs x) (in_chunk ss cs x) = Some b)"

definition holds_file :: "u32 \<Rightarrow> u32 \<Rightarrow> u32 \<Rightarrow> io_state \<Rightarrow> cluster \<Rightarrow> u8 list \<Rightarrow> bool" where
  "holds_file f ss cs io cl bs \<longleftrightarrow> (\<forall>x < length bs. holds_byte f ss cs io cl (int x) (bs ! x))"

text \<open>Overwriting a list of bytes from position \<open>m\<close> on, past its end if need be.\<close>

definition overwrite :: "nat \<Rightarrow> u8 list \<Rightarrow> u8 list \<Rightarrow> u8 list" where
  "overwrite m data bs = take m bs @ data @ drop (m + length data) bs"

lemma overwrite_simps:
  assumes "m \<le> length bs"
  shows "length (overwrite m data bs) = max (length bs) (m + length data)"
    and "m \<le> x \<Longrightarrow> x < m + length data \<Longrightarrow> overwrite m data bs ! x = data ! (x - m)"
    and "\<not> (m \<le> x \<and> x < m + length data) \<Longrightarrow> x < length (overwrite m data bs) \<Longrightarrow>
      x < length bs \<and> overwrite m data bs ! x = bs ! x"
  using assms by (auto simp: overwrite_def nth_append min_def)

section \<open>Serving the requests of a write\<close>

lemma part_writes_iff:
  "r \<in> set (part_writes rid rrid f ss cs F N M (s, k, off, len)) \<longleftrightarrow>
     (let ch = part_chunk f (s, k, off, len); data = snd (part_answer F f ss cs s (k, off, len))
      in r = Write_Chunk rid ch (the (N ch)) off data \<or> r = Write_Chunk rrid ch (the (M ch)) off data)"
  by (simp add: part_writes_def Let_def fst_part_answer)

lemma part_data_nth:
  "0 \<le> j \<Longrightarrow> j < len \<Longrightarrow> snd (part_answer F f ss cs s (k, off, len)) ! nat j = F (position ss cs s k (off + j))"
  by (simp add: part_answer_def seg_bytes_def algebra_simps)

lemma part_writes_consistent:
  assumes "inj_on (part_chunk f) (set xs)"
  shows "consistent (concat (map (part_writes rid rrid f ss cs F N M) xs))"
  unfolding consistent_def
proof (intro ballI allI impI)
  fix r r' nd ch x
  assume a: "r \<in> set (concat (map (part_writes rid rrid f ss cs F N M) xs))"
    "r' \<in> set (concat (map (part_writes rid rrid f ss cs F N M) xs))" "covers r nd ch x" "covers r' nd ch x"
  then obtain y z where y: "y \<in> set xs" "r \<in> set (part_writes rid rrid f ss cs F N M y)"
    and z: "z \<in> set xs" "r' \<in> set (part_writes rid rrid f ss cs F N M z)" by auto
  have "part_chunk f y = ch" "part_chunk f z = ch"
    using y(2) z(2) a(3,4) by (cases y; cases z; auto simp: part_writes_iff Let_def)+
  then have "y = z" using inj_onD[OF assms _ y(1) z(1)] by simp
  then show "request_byte r x = request_byte r' x" using y(2) z(2) by (cases z) (auto simp: part_writes_iff Let_def)
qed

text \<open>
  The requests that write \<open>data\<close> at position \<open>m\<close> of a file whose bytes \<open>bs\<close> the nodes hold: when
  all of them are served, the nodes hold the overwritten file.
\<close>

lemma writes_hold:
  fixes data :: "u8 list" and m :: nat
  assumes sz: "0 < uint ss" "uint ss < 2 ^ 31" "0 < uint cs" "uint cs \<le> 65536"
    and range: "m \<le> length bs" "int (length bs) < 2 ^ 31" "int (m + length data) < 2 ^ 31"
    and xs: "xs = file_chunks cs (file_parts ss (int m) (length data))" "inj_on (part_chunk f) (set xs)"
    and io: "keeps lo hi io io'" "\<And>x. x < length bs \<Longrightarrow> chunk_at f ss cs (int x) \<in> chunk_window lo hi"
    and placed: "\<And>x. x \<in> set xs \<Longrightarrow> node_find (part_chunk f x) (io_node io') \<noteq> None \<and> node_find (part_chunk f x) (io_replica io') \<noteq> None"
    and F: "\<And>x. F x = data ! nat (x - int m)"
    and old: "holds_file f ss cs io cl bs" "cluster_inv vol cl"
    and W: "W = concat (map (part_writes rid rrid f ss cs F (\<lambda>ch. node_find ch (io_node io')) (\<lambda>ch. node_find ch (io_replica io'))) xs)"
    and run: "cluster_run heap junk W cl = Returned (map stored_answer W, cl')"
  shows "cluster_inv vol cl' \<and> holds_file f ss cs io' cl' (overwrite m data bs)"
proof -
  let ?N = "\<lambda>ch. node_find ch (io_node io')" and ?M = "\<lambda>ch. node_find ch (io_replica io')"
  note pl = file_chunk_place[OF sz(1,3) of_nat_0_le_iff[of m], where cnt = "length data", folded xs(1)]
  have kept: "\<exists>p r. ?N (chunk_at f ss cs (int x)) = Some p \<and> ?M (chunk_at f ss cs (int x)) = Some r \<and>
      node_byte cl p (chunk_at f ss cs (int x)) (in_chunk ss cs (int x)) = Some (bs ! x) \<and>
      node_byte cl r (chunk_at f ss cs (int x)) (in_chunk ss cs (int x)) = Some (bs ! x)" if "x < length bs" for x
    using old(1) that keepsD[OF io(1) io(2)[OF that]] by (fastforce simp: holds_file_def holds_byte_def)
  have serv: "servable cl r" if x: "(s, k, off, len) \<in> set xs" "r \<in> set (part_writes rid rrid f ss cs F ?N ?M (s, k, off, len))" for s k off len r
  proof -
    note q = pl[OF x(1)]
    let ?ch = "part_chunk f (s, k, off, len)"
    have l: "length (snd (part_answer F f ss cs s (k, off, len))) = nat len" by (rule part_answer_length)
    have b: "0 \<le> off" "off < 2 ^ 31" "nat len < 2 ^ 31 - 100" using q(3-5) sz(4) by simp_all
    have "node_byte cl (the (?N ?ch)) ?ch (off - 1) \<noteq> None \<and> node_byte cl (the (?M ?ch)) ?ch (off - 1) \<noteq> None" if "len = 0"
    proof -
      have o: "off = uint cs" "position ss cs s k off = int m" using q(9) that by simp_all
      have "0 \<le> (s - 1) * uint ss" "0 \<le> (k - 1) * uint cs" using q(1,2) by simp_all
      then have m0: "0 < m" using o sz(3) by simp
      then have lt: "m - 1 < length bs" using range(1) by simp
      have "position ss cs s k (off - 1) = int (m - 1)" using o(2) m0 by simp
      moreover have "0 \<le> off - 1" "off - 1 < uint cs" "(k - 1) * uint cs + (off - 1) < uint ss"
        using o(1) sz(3) q(6) that by simp_all
      note ca = chunk_at_position[OF q(2) this, where s = s]
      ultimately show ?thesis using kept[OF lt] by auto
    qed
    then show ?thesis using x(2) b l q(4) by (cases "len = 0") (auto simp: part_writes_iff Let_def)
  qed
  have "\<forall>r \<in> set W. servable cl r" unfolding W by (auto intro: serv)
  moreover have "consistent W" unfolding W by (rule part_writes_consistent[OF xs(2)])
  ultimately have "cluster_inv vol cl' \<and> put_bytes W cl cl'" by (rule run_writes_bytes[OF old(2) _ _ run])
  then
  have put: "cluster_inv vol cl'" "put_bytes W cl cl'" by blast+
  have "holds_byte f ss cs io' cl' (int x) (overwrite m data bs ! x)" if lt: "x < length (overwrite m data bs)" for x
  proof (cases "m \<le> x \<and> x < m + length data")
    case True
    then have "int m \<le> int x" "int x < int m + int (length data)" by simp_all
    then obtain s k off len j where q: "(s, k, off, len) \<in> set xs" "0 \<le> j" "j < len" "int x = position ss cs s k (off + j)"
      unfolding xs(1) by (rule range_in_chunks[OF sz(1,3) of_nat_0_le_iff])
    let ?ch = "part_chunk f (s, k, off, len)" and ?data = "snd (part_answer F f ss cs s (k, off, len))"
    have b: "1 \<le> k" "0 \<le> off + j" "off + j < uint cs" "(k - 1) * uint cs + (off + j) < uint ss"
      using pl(2,3,5,6)[OF q(1)] q(2,3) by simp_all
    have at: "chunk_at f ss cs (int x) = ?ch" "in_chunk ss cs (int x) = off + j"
      unfolding q(4) using chunk_at_position[OF b] by simp_all
    obtain p r where pr: "?N ?ch = Some p" "?M ?ch = Some r" using placed[OF q(1)] by blast
    have "?data ! nat j = F (int x)" unfolding q(4) by (rule part_data_nth[OF q(2,3)])
    also have "\<dots> = overwrite m data bs ! x" using True overwrite_simps(2)[OF range(1), of x data] by (simp add: F nat_diff_distrib)
    finally have d: "?data ! nat j = overwrite m data bs ! x" .
    have w: "Write_Chunk rid ?ch p off ?data \<in> set W" "Write_Chunk rrid ?ch r off ?data \<in> set W"
      using q(1) pr unfolding W by (force simp: part_writes_iff Let_def)+
    have "node_byte cl' nd ?ch (off + j) = Some (overwrite m data bs ! x)" if "Write_Chunk i ?ch nd off ?data \<in> set W" for i nd
      using put_bytesD(1)[OF put(2) that, of nd ?ch "off + j"] q(2,3) d by (simp add: part_answer_length)
    with w pr show ?thesis unfolding holds_byte_def at by blast
  next
    case False
    note o = overwrite_simps(3)[OF range(1) False lt]
    obtain p r where pr: "?N (chunk_at f ss cs (int x)) = Some p" "?M (chunk_at f ss cs (int x)) = Some r"
      "node_byte cl p (chunk_at f ss cs (int x)) (in_chunk ss cs (int x)) = Some (bs ! x)"
      "node_byte cl r (chunk_at f ss cs (int x)) (in_chunk ss cs (int x)) = Some (bs ! x)"
      using kept o by blast
    have "\<not> covers q nd (chunk_at f ss cs (int x)) (in_chunk ss cs (int x))" if w: "q \<in> set W" for q nd
    proof
      assume c: "covers q nd (chunk_at f ss cs (int x)) (in_chunk ss cs (int x))"
      obtain s k off len where q: "(s, k, off, len) \<in> set xs" "q \<in> set (part_writes rid rrid f ss cs F ?N ?M (s, k, off, len))"
        using w unfolding W by auto
      let ?j = "in_chunk ss cs (int x)"
      have j: "chunk_at f ss cs (int x) = part_chunk f (s, k, off, len)" "off \<le> ?j" "?j < off + len"
        using q(2) c pl(4)[OF q(1)] by (auto simp: part_writes_iff Let_def part_answer_length)
      note b = pl[OF q(1)]
      have y: "0 \<le> ?j" "?j < uint cs" "(k - 1) * uint cs + ?j < uint ss"
        "int m \<le> position ss cs s k ?j" "position ss cs s k ?j < int m + int (length data)"
        using b j(2,3) by linarith+
      note at = chunk_at_position[OF b(2) y(1-3), where s = s]
      have "int x = position ss cs s k ?j"
        by (rule place_inj[OF sz(1,3)]) (use at j(1) o range y in auto)
      then show False using y(4,5) False by simp
    qed
    then have "node_byte cl' nd (chunk_at f ss cs (int x)) (in_chunk ss cs (int x)) = Some (bs ! x)"
      if "node_byte cl nd (chunk_at f ss cs (int x)) (in_chunk ss cs (int x)) = Some (bs ! x)" for nd
      using put_bytesD(2)[OF put(2) _ that] by blast
    with pr o show ?thesis unfolding holds_byte_def by auto
  qed
  with put(1) show ?thesis by (simp add: holds_file_def)
qed

end
