(* ===== verification/Barista_Open.thy ===== *)
theory Barista_Open
  imports Barista_Transfer
begin

text \<open>
  Opening, closing and seeking in \<open>barista_core.cpp\<close>: the composition of path lookup, creation, lock and
  cursor. A file opened for writing is closed to other owners until it is closed by its writer; a new
  path is created empty under a fresh id; a cursor never leaves its file.
\<close>

section \<open>Opening a file that exists\<close>

definition at_rest :: "barista \<Rightarrow> bool" where
  "at_rest st \<longleftrightarrow> meta_free st \<and> cursors_inv (br_vm st) \<and> pmeta_inv (br_pm st)"

text \<open>The lock \<open>open_file\<close> asks for.\<close>

abbreviation open_lock :: "u32 \<Rightarrow> client \<Rightarrow> u32 \<Rightarrow> file_locks \<Rightarrow> (int \<times> file_locks) outcome" where
  "open_lock flags c f fl \<equiv> (if bit flags 1 then get_exclusive_lock c f fl else get_shared_lock c f fl)"

abbreviation new_instance :: "client \<Rightarrow> u32 \<Rightarrow> u32 \<Rightarrow> file_instance" where
  "new_instance c f off \<equiv> \<lparr>fi_client_id = c, fi_file_id = f, fi_offset = off\<rparr>"

text \<open>\<open>st'\<close> is \<open>st\<close> with the file of path \<open>p\<close> and record \<open>i\<close> open at the new descriptor \<open>fd\<close>.\<close>

definition opened ::
    "client \<Rightarrow> u32 \<Rightarrow> string \<Rightarrow> persistent_metadata_info \<Rightarrow> u32 \<Rightarrow> barista \<Rightarrow> barista \<Rightarrow> bool" where
  "opened c fd p i off st st' \<longleftrightarrow>
     at_work c fd p i (new_instance c (pm_file_id i) off) st' \<and>
     cursor_find fd (br_vm st) = None \<and> fd = vm_last_fd (br_vm st) + 1 \<and> vm_last_fd (br_vm st') = fd \<and>
     (\<forall>g. g \<noteq> fd \<longrightarrow> cursor_find g (br_vm st') = cursor_find g (br_vm st)) \<and>
     br_replies st' = br_replies st @ [Open_Result c (sint fd)]"

lemma at_work_rest: "at_work c fd p i inst st \<Longrightarrow> at_rest st"
  by (simp add: at_work_def at_rest_def)

text \<open>The last steps of \<open>open_file\<close>, with the lock taken.\<close>

lemma cursor_opened:
  assumes "at_rest st" "user_id c \<noteq> 0" "pmeta_view (br_pm st) p = Some i" "vm_last_fd (br_vm st) \<noteq> - 1"
    and "bit flags 10 \<Longrightarrow> sz = pm_size i \<or> pm_size i = 0"
  obtains cursor st4 r st5 where "core_new_file_cursor (pm_file_id i) c st = (cursor, st4)"
    "(if bit flags 10 then core_set_file_cursor (word_of_int cursor) sz c st4 else Returned (0, st4)) = Returned (r, st5)"
    "opened c (vm_last_fd (br_vm st) + 1) p i (if bit flags 10 then pm_size i else 0) st (send_reply (Open_Result c cursor) st5)"
    "br_locks st5 = br_locks st" "br_pm st5 = br_pm st"
    "io_node (br_io st5) = io_node (br_io st)" "io_replica (br_io st5) = io_replica (br_io st)"
proof -
  let ?f = "pm_file_id i" and ?fd = "vm_last_fd (br_vm st) + 1"
  have a: "meta_free st" "cursors_inv (br_vm st)" "pmeta_inv (br_pm st)" using assms(1) by (simp_all add: at_rest_def)
  obtain v where v: "new_file_cursor (br_vm st) ?f c = (sint ?fd, v)" "cursors_inv v" "cursor_find ?fd (br_vm st) = None"
    "\<And>g. cursor_find g v = (if g = ?fd then Some (new_instance c ?f 0) else cursor_find g (br_vm st))"
    using new_file_cursor_effect[OF a(2) assms(4), of ?f c] by metis
  have last: "vm_last_fd v = ?fd" using v(1) cursors_last[OF a(2)] by (auto simp: new_file_cursor_def)
  let ?st4 = "set_vm v st"
  have new: "core_new_file_cursor ?f c st = (sint ?fd, ?st4)" by (simp add: core_new_file_cursor_def v(1))
  have w: "at_work c ?fd p i (new_instance c ?f 0) ?st4"
    using a assms(2,3) v(2,4) by (simp add: at_work_def)
  show thesis
  proof (cases "bit flags 10")
    case False
    show thesis
      by (rule that[OF new, of 0 ?st4]) (use w v last False in \<open>simp_all add: opened_def at_work_def\<close>)
  next
    case True
    have fnd: "cursor_find ?fd v = Some (new_instance c ?f 0)" using v(4) by simp
    let ?v = "v\<lparr>vm_cursors := om_update (<) ?fd (new_instance c ?f (pm_size i)) (vm_cursors v)\<rparr>"
    have m: "min sz (pm_size i) = pm_size i" using assms(5)[OF True] by auto
    have s: "core_set_file_cursor ?fd sz c ?st4 = Returned (sint (pm_size i), set_vm ?v (touch_meta c ?st4))"
      using core_set_file_cursor_eq[of c ?st4 ?fd "new_instance c ?f 0" P_META_SUCCESS "stat_of i" sz]
        a(1) assms(2) fnd stat_of_view(2)[OF a(3) assms(3)] m
      by simp
    have "cursors_inv ?v" using cursors_inv_update[OF v(2) fnd] by simp
    then have "at_work c ?fd p i (new_instance c ?f (pm_size i)) (set_vm ?v (touch_meta c ?st4))"
      using a assms(2,3) v(2) by (simp add: at_work_def)
    moreover have "cursor_find g ?v = cursor_find g (br_vm st)" if "g \<noteq> ?fd" for g
      using v(2,4) that by simp
    ultimately show thesis
      by (intro that[OF new, of "sint (pm_size i)" "set_vm ?v (touch_meta c ?st4)"])
        (use s True v(3) last in \<open>simp_all add: opened_def at_work_def\<close>)
  qed
qed

lemma open_existing:
  assumes "at_rest st" "user_id c \<noteq> 0" "pmeta_view (br_pm st) p = Some i"
    and "open_lock flags c (pm_file_id i) (br_locks st) = Returned (l, locks)"
  shows "l < 0 \<Longrightarrow> open_file junk t p flags c st =
      Returned (send_reply (Open_Result c FILE_IN_USE) ((touch_meta c st)\<lparr>br_locks := locks\<rparr>))"
    and "0 \<le> l \<Longrightarrow> vm_last_fd (br_vm st) \<noteq> - 1 \<Longrightarrow> \<exists>st'. open_file junk t p flags c st = Returned st' \<and>
      opened c (vm_last_fd (br_vm st) + 1) p i (if bit flags 10 then pm_size i else 0) st st' \<and>
      br_locks st' = locks \<and> br_pm st' = br_pm st"
proof -
  have a: "meta_free st" "pmeta_inv (br_pm st)" using assms(1) by (simp_all add: at_rest_def)
  let ?st3 = "(touch_meta c st)\<lparr>br_locks := locks\<rparr>"
  have lk: "open_lock flags c (pm_file_id i) (br_locks (touch_meta c st)) = Returned (l, locks)"
    using assms(4) by (simp only: touch_meta_simps)
  have ne: "P_META_SUCCESS \<noteq> FILE_NOT_FOUND" by (simp add: pmeta_codes)
  note sstat = core_sstat_eq[OF assms(2) a(1), of p, unfolded stat_of_view(1)[OF a(2) assms(3)]]
  show "open_file junk t p flags c st =
      Returned (send_reply (Open_Result c FILE_IN_USE) ?st3)" if "l < 0"
    using that lk ne by (simp add: open_file_def sstat)
  show "\<exists>st'. open_file junk t p flags c st = Returned st' \<and>
      opened c (vm_last_fd (br_vm st) + 1) p i (if bit flags 10 then pm_size i else 0) st st' \<and>
      br_locks st' = locks \<and> br_pm st' = br_pm st" if "0 \<le> l" "vm_last_fd (br_vm st) \<noteq> - 1"
  proof -
    note fd = that(2)
    have "at_rest ?st3" using assms(1) by (simp add: at_rest_def)
    then obtain cursor st4 r st5 where x: "core_new_file_cursor (pm_file_id i) c ?st3 = (cursor, st4)"
      "(if bit flags 10 then core_set_file_cursor (word_of_int cursor) (pm_size i) c st4 else Returned (0, st4)) = Returned (r, st5)"
      "opened c (vm_last_fd (br_vm ?st3) + 1) p i (if bit flags 10 then pm_size i else 0) ?st3 (send_reply (Open_Result c cursor) st5)"
      "br_locks st5 = br_locks ?st3" "br_pm st5 = br_pm ?st3"
      "io_node (br_io st5) = io_node (br_io ?st3)" "io_replica (br_io st5) = io_replica (br_io ?st3)"
      by (rule cursor_opened[of ?st3 c p i flags "pm_size i"]) (use assms(2,3) fd in simp_all)
    have "open_file junk t p flags c st = Returned (send_reply (Open_Result c cursor) st5)"
      using that(1) lk ne x(1,2) by (auto simp: open_file_def sstat split: if_splits)
    with x(3-5) show ?thesis by (auto simp: opened_def)
  qed
qed

section \<open>One writer\<close>

text \<open>An attempt of a client to open a path.\<close>

definition attempt :: "file_stat \<Rightarrow> timeval \<Rightarrow> string \<Rightarrow> client \<times> u32 \<Rightarrow> barista \<Rightarrow> barista outcome" where
  "attempt junk t p = (\<lambda>(d, flags). open_file junk t p flags d)"

lemma attempts_refused:
  assumes "at_rest st" "pmeta_view (br_pm st) p = Some i" "holds_exclusive (pm_file_id i) c (br_locks st)"
    and "\<forall>(d, flags) \<in> set xs. other_owner c d \<and> user_id d \<noteq> 0"
  shows "\<exists>st'. run_handlers (attempt junk t p) xs st = Returned st' \<and> at_rest st' \<and>
    br_replies st' = br_replies st @ map (\<lambda>(d, _). Open_Result d FILE_IN_USE) xs \<and>
    br_locks st' = br_locks st \<and> br_pm st' = br_pm st \<and> br_io st' = br_io st"
  using assms
proof (induction xs arbitrary: st)
  case (Cons x xs)
  obtain d flags where x: "x = (d, flags)" by (cases x)
  with Cons.prems(4) have d: "other_owner c d" "user_id d \<noteq> 0" by auto
  have "open_lock flags d (pm_file_id i) (br_locks st) = Returned (LOCK_ERROR, br_locks st)"
    using file_lock.rival_call[OF Cons.prems(3), of "Acquire d"] file_lock.rival_call[OF Cons.prems(3), of "Acquire_Shared d"] d
    by simp
  from open_existing(1)[OF Cons.prems(1) d(2) Cons.prems(2) this]
  have o: "attempt junk t p x st =
      Returned (send_reply (Open_Result d FILE_IN_USE) ((touch_meta d st)\<lparr>br_locks := br_locks st\<rparr>))"
    by (simp add: attempt_def x lock_codes)
  let ?st1 = "send_reply (Open_Result d FILE_IN_USE) ((touch_meta d st)\<lparr>br_locks := br_locks st\<rparr>)"
  have "at_rest ?st1" "pmeta_view (br_pm ?st1) p = Some i" "holds_exclusive (pm_file_id i) c (br_locks ?st1)"
    using Cons.prems(1-3) by (simp_all add: at_rest_def)
  with Cons.IH[of ?st1] Cons.prems(4) obtain st' where
    "run_handlers (attempt junk t p) xs ?st1 = Returned st'" "at_rest st'"
    "br_replies st' = br_replies ?st1 @ map (\<lambda>(d, _). Open_Result d FILE_IN_USE) xs"
    "br_locks st' = br_locks ?st1" "br_pm st' = br_pm ?st1" "br_io st' = br_io ?st1"
    by auto
  with o x show ?case by auto
qed simp

lemma close_own:
  assumes "at_work c fd p i inst st" "0 < sint (pm_file_id i)" "release_lock c (pm_file_id i) (br_locks st) = Returned (r, locks)"
  shows "\<exists>st'. close_file (sint fd) c st = Returned st' \<and> at_rest st' \<and>
    br_replies st' = br_replies st @ [Close_Result c (sint (pm_file_id i))] \<and> br_locks st' = locks \<and> br_pm st' = br_pm st \<and>
    vm_last_fd (br_vm st') = vm_last_fd (br_vm st) \<and>
    (\<forall>g. cursor_find g (br_vm st') = (if g = fd then None else cursor_find g (br_vm st)))"
proof -
  have a: "meta_free st" "cursors_inv (br_vm st)" "cursor_find fd (br_vm st) = Some inst" "fi_client_id inst = c"
    "fi_file_id inst = pm_file_id i" "pmeta_inv (br_pm st)"
    using assms(1) by (simp_all add: at_work_def)
  have "cursors_inv ((br_vm st)\<lparr>vm_cursors := om_erase (<) fd (vm_cursors (br_vm st))\<rparr>)"
    using cursors_inv_erase[OF a(2)] .
  then show ?thesis using a assms(2,3)
    by (simp add: close_file_def core_close_file_cursor_def close_file_cursor_def at_rest_def)
qed

lemma exclusive_granted:
  assumes "fl f = None" "user_id c \<noteq> 0"
  shows "get_exclusive_lock c f fl = Returned (LOCK_SUCCESS,
      fl(f \<mapsto> \<lparr>owner_uid = user_id c, owner_ip = ip c, ex_proc = ctc c, sh_procs = []\<rparr>))"
  using assms by (simp add: get_exclusive_lock_def lock_at_def new_file_lock_def)

lemma free_lock_granted:
  assumes "fl f = None" "user_id c \<noteq> 0"
  shows "\<exists>fl'. open_lock flags c f fl = Returned (LOCK_SUCCESS, fl')"
  using assms by (simp add: exclusive_granted get_shared_lock_def lock_at_def new_file_lock_def Let_def
      oc_find_def oc_lower_bound_def)

text \<open>
  C9: a file has one writer. When a client has opened a free file for writing, every attempt of clients
  of another user or host to open it, for reading or for writing, is answered with \<open>FILE_IN_USE\<close> and
  changes neither locks nor metadata nor cursors; the writer's close is answered with the file id and
  gives the lock and the descriptor back; and after it any client opens the file, at a new descriptor.
\<close>

theorem open_for_writing_excludes:
  assumes "at_rest st" "pmeta_view (br_pm st) p = Some i" "0 < sint (pm_file_id i)" "br_locks st (pm_file_id i) = None"
    and "bit flags 1" "user_id c \<noteq> 0" "\<forall>(d, fl) \<in> set xs. other_owner c d \<and> user_id d \<noteq> 0" "user_id e \<noteq> 0"
    and "vm_last_fd (br_vm st) \<noteq> - 1" "vm_last_fd (br_vm st) + 1 \<noteq> - 1"
  shows "\<exists>st1 st2 st3 st4. let fd = vm_last_fd (br_vm st) + 1 in
    open_file junk t p flags c st = Returned st1 \<and> has_exclusive_lock c (pm_file_id i) (br_locks st1) = Returned 1 \<and>
    opened c fd p i (if bit flags 10 then pm_size i else 0) st st1 \<and>
    run_handlers (attempt junk t p) xs st1 = Returned st2 \<and>
    br_replies st2 = br_replies st1 @ map (\<lambda>(d, _). Open_Result d FILE_IN_USE) xs \<and>
    br_locks st2 = br_locks st1 \<and> br_pm st2 = br_pm st \<and> br_vm st2 = br_vm st1 \<and>
    close_file (sint fd) c st2 = Returned st3 \<and> br_replies st3 = br_replies st2 @ [Close_Result c (sint (pm_file_id i))] \<and>
    br_locks st3 = br_locks st \<and> (\<forall>g. cursor_find g (br_vm st3) = cursor_find g (br_vm st)) \<and>
    open_file junk t p flags' e st3 = Returned st4 \<and>
    opened e (fd + 1) p i (if bit flags' 10 then pm_size i else 0) st3 st4"
proof -
  let ?f = "pm_file_id i" and ?fd = "vm_last_fd (br_vm st) + 1"
  let ?l = "\<lparr>owner_uid = user_id c, owner_ip = ip c, ex_proc = ctc c, sh_procs = []\<rparr>"
  have lk: "open_lock flags c ?f (br_locks st) = Returned (LOCK_SUCCESS, (br_locks st)(?f \<mapsto> ?l))"
    using exclusive_granted[where fl = "br_locks st", OF assms(4,6)] assms(5) by simp
  obtain st1 where o1: "open_file junk t p flags c st = Returned st1" "br_locks st1 = (br_locks st)(?f \<mapsto> ?l)" "br_pm st1 = br_pm st"
    "opened c ?fd p i (if bit flags 10 then pm_size i else 0) st st1"
    using open_existing(2)[OF assms(1,6,2) lk _ assms(9), of junk t] by (auto simp: lock_codes)
  have w1: "at_work c ?fd p i (new_instance c ?f (if bit flags 10 then pm_size i else 0)) st1" "vm_last_fd (br_vm st1) = ?fd"
    using o1(4) by (simp_all add: opened_def)
  have h: "holds_exclusive ?f c (br_locks st1)" using o1(2) assms(6) by (simp add: holds_exclusive_iff)
  obtain st2 where r: "run_handlers (attempt junk t p) xs st1 = Returned st2" "at_rest st2"
    "br_replies st2 = br_replies st1 @ map (\<lambda>(d, _). Open_Result d FILE_IN_USE) xs"
    "br_locks st2 = br_locks st1" "br_pm st2 = br_pm st1" "br_io st2 = br_io st1"
    using attempts_refused[OF at_work_rest[OF w1(1)] _ h assms(7)] o1(3) assms(2) by metis
  have w2: "at_work c ?fd p i (new_instance c ?f (if bit flags 10 then pm_size i else 0)) st2"
    using w1 r by (simp add: at_work_def at_rest_def)
  have rel: "release_lock c ?f (br_locks st2) = Returned (LOCK_SUCCESS, br_locks st)"
    using r(4) o1(2) assms(4,6) by (simp add: release_lock_def lock_at_def Let_def fun_upd_idem)
  obtain st3 where c3: "close_file (sint ?fd) c st2 = Returned st3" "at_rest st3"
    "br_replies st3 = br_replies st2 @ [Close_Result c (sint ?f)]" "br_locks st3 = br_locks st" "br_pm st3 = br_pm st2"
    "vm_last_fd (br_vm st3) = vm_last_fd (br_vm st2)"
    "\<forall>g. cursor_find g (br_vm st3) = (if g = ?fd then None else cursor_find g (br_vm st2))"
    using close_own[OF w2 assms(3) rel] by blast
  obtain fl' where "open_lock flags' e ?f (br_locks st3) = Returned (LOCK_SUCCESS, fl')"
    using free_lock_granted[where fl = "br_locks st3", of ?f e flags'] c3(4) assms(4,8) by auto
  from open_existing(2)[OF c3(2) assms(8) _ this, of p junk t] obtain st4 where o4: "open_file junk t p flags' e st3 = Returned st4"
    "opened e (?fd + 1) p i (if bit flags' 10 then pm_size i else 0) st3 st4"
    using c3(5,6) r(5,6) o1(3) w1(2) assms(2,10) by (auto simp: lock_codes)
  have "\<forall>g. cursor_find g (br_vm st3) = cursor_find g (br_vm st)"
    using c3(7) r(6) o1(4) by (auto simp: opened_def)
  with o1 r c3 o4 h show ?thesis by (auto simp: Let_def holds_exclusive_def)
qed

definition demo_stat :: file_stat where
  "demo_stat = \<lparr>fs_file_id = 9, fs_size = 99, fs_stripe_size = 0, fs_chunk_size = 0, fs_replica_size = 0,
     fs_last_access_time = (0, 0)\<rparr>"

definition demo_closed :: barista where
  "demo_closed = demo_open\<lparr>br_locks := Map.empty\<rparr>"

lemma demo_closed_facts:
  "at_rest demo_closed" "pmeta_view (br_pm demo_closed) ''/a'' = Some demo_info" "br_locks demo_closed f = None"
  "vm_last_fd (br_vm demo_closed) = 1" "pm_file_id demo_info = 1" "br_replies demo_closed = []"
  using demo_open_at_work demo_open_facts(5)
  by (simp_all add: demo_closed_def at_work_def at_rest_def meta_free_def) (simp_all add: demo_open_def new_vmeta_def demo_inst_def)

lemma open_for_writing_excludes_witness:
  "\<exists>st1 st2. open_file demo_stat (0, 0) ''/a'' 2 demo_writer demo_closed = Returned st1 \<and>
    run_handlers (attempt demo_stat (0, 0) ''/a'') [(demo_client 8 6, 0), (demo_client 8 6, 2)] st1 = Returned st2 \<and>
    br_replies st2 = [Open_Result demo_writer 2, Open_Result (demo_client 8 6) FILE_IN_USE, Open_Result (demo_client 8 6) FILE_IN_USE]"
proof -
  have fl: "bit (2 :: u32) 1" by (simp add: bit_numeral_rec)
  show ?thesis
    using open_for_writing_excludes[OF demo_closed_facts(1,2) _ _ fl, of demo_writer "[(demo_client 8 6, 0), (demo_client 8 6, 2)]"
        "demo_client 8 6" demo_stat "(0, 0)" 0] demo_closed_facts
    by (auto simp: other_owner_def opened_def Let_def)
qed

section \<open>Opening a file that does not exist\<close>

lemma new_path_stat:
  assumes "pmeta_inv pm" "pmeta_view pm p = None"
  shows "decafs_file_sstat pm p = (FILE_NOT_FOUND, None)" "\<not> pathname_exists pm p"
proof -
  have "path_find p pm = None"
    using assms(2) pmeta_invD(3)[OF assms(1)] by (cases "path_find p pm") (fastforce simp: pmeta_view_def)+
  then show "decafs_file_sstat pm p = (FILE_NOT_FOUND, None)" "\<not> pathname_exists pm p"
    by (simp_all add: decafs_file_sstat_def pathname_exists_def)
qed

lemma creates_file:
  assumes "at_rest st" "pmeta_view (br_pm st) p = None" "user_id c \<noteq> 0" "length p \<le> MAX_FILENAME_LENGTH"
    and "last_id (br_pm st) \<noteq> - 1" "vm_last_fd (br_vm st) \<noteq> - 1" "br_locks st (last_id (br_pm st) + 1) = None"
  shows "if bit flags 1 then
    (let f = last_id (br_pm st) + 1; fd = vm_last_fd (br_vm st) + 1;
         i = new_info f p (vm_stripe_size (br_vm st)) (vm_chunk_size (br_vm st)) (vm_chunk_size (br_vm st)) t in
     \<exists>st'. open_file junk t p flags c st = Returned st' \<and> opened c fd p i 0 st st' \<and>
       pmeta_view (br_pm st') = (pmeta_view (br_pm st))(p \<mapsto> i) \<and>
       (\<forall>q j. pmeta_view (br_pm st) q = Some j \<longrightarrow> pm_file_id j < f) \<and>
       has_exclusive_lock c f (br_locks st') = Returned 1 \<and> (\<forall>g. g \<noteq> f \<longrightarrow> br_locks st' g = br_locks st g) \<and>
       io_node (br_io st') = io_node (br_io st) \<and> io_replica (br_io st') = io_replica (br_io st))
    else open_file junk t p flags c st =
      Returned (send_reply (Open_Result c FILE_NOT_FOUND_FOR_READING) (touch_meta c st))"
proof -
  have a: "meta_free st" "pmeta_inv (br_pm st)" using assms(1) by (simp_all add: at_rest_def)
  note sstat = core_sstat_eq[OF assms(3) a(1), of p, unfolded new_path_stat(1)[OF a(2) assms(2)]]
  show ?thesis
  proof (cases "bit flags 1")
    case False
    then show ?thesis by (simp add: open_file_def sstat)
  next
    case True
    let ?f = "last_id (br_pm st) + 1" and ?ss = "vm_stripe_size (br_vm st)" and ?cs = "vm_chunk_size (br_vm st)"
    let ?i = "new_info ?f p ?ss ?cs ?cs t"
    let ?l = "\<lparr>owner_uid = user_id c, owner_ip = ip c, ex_proc = ctc c, sh_procs = []\<rparr>"
    obtain pm where pm: "add_file (br_pm st) p ?ss ?cs ?cs t = (sint ?f, pm)" "pmeta_inv pm"
      "pmeta_view pm = (pmeta_view (br_pm st))(p \<mapsto> ?i)"
      using add_file_effect[OF a(2) assms(2,4,5), of ?ss ?cs ?cs t] by metis
    let ?st2 = "(touch_meta c (touch_meta c st))\<lparr>br_pm := pm\<rparr>"
    have add: "core_add_file p ?ss ?cs ?cs t c (touch_meta c st) = Returned (sint ?f, ?st2)"
      using core_add_eq[of c "touch_meta c st"] assms(3) pm(1) by simp
    let ?st3 = "?st2\<lparr>br_locks := (br_locks st)(?f \<mapsto> ?l)\<rparr>"
    have lk: "get_exclusive_lock c ?f (br_locks ?st2) = Returned (LOCK_SUCCESS, (br_locks st)(?f \<mapsto> ?l))"
      using exclusive_granted[where fl = "br_locks st", OF assms(7,3)] by simp
    have st3: "at_rest ?st3" "pmeta_view (br_pm ?st3) p = Some ?i" "pm_size ?i = 0"
      using assms(1) pm by (simp_all add: at_rest_def)
    obtain cursor st4 r st5 where x: "core_new_file_cursor (pm_file_id ?i) c ?st3 = (cursor, st4)"
      "(if bit flags 10 then core_set_file_cursor (word_of_int cursor) (fs_size junk) c st4 else Returned (0, st4)) = Returned (r, st5)"
      "opened c (vm_last_fd (br_vm ?st3) + 1) p ?i (if bit flags 10 then pm_size ?i else 0) ?st3 (send_reply (Open_Result c cursor) st5)"
      "br_locks st5 = br_locks ?st3" "br_pm st5 = br_pm ?st3"
      "io_node (br_io st5) = io_node (br_io ?st3)" "io_replica (br_io st5) = io_replica (br_io ?st3)"
      by (rule cursor_opened[of ?st3 c p ?i flags "fs_size junk"]) (use st3 assms(3,6) in simp_all)
    have "open_file junk t p flags c st = Returned (send_reply (Open_Result c cursor) st5)"
      using True lk x(1,2) add by (auto simp: open_file_def sstat lock_codes split: if_splits)
    moreover have "pm_file_id j < ?f" if "pmeta_view (br_pm st) q = Some j" for q j
      using older_id[OF a(2) assms(5) that] .
    ultimately show ?thesis using True x(3-7) pm(3) assms(3)
      by (auto simp: Let_def opened_def has_exclusive_lock_def cong: if_cong)
  qed
qed

text \<open>
  C12: opening a path that does not exist creates it only when it is opened for writing: then the file
  is registered empty, with the sizes of the file system and an id above all others, locked for the
  client and open at offset 0, also with \<open>O_APPEND\<close>, and no other path, cursor or lock changes; opened
  for reading, the answer is \<open>FILE_NOT_FOUND_FOR_READING\<close> and nothing changes.
\<close>

theorem open_creates_file:
  assumes "at_rest st" "pmeta_view (br_pm st) p = None" "user_id c \<noteq> 0" "length p \<le> MAX_FILENAME_LENGTH"
    and "last_id (br_pm st) \<noteq> - 1" "vm_last_fd (br_vm st) \<noteq> - 1" "br_locks st (last_id (br_pm st) + 1) = None"
  shows "if bit flags 1 then
    (let f = last_id (br_pm st) + 1; fd = vm_last_fd (br_vm st) + 1;
         i = new_info f p (vm_stripe_size (br_vm st)) (vm_chunk_size (br_vm st)) (vm_chunk_size (br_vm st)) t in
     \<exists>st'. open_file junk t p flags c st = Returned st' \<and> opened c fd p i 0 st st' \<and>
       pmeta_view (br_pm st') = (pmeta_view (br_pm st))(p \<mapsto> i) \<and>
       (\<forall>q j. pmeta_view (br_pm st) q = Some j \<longrightarrow> pm_file_id j < f) \<and>
       has_exclusive_lock c f (br_locks st') = Returned 1 \<and> (\<forall>g. g \<noteq> f \<longrightarrow> br_locks st' g = br_locks st g))
    else open_file junk t p flags c st =
      Returned (send_reply (Open_Result c FILE_NOT_FOUND_FOR_READING) (touch_meta c st))"
  using creates_file[OF assms, of flags t junk] by (cases "bit flags 1") (auto simp: Let_def)

lemma open_creates_file_witness:
  "\<exists>st'. open_file demo_stat (0, 0) ''/b'' (2 + 1024) demo_writer demo_closed = Returned st' \<and>
    br_replies st' = [Open_Result demo_writer 2] \<and> has_exclusive_lock demo_writer 2 (br_locks st') = Returned 1"
proof -
  have fl: "bit (2 + 1024 :: u32) 1" by (simp add: bit_numeral_rec)
  have "pt_next demo_pm = 1"
    by (simp add: demo_pm_def add_file_def pathname_exists_def MAX_FILENAME_LENGTH_def get_new_file_id_eq)
  then have pm: "pmeta_view (br_pm demo_closed) ''/b'' = None" "last_id (br_pm demo_closed) = 1"
    using demo_pm_facts by (simp_all add: demo_closed_def demo_open_def last_id_def ID_NOT_SET_def)
  show ?thesis
    using open_creates_file[OF demo_closed_facts(1) pm(1), of demo_writer "2 + 1024" "(0, 0)" demo_stat] fl pm(2) demo_closed_facts
    by (auto simp: MAX_FILENAME_LENGTH_def opened_def Let_def)
qed

text \<open>
  A path that is too long is not created, but the negative result of \<open>add_file\<close> is used as the id of a
  file: the client gets a lock on that id and a descriptor for a file that does not exist.
\<close>

theorem long_path_opened:
  assumes "at_rest st" "pmeta_view (br_pm st) p = None" "user_id c \<noteq> 0" "length p > MAX_FILENAME_LENGTH"
    and "vm_last_fd (br_vm st) \<noteq> - 1" "br_locks st (word_of_int FILENAME_INVALID) = None"
    and "bit flags 1" "\<not> bit flags 10"
  shows "\<exists>st'. open_file junk t p flags c st = Returned st' \<and> br_pm st' = br_pm st \<and>
    br_replies st' = br_replies st @ [Open_Result c (sint (vm_last_fd (br_vm st) + 1))] \<and>
    has_exclusive_lock c (word_of_int FILENAME_INVALID) (br_locks st') = Returned 1"
proof -
  let ?f = "word_of_int FILENAME_INVALID :: u32"
  have a: "meta_free st" "pmeta_inv (br_pm st)" "cursors_inv (br_vm st)" using assms(1) by (simp_all add: at_rest_def)
  note sstat = core_sstat_eq[OF assms(3) a(1), of p, unfolded new_path_stat(1)[OF a(2) assms(2)]]
  have "add_file (br_pm st) p ss cs cs t = (FILENAME_INVALID, br_pm st)" for ss cs
    using new_path_stat(2)[OF a(2) assms(2)] assms(4) by (simp add: add_file_def)
  then have add: "core_add_file p ss cs cs t c (touch_meta c st) =
      Returned (FILENAME_INVALID, (touch_meta c (touch_meta c st))\<lparr>br_pm := br_pm st\<rparr>)" for ss cs
    using core_add_eq[of c "touch_meta c st"] assms(3) by simp
  obtain v where "new_file_cursor (br_vm st) ?f c = (sint (vm_last_fd (br_vm st) + 1), v)"
    using new_file_cursor_effect[OF a(3) assms(5), of ?f c] by metis
  then show ?thesis
    using exclusive_granted[where fl = "br_locks st", OF assms(6,3)] assms(3,7,8) add
    by (simp add: open_file_def sstat lock_codes core_new_file_cursor_def has_exclusive_lock_def)
qed

section \<open>Seeking\<close>

lemma set_cursor_within:
  assumes "at_work c fd p i inst st"
  shows "\<exists>st'. core_set_file_cursor fd off c st = Returned (sint (min off (pm_size i)), st') \<and>
    at_work c fd p i (inst\<lparr>fi_offset := min off (pm_size i)\<rparr>) st' \<and> same_requests st st' \<and> br_pm st' = br_pm st \<and>
    (\<forall>g. g \<noteq> fd \<longrightarrow> cursor_find g (br_vm st') = cursor_find g (br_vm st)) \<and>
    io_node (br_io st') = io_node (br_io st) \<and> io_replica (br_io st') = io_replica (br_io st)"
proof -
  have a: "user_id c \<noteq> 0" "meta_free st" "cursor_find fd (br_vm st) = Some inst" "fi_client_id inst = c"
    "fi_file_id inst = pm_file_id i" "pmeta_inv (br_pm st)" "pmeta_view (br_pm st) p = Some i" "cursors_inv (br_vm st)"
    using assms by (simp_all add: at_work_def)
  let ?o = "min off (pm_size i)"
  have "uint ?o \<le> uint (pm_size i)" by (simp add: min_def word_le_def)
  then show ?thesis
    using core_set_file_cursor_eq[OF a(1-4), of P_META_SUCCESS "stat_of i" off] stat_of_view(2)[OF a(6,7)] a
      cursors_inv_update[OF a(8,3)]
    by (simp add: at_work_def same_requests_def)
qed

lemma seek_effect:
  assumes "at_work c fd p i inst st" "uint (pm_size i) < 2 ^ 31"
  shows "let target = (if whence = 2 then pm_size i else if whence = 0 then min off (pm_size i)
                       else min (fi_offset inst + off) (pm_size i)) in
    \<exists>st'. file_seek (sint fd) off whence c st = Returned st' \<and>
      at_work c fd p i (inst\<lparr>fi_offset := target\<rparr>) st' \<and>
      br_replies st' = br_replies st @ [Seek_Result c (uint target)] \<and> br_locks st' = br_locks st \<and> br_pm st' = br_pm st \<and>
      (\<forall>g. g \<noteq> fd \<longrightarrow> cursor_find g (br_vm st') = cursor_find g (br_vm st)) \<and>
      io_node (br_io st') = io_node (br_io st) \<and> io_replica (br_io st') = io_replica (br_io st)"
proof -
  have cur: "get_file_cursor (br_vm s) fd = uint (fi_offset j)" if "at_work c fd p i j s" for j s
  proof -
    have "cursor_find fd (br_vm s) = Some j" "uint (fi_offset j) < 2 ^ 31"
      using that assms(2) by (simp_all add: at_work_def)
    then show ?thesis by (simp add: get_file_cursor_def u32_sint_uint)
  qed
  have reply: "at_work c fd p i j (send_reply r s)" if "at_work c fd p i j s" for j r s
    using that by (simp add: at_work_def)
  have m: "min (- 1) (pm_size i) = pm_size i" by (rule min_absorb2) simp
  have second: "\<exists>st'. outcome_bind (if get_file_cursor (br_vm s) fd \<ge> 0
        then core_set_file_cursor fd (word_of_int (get_file_cursor (br_vm s) fd) + off) c s else Returned (0, s))
        (\<lambda>(_, st2). Returned (send_reply (Seek_Result c (get_file_cursor (br_vm st2) fd)) st2)) = Returned st' \<and>
      at_work c fd p i (j\<lparr>fi_offset := min (fi_offset j + off) (pm_size i)\<rparr>) st' \<and>
      br_replies st' = br_replies s @ [Seek_Result c (uint (min (fi_offset j + off) (pm_size i)))] \<and>
      br_locks st' = br_locks s \<and> br_pm st' = br_pm s \<and>
      (\<forall>g. g \<noteq> fd \<longrightarrow> cursor_find g (br_vm st') = cursor_find g (br_vm s)) \<and>
      io_node (br_io st') = io_node (br_io s) \<and> io_replica (br_io st') = io_replica (br_io s)" if w: "at_work c fd p i j s" for j s
    using set_cursor_within[OF w, of "fi_offset j + off"] cur[OF w] cur reply
    by (fastforce simp: same_requests_def)
  consider "whence = 2" | "whence = 0" | "whence \<noteq> 2" "whence \<noteq> 0" by blast
  then show ?thesis
  proof cases
    case 1
    then show ?thesis using set_cursor_within[OF assms(1), of "- 1"] cur reply
      by (fastforce simp: file_seek_def m same_requests_def Let_def)
  next
    case 2
    obtain s where s: "core_set_file_cursor fd 0 c st = Returned (sint (min 0 (pm_size i)), s)"
      "at_work c fd p i (inst\<lparr>fi_offset := 0\<rparr>) s" "same_requests st s" "br_pm s = br_pm st"
      "\<forall>g. g \<noteq> fd \<longrightarrow> cursor_find g (br_vm s) = cursor_find g (br_vm st)"
      "io_node (br_io s) = io_node (br_io st)" "io_replica (br_io s) = io_replica (br_io st)"
      using set_cursor_within[OF assms(1), of 0] by auto
    show ?thesis using second[OF s(2)] s 2
      by (simp add: file_seek_def Let_def same_requests_def)
  next
    case 3
    show ?thesis using second[OF assms(1)] 3 by (simp add: file_seek_def Let_def)
  qed
qed

text \<open>
  C13: a seek moves the cursor of the client to the offset asked for, from the start of the file or from
  where the cursor stood, and to the end of the file when it would leave the file; \<open>SEEK_END\<close> moves it to
  the end and ignores the offset. The offset is unsigned and the sum wraps around, so a step back is a large
  offset. The answer is the new position, and no other cursor and no request is touched.
\<close>

theorem file_seek_correct:
  assumes "at_work c fd p i inst st" "uint (pm_size i) < 2 ^ 31"
  shows "let target = (if whence = 2 then pm_size i else if whence = 0 then min off (pm_size i)
                       else min (fi_offset inst + off) (pm_size i)) in
    \<exists>st'. file_seek (sint fd) off whence c st = Returned st' \<and>
      at_work c fd p i (inst\<lparr>fi_offset := target\<rparr>) st' \<and>
      br_replies st' = br_replies st @ [Seek_Result c (uint target)] \<and> br_locks st' = br_locks st \<and> br_pm st' = br_pm st \<and>
      (\<forall>g. g \<noteq> fd \<longrightarrow> cursor_find g (br_vm st') = cursor_find g (br_vm st))"
  using seek_effect[OF assms, of whence off] unfolding Let_def by blast

lemma file_seek_correct_witness:
  "\<exists>st'. file_seek (sint (1 :: u32)) 5 0 demo_writer demo_open = Returned st' \<and>
    br_replies st' = [Seek_Result demo_writer 0]"
  using file_seek_correct[OF demo_open_at_work, of 0 5] demo_open_facts(5) by (auto simp: Let_def)

end
