(* ===== verification/Barista_Placement.thy ===== *)
theory Barista_Placement
  imports Barista_Invariant Barista_Open
begin

text \<open>
  Where the core puts chunks: whatever it is asked, it keeps each chunk on node 1 or 2 and its
  replica on node 3 or 4, so that no node holds both copies.
\<close>

section \<open>The chunk maps\<close>

abbreviation values_in :: "int set \<Rightarrow> ('k \<times> int) list \<Rightarrow> bool" where
  "values_in A m \<equiv> \<forall>x \<in> set m. snd x \<in> A"

definition well_placed :: "io_state \<Rightarrow> bool" where
  "well_placed io \<longleftrightarrow> values_in {1, 2} (io_node io) \<and> values_in {3, 4} (io_replica io)"

lemma oc_parts_subset:
  "set (oc_before lt key k m) \<subseteq> set m" "set (oc_lower_bound lt key k m) \<subseteq> set m"
  "set (tl (oc_lower_bound lt key k m)) \<subseteq> set m"
proof -
  show s: "set (oc_before lt key k m) \<subseteq> set m" "set (oc_lower_bound lt key k m) \<subseteq> set m"
    by (auto simp: oc_before_def oc_lower_bound_def dest: set_takeWhileD set_dropWhileD)
  show "set (tl (oc_lower_bound lt key k m)) \<subseteq> set m"
    using s(2) by (cases "oc_lower_bound lt key k m") auto
qed

lemma om_find_value: "values_in A m \<Longrightarrow> om_find lt k m = Some v \<Longrightarrow> v \<in> A"
  using oc_parts_subset(2)[of lt fst k m] by (force simp: om_find_def oc_find_def split: list.splits if_splits)

lemma om_update_values: "values_in A m \<Longrightarrow> v \<in> A \<Longrightarrow> values_in A (om_update lt k v m)"
  using oc_parts_subset[of lt fst k m]
  by (auto simp: om_update_def oc_insert_def split: option.splits) (metis snd_conv subsetD)+

lemma om_erase_values: "values_in A m \<Longrightarrow> values_in A (om_erase lt k m)"
  using oc_parts_subset[of lt fst k m] by (auto simp: om_erase_def oc_erase_def)

lemma well_placed_find:
  assumes "well_placed io"
  shows "node_find ch (io_node io) = Some p \<Longrightarrow> p = 1 \<or> p = 2"
    and "node_find ch (io_replica io) = Some r \<Longrightarrow> r = 3 \<or> r = 4"
  using assms om_find_value[where A = "{1, 2}" and m = "io_node io"] om_find_value[where A = "{3, 4}" and m = "io_replica io"]
  by (fastforce simp: well_placed_def)+

lemma well_placed_same:
  "io_node io' = io_node io \<Longrightarrow> io_replica io' = io_replica io \<Longrightarrow> well_placed io' = well_placed io"
  by (simp add: well_placed_def)

lemma well_placed_cong [simp]:
  "well_placed (io\<lparr>io_sent := l\<rparr>) = well_placed io" "well_placed (io\<lparr>io_vmeta := v\<rparr>) = well_placed io"
  "well_placed (node_down n io) = well_placed io"
  by (simp_all add: well_placed_def)

lemma well_placed_erase:
  "well_placed io \<Longrightarrow> well_placed (io\<lparr>io_node := om_erase lt c (io_node io)\<rparr>)"
  "well_placed io \<Longrightarrow> well_placed (io\<lparr>io_replica := om_erase lt c (io_replica io)\<rparr>)"
  using om_erase_values[where A = "{1, 2}" and m = "io_node io"] om_erase_values[where A = "{3, 4}" and m = "io_replica io"]
  by (simp_all add: well_placed_def)

lemma put_chunk_values: "put_chunk io k = 1 \<or> put_chunk io k = 2" "put_replica io k = 3 \<or> put_replica io k = 4"
  by (auto simp: put_chunk_def put_replica_def Let_def)

lemma well_placed_update:
  "well_placed io \<Longrightarrow> p = 1 \<or> p = 2 \<Longrightarrow> well_placed (io\<lparr>io_node := om_update lt c p (io_node io)\<rparr>)"
  "well_placed io \<Longrightarrow> r = 3 \<or> r = 4 \<Longrightarrow> well_placed (io\<lparr>io_replica := om_update lt c r (io_replica io)\<rparr>)"
  using om_update_values[where A = "{1, 2}" and m = "io_node io" and v = p]
    om_update_values[where A = "{3, 4}" and m = "io_replica io" and v = r]
  by (auto simp: well_placed_def)

lemma well_placed_place_chunk: "well_placed io \<Longrightarrow> well_placed (place_chunk c io)"
  by (simp add: place_chunk_def Let_def well_placed_update put_chunk_values)

section \<open>The stripe loops\<close>

lemma send_request_placed: "well_placed io \<Longrightarrow> ends (\<lambda>(x, io'). well_placed io') (send_request net r io)"
  by (auto simp: ends_def send_request_def)

lemma read_stripe_loop_placed:
  "well_placed io \<Longrightarrow> ends (\<lambda>(k, io'). well_placed io') (read_stripe_loop net n rid f s cs len ch off br num io)"
proof (induction n arbitrary: ch off br num io)
  case (Suc n)
  then show ?case
    by (auto simp: Let_def split: option.split intro!: ends_bind[OF send_request_placed])
qed simp

lemma write_replica_placed:
  "well_placed io \<Longrightarrow> ends well_placed (write_replica net rrid c node off data io)"
  unfolding write_replica_def by (auto simp: Let_def intro!: ends_bind[OF send_request_placed])

lemma write_stripe_loop_placed:
  "well_placed io \<Longrightarrow> ends (\<lambda>(k, io'). well_placed io') (write_stripe_loop net n rid rrid f s cs buf len ch off bw num io)"
proof (induction n arbitrary: ch off bw num io)
  case (Suc n)
  then show ?case
    by (auto simp: Let_def well_placed_place_chunk
        intro!: ends_bind[OF send_request_placed] ends_bind[OF write_replica_placed])
qed simp

lemma process_stripe_placed:
  "well_placed io \<Longrightarrow> ends (\<lambda>(k, io'). well_placed io') (process_read_stripe net n rid f s ss cs off len io)"
  "well_placed io \<Longrightarrow> ends (\<lambda>(k, io'). well_placed io') (process_write_stripe net n rid rrid f s ss cs buf off len io)"
  by (auto simp: process_read_stripe_def process_write_stripe_def
      intro!: ends_bind[OF ends_any] read_stripe_loop_placed write_stripe_loop_placed)

lemma delete_chunks_placed:
  "well_placed (snd x) \<Longrightarrow> ends (\<lambda>(k, io'). well_placed io') (delete_chunks net rid f cs x)"
proof (induction cs arbitrary: x)
  case (Cons c cs)
  have p: "ends (\<lambda>y. well_placed (snd y)) (delete_primary net rid f c x)" if "well_placed (snd x)" for x
    using that by (auto simp: delete_primary_def Let_def split_beta well_placed_erase intro!: ends_bind[OF send_request_placed])
  have r: "ends (\<lambda>y. well_placed (snd y)) (delete_replica net rid f c x)" if "well_placed (snd x)" for x
    using that by (auto simp: delete_replica_def Let_def split_beta well_placed_erase intro!: ends_bind[OF send_request_placed])
  show ?case
    unfolding delete_chunks.simps
    by (rule ends_bind[OF p[OF Cons.prems]], rule ends_bind[OF r], assumption, rule Cons.IH)
qed (simp add: split_beta)

section \<open>The handlers\<close>

abbreviation placed_in :: "barista \<Rightarrow> bool" where
  "placed_in st \<equiv> well_placed (br_io st)"

lemma set_vm_placed [simp]: "placed_in (set_vm v st) = placed_in st"
  by simp

lemma with_metadata_lock_placed:
  assumes "placed_in st"
  shows "ends (\<lambda>(r, st'). placed_in st') (with_metadata_lock c f e st)"
proof -
  have "placed_in st'" if "with_metadata_lock c f e st = Returned (r, st')" for r st'
  proof -
    have "br_io st' = br_io st" using that by (auto simp: with_metadata_lock_def split: if_splits prod.splits)
    with assms show ?thesis by simp
  qed
  then show ?thesis by (auto simp: ends_def)
qed

lemma core_calls_placed:
  assumes "placed_in st"
  shows "ends (\<lambda>(r, st'). placed_in st') (core_decafs_file_sstat p c st)"
    and "ends (\<lambda>(r, st'). placed_in st') (core_decafs_file_stat f c st)"
    and "ends (\<lambda>(r, st'). placed_in st') (core_add_file p ss cs rs t c st)"
    and "ends (\<lambda>(r, st'). placed_in st') (core_delete_file_contents f c st)"
    and "ends (\<lambda>(r, st'). placed_in st') (core_update_file_size f n c st)"
  unfolding core_decafs_file_sstat_def core_decafs_file_stat_def core_add_file_def
    core_delete_file_contents_def core_update_file_size_def
  by (rule with_metadata_lock_placed[OF assms])+

lemma core_vm_placed:
  "placed_in st \<Longrightarrow> core_new_request_id st = (r, st') \<Longrightarrow> placed_in st'"
  "placed_in st \<Longrightarrow> core_new_file_cursor f c st = (k, st') \<Longrightarrow> placed_in st'"
  "placed_in st \<Longrightarrow> core_close_file_cursor fd c st = (k, st') \<Longrightarrow> placed_in st'"
  by (auto simp: core_new_request_id_def core_new_file_cursor_def core_close_file_cursor_def split: prod.splits)

lemma core_set_file_cursor_placed:
  "placed_in st \<Longrightarrow> ends (\<lambda>(r, st'). placed_in st') (core_set_file_cursor fd off c st)"
  unfolding core_set_file_cursor_def
  apply (intro ends_cases)
    apply simp
   apply (rule ends_bind[OF core_calls_placed(2)], assumption, clarify)
   apply (rule ends_bind[OF ends_any], clarsimp)
  apply simp
  done

lemma checks_placed:
  "placed_in st \<Longrightarrow> ends placed_in (check_read_complete r st)"
  "placed_in st \<Longrightarrow> ends placed_in (check_write_complete r st)"
  by (auto simp: check_read_complete_def check_write_complete_def Let_def split: option.split)

lemma loops_placed:
  "placed_in st \<Longrightarrow> ends (\<lambda>(k, st'). placed_in st') (read_loop net m n rid f fd stat len c s off br num st)"
  "placed_in st \<Longrightarrow> ends (\<lambda>(k, st'). placed_in st') (write_loop net m n rid rrid f fd stat buf len c s off bw num st)"
proof -
  show "placed_in st \<Longrightarrow> ends (\<lambda>(k, st'). placed_in st') (read_loop net m n rid f fd stat len c s off br num st)"
  proof (induction n arbitrary: s off br num st)
    case (Suc n)
    show ?case
      unfolding read_loop.simps
      apply (intro ends_cases, rule ends_bind[OF process_stripe_placed(1)[OF Suc.prems]], clarify, intro ends_cases)
       apply (rule ends_bind[OF core_set_file_cursor_placed])
        apply simp
       apply (clarify, rule Suc.IH, assumption)
      apply (simp_all add: Suc.prems)
      done
  qed simp
  show "placed_in st \<Longrightarrow> ends (\<lambda>(k, st'). placed_in st') (write_loop net m n rid rrid f fd stat buf len c s off bw num st)"
  proof (induction n arbitrary: s off bw num st)
    case (Suc n)
    show ?case
      unfolding write_loop.simps
      apply (intro ends_cases, rule ends_bind[OF process_stripe_placed(2)[OF Suc.prems]], clarify)
       apply (rule ends_bind[OF core_calls_placed(5)])
        apply simp
       apply (clarify, rule ends_bind[OF core_set_file_cursor_placed], assumption)
       apply (clarify, rule Suc.IH, assumption)
      apply (simp add: Suc.prems)
      done
  qed simp
qed

lemma read_file_placed:
  assumes "placed_in st"
  shows "ends placed_in (read_file net n fd len c st)"
proof (cases "core_new_request_id st")
  case (Pair r st1)
  then have e: "placed_in st1" using core_vm_placed(1)[OF assms] by blast
  show ?thesis
    unfolding read_file_def Pair prod.case read_refusal_def
    apply (intro ends_cases, rule ends_bind[OF ends_any], rule ends_bind[OF ends_any], intro ends_cases)
     apply (simp add: e)
    apply (rule ends_bind[OF core_calls_placed(2)[OF e]], clarify, intro ends_cases)
       apply (simp_all add: e)
    apply (rule ends_bind[OF ends_any], clarify)
    apply (rule ends_bind[OF loops_placed(1)], simp)
    apply (clarify, intro ends_cases, simp)
    apply (rule checks_placed, simp)
    done
qed

lemma write_file_placed:
  assumes "placed_in st"
  shows "ends placed_in (write_file net n fd buf len c st)"
proof (cases "core_new_request_id st")
  case (Pair r st1)
  then have e1: "placed_in st1" using core_vm_placed(1)[OF assms] by blast
  obtain rr st2 where q: "core_new_request_id st1 = (rr, st2)" by fastforce
  then have e: "placed_in st2" using core_vm_placed(1)[OF e1] by blast
  show ?thesis
    unfolding write_file_def Pair prod.case q write_refusal_def
    apply (intro ends_cases, rule ends_bind[OF ends_any], intro ends_cases)
     apply (simp add: e)
    apply (rule ends_bind[OF core_calls_placed(2)[OF e]], clarify, intro ends_cases)
       apply (simp_all add: e)
    apply (rule ends_bind[OF ends_any], clarify)
    apply (rule ends_bind[OF loops_placed(2)], simp)
    apply (clarify, intro ends_cases)
    apply (rule checks_placed, simp)
    done
qed

lemma seek_report_placed:
  assumes "placed_in st"
  shows "ends placed_in (file_seek fd off wh c st)" and "ends placed_in (file_storage_stat p c st)"
proof -
  have opt: "ends (\<lambda>(_, st'). placed_in st') (if b then core_set_file_cursor w x c st1 else Returned (0, st1))"
    if "placed_in st1" for b w x st1
    using that core_set_file_cursor_placed[OF that] by simp
  show "ends placed_in (file_seek fd off wh c st)"
    unfolding file_seek_def
    apply (intro ends_cases)
     apply (rule ends_bind[OF core_set_file_cursor_placed[OF assms]], simp add: split_beta)
    apply (rule ends_bind[OF opt[OF assms]], clarify, intro ends_cases)
    apply (rule ends_bind[OF opt], assumption, simp add: split_beta)
    done
  show "ends placed_in (file_storage_stat p c st)"
    unfolding file_storage_stat_def using assms by (auto intro!: ends_bind[OF core_calls_placed(1)])
qed

lemma open_file_placed:
  assumes "placed_in st"
  shows "ends placed_in (open_file junk time p flags c st)"
proof -
  have target: "ends (\<lambda>(file, st2). placed_in st2)
     (if r = FILE_NOT_FOUND then
          if bit flags 1 then
            outcome_bind (core_add_file p ss cs rs time c st1) (\<lambda>(f, st2). Returned (Some (word_of_int f, junk), st2))
          else Returned (None, send_reply (Open_Result c FILE_NOT_FOUND_FOR_READING) st1)
        else
          let s = (case info of Some i \<Rightarrow> i | None \<Rightarrow> junk) in Returned (Some (fs_file_id s, s), st1))"
    if "placed_in st1" for r ss cs rs st1 and info :: "file_stat option"
    using that by (auto simp: Let_def intro!: ends_bind[OF core_calls_placed(3)])
  have cursor: "ends placed_in (case core_new_file_cursor g c st3 of (cursor, st4) \<Rightarrow>
      outcome_bind (if b then core_set_file_cursor (word_of_int cursor) off c st4 else Returned (0, st4))
        (\<lambda>(_, st5). Returned (send_reply (Open_Result c cursor) st5)))" if "placed_in st3" for g b off st3
  proof (cases "core_new_file_cursor g c st3")
    case (Pair cursor st4)
    then have "placed_in st4" using core_vm_placed(2)[OF that] by blast
    then have *: "ends (\<lambda>(_, st5). placed_in st5)
        (if b then core_set_file_cursor (word_of_int cursor) off c st4 else Returned (0, st4))"
      using core_set_file_cursor_placed by simp
    show ?thesis unfolding Pair prod.case by (rule ends_bind[OF *]) auto
  qed
  show ?thesis
    unfolding open_file_def
    apply (rule ends_bind[OF core_calls_placed(1)[OF assms]], clarify)
    apply (rule ends_bind[OF target], assumption, clarify, intro ends_cases)
     apply simp
    apply (rule ends_case_prod, rule ends_bind[OF ends_any], clarify, intro ends_cases)
     apply simp
    apply (rule cursor, simp)
    done
qed

lemma close_file_placed:
  assumes "placed_in st"
  shows "ends placed_in (close_file fd c st)"
proof (cases "core_close_file_cursor (word_of_int fd) c st")
  case (Pair g st1)
  then have h: "placed_in st1" using core_vm_placed(3)[OF assms] by blast
  have *: "ends placed_in (if g > 0 then outcome_bind (release_lock c (word_of_int g) (br_locks st1))
      (\<lambda>(_, locks). Returned (st1\<lparr>br_locks := locks\<rparr>)) else Returned st1)"
    using h by (auto intro!: ends_bind[OF ends_any])
  show ?thesis unfolding close_file_def Pair prod.case by (rule ends_bind[OF *]) simp
qed

lemma delete_check_placed:
  assumes "placed_in st"
  shows "ends placed_in (check_delete_complete n r st)"
proof -
  have retry: "placed_in st1 \<Longrightarrow> ends placed_in (retry_delete_contents k f c st1)" for k f c st1
    by (induction k arbitrary: st1) (auto intro!: ends_bind[OF core_calls_placed(4)])
  have rel: "ends placed_in (outcome_bind (release_lock c f l) (\<lambda>(_, locks). Returned (st2\<lparr>br_locks := locks, br_deletes := d\<rparr>)))"
    if "placed_in st2" for c f l d and st2 :: barista
    using that by (auto intro!: ends_bind[OF ends_any])
  show ?thesis
    unfolding check_delete_complete_def Let_def
    by (intro ends_cases) (auto simp: assms intro!: ends_bind[OF retry] rel)
qed

lemma delete_file_placed:
  assumes "placed_in st"
  shows "ends placed_in (delete_file net n p c st)"
proof (cases "core_new_request_id st")
  case (Pair r st1)
  then have h: "placed_in st1" using core_vm_placed(1)[OF assms] by blast
  have del: "ends (\<lambda>(k, io). well_placed io) (process_delete_file net rid f io)" if "well_placed io" for rid f io
    using delete_chunks_placed[of "(0, io)"] that by (simp add: process_delete_file_def)
  show ?thesis
    unfolding delete_file_def Pair prod.case
    apply (rule ends_bind[OF core_calls_placed(1)[OF h]], clarify, intro ends_cases)
     apply simp
    apply (rule ends_bind[OF ends_any], clarify, intro ends_cases)
     apply simp
    apply (rule ends_bind[OF del], simp)
    apply (clarify, rule delete_check_placed, simp)
    done
qed

lemma answers_placed:
  assumes "placed_in st"
  shows "ends placed_in (read_response_handler rid ch k data st)"
    and "ends placed_in (write_response_handler rid k st)"
    and "ends placed_in (delete_response_handler n rid st)"
  using assms by (auto simp: read_response_handler_def write_response_handler_def delete_response_handler_def Let_def
      split: option.split intro!: checks_placed delete_check_placed)

section \<open>Property\<close>

lemma core_step_placed: "placed_in st \<Longrightarrow> ends placed_in (core_step net n junk time x st)"
  by (cases x) (simp_all add: open_file_placed close_file_placed read_file_placed write_file_placed delete_file_placed
      seek_report_placed answers_placed)

lemma core_reach_placed: "core_reach st \<Longrightarrow> placed_in st"
proof (induction rule: core_reach.induct)
  case (started argc stripe chunk num b)
  have "well_placed (br_io new_barista)" by (simp add: new_barista_def empty_io_def well_placed_def)
  moreover have "io_node (br_io b) = io_node (br_io new_barista)" "io_replica (br_io b) = io_replica (br_io new_barista)"
    using started by (auto simp: barista_core_init_def split: if_splits prod.splits)
  ultimately show ?case using well_placed_same by blast
next
  case (stepped st net n junk time x st')
  then show ?case using endsD[OF core_step_placed] by blast
qed simp

text \<open>
  C11: the two copies of a chunk lie on different nodes. In every state the core can reach, whatever it
  was asked and whatever the network did, the storage nodes of chunks are nodes 1 and 2, the replica
  nodes are nodes 3 and 4, and so a chunk that has lost one node still has its other copy.
\<close>

theorem copies_apart:
  assumes "core_reach st" "node_find ch (io_node (br_io st)) = Some p" "node_find ch (io_replica (br_io st)) = Some r"
  shows "p \<in> {1, 2} \<and> r \<in> {3, 4} \<and> p \<noteq> r"
  using well_placed_find[OF core_reach_placed[OF assms(1)]] assms(2,3) by force

text \<open>
  A barista with stripes of 512 and chunks of 256 bytes that has just started, and after client 7 has
  created the file \<open>/a\<close>, which it has open at descriptor 1.
\<close>

lemma demo_started:
  obtains b where "core_reach b" "at_rest b" "br_pm b = new_pmeta" "br_locks b = Map.empty" "br_replies b = []"
    "io_node (br_io b) = []" "io_replica (br_io b) = []" "vm_stripe_size (br_vm b) = 512" "vm_chunk_size (br_vm b) = 256"
    "vm_last_fd (br_vm b) = 0"
proof -
  obtain b where b: "barista_core_init 6 512 256 4 new_barista = Some b" "br_pm b = new_pmeta" "br_locks b = Map.empty"
    "br_replies b = []" "io_node (br_io b) = []" "io_replica (br_io b) = []" "vm_stripe_size (br_vm b) = 512"
    "vm_chunk_size (br_vm b) = 256" "vm_last_fd (br_vm b) = 0" "cursors_inv (br_vm b)"
    by (simp add: barista_core_init_def set_stripe_size_def set_chunk_size_def set_num_espressos_def limits_defs
        new_barista_def empty_io_def new_vmeta_def FD_NOT_SET_def cursors_inv_def oc_sorted_def om_find_def oc_find_def oc_lower_bound_def)
  have r: "core_reach b" by (rule core_reach.started[OF b(1)])
  then have "at_rest b" using core_reach_ok b(2,10) pmeta_inv_new by (simp add: at_rest_def)
  with r b show thesis by (intro that)
qed

lemma demo_created:
  obtains b st where "core_reach b" "at_rest b" "br_pm b = new_pmeta" "br_locks b = Map.empty" "br_replies b = []"
    "io_node (br_io b) = []" "io_replica (br_io b) = []" "vm_stripe_size (br_vm b) = 512" "vm_chunk_size (br_vm b) = 256"
    "vm_last_fd (br_vm b) = 0" "open_file demo_stat (0, 0) ''/a'' 2 demo_writer b = Returned st"
    "core_reach st" "at_work demo_writer 1 ''/a'' demo_info (new_instance demo_writer 1 0) st"
    "has_exclusive_lock demo_writer 1 (br_locks st) = Returned 1"
    "br_replies st = [Open_Result demo_writer 1]" "io_node (br_io st) = []" "io_replica (br_io st) = []"
proof -
  obtain b where b: "core_reach b" "at_rest b" "br_pm b = new_pmeta" "br_locks b = Map.empty" "br_replies b = []"
    "io_node (br_io b) = []" "io_replica (br_io b) = []" "vm_stripe_size (br_vm b) = 512" "vm_chunk_size (br_vm b) = 256"
    "vm_last_fd (br_vm b) = 0" by (rule demo_started)
  have fl: "bit (2 :: u32) 1" by (simp add: bit_numeral_rec)
  obtain st where st: "open_file demo_stat (0, 0) ''/a'' 2 demo_writer b = Returned st"
    "opened demo_writer 1 ''/a'' demo_info 0 b st" "has_exclusive_lock demo_writer 1 (br_locks st) = Returned 1"
    "io_node (br_io st) = []" "io_replica (br_io st) = []"
    using creates_file[OF b(2), of "''/a''" demo_writer 2 "(0, 0)" demo_stat] b fl by (auto simp: MAX_FILENAME_LENGTH_def Let_def)
  then have "core_reach st" using core_reach.stepped[OF b(1), of good_net 0 demo_stat "(0, 0)" "Open_Event ''/a'' 2 demo_writer" st] by simp
  then show thesis using that[of b st] st b by (simp add: opened_def)
qed

lemma copies_apart_witness:
  "\<exists>st p r. core_reach st \<and> node_find (mk_chunk 1 1 1) (io_node (br_io st)) = Some p \<and>
     node_find (mk_chunk 1 1 1) (io_replica (br_io st)) = Some r \<and> p \<noteq> r"
proof -
  let ?i = "new_instance demo_writer 1 0" and ?segs = "[(1, 0, 10)] :: (int \<times> int \<times> int) list"
  obtain st where st: "core_reach st" "at_work demo_writer (word_of_int 1) ''/a'' demo_info ?i st"
    "has_exclusive_lock demo_writer (pm_file_id demo_info) (br_locks st) = Returned 1" "maps_ok (\<lambda>_. 1) (\<lambda>_. 2) (br_io st)"
    by (rule demo_created) (simp add: maps_ok_def oc_sorted_def)
  then have so: "oc_sorted (<) UNIV fst (br_write_lookups st)" "oc_sorted write_request_less UNIV fst (br_writes st)"
    using core_reach_ok by (auto simp: tables_ok_def)
  have win: "in_window (\<lambda>_. 1) (\<lambda>_. 2) (pm_file_id demo_info) ?segs" by (simp add: in_window_def)
  have segs: "?segs = file_parts (pm_stripe_size demo_info) (uint (fi_offset ?i)) 10" using one_part(1) by simp
  obtain st' where st': "write_file good_net 20 1 [] 10 demo_writer st = Returned st'"
    "parts_placed (pm_file_id demo_info) (pm_chunk_size demo_info) ?segs (br_io st')"
    using write_file_sends[OF st(2) _ st(3) good_net_reachable st(4) win, where count = 10 and n = 20 and buf = "[]",
        OF _ _ _ _ _ _ _ so _ _ _ refl refl segs] by simp blast
  then have "placed 1 1 (br_io st') [(1, 0, 10)]" using one_part(2) by (simp add: parts_placed_def)
  then obtain p r where "node_find (mk_chunk 1 1 1) (io_node (br_io st')) = Some p"
    "node_find (mk_chunk 1 1 1) (io_replica (br_io st')) = Some r" by auto
  moreover have "core_reach st'"
    using core_reach.stepped[OF st(1), of good_net 20 demo_stat "(0, 0)" "Write_Event 1 [] 10 demo_writer" st'] st'(1) by simp
  ultimately show ?thesis using copies_apart[of st' "mk_chunk 1 1 1" p r] by blast
qed

end
