(* ===== verification/File_Session.thy ===== *)
theory File_Session
  imports File_Bytes Barista_Placement
begin

text \<open>
  A client at work on an open file: a sequence of writes, reads and seeks that the array of
  \<open>file_op_step\<close> describes, each served by the nodes of the cluster and answered in some order, does to
  the client what the same calls on that array do. The sequences are limited by the code: by the size
  that the order on chunks allows (\<open>session_room\<close>) and by what the nodes can store. The invariant behind it holds every byte of the array at its
  place on the node and on the replica node of its chunk.
\<close>

section \<open>A file as an array of bytes\<close>

text \<open>
  The size is kept apart from the bytes: the core counts every byte that is written, also one that
  replaces another, so that a file that is overwritten has a size beyond its bytes.
\<close>

record afile =
  af_bytes :: "u8 list"
  af_size :: int
  af_pos :: int

datatype file_op = Op_Write "u8 list" | Op_Read nat | Op_Seek u32 int

text \<open>
  The reply to a call and the file after it. There is none for what the array does not describe: a
  write that starts behind the last byte or grows the file beyond \<open>limit\<close>, and a read that is not
  at the end of the file and goes beyond the last byte.
\<close>

fun file_op_step :: "int \<Rightarrow> client \<Rightarrow> int \<Rightarrow> file_op \<Rightarrow> afile \<Rightarrow> (reply \<times> afile) option" where
  "file_op_step limit c fd (Op_Write data) a =
     (if data = [] then Some (Write_Result c 0 0, a)
      else if af_pos a \<le> int (length (af_bytes a)) \<and> af_size a + int (length data) \<le> limit
      then Some (Write_Result c fd (int (length data)),
        \<lparr>af_bytes = overwrite (nat (af_pos a)) data (af_bytes a), af_size = af_size a + int (length data),
         af_pos = af_pos a + int (length data)\<rparr>)
      else None)"
| "file_op_step limit c fd (Op_Read k) a =
     (if af_size a \<le> af_pos a \<or> k = 0 then Some (Read_Result c fd 0 [], a)
      else if af_pos a + int k \<le> int (length (af_bytes a))
      then Some (Read_Result c fd (int k) (take k (drop (nat (af_pos a)) (af_bytes a))), a\<lparr>af_pos := af_pos a + int k\<rparr>)
      else None)"
| "file_op_step limit c fd (Op_Seek off whence) a =
     (let target = (if whence = 2 then af_size a else if whence = 0 then min (uint off) (af_size a)
                    else min ((af_pos a + uint off) mod 2 ^ 32) (af_size a))
      in Some (Seek_Result c target, a\<lparr>af_pos := target\<rparr>))"

fun file_ops_run :: "int \<Rightarrow> client \<Rightarrow> int \<Rightarrow> file_op list \<Rightarrow> afile \<Rightarrow> (reply list \<times> afile) option" where
  "file_ops_run limit c fd [] a = Some ([], a)"
| "file_ops_run limit c fd (x # xs) a =
     (case file_op_step limit c fd x a of
        None \<Rightarrow> None
      | Some (r, a1) \<Rightarrow> (case file_ops_run limit c fd xs a1 of None \<Rightarrow> None | Some (rs, a2) \<Rightarrow> Some (r # rs, a2)))"

section \<open>The calls of a client, served by the cluster\<close>

type_synonym system = "barista \<times> cluster"

text \<open>
  A write reaches its nodes, which all store what they are sent; a read may find one node not
  answering, which is no replica node as long as a storage node is marked down. The answers come in
  any order.
\<close>

inductive client_op ::
    "nat \<Rightarrow> (nat \<Rightarrow> u8) \<Rightarrow> u32 \<Rightarrow> client \<Rightarrow> int \<Rightarrow> file_op \<Rightarrow> system \<Rightarrow> system \<Rightarrow> bool" for n heap junk c fd where
  written: "reachable_net net \<Longrightarrow> write_file net n fd data (length data) c st = Returned st1 \<Longrightarrow>
     W = drop (length (io_sent (br_io st))) (map fst (io_sent (br_io st1))) \<Longrightarrow>
     cluster_run heap junk W cl = Returned (map stored_answer W, cl1) \<Longrightarrow>
     mset (map Some ms) = mset (map stored_answer W) \<Longrightarrow> run_handlers (answer_handler n) ms st1 = Returned st2 \<Longrightarrow>
     client_op n heap junk c fd (Op_Write data) (st, cl) (st2, cl1)"
| fetched: "only_fails a net \<Longrightarrow> node_number a \<Longrightarrow>
     a \<noteq> 3 \<and> a \<noteq> 4 \<or> node_up (br_io st) 1 \<and> node_up (br_io st) 2 \<Longrightarrow>
     read_file net n fd k c st = Returned st1 \<Longrightarrow>
     R = drop (length (delivered (io_sent (br_io st)))) (delivered (io_sent (br_io st1))) \<Longrightarrow>
     cluster_run heap junk R cl = Returned (map Some as, cl1) \<Longrightarrow>
     mset ms = mset as \<Longrightarrow> run_handlers (answer_handler n) ms st1 = Returned st2 \<Longrightarrow>
     client_op n heap junk c fd (Op_Read k) (st, cl) (st2, cl1)"
| moved: "file_seek fd off whence c st = Returned st1 \<Longrightarrow>
     client_op n heap junk c fd (Op_Seek off whence) (st, cl) (st1, cl)"

inductive client_ops ::
    "nat \<Rightarrow> (nat \<Rightarrow> u8) \<Rightarrow> u32 \<Rightarrow> client \<Rightarrow> int \<Rightarrow> file_op list \<Rightarrow> system \<Rightarrow> system \<Rightarrow> bool" for n heap junk c fd where
  no_op: "client_ops n heap junk c fd [] s s"
| next_op: "client_op n heap junk c fd x s s1 \<Longrightarrow> client_ops n heap junk c fd xs s1 s2 \<Longrightarrow>
    client_ops n heap junk c fd (x # xs) s s2"

inductive_cases client_op_cases:
  "client_op n heap junk c fd (Op_Write data) s s'"
  "client_op n heap junk c fd (Op_Read k) s s'"
  "client_op n heap junk c fd (Op_Seek off whence) s s'"

inductive_cases client_ops_cases: "client_ops n heap junk c fd (x # xs) s s'" "client_ops n heap junk c fd [] s s'"

section \<open>What answers keep\<close>

lemma answer_evolves:
  assumes "answer_handler n m b = Returned b'"
  shows "evolves b b'" and "placed_in b \<Longrightarrow> placed_in b'"
proof -
  have *: "answer_handler n m b = Returned b \<or> (\<exists>x. answer_handler n m b = core_step good_net n junk t x b)" for junk t
  proof (cases m)
    case (Chunk_Read i q data)
    then show ?thesis by (intro disjI2 exI[of _ "Read_Answer i (message_chunk q) (fp_count q) data"]) simp
  next
    case (Chunk_Written i q)
    then show ?thesis by (intro disjI2 exI[of _ "Write_Answer i (fp_count q)"]) simp
  next
    case (Chunk_Deleted i q)
    then show ?thesis by (intro disjI2 exI[of _ "Delete_Answer i"]) simp
  qed simp_all
  show "evolves b b'" using * core_step_evolves assms by (metis evolves_refl outcome.inject(1))
  show "placed_in b'" if "placed_in b" using * endsD[OF core_step_placed[OF that]] that assms by (metis outcome.inject(1))
qed

lemma answers_evolve:
  "run_handlers (answer_handler n) ms b = Returned b' \<Longrightarrow> evolves b b' \<and> (placed_in b \<longrightarrow> placed_in b')"
proof (induction ms arbitrary: b)
  case (Cons m ms)
  then obtain b1 where "answer_handler n m b = Returned b1" "run_handlers (answer_handler n) ms b1 = Returned b'"
    by (auto split: outcome.splits)
  with Cons.IH answer_evolves show ?case by (meson evolves_trans)
qed auto

lemma evolves_tables_ok: "evolves b b' \<Longrightarrow> tables_ok b \<Longrightarrow> tables_ok b'"
  by (simp add: evolves_def)

section \<open>The numbers of a session\<close>

text \<open>
  Sizes that fit an \<open>int\<close>, enough iterations for a transfer, and chunks of the first \<open>limit\<close> bytes
  that the chunk maps keep apart.
\<close>

definition session_room :: "(u32 \<Rightarrow> u32) \<Rightarrow> (u32 \<Rightarrow> u32) \<Rightarrow> nat \<Rightarrow> int \<Rightarrow> u32 \<Rightarrow> u32 \<Rightarrow> u32 \<Rightarrow> bool" where
  "session_room lo hi n limit f ss cs \<longleftrightarrow> limit < 2 ^ 31 \<and> limit + 2 < int n \<and> 0 < uint cs \<and> uint cs \<le> 65536 \<and>
     0 < uint ss \<and> uint ss < 2 ^ 31 \<and> uint ss \<le> int n * uint cs \<and> limit \<le> int n * uint ss \<and>
     (\<forall>x. 0 \<le> x \<longrightarrow> x < limit \<longrightarrow> chunk_at f ss cs x \<in> chunk_window lo hi)"

lemma chunk_at_stripe: "fc_stripe_id (chunk_at f ss cs x) = word_of_int (x div uint ss + 1)" "fc_file_id (chunk_at f ss cs x) = f"
  by (simp_all add: chunk_at_def)

lemma window_of_range:
  assumes "session_room lo hi n limit f ss cs" "0 \<le> pos" "pos + int cnt \<le> limit"
  shows "in_window lo hi f (file_parts ss pos cnt)"
proof -
  have sz: "0 < uint ss" using assms(1) by (simp add: session_room_def)
  have "word_of_int s = (if word_of_int s \<le> f then lo f else hi f)" if q: "(s, off, len) \<in> set (file_parts ss pos cnt)" for s off len
  proof -
    note p = part_place[OF sz assms(2) q]
    define x where "x = (s - 1) * uint ss + (if len = 0 then uint ss - 1 else off)"
    have "0 \<le> (s - 1) * uint ss" using p(1) by simp
    then have x: "0 \<le> x" "x < limit"
      using p(2,3,5,6,7,8) sz assms(3) by (auto simp: x_def)
    have "0 \<le> (if len = 0 then uint ss - 1 else off)" "(if len = 0 then uint ss - 1 else off) < uint ss"
      using p(2,3,4) sz by auto
    then have "x div uint ss = s - 1" by (simp add: x_def div_pos_pos_trivial)
    then show ?thesis
      using assms(1) x chunk_at_stripe[of f ss cs x] by (auto simp: session_room_def chunk_window_def)
  qed
  then show ?thesis unfolding in_window_def by (intro ballI) (simp only: split_paired_all prod.case)
qed

lemma room_transfer:
  assumes "session_room lo hi n limit (pm_file_id i) (pm_stripe_size i) (pm_chunk_size i)" "0 < cnt"
    and "uint (fi_offset inst) + int cnt \<le> limit"
  shows "transfer_ok n i inst cnt" "in_window lo hi (pm_file_id i) (file_parts (pm_stripe_size i) (uint (fi_offset inst)) cnt)"
    and "uint (fi_offset inst) + int cnt < 2 ^ 31"
    and "inj_on (part_chunk (pm_file_id i)) (set (file_chunks (pm_chunk_size i) (file_parts (pm_stripe_size i) (uint (fi_offset inst)) cnt)))"
proof -
  note u = uint_ge_0[of "fi_offset inst"]
  note r = assms(1)[unfolded session_room_def]
  show "uint (fi_offset inst) + int cnt < 2 ^ 31" using r assms(3) by linarith
  then show "inj_on (part_chunk (pm_file_id i)) (set (file_chunks (pm_chunk_size i) (file_parts (pm_stripe_size i) (uint (fi_offset inst)) cnt)))"
    using file_chunks_inj[OF _ u] window_of_range[OF assms(1) u assms(3)] r by blast
  have "uint (fi_offset inst) \<le> limit" "int cnt \<le> limit" using assms(3) u by linarith+
  then have "uint (fi_offset inst) \<le> int n * uint (pm_stripe_size i)" "cnt + 2 < n" using r by linarith+
  then show "transfer_ok n i inst cnt" using r assms(2) by (simp add: transfer_ok_def)
qed (rule window_of_range[OF assms(1) uint_ge_0 assms(3)])

section \<open>The invariant of a session\<close>

text \<open>Client \<open>c\<close> works at descriptor \<open>fd\<close> on the file with record \<open>i\<close>, whose bytes lie on the nodes.\<close>

definition working ::
    "(u32 \<Rightarrow> u32) \<Rightarrow> (u32 \<Rightarrow> u32) \<Rightarrow> int \<Rightarrow> nat \<Rightarrow> int \<Rightarrow> client \<Rightarrow> int \<Rightarrow> string \<Rightarrow> system \<Rightarrow> u8 list \<Rightarrow>
     persistent_metadata_info \<Rightarrow> file_instance \<Rightarrow> bool" where
  "working lo hi vol n limit c fd p s bs i inst \<longleftrightarrow> 0 < fd \<and> at_work c (word_of_int fd) p i inst (fst s) \<and>
     has_exclusive_lock c (pm_file_id i) (br_locks (fst s)) = Returned 1 \<and>
     maps_ok lo hi (br_io (fst s)) \<and> tables_ok (fst s) \<and> placed_in (fst s) \<and> cluster_inv vol (snd s) \<and>
     session_room lo hi n limit (pm_file_id i) (pm_stripe_size i) (pm_chunk_size i) \<and>
     uint (pm_size i) \<le> limit \<and> int (length bs) \<le> uint (pm_size i) \<and>
     holds_file (pm_file_id i) (pm_stripe_size i) (pm_chunk_size i) (br_io (fst s)) (snd s) bs"

definition session_inv ::
    "(u32 \<Rightarrow> u32) \<Rightarrow> (u32 \<Rightarrow> u32) \<Rightarrow> int \<Rightarrow> nat \<Rightarrow> int \<Rightarrow> client \<Rightarrow> int \<Rightarrow> string \<Rightarrow> system \<Rightarrow> afile \<Rightarrow> bool" where
  "session_inv lo hi vol n limit c fd p s a \<longleftrightarrow> (\<exists>i inst. working lo hi vol n limit c fd p s (af_bytes a) i inst \<and>
     af_size a = uint (pm_size i) \<and> af_pos a = uint (fi_offset inst))"

section \<open>A write\<close>

fun write_entry :: "u32 \<Rightarrow> chunk_request \<Rightarrow> bool \<times> int" where
  "write_entry rid (Write_Chunk i ch nd off data) = (i = rid, int (length data))"
| "write_entry rid r = (False, 0)"

lemma file_chunks_parts: "map snd (file_chunks cs segs) = chunk_parts cs segs"
  by (induction segs) (auto simp: o_def)

lemma write_entries:
  assumes "\<forall>x \<in> set xs. 0 \<le> seg_len (snd x)" "rid \<noteq> rrid"
    and "W = concat (map (part_writes rid rrid f ss cs F N M) xs)" "es = map (write_entry rid) W"
  shows "length (filter fst es) = length xs" "length (filter (\<lambda>e. \<not> fst e) es) = length xs"
    "primary_counts es = map (seg_len \<circ> snd) xs" "\<And>r. r \<in> set W \<Longrightarrow> answer_handler n (the (stored_answer r)) =
      write_answer \<lparr>wq_request_id = rid, wq_replica_request_id = rrid\<rparr> (write_entry rid r)"
proof -
  have es: "es = concat (map (\<lambda>(s, k, off, len). [(True, int (nat len)), (False, int (nat len))]) xs)"
    unfolding assms(3,4) using assms(2)
    by (induction xs) (auto simp: part_writes_def Let_def part_answer_length simp del: int_nat_eq)
  have "length (filter fst es) = length xs \<and> length (filter (\<lambda>e. \<not> fst e) es) = length xs \<and>
      primary_counts es = map (\<lambda>(s, k, off, len). int (nat len)) xs"
    unfolding es by (induction xs) (auto simp del: int_nat_eq)
  moreover have "map (\<lambda>(s, k, off, len). int (nat len)) xs = map (seg_len \<circ> snd) xs"
    using assms(1) by (intro map_cong) auto
  ultimately show "length (filter fst es) = length xs" "length (filter (\<lambda>e. \<not> fst e) es) = length xs"
    "primary_counts es = map (seg_len \<circ> snd) xs" by simp_all
  show "answer_handler n (the (stored_answer r)) =
      write_answer \<lparr>wq_request_id = rid, wq_replica_request_id = rrid\<rparr> (write_entry rid r)" if r: "r \<in> set W" for r
  proof -
    obtain i ch nd off data where w: "r = Write_Chunk i ch nd off data" "i = rid \<or> i = rrid"
      using r unfolding assms(3) by (auto simp: part_writes_def Let_def)
    then show ?thesis using assms(2) by (auto simp: fun_eq_iff write_answer_def chunk_fields_def)
  qed
qed

lemma write_file_keeps:
  assumes "write_file net n fd buf cnt c st = Returned st1" "tables_ok st" "placed_in st"
  shows "tables_ok st1" "placed_in st1"
  using core_step_evolves[of net n junk t "Write_Event fd buf cnt c" st st1] assms endsD[OF write_file_placed[OF assms(3)] assms(1)]
  by (auto simp: evolves_def)

lemma working_data:
  assumes "working lo hi vol n limit c fd p s bs i inst"
  shows "0 < fd" "at_work c (word_of_int fd) p i inst (fst s)" "has_exclusive_lock c (pm_file_id i) (br_locks (fst s)) = Returned 1"
    "maps_ok lo hi (br_io (fst s))" "tables_ok (fst s)" "placed_in (fst s)" "cluster_inv vol (snd s)"
    "session_room lo hi n limit (pm_file_id i) (pm_stripe_size i) (pm_chunk_size i)" "uint (pm_size i) \<le> limit"
    "int (length bs) \<le> uint (pm_size i)"
    "holds_file (pm_file_id i) (pm_stripe_size i) (pm_chunk_size i) (br_io (fst s)) (snd s) bs" "uint (fi_offset inst) \<le> uint (pm_size i)"
  using assms by (auto simp: working_def at_work_def)

lemma room_numbers:
  assumes "session_room lo hi n limit f ss cs"
  shows "limit < 2 ^ 31" "limit + 2 < int n" "0 < uint cs" "uint cs \<le> 65536" "uint cs < 2 ^ 31" "0 < uint ss" "uint ss < 2 ^ 31"
    "uint ss \<le> int n * uint cs" "limit \<le> int n * uint ss"
    "\<And>x. 0 \<le> x \<Longrightarrow> x < limit \<Longrightarrow> chunk_at f ss cs x \<in> chunk_window lo hi"
  using assms by (auto simp: session_room_def)

lemma write_answered:
  assumes xs: "\<forall>x \<in> set xs. 0 \<le> seg_len (snd x)" "0 < length xs" "length xs < 2 ^ 32"
    and W: "W = concat (map (part_writes rid rrid f ss cs F N M) xs)" "rid \<noteq> rrid"
    and pending: "write_pending \<lparr>wq_request_id = rid, wq_replica_request_id = rrid\<rparr> (sent_write c f fd (of_nat (length xs))) st"
    and ms: "mset (map Some ms) = mset (map stored_answer W)"
  shows "run_handlers (answer_handler n) ms st = Returned (write_reply \<lparr>wq_request_id = rid, wq_replica_request_id = rrid\<rparr>
    (sent_write c f fd (of_nat (length xs))) (sum_list (map (seg_len \<circ> snd) xs)) st)"
proof -
  let ?q = "\<lparr>wq_request_id = rid, wq_replica_request_id = rrid\<rparr>" and ?es = "map (write_entry rid) W"
  obtain W' where W': "map Some ms = map stored_answer W'" "mset W' = mset W" using ex_map_conv_mset[OF ms] by blast
  let ?es' = "map (write_entry rid) W'"
  note e = write_entries[OF xs(1) W(2,1) refl]
  have me: "mset ?es' = mset ?es" using W'(2) by simp
  have len: "length (filter P ?es') = length (filter P ?es)" for P
    using arg_cong[OF me, of "\<lambda>A. size (filter_mset P A)"] by (simp only: mset_filter[symmetric] size_mset)
  have "mset (primary_counts ?es') = mset (primary_counts ?es)" by (simp only: me mset_map[of snd] mset_filter)
  then have "sum_list (primary_counts ?es') = sum_list (primary_counts ?es)"
    unfolding sum_mset_sum_list[symmetric] by (rule arg_cong)
  then have sum: "sum_list (primary_counts ?es') = sum_list (map (seg_len \<circ> snd) xs)"
    by (rule trans) (rule arg_cong[OF e(3)])
  have h: "answer_handler n (the (stored_answer r)) = write_answer ?q (write_entry rid r)" if "r \<in> set W'" for r
    using e(4) that W'(2) mset_eq_setD by blast
  have m: "ms = map (\<lambda>r. the (stored_answer r)) W'" using arg_cong[OF W'(1), of "map the"] by (simp add: o_def)
  have "run_handlers (answer_handler n) ms = run_handlers (\<lambda>r. answer_handler n (the (stored_answer r))) W'"
    unfolding m by (rule run_handlers_map[symmetric]) simp
  also have "\<dots> = run_handlers (write_answer ?q) ?es'" by (rule run_handlers_map) (rule h)
  finally show ?thesis
    using sent_write_answers[OF pending xs(2,3), of ?es'] by (simp only: len e(1,2) sum)
qed

lemma parts_found:
  assumes "parts_placed f cs segs io" "x \<in> set (file_chunks cs segs)"
  shows "node_find (part_chunk f x) (io_node io) \<noteq> None \<and> node_find (part_chunk f x) (io_replica io) \<noteq> None"
  using assms unfolding parts_placed_def by (fastforce simp del: int_nat_eq)

lemma file_chunk_lengths:
  assumes "0 < uint ss" "0 < uint cs" "0 \<le> pos"
  shows "\<forall>x \<in> set (file_chunks cs (file_parts ss pos cnt)). 0 \<le> seg_len (snd x)"
proof
  fix x assume x: "x \<in> set (file_chunks cs (file_parts ss pos cnt))"
  obtain s k off len where q: "x = (s, k, off, len)" by (cases x)
  show "0 \<le> seg_len (snd x)" using file_chunk_place(4)[OF assms x[unfolded q]] unfolding q by simp
qed

lemma write_served:
  assumes w: "working lo hi vol n limit c fd p (st, cl) bs i inst" and data: "data \<noteq> []"
    and pos: "uint (fi_offset inst) \<le> int (length bs)" and lim: "uint (pm_size i) + int (length data) \<le> limit"
    and net: "reachable_net net"
  obtains st1 W where "write_file net n fd data (length data) c st = Returned st1"
    "W = drop (length (io_sent (br_io st))) (map fst (io_sent (br_io st1)))"
    "\<forall>r \<in> set W. stored_answer r \<noteq> None"
    "\<And>heap junk cl1 ms. cluster_run heap junk W cl = Returned (map stored_answer W, cl1) \<Longrightarrow>
       mset (map Some ms) = mset (map stored_answer W) \<Longrightarrow>
       \<exists>st2. run_handlers (answer_handler n) ms st1 = Returned st2 \<and>
         br_replies st2 = br_replies st @ [Write_Result c fd (int (length data))] \<and>
         working lo hi vol n limit c fd p (st2, cl1) (overwrite (nat (uint (fi_offset inst))) data bs)
           (i\<lparr>pm_size := pm_size i + of_nat (length data)\<rparr>) (inst\<lparr>fi_offset := fi_offset inst + of_nat (length data)\<rparr>)"
proof -
  let ?off = "uint (fi_offset inst)" and ?cnt = "length data" and ?f = "pm_file_id i" and ?ss = "pm_stripe_size i"
  let ?cs = "pm_chunk_size i" and ?rid = "vm_request_id (br_vm st) + 1" and ?m = "nat (uint (fi_offset inst))"
  let ?i = "i\<lparr>pm_size := pm_size i + of_nat (length data)\<rparr>" and ?inst = "inst\<lparr>fi_offset := fi_offset inst + of_nat (length data)\<rparr>"
  define segs where "segs = file_parts ?ss ?off ?cnt"
  let ?xs = "file_chunks ?cs segs" and ?q = "\<lparr>wq_request_id = ?rid, wq_replica_request_id = ?rid + 1\<rparr>"
  note d = working_data[OF w, unfolded fst_conv snd_conv] and r = room_numbers[OF working_data(8)[OF w]]
  have cnt: "0 < ?cnt" "?off + int ?cnt \<le> limit" using data lim d(12) by auto
  note t = room_transfer[OF d(8) cnt, folded segs_def]
  have so: "oc_sorted (<) UNIV fst (br_write_lookups st)" "oc_sorted write_request_less UNIV fst (br_writes st)"
    using d(5) by (simp_all add: tables_ok_def)
  have sz: "uint (pm_size i) + int ?cnt < 2 ^ 31" using lim r(1) by linarith
  have n: "?cnt + 2 < n" "?off \<le> int n * uint ?ss" using t(1) by (simp_all add: transfer_ok_def)
  obtain st1 where s: "write_file net n fd data ?cnt c st = Returned st1" "at_work c (word_of_int fd) p ?i ?inst st1"
    "write_pending ?q (sent_write c ?f fd (of_nat (parts_count ?cs segs))) st1"
    "maps_ok lo hi (br_io st1)" "keeps lo hi (br_io st) (br_io st1)"
    "br_replies st1 = br_replies st" "br_locks st1 = br_locks st" "parts_placed ?f ?cs segs (br_io st1)"
    using write_file_sends[OF d(2,1,3) net d(4) t(2) cnt(1) sz r(3,5,6,7) so n(1) r(8) n(2) refl refl segs_def, of data] by blast
  define W where "W = drop (length (io_sent (br_io st))) (map fst (io_sent (br_io st1)))"
  let ?F = "\<lambda>x. data ! nat (x - ?off)" and ?N = "\<lambda>ch. node_find ch (io_node (br_io st1))" and ?M = "\<lambda>ch. node_find ch (io_replica (br_io st1))"
  have W: "W = concat (map (part_writes ?rid (?rid + 1) ?f ?ss ?cs ?F ?N ?M) ?xs)"
    by (rule write_requests[OF d(2,1,3) net d(4) so t(1) sz order_refl segs_def t(2) s(1) W_def refl])
  have answers: "\<forall>r \<in> set W. stored_answer r \<noteq> None" unfolding W by (auto simp: part_writes_def Let_def)
  show thesis
  proof (rule that[OF s(1) W_def answers])
    fix heap junk cl1 ms
    assume run: "cluster_run heap junk W cl = Returned (map stored_answer W, cl1)" "mset (map Some ms) = mset (map stored_answer W)"
    note parts = file_parts_facts[OF r(6) uint_ge_0 r(3) cnt(1), of "fi_offset inst", folded segs_def]
    have lens: "map (seg_len \<circ> snd) ?xs = map seg_len (chunk_parts ?cs segs)" "length ?xs = parts_count ?cs segs"
      unfolding parts_count_length file_chunks_parts[symmetric] by simp_all
    have nonneg: "\<forall>x \<in> set ?xs. 0 \<le> seg_len (snd x)"
      unfolding segs_def by (rule file_chunk_lengths[OF r(6,3) uint_ge_0])
    have "int ?cnt < 2 ^ 31" using t(3) uint_ge_0[of "fi_offset inst"] by linarith
    then have "0 < length ?xs" "length ?xs < 2 ^ 32" using parts(2,3) unfolding lens(2) by simp_all
    note ans = write_answered[OF nonneg this W _ s(3)[folded lens(2)] run(2), of n]
    let ?st2 = "write_reply ?q (sent_write c ?f fd (of_nat (length ?xs))) (sum_list (map (seg_len \<circ> snd) ?xs)) st1"
    have h: "run_handlers (answer_handler n) ms st1 = Returned ?st2" by (rule ans) simp
    have io: "br_io ?st2 = br_io st1" "br_locks ?st2 = br_locks st" "at_work c (word_of_int fd) p ?i ?inst ?st2"
      "br_replies ?st2 = br_replies st @ [Write_Result c fd (int ?cnt)]"
      using s(2,6,7) at_work_cong[OF s(2), of ?st2] parts(1) unfolding lens(1)
      by (simp_all add: write_reply_def sent_write_def new_request_info_def)
    have keep: "tables_ok ?st2" "placed_in ?st2"
      using write_file_keeps[OF s(1) d(5,6)] answers_evolve[OF h] evolves_tables_ok by blast+
    have m: "int ?m = ?off" by simp
    have rng: "?m \<le> length bs" "int (length bs) < 2 ^ 31" "int (?m + ?cnt) < 2 ^ 31"
      using pos d(9,10) r(1) t(3) unfolding of_nat_add m by (simp_all only: nat_le_iff)
    have win: "chunk_at ?f ?ss ?cs (int x) \<in> chunk_window lo hi" if "x < length bs" for x
      using r(10)[of "int x"] that d(9,10) by simp
    have hold: "cluster_inv vol cl1 \<and> holds_file ?f ?ss ?cs (br_io st1) cl1 (overwrite ?m data bs)"
      by (rule writes_hold[OF r(6,7,3,4) rng _ t(4) s(5) win parts_found[OF s(8)] _ d(11,7) W run(1)])
        (simp_all only: segs_def m)
    have u: "uint (pm_size ?i) = uint (pm_size i) + int ?cnt"
      using sz u32_add_int[of "pm_size i" "int ?cnt"] by simp
    have "length (overwrite ?m data bs) = max (length bs) (?m + ?cnt)" by (rule overwrite_simps(1)[OF rng(1)])
    then have "int (length (overwrite ?m data bs)) \<le> uint (pm_size ?i)" using u d(10,12) m by linarith
    then have "working lo hi vol n limit c fd p (?st2, cl1) (overwrite ?m data bs) ?i ?inst"
      using d(1,3,8) s(4) io(1,2,3) keep hold lim u unfolding working_def by simp
    with h io(4) show "\<exists>st2. run_handlers (answer_handler n) ms st1 = Returned st2 \<and>
         br_replies st2 = br_replies st @ [Write_Result c fd (int ?cnt)] \<and>
         working lo hi vol n limit c fd p (st2, cl1) (overwrite ?m data bs) ?i ?inst" by blast
  qed
qed

section \<open>A read\<close>

lemma held_byte:
  assumes "holds_file f ss cs io cl bs" "1 \<le> k" "0 \<le> y" "y < uint cs" "(k - 1) * uint cs + y < uint ss"
    and "0 \<le> position ss cs s k y" "position ss cs s k y < int (length bs)"
  obtains p r where "node_find (mk_chunk f (word_of_int s) (word_of_int k)) (io_node io) = Some p"
    "node_find (mk_chunk f (word_of_int s) (word_of_int k)) (io_replica io) = Some r"
    "\<forall>nd. nd = p \<or> nd = r \<longrightarrow> node_byte cl nd (mk_chunk f (word_of_int s) (word_of_int k)) y = Some (bs ! nat (position ss cs s k y))"
proof -
  obtain x where x: "position ss cs s k y = int x" using assms(6) by (rule nonneg_int_cases)
  then have lt: "x < length bs" using assms(7) by linarith
  show thesis
    using assms(1) lt chunk_at_position(1)[OF assms(2-5), where f = f and s = s] chunk_at_position(2)[OF assms(2-5), where s = s] that
    unfolding holds_file_def holds_byte_def x nat_int by auto
qed

lemma held_part:
  fixes ss cs f :: u32
  assumes hold: "holds_file f ss cs io cl bs" and sz: "0 < uint ss" "0 < uint cs" "uint cs \<le> 65536"
    and q: "(s, k, off, len) \<in> set (file_chunks cs (file_parts ss pos cnt))" "0 \<le> pos" "pos + int cnt \<le> int (length bs)"
    and inv: "cluster_inv vol cl" and F: "\<And>x. F x = bs ! nat x"
  shows "\<exists>p r. node_find (part_chunk f (s, k, off, len)) (io_node io) = Some p \<and>
    node_find (part_chunk f (s, k, off, len)) (io_replica io) = Some r"
    and "node_step heap junk (read_request rid f (word_of_int s) a io (k, off, len)) cl =
      Returned (Some (part_message rid f ss cs F (s, k, off, len)), cl)"
proof -
  let ?ch = "mk_chunk f (word_of_int s) (word_of_int k)" and ?data = "snd (part_answer F f ss cs s (k, off, len))"
  let ?nd = "serving a io ?ch"
  note b = file_chunk_place[OF sz(1,2) q(2,1)]
  have pos: "0 \<le> (k - 1) * uint cs" "0 \<le> (s - 1) * uint ss" using b(1,2) by simp_all
  have byte: "\<exists>p r. node_find ?ch (io_node io) = Some p \<and> node_find ?ch (io_replica io) = Some r \<and>
      node_byte cl ?nd ?ch y = Some (bs ! nat (position ss cs s k y))"
    if y: "off \<le> y \<and> y < off + len \<or> len = 0 \<and> y = off - 1" for y
  proof -
    have r: "0 \<le> y" "y < uint cs" "(k - 1) * uint cs + y < uint ss" "0 \<le> position ss cs s k y" "position ss cs s k y < int (length bs)"
      using y b pos q(2,3) sz(2) by auto
    obtain p r where pr: "node_find ?ch (io_node io) = Some p" "node_find ?ch (io_replica io) = Some r"
      "\<forall>nd. nd = p \<or> nd = r \<longrightarrow> node_byte cl nd ?ch y = Some (bs ! nat (position ss cs s k y))"
      by (rule held_byte[OF hold b(2) r])
    moreover have "?nd = p \<or> ?nd = r" using pr(1,2) by (auto simp: serving_def Let_def)
    ultimately show ?thesis by blast
  qed
  have last_y: "off \<le> off + len - 1 \<and> off + len - 1 < off + len \<or> len = 0 \<and> off + len - 1 = off - 1" using b(4) by auto
  from byte[OF this] show "\<exists>p r. node_find (part_chunk f (s, k, off, len)) (io_node io) = Some p \<and>
    node_find (part_chunk f (s, k, off, len)) (io_replica io) = Some r" by auto
  have l: "length ?data = nat len" "int (length ?data) = len" using b(4) by (simp_all add: part_answer_length)
  obtain al where al: "es_lookup (cl ?nd) (chunk_descriptor ?ch) = Some al" "off + len - 1 < da_size al"
    "chunk_size_of (cl ?nd) (chunk_descriptor ?ch) = da_size al"
    using byte[OF last_y] by (auto elim: chunk_of_byte)
  have view: "chunk_view (cl ?nd) (chunk_descriptor ?ch) (off + int j) = Some (?data ! j)" if "j < length ?data" for j
  proof -
    have j: "0 \<le> int j" "int j < len" using that l by auto
    then have "off \<le> off + int j \<and> off + int j < off + len \<or> len = 0 \<and> off + int j = off - 1" by simp
    from byte[OF this] show ?thesis using part_data_nth[OF j, of F f ss cs s k off] by (auto simp: node_byte_def F)
  qed
  have es: "espresso_inv vol (cl ?nd)" using inv by (simp add: cluster_inv_def)
  have n: "off < 2 ^ 31" using b(3,4,5) sz(3) by simp
  have m: "length ?data \<le> 65536" "off + int (length ?data) \<le> chunk_size_of (cl ?nd) (chunk_descriptor ?ch)"
    unfolding al(3) using b(3,4,5) sz(3) l(2) al(2) by - linarith+
  have "(of_nat (length ?data) :: u32) = word_of_int len" using l(2) by (metis of_int_of_nat_eq)
  then show "node_step heap junk (read_request rid f (word_of_int s) a io (k, off, len)) cl =
      Returned (Some (part_message rid f ss cs F (s, k, off, len)), cl)"
    using node_reads[OF es b(3) n m(1) _ m(2) view, where heap = heap and junk = junk and junk' = junk and i = rid and node = ?nd and rest = "[]"] al(1) l(2)
    by (auto simp: node_step_def part_message_def)
qed

lemma holds_file_same:
  "io_node io' = io_node io \<Longrightarrow> io_replica io' = io_replica io \<Longrightarrow> holds_file f ss cs io' cl bs = holds_file f ss cs io cl bs"
  by (simp add: holds_file_def holds_byte_def)

lemma read_file_keeps:
  assumes "read_file net n fd k c st = Returned st1" "tables_ok st" "placed_in st"
  shows "tables_ok st1" "placed_in st1"
  using core_step_evolves[of net n junk t "Read_Event fd k c" st st1] assms endsD[OF read_file_placed[OF assms(3)] assms(1)]
  by (auto simp: evolves_def)

text \<open>A step that leaves the bytes and their places alone.\<close>

lemma working_moved:
  assumes "working lo hi vol n limit c fd p (st, cl) bs i inst" "at_work c (word_of_int fd) p i inst' st'"
    and "br_locks st' = br_locks st" "tables_ok st'"
    and "io_node (br_io st') = io_node (br_io st)" "io_replica (br_io st') = io_replica (br_io st)"
  shows "working lo hi vol n limit c fd p (st', cl) bs i inst'"
  using assms holds_file_same[OF assms(5,6)] well_placed_same[OF assms(5,6)] by (simp add: working_def maps_ok_def)

lemma placed_readable:
  assumes "well_placed io" "a \<noteq> 3 \<and> a \<noteq> 4 \<or> node_up io 1 \<and> node_up io 2"
    and "node_find ch (io_node io) = Some p" "node_find ch (io_replica io) = Some r"
  shows "readable a io ch"
  using well_placed_find(1)[OF assms(1,3)] well_placed_find(2)[OF assms(1,4)] assms(2-4)
  by (auto simp: readable_def node_number_def)

lemma has_shared_lock_returns: "user_id c \<noteq> 0 \<Longrightarrow> \<exists>h. has_shared_lock c f fl = Returned h"
  by (simp add: has_shared_lock_def)

lemma read_served:
  assumes w: "working lo hi vol n limit c fd p (st, cl) bs i inst" and cnt: "0 < k"
    and pos: "uint (fi_offset inst) + int k \<le> int (length bs)"
    and net: "only_fails a net" "node_number a" "a \<noteq> 3 \<and> a \<noteq> 4 \<or> node_up (br_io st) 1 \<and> node_up (br_io st) 2"
  obtains st1 ans where "read_file net n fd k c st = Returned st1"
    "\<And>heap junk. cluster_run heap junk (drop (length (delivered (io_sent (br_io st)))) (delivered (io_sent (br_io st1)))) cl =
       Returned (map Some ans, cl)"
    "\<And>ms. mset ms = mset ans \<Longrightarrow> \<exists>st2. run_handlers (answer_handler n) ms st1 = Returned st2 \<and>
       br_replies st2 = br_replies st @ [Read_Result c fd (int k) (take k (drop (nat (uint (fi_offset inst))) bs))] \<and>
       working lo hi vol n limit c fd p (st2, cl) bs i (inst\<lparr>fi_offset := fi_offset inst + of_nat k\<rparr>)"
proof -
  let ?off = "uint (fi_offset inst)" and ?f = "pm_file_id i" and ?ss = "pm_stripe_size i" and ?cs = "pm_chunk_size i"
  let ?rid = "vm_request_id (br_vm st) + 1" and ?F = "\<lambda>x. bs ! nat x" and ?inst = "inst\<lparr>fi_offset := fi_offset inst + of_nat k\<rparr>"
  define segs where "segs = file_parts ?ss ?off k"
  let ?xs = "file_chunks ?cs segs"
  note d = working_data[OF w, unfolded fst_conv snd_conv] and r = room_numbers[OF working_data(8)[OF w]]
  have lim: "?off + int k \<le> limit" "?off + int k \<le> uint (pm_size i)" using pos d(9,10) by linarith+
  note t = room_transfer[OF d(8) cnt lim(1), folded segs_def]
  have sz: "uint (pm_size i) < 2 ^ 31" using d(9) r(1) by linarith
  have n: "k + 2 < n" "?off \<le> int n * uint ?ss" using t(1) by (simp_all add: transfer_ok_def)
  have "user_id c \<noteq> 0" using d(2) by (simp add: at_work_def)
  then obtain h where sh: "has_shared_lock c ?f (br_locks st) = Returned h" using has_shared_lock_returns by blast
  have rs: "reads_sorted st" using d(5) by (simp add: tables_ok_def)
  have part: "(\<exists>pn rn. node_find (part_chunk ?f x) (io_node (br_io st)) = Some pn \<and> node_find (part_chunk ?f x) (io_replica (br_io st)) = Some rn) \<and>
      node_step heap junk (case x of (s, q) \<Rightarrow> read_request ?rid ?f (word_of_int s) a (br_io st) q) cl =
        Returned (Some (part_message ?rid ?f ?ss ?cs ?F x), cl)" if x: "x \<in> set ?xs" for x heap junk
  proof -
    obtain s k' off len where q: "x = (s, k', off, len)" by (cases x)
    note hp = held_part[OF d(11) r(6,3,4) x[unfolded q segs_def] uint_ge_0 pos d(7)]
    show ?thesis unfolding q using hp(1) hp(2)[where F = ?F] by simp
  qed
  have "readable a (br_io st) (part_chunk ?f x)" if "x \<in> set ?xs" for x
    using part[OF that] placed_readable[OF d(6) net(3)] by blast
  then have rd: "parts_readable a (br_io st) ?f ?cs segs"
    unfolding parts_readable_def by (fastforce simp del: int_nat_eq)
  obtain st1 where s: "read_file net n fd k c st = Returned st1" "at_work c (word_of_int fd) p i ?inst st1" "reads_sorted st1"
    "om_find (<) ?rid (br_reads st1) = Some (sent_read c ?f fd k (of_nat (parts_count ?cs segs)))"
    "same_nodes a (br_io st) (br_io st1)" "br_replies st1 = br_replies st" "br_locks st1 = br_locks st"
    "delivered (io_sent (br_io st1)) = delivered (io_sent (br_io st)) @ concat (map (stripe_reads ?rid ?f ?cs a (br_io st)) segs)"
    using read_file_sends[OF d(2,1,3) sh _ net(1,2) cnt lim(2) sz r(3,5,6,7) rs n(1) r(8) n(2) rd refl segs_def] by auto
  let ?ans = "map (part_message ?rid ?f ?ss ?cs ?F) ?xs"
  have data: "map ?F [?off .. ?off + int k - 1] = take k (drop (nat ?off) bs)"
    using slice_of_buffer[of ?off "int k" bs ?F ?off] pos by simp
  show thesis
  proof (rule that[OF s(1), of ?ans])
    show "cluster_run heap junk (drop (length (delivered (io_sent (br_io st)))) (delivered (io_sent (br_io st1)))) cl =
       Returned (map Some ?ans, cl)" for heap junk
      unfolding s(8) stripe_reads_chunks
      using run_reads[of ?xs heap junk "\<lambda>(s, q). read_request ?rid ?f (word_of_int s) a (br_io st) q" cl "\<lambda>x. Some (part_message ?rid ?f ?ss ?cs ?F x)"] part
      by (simp add: o_def)
    fix ms assume ms: "mset ms = mset ?ans"
    have nonneg: "0 \<le> len" if "(s, k', off, len) \<in> set ?xs" for s k' off len
      using file_chunk_place(4)[OF r(6,3) uint_ge_0 that[unfolded segs_def]] .
    obtain rs where rs: "mset rs = mset (range_answers ?F ?f ?ss ?cs segs)"
      "run_handlers (answer_handler n) ms = run_handlers (read_answer ?rid) rs"
      unfolding range_answers_chunks read_answer_def by (rule part_messages_handled[OF nonneg ms])
    let ?st2 = "read_reply ?rid (sent_read c ?f fd k (of_nat (parts_count ?cs segs))) (take k (drop (nat ?off) bs)) st1"
    have h: "run_handlers (answer_handler n) ms st1 = Returned ?st2"
      unfolding rs(2) data[symmetric] by (rule sent_read_answers[OF s(3,4) cnt uint_ge_0 t(3) r(6,7,3) segs_def t(2) rs(1)])
    have "length (take k (drop (nat ?off) bs)) = k" unfolding data[symmetric] by simp
    then have io: "br_locks ?st2 = br_locks st" "at_work c (word_of_int fd) p i ?inst ?st2" "br_io ?st2 = br_io st1"
      "br_replies ?st2 = br_replies st @ [Read_Result c fd (int k) (take k (drop (nat ?off) bs))]"
      using s(2,6,7) at_work_cong[OF s(2), of ?st2] by (simp_all add: read_reply_def sent_read_def new_request_info_def)
    have "tables_ok ?st2" using read_file_keeps[OF s(1) d(5,6)] answers_evolve[OF h] evolves_tables_ok by blast
    moreover have "io_node (br_io ?st2) = io_node (br_io st)" "io_replica (br_io ?st2) = io_replica (br_io st)"
      unfolding io(3) using s(5) by (simp_all add: same_nodes_def)
    ultimately have "working lo hi vol n limit c fd p (?st2, cl) bs i ?inst" using working_moved[OF w io(2,1)] by blast
    with h io(4) show "\<exists>st2. run_handlers (answer_handler n) ms st1 = Returned st2 \<and>
       br_replies st2 = br_replies st @ [Read_Result c fd (int k) (take k (drop (nat ?off) bs))] \<and>
       working lo hi vol n limit c fd p (st2, cl) bs i ?inst" by blast
  qed
qed

section \<open>Calls that transfer nothing\<close>

lemma get_cursor_offset:
  assumes "at_work c fd p i inst st" "uint (pm_size i) < 2 ^ 31"
  shows "get_file_cursor (br_vm st) fd = uint (fi_offset inst)"
proof -
  have "uint (fi_offset inst) < 2 ^ 31" "cursor_find fd (br_vm st) = Some inst" using assms by (simp_all add: at_work_def)
  then show ?thesis by (simp add: get_file_cursor_def u32_sint_uint)
qed

lemma empty_transfers:
  assumes w: "working lo hi vol n limit c fd p (st, cl) bs i inst"
  shows "uint (pm_size i) \<le> uint (fi_offset inst) \<or> k = 0 \<Longrightarrow> \<exists>st1. read_file net n fd k c st = Returned st1 \<and>
      io_sent (br_io st1) = io_sent (br_io st) \<and> br_replies st1 = br_replies st @ [Read_Result c fd 0 []] \<and>
      working lo hi vol n limit c fd p (st1, cl) bs i inst"
    and "\<exists>st1. write_file net n fd [] 0 c st = Returned st1 \<and>
      io_sent (br_io st1) = io_sent (br_io st) \<and> br_replies st1 = br_replies st @ [Write_Result c 0 0] \<and>
      working lo hi vol n limit c fd p (st1, cl) bs i inst"
proof -
  note d = working_data[OF w, unfolded fst_conv snd_conv] and r = room_numbers[OF working_data(8)[OF w]]
  have sz: "uint (pm_size i) < 2 ^ 31" using d(9) r(1) by linarith
  have a: "user_id c \<noteq> 0" "cursor_find (word_of_int fd) (br_vm st) = Some inst" "fi_file_id inst = pm_file_id i"
    "pmeta_inv (br_pm st)" "pmeta_view (br_pm st) p = Some i" using d(2) by (simp_all add: at_work_def)
  have vm: "\<exists>st2. core_decafs_file_stat (pm_file_id i) c (set_vm ((br_vm st)\<lparr>vm_request_id := q\<rparr>) st) =
        Returned ((P_META_SUCCESS, Some (stat_of i)), st2) \<and> at_work c (word_of_int fd) p i inst st2 \<and>
      br_locks st2 = br_locks st \<and> tables_ok st2 \<and> io_node (br_io st2) = io_node (br_io st) \<and>
      io_replica (br_io st2) = io_replica (br_io st) \<and> io_sent (br_io st2) = io_sent (br_io st) \<and> br_replies st2 = br_replies st" for q
  proof -
    let ?st0 = "set_vm ((br_vm st)\<lparr>vm_request_id := q\<rparr>) st"
    have w0: "at_work c (word_of_int fd) p i inst ?st0" by (rule at_work_cong[OF d(2)]) simp_all
    then have "core_decafs_file_stat (pm_file_id i) c ?st0 = Returned ((P_META_SUCCESS, Some (stat_of i)), touch_meta c ?st0)"
      using core_stat_eq[of c ?st0 "pm_file_id i"] stat_of_view(2)[OF a(4,5)] by (simp add: at_work_def)
    moreover have "tables_ok (touch_meta c ?st0)" using d(5) by (simp add: tables_ok_def)
    ultimately show ?thesis using at_work_touch[OF w0, of c] by (intro exI[of _ "touch_meta c ?st0"]) simp
  qed
  note cur = get_cursor_offset[OF _ sz]
  have reply: "working lo hi vol n limit c fd p (send_reply x st2, cl) bs i inst"
    if "at_work c (word_of_int fd) p i inst st2" "br_locks st2 = br_locks st" "tables_ok st2"
      "io_node (br_io st2) = io_node (br_io st)" "io_replica (br_io st2) = io_replica (br_io st)" for x st2
  proof (rule working_moved[OF w])
    show "at_work c (word_of_int fd) p i inst (send_reply x st2)" using that(1) by (simp add: at_work_def)
  qed (use that in \<open>simp_all add: tables_ok_def\<close>)
  have u: "sint (pm_size i) = uint (pm_size i)" using sz by (rule u32_sint_uint)
  have o: "0 \<le> uint (fi_offset inst)" by simp
  show "\<exists>st1. read_file net n fd k c st = Returned st1 \<and>
      io_sent (br_io st1) = io_sent (br_io st) \<and> br_replies st1 = br_replies st @ [Read_Result c fd 0 []] \<and>
      working lo hi vol n limit c fd p (st1, cl) bs i inst" if h: "uint (pm_size i) \<le> uint (fi_offset inst) \<or> k = 0"
  proof -
    obtain st2 where st2: "core_decafs_file_stat (pm_file_id i) c (set_vm ((br_vm st)\<lparr>vm_request_id := vm_request_id (br_vm st) + 1\<rparr>) st) =
        Returned ((P_META_SUCCESS, Some (stat_of i)), st2)" "at_work c (word_of_int fd) p i inst st2"
      "br_locks st2 = br_locks st" "tables_ok st2" "io_node (br_io st2) = io_node (br_io st)"
      "io_replica (br_io st2) = io_replica (br_io st)" "io_sent (br_io st2) = io_sent (br_io st)" "br_replies st2 = br_replies st"
      using vm by blast
    have "read_file net n fd k c st = Returned (send_reply (Read_Result c fd 0 []) st2)"
      using d(1,3) a(2,3) st2(1) h cur[OF st2(2)] u o
      by (simp add: read_file_def core_new_request_id_def get_new_request_id_def get_file_info_def read_refusal_def Let_def
          P_META_SUCCESS_def)
    then show ?thesis using st2 reply[OF st2(2-6)] by simp
  qed
  show "\<exists>st1. write_file net n fd [] 0 c st = Returned st1 \<and>
      io_sent (br_io st1) = io_sent (br_io st) \<and> br_replies st1 = br_replies st @ [Write_Result c 0 0] \<and>
      working lo hi vol n limit c fd p (st1, cl) bs i inst"
  proof -
    obtain st2 where st2: "core_decafs_file_stat (pm_file_id i) c (set_vm ((br_vm st)\<lparr>vm_request_id := vm_request_id (br_vm st) + 1 + 1\<rparr>) st) =
        Returned ((P_META_SUCCESS, Some (stat_of i)), st2)" "at_work c (word_of_int fd) p i inst st2"
      "br_locks st2 = br_locks st" "tables_ok st2" "io_node (br_io st2) = io_node (br_io st)"
      "io_replica (br_io st2) = io_replica (br_io st)" "io_sent (br_io st2) = io_sent (br_io st)" "br_replies st2 = br_replies st"
      using vm by blast
    have "write_file net n fd [] 0 c st = Returned (send_reply (Write_Result c 0 0) st2)"
      using d(1,3) a(2,3) st2(1) cur[OF st2(2)] o
      by (simp add: write_file_def core_new_request_id_def get_new_request_id_def get_file_info_def write_refusal_def Let_def
          P_META_SUCCESS_def)
    then show ?thesis using st2 reply[OF st2(2-6)] by simp
  qed
qed

section \<open>Every call refines the array\<close>

lemma session_invI:
  "working lo hi vol n limit c fd p s (af_bytes a) i inst \<Longrightarrow> af_size a = uint (pm_size i) \<Longrightarrow> af_pos a = uint (fi_offset inst) \<Longrightarrow>
   session_inv lo hi vol n limit c fd p s a"
  unfolding session_inv_def by blast

lemma fetched_all:
  assumes "only_fails a net" "node_number a" "a \<noteq> 3 \<and> a \<noteq> 4 \<or> node_up (br_io st) 1 \<and> node_up (br_io st) 2"
    and "read_file net n fd k c st = Returned st1"
    and "\<And>heap junk. cluster_run heap junk (drop (length (delivered (io_sent (br_io st)))) (delivered (io_sent (br_io st1)))) cl =
       Returned (map Some ans, cl)"
    and "run_handlers (answer_handler n) ans st1 = Returned st2"
  shows "client_op n heap junk c fd (Op_Read k) (st, cl) (st2, cl)"
  by (rule client_op.fetched[OF assms(1-4) refl assms(5) refl assms(6)])

lemma seek_moves:
  assumes w: "working lo hi vol n limit c fd p (st, cl) bs i inst"
    and target: "target = (if whence = 2 then pm_size i else if whence = 0 then min off (pm_size i) else min (fi_offset inst + off) (pm_size i))"
  shows "\<exists>st1. file_seek fd off whence c st = Returned st1 \<and> br_replies st1 = br_replies st @ [Seek_Result c (uint target)] \<and>
    working lo hi vol n limit c fd p (st1, cl) bs i (inst\<lparr>fi_offset := target\<rparr>)"
proof -
  note d = working_data[OF w, unfolded fst_conv snd_conv] and r = room_numbers[OF working_data(8)[OF w]]
  have sz: "uint (pm_size i) < 2 ^ 31" using d(9) r(1) by linarith
  have fd: "file_seek (sint (word_of_int fd :: u32)) off whence c st = file_seek fd off whence c st" by (simp add: file_seek_def)
  obtain st1 where s: "file_seek fd off whence c st = Returned st1" "at_work c (word_of_int fd) p i (inst\<lparr>fi_offset := target\<rparr>) st1"
    "br_replies st1 = br_replies st @ [Seek_Result c (uint target)]" "br_locks st1 = br_locks st"
    "io_node (br_io st1) = io_node (br_io st)" "io_replica (br_io st1) = io_replica (br_io st)"
    using seek_effect[OF d(2) sz, of whence off] unfolding Let_def target[symmetric] fd by blast
  have "evolves st st1" using core_step_evolves[of good_net n junk t "Seek_Event fd off whence c" st st1] s(1) by simp
  then have "tables_ok st1" using d(5) by (rule evolves_tables_ok)
  then show ?thesis using s working_moved[OF w s(2,4) _ s(5,6)] by blast
qed

lemma min_uint: "uint (min a b) = min (uint a) (uint b)" for a b :: "'a::len word"
  by (simp add: min_def word_le_def)

lemma seek_target:
  "uint (if whence = 2 then sz else if whence = 0 then min off sz else min (pos + off) sz :: u32) =
    (if whence = (2 :: int) then uint sz else if whence = 0 then min (uint off) (uint sz) else min ((uint pos + uint off) mod 2 ^ 32) (uint sz))"
  by (simp add: min_uint uint_word_ariths)

text \<open>A session in state \<open>s\<close> with array \<open>a\<close>, and what a call has to do to both.\<close>

abbreviation refines_to ::
    "(u32 \<Rightarrow> u32) \<Rightarrow> (u32 \<Rightarrow> u32) \<Rightarrow> int \<Rightarrow> nat \<Rightarrow> int \<Rightarrow> client \<Rightarrow> int \<Rightarrow> string \<Rightarrow> system \<Rightarrow> reply \<Rightarrow> system \<Rightarrow> afile \<Rightarrow> bool" where
  "refines_to lo hi vol n limit c fd p s r s' a' \<equiv>
     br_replies (fst s') = br_replies (fst s) @ [r] \<and> session_inv lo hi vol n limit c fd p s' a'"

lemma session_data:
  assumes "session_inv lo hi vol n limit c fd p s a"
  obtains i inst where "working lo hi vol n limit c fd p s (af_bytes a) i inst" "af_size a = uint (pm_size i)"
    "af_pos a = uint (fi_offset inst)"
  using assms unfolding session_inv_def by blast

lemma moved_offset:
  assumes "working lo hi vol n limit c fd p s bs i inst" "uint (fi_offset inst) + int k \<le> limit"
  shows "uint (fi_offset inst + of_nat k) = uint (fi_offset inst) + int k"
  using u32_add_int[of "fi_offset inst" "int k"] assms(2) room_numbers(1)[OF working_data(8)[OF assms(1)]] by simp

lemma grown_size:
  assumes "working lo hi vol n limit c fd p s bs i inst" "uint (pm_size i) + int k \<le> limit"
  shows "uint (pm_size i + of_nat k) = uint (pm_size i) + int k"
  using u32_add_int[of "pm_size i" "int k"] assms(2) room_numbers(1)[OF working_data(8)[OF assms(1)]] by simp

lemma write_op_refines:
  assumes inv: "session_inv lo hi vol n limit c fd p (st, cl) a" and op: "client_op n heap junk c fd (Op_Write data) (st, cl) s'"
    and step: "file_op_step limit c fd (Op_Write data) a = Some (r, a')"
  shows "refines_to lo hi vol n limit c fd p (st, cl) r s' a'"
proof -
  obtain i inst where w: "working lo hi vol n limit c fd p (st, cl) (af_bytes a) i inst"
    and a: "af_size a = uint (pm_size i)" "af_pos a = uint (fi_offset inst)" by (rule session_data[OF inv])
  obtain net st1 cl1 ms st2 where o: "s' = (st2, cl1)" "reachable_net net" "write_file net n fd data (length data) c st = Returned st1"
    and run: "cluster_run heap junk (drop (length (io_sent (br_io st))) (map fst (io_sent (br_io st1)))) cl =
        Returned (map stored_answer (drop (length (io_sent (br_io st))) (map fst (io_sent (br_io st1)))), cl1)"
      "mset (map Some ms) = mset (map stored_answer (drop (length (io_sent (br_io st))) (map fst (io_sent (br_io st1)))))"
      "run_handlers (answer_handler n) ms st1 = Returned st2"
    using op by (auto elim: client_op_cases)
  show ?thesis
  proof (cases "data = []")
    case True
    obtain st0 where e: "write_file net n fd [] 0 c st = Returned st0" "io_sent (br_io st0) = io_sent (br_io st)"
      "br_replies st0 = br_replies st @ [Write_Result c 0 0]" "working lo hi vol n limit c fd p (st0, cl) (af_bytes a) i inst"
      using empty_transfers(2)[OF w, of net] by blast
    then have "s' = (st0, cl)" using o run True by simp
    then show ?thesis using e(3) session_invI[OF e(4) a] step True by simp
  next
    case False
    then have h: "af_pos a \<le> int (length (af_bytes a))" "af_size a + int (length data) \<le> limit"
      "r = Write_Result c fd (int (length data))"
      "a' = \<lparr>af_bytes = overwrite (nat (af_pos a)) data (af_bytes a), af_size = af_size a + int (length data),
         af_pos = af_pos a + int (length data)\<rparr>"
      using step by (auto split: if_splits)
    let ?i = "i\<lparr>pm_size := pm_size i + of_nat (length data)\<rparr>" and ?inst = "inst\<lparr>fi_offset := fi_offset inst + of_nat (length data)\<rparr>"
    have "br_replies st2 = br_replies st @ [Write_Result c fd (int (length data))] \<and>
      working lo hi vol n limit c fd p (st2, cl1) (overwrite (nat (uint (fi_offset inst))) data (af_bytes a)) ?i ?inst"
    proof (rule write_served[OF w False h(1)[unfolded a] h(2)[unfolded a] o(2)], goal_cases)
      case (1 st0 W)
      have "st0 = st1" using 1(1) o(3) by simp
      then show ?case using 1(4)[OF run(1,2)[folded 1(2)[unfolded \<open>st0 = st1\<close>]]] run(3) by auto
    qed
    then have f: "br_replies st2 = br_replies st @ [Write_Result c fd (int (length data))]"
      "working lo hi vol n limit c fd p (st2, cl1) (overwrite (nat (uint (fi_offset inst))) data (af_bytes a)) ?i ?inst" by blast+
    have "uint (fi_offset inst) + int (length data) \<le> limit" using h(2) a working_data(12)[OF w] by linarith
    then have "session_inv lo hi vol n limit c fd p s' a'"
      using session_invI[of lo hi vol n limit c fd p s' a' ?i ?inst] f(2) grown_size[OF w h(2)[unfolded a]] moved_offset[OF w]
      by (simp add: h(4) a o(1))
    then show ?thesis using f(1) o(1) h(3) by simp
  qed
qed

lemma read_op_refines:
  assumes inv: "session_inv lo hi vol n limit c fd p (st, cl) a" and op: "client_op n heap junk c fd (Op_Read k) (st, cl) s'"
    and step: "file_op_step limit c fd (Op_Read k) a = Some (r, a')"
  shows "refines_to lo hi vol n limit c fd p (st, cl) r s' a'"
proof -
  obtain i inst where w: "working lo hi vol n limit c fd p (st, cl) (af_bytes a) i inst"
    and a: "af_size a = uint (pm_size i)" "af_pos a = uint (fi_offset inst)" by (rule session_data[OF inv])
  obtain net q st1 ans cl1 ms st2 where o: "s' = (st2, cl1)" "only_fails q net" "node_number q"
      "q \<noteq> 3 \<and> q \<noteq> 4 \<or> node_up (br_io st) 1 \<and> node_up (br_io st) 2" "read_file net n fd k c st = Returned st1"
    and run: "cluster_run heap junk (drop (length (delivered (io_sent (br_io st)))) (delivered (io_sent (br_io st1)))) cl = Returned (map Some ans, cl1)"
      "mset ms = mset ans" "run_handlers (answer_handler n) ms st1 = Returned st2"
    using op by (auto elim: client_op_cases)
  show ?thesis
  proof (cases "af_size a \<le> af_pos a \<or> k = 0")
    case True
    obtain st0 where e: "read_file net n fd k c st = Returned st0" "io_sent (br_io st0) = io_sent (br_io st)"
      "br_replies st0 = br_replies st @ [Read_Result c fd 0 []]" "working lo hi vol n limit c fd p (st0, cl) (af_bytes a) i inst"
      using empty_transfers(1)[OF w True[unfolded a], of net] by blast
    then have "s' = (st0, cl)" using o run by auto
    then show ?thesis using e(3) session_invI[OF e(4) a] step True by simp
  next
    case False
    then have h: "0 < k" "af_pos a + int k \<le> int (length (af_bytes a))"
      "r = Read_Result c fd (int k) (take k (drop (nat (af_pos a)) (af_bytes a)))" "a' = a\<lparr>af_pos := af_pos a + int k\<rparr>"
      using step by (auto split: if_splits)
    let ?inst = "inst\<lparr>fi_offset := fi_offset inst + of_nat k\<rparr>"
    obtain ans' where e: "\<And>heap junk. cluster_run heap junk (drop (length (delivered (io_sent (br_io st)))) (delivered (io_sent (br_io st1)))) cl =
         Returned (map Some ans', cl)"
      "\<And>ms. mset ms = mset ans' \<Longrightarrow> \<exists>st2. run_handlers (answer_handler n) ms st1 = Returned st2 \<and>
         br_replies st2 = br_replies st @ [Read_Result c fd (int k) (take k (drop (nat (uint (fi_offset inst))) (af_bytes a)))] \<and>
         working lo hi vol n limit c fd p (st2, cl) (af_bytes a) i ?inst"
      using read_served[OF w h(1) h(2)[unfolded a] o(2-4)] o(5) by (metis outcome.inject)
    have "map Some ans' = map Some ans" "cl1 = cl" using run(1) e(1)[of heap junk] by simp_all
    moreover from this(1) have "ans' = ans" by (simp add: inj_map_eq_map)
    ultimately have f: "br_replies st2 = br_replies st @ [Read_Result c fd (int k) (take k (drop (nat (uint (fi_offset inst))) (af_bytes a)))]"
      "working lo hi vol n limit c fd p (st2, cl1) (af_bytes a) i ?inst"
      using e(2)[of ms] run(2,3) by auto
    have "uint (fi_offset inst) + int k \<le> limit" using h(2) a working_data(9,10)[OF w] by linarith
    then have "session_inv lo hi vol n limit c fd p s' a'"
      using session_invI[of lo hi vol n limit c fd p s' a' i ?inst] f(2) moved_offset[OF w] by (simp add: h(4) a o(1))
    then show ?thesis using f(1) o(1) h(3) a by simp
  qed
qed

lemma seek_op_refines:
  assumes inv: "session_inv lo hi vol n limit c fd p (st, cl) a" and op: "client_op n heap junk c fd (Op_Seek off whence) (st, cl) s'"
    and step: "file_op_step limit c fd (Op_Seek off whence) a = Some (r, a')"
  shows "refines_to lo hi vol n limit c fd p (st, cl) r s' a'"
proof -
  obtain i inst where w: "working lo hi vol n limit c fd p (st, cl) (af_bytes a) i inst"
    and a: "af_size a = uint (pm_size i)" "af_pos a = uint (fi_offset inst)" by (rule session_data[OF inv])
  define target where "target = (if whence = 2 then pm_size i else if whence = 0 then min off (pm_size i) else min (fi_offset inst + off) (pm_size i))"
  obtain st1 where e: "file_seek fd off whence c st = Returned st1" "br_replies st1 = br_replies st @ [Seek_Result c (uint target)]"
    "working lo hi vol n limit c fd p (st1, cl) (af_bytes a) i (inst\<lparr>fi_offset := target\<rparr>)"
    using seek_moves[OF w target_def] by blast
  then have o: "s' = (st1, cl)" using op by (auto elim: client_op_cases)
  have t: "uint target = (if whence = 2 then af_size a else if whence = 0 then min (uint off) (af_size a)
      else min ((af_pos a + uint off) mod 2 ^ 32) (af_size a))"
    unfolding target_def seek_target a ..
  have "Some (Seek_Result c (uint target), a\<lparr>af_pos := uint target\<rparr>) = Some (r, a')"
    using step unfolding t by (simp only: file_op_step.simps Let_def)
  then have "r = Seek_Result c (uint target)" "a' = a\<lparr>af_pos := uint target\<rparr>" by simp_all
  then show ?thesis using e(2) session_invI[of lo hi vol n limit c fd p s' a' i "inst\<lparr>fi_offset := target\<rparr>"] e(3) a by (simp add: o)
qed

lemma client_op_refines:
  assumes "session_inv lo hi vol n limit c fd p s a" "client_op n heap junk c fd x s s'" "file_op_step limit c fd x a = Some (r, a')"
  shows "refines_to lo hi vol n limit c fd p s r s' a'"
proof (cases s)
  case (Pair st cl)
  note a = assms[unfolded Pair]
  show ?thesis
  proof (cases x)
    case (Op_Write data)
    show ?thesis unfolding Pair by (rule write_op_refines[OF a[unfolded Op_Write]])
  next
    case (Op_Read k)
    show ?thesis unfolding Pair by (rule read_op_refines[OF a[unfolded Op_Read]])
  next
    case (Op_Seek off whence)
    show ?thesis unfolding Pair by (rule seek_op_refines[OF a[unfolded Op_Seek]])
  qed
qed

section \<open>Sessions\<close>

lemma client_ops_refine:
  assumes "client_ops n heap junk c fd xs s s'" "session_inv lo hi vol n limit c fd p s a" "file_ops_run limit c fd xs a = Some (rs, a')"
  shows "br_replies (fst s') = br_replies (fst s) @ rs \<and> session_inv lo hi vol n limit c fd p s' a'"
  using assms
proof (induction arbitrary: a rs rule: client_ops.induct)
  case (next_op x s s1 xs s2)
  obtain r a1 rs1 where step: "file_op_step limit c fd x a = Some (r, a1)" "file_ops_run limit c fd xs a1 = Some (rs1, a')" "rs = r # rs1"
    using next_op.prems(2) by (auto split: option.splits)
  have one: "refines_to lo hi vol n limit c fd p s r s1 a1" by (rule client_op_refines[OF next_op.prems(1) next_op.hyps(1) step(1)])
  with next_op.IH[OF _ step(2)] step(3) show ?case by simp
qed simp

text \<open>A call that the array describes is answered, unless a node cannot store what a write sends to it.\<close>

lemma client_op_answered:
  assumes inv: "session_inv lo hi vol n limit c fd p s a" and step: "file_op_step limit c fd x a = Some (r, a')"
    and x: "\<And>data. x = Op_Write data \<Longrightarrow> data = []"
  shows "\<exists>s'. client_op n heap junk c fd x s s'"
proof -
  obtain st cl where s: "s = (st, cl)" by (cases s)
  obtain i inst where w: "working lo hi vol n limit c fd p (st, cl) (af_bytes a) i inst"
    and a: "af_size a = uint (pm_size i)" "af_pos a = uint (fi_offset inst)" by (rule session_data[OF inv[unfolded s]])
  have net: "only_fails 5 (failing_net 5)" "node_number 5" "(5 :: int) \<noteq> 3 \<and> (5 :: int) \<noteq> 4 \<or> node_up (br_io st) 1 \<and> node_up (br_io st) 2"
    using failing_net_only by (simp_all add: node_number_def)
  show ?thesis
  proof (cases x)
    case (Op_Write data)
    then obtain st0 where "write_file good_net n fd [] 0 c st = Returned st0" "io_sent (br_io st0) = io_sent (br_io st)" "x = Op_Write []"
      using empty_transfers(2)[OF w, of good_net] x[OF Op_Write] by blast
    then have "client_op n heap junk c fd x (st, cl) (st0, cl)"
      using client_op.written[OF good_net_reachable, of n fd "[]" c st st0 "[]" heap junk cl cl "[]" st0] by simp
    then show ?thesis unfolding s by blast
  next
    case (Op_Read k)
    show ?thesis
    proof (cases "af_size a \<le> af_pos a \<or> k = 0")
      case True
      obtain st0 where "read_file (failing_net 5) n fd k c st = Returned st0" "io_sent (br_io st0) = io_sent (br_io st)"
        using empty_transfers(1)[OF w True[unfolded a], of "failing_net 5"] by blast
      then have "client_op n heap junk c fd x (st, cl) (st0, cl)"
        using client_op.fetched[OF net, of n fd k c st0 "[]" heap junk cl "[]" cl "[]" st0] by (simp add: Op_Read)
      then show ?thesis unfolding s by blast
    next
      case False
      then have h: "0 < k" "af_pos a + int k \<le> int (length (af_bytes a))" using step by (auto simp: Op_Read split: if_splits)
      obtain st1 ans where e: "read_file (failing_net 5) n fd k c st = Returned st1"
        "\<And>heap junk. cluster_run heap junk (drop (length (delivered (io_sent (br_io st)))) (delivered (io_sent (br_io st1)))) cl =
           Returned (map Some ans, cl)"
        "\<And>ms. mset ms = mset ans \<Longrightarrow> \<exists>st2. run_handlers (answer_handler n) ms st1 = Returned st2"
        using read_served[OF w h(1) h(2)[unfolded a] net] by metis
      then obtain st2 where "run_handlers (answer_handler n) ans st1 = Returned st2" by blast
      from fetched_all[OF net e(1,2) this] show ?thesis unfolding s Op_Read by blast
    qed
  next
    case (Op_Seek off whence)
    then show ?thesis using seek_moves[OF w refl, of off whence] client_op.moved unfolding s by blast
  qed
qed

text \<open>
  A call ends, in a system with \<open>Q\<close>, whatever the network does within the faults of \<open>client_op\<close> and
  in whatever order the answers come in. A read is served by the nodes; a write is, when they store
  what it sends to them.
\<close>

definition op_completes ::
    "nat \<Rightarrow> (nat \<Rightarrow> u8) \<Rightarrow> u32 \<Rightarrow> client \<Rightarrow> int \<Rightarrow> file_op \<Rightarrow> system \<Rightarrow> (system \<Rightarrow> bool) \<Rightarrow> bool" where
  "op_completes n heap junk c fd x s Q \<longleftrightarrow>
     (case x of
        Op_Seek off whence \<Rightarrow> \<exists>st1. file_seek fd off whence c (fst s) = Returned st1 \<and> Q (st1, snd s)
      | Op_Read k \<Rightarrow> \<forall>q net. only_fails q net \<longrightarrow> node_number q \<longrightarrow>
          q \<noteq> 3 \<and> q \<noteq> 4 \<or> node_up (br_io (fst s)) 1 \<and> node_up (br_io (fst s)) 2 \<longrightarrow>
          (\<exists>st1 ans. read_file net n fd k c (fst s) = Returned st1 \<and>
             cluster_run heap junk (drop (length (delivered (io_sent (br_io (fst s))))) (delivered (io_sent (br_io st1)))) (snd s) =
               Returned (map Some ans, snd s) \<and>
             (\<forall>ms. mset ms = mset ans \<longrightarrow> (\<exists>st2. run_handlers (answer_handler n) ms st1 = Returned st2 \<and> Q (st2, snd s))))
      | Op_Write data \<Rightarrow> \<forall>net. reachable_net net \<longrightarrow>
          (\<exists>st1 W. write_file net n fd data (length data) c (fst s) = Returned st1 \<and>
             W = drop (length (io_sent (br_io (fst s)))) (map fst (io_sent (br_io st1))) \<and>
             (\<forall>cl1 ms. cluster_run heap junk W (snd s) = Returned (map stored_answer W, cl1) \<longrightarrow>
                mset (map Some ms) = mset (map stored_answer W) \<longrightarrow>
                (\<exists>st2. run_handlers (answer_handler n) ms st1 = Returned st2 \<and> Q (st2, cl1)))))"

lemma call_completes:
  assumes inv: "session_inv lo hi vol n limit c fd p s a" and step: "file_op_step limit c fd x a = Some (r, a')"
  shows "op_completes n heap junk c fd x s (\<lambda>s'. refines_to lo hi vol n limit c fd p s r s' a')"
proof -
  obtain st cl where s: "s = (st, cl)" by (cases s)
  obtain i inst where w: "working lo hi vol n limit c fd p (st, cl) (af_bytes a) i inst"
    and a: "af_size a = uint (pm_size i)" "af_pos a = uint (fi_offset inst)" by (rule session_data[OF inv[unfolded s]])
  note op_refines = client_op_refines[OF inv _ step, unfolded s]
  show ?thesis
  proof (cases x)
    case (Op_Write data)
    have "\<exists>st1 W. write_file net n fd data (length data) c st = Returned st1 \<and>
        W = drop (length (io_sent (br_io st))) (map fst (io_sent (br_io st1))) \<and>
        (\<forall>cl1 ms. cluster_run heap junk W cl = Returned (map stored_answer W, cl1) \<longrightarrow>
           mset (map Some ms) = mset (map stored_answer W) \<longrightarrow> (\<exists>st2. run_handlers (answer_handler n) ms st1 = Returned st2))"
      if net: "reachable_net net" for net
    proof (cases "data = []")
      case True
      obtain st0 where e: "write_file net n fd [] 0 c st = Returned st0" "io_sent (br_io st0) = io_sent (br_io st)"
        using empty_transfers(2)[OF w, of net] by blast
      show ?thesis by (rule exI[of _ st0], rule exI[of _ "[]"]) (simp add: e True)
    next
      case False
      then have h: "uint (fi_offset inst) \<le> int (length (af_bytes a))" "uint (pm_size i) + int (length data) \<le> limit"
        using step by (auto simp: a Op_Write split: if_splits)
      show ?thesis
      proof (rule write_served[OF w False h net], goal_cases)
        case (1 st1 W)
        have "\<exists>st2. run_handlers (answer_handler n) ms st1 = Returned st2"
          if "cluster_run heap junk W cl = Returned (map stored_answer W, cl1)" "mset (map Some ms) = mset (map stored_answer W)" for cl1 ms
          using 1(4)[OF that] by blast
        with 1(1,2) show ?case by blast
      qed
    qed
    note sent = this
    show ?thesis unfolding op_completes_def Op_Write s file_op.case fst_conv snd_conv
    proof (intro allI impI)
      fix net assume net: "reachable_net net"
      obtain st1 W where st1: "write_file net n fd data (length data) c st = Returned st1"
        "W = drop (length (io_sent (br_io st))) (map fst (io_sent (br_io st1)))"
        and ends: "\<And>cl1 ms. cluster_run heap junk W cl = Returned (map stored_answer W, cl1) \<Longrightarrow>
           mset (map Some ms) = mset (map stored_answer W) \<Longrightarrow> \<exists>st2. run_handlers (answer_handler n) ms st1 = Returned st2"
        using sent[OF net] by blast
      have "\<exists>st2. run_handlers (answer_handler n) ms st1 = Returned st2 \<and>
          refines_to lo hi vol n limit c fd p (st, cl) r (st2, cl1) a'"
        if run: "cluster_run heap junk W cl = Returned (map stored_answer W, cl1)" "mset (map Some ms) = mset (map stored_answer W)" for cl1 ms
      proof -
        obtain st2 where st2: "run_handlers (answer_handler n) ms st1 = Returned st2" using ends[OF run] by blast
        have "client_op n heap junk c fd x (st, cl) (st2, cl1)"
          unfolding Op_Write by (rule client_op.written[OF net st1 run st2])
        from op_refines[OF this] st2 show ?thesis by blast
      qed
      with st1 show "\<exists>st1 W. write_file net n fd data (length data) c st = Returned st1 \<and>
             W = drop (length (io_sent (br_io st))) (map fst (io_sent (br_io st1))) \<and>
             (\<forall>cl1 ms. cluster_run heap junk W cl = Returned (map stored_answer W, cl1) \<longrightarrow>
                mset (map Some ms) = mset (map stored_answer W) \<longrightarrow>
                (\<exists>st2. run_handlers (answer_handler n) ms st1 = Returned st2 \<and>
                   br_replies st2 = br_replies st @ [r] \<and> session_inv lo hi vol n limit c fd p (st2, cl1) a'))"
        unfolding fst_conv by blast
    qed
  next
    case (Op_Read k)
    have "\<exists>st1 ans. read_file net n fd k c st = Returned st1 \<and>
        cluster_run heap junk (drop (length (delivered (io_sent (br_io st)))) (delivered (io_sent (br_io st1)))) cl = Returned (map Some ans, cl) \<and>
        (\<forall>ms. mset ms = mset ans \<longrightarrow> (\<exists>st2. run_handlers (answer_handler n) ms st1 = Returned st2))"
      if net: "only_fails q net" "node_number q" "q \<noteq> 3 \<and> q \<noteq> 4 \<or> node_up (br_io st) 1 \<and> node_up (br_io st) 2" for q net
    proof (cases "af_size a \<le> af_pos a \<or> k = 0")
      case True
      obtain st0 where e: "read_file net n fd k c st = Returned st0" "io_sent (br_io st0) = io_sent (br_io st)"
        using empty_transfers(1)[OF w True[unfolded a], of net] by blast
      show ?thesis by (rule exI[of _ st0], rule exI[of _ "[]"]) (simp add: e)
    next
      case False
      then have h: "0 < k" "uint (fi_offset inst) + int k \<le> int (length (af_bytes a))" using step by (auto simp: a Op_Read split: if_splits)
      show ?thesis
      proof (rule read_served[OF w h net], goal_cases)
        case (1 st1 ans)
        have "\<exists>st2. run_handlers (answer_handler n) ms st1 = Returned st2" if "mset ms = mset ans" for ms
          using 1(3)[OF that] by blast
        with 1(1) 1(2)[of heap junk] show ?case by blast
      qed
    qed
    note sent = this
    show ?thesis unfolding op_completes_def Op_Read s file_op.case fst_conv snd_conv
    proof (intro allI impI)
      fix q net assume net: "only_fails q net" "node_number q" "q \<noteq> 3 \<and> q \<noteq> 4 \<or> node_up (br_io st) 1 \<and> node_up (br_io st) 2"
      obtain st1 ans where st1: "read_file net n fd k c st = Returned st1"
        "cluster_run heap junk (drop (length (delivered (io_sent (br_io st)))) (delivered (io_sent (br_io st1)))) cl = Returned (map Some ans, cl)"
        and ends: "\<And>ms. mset ms = mset ans \<Longrightarrow> \<exists>st2. run_handlers (answer_handler n) ms st1 = Returned st2"
        using sent[OF net] by blast
      have "\<exists>st2. run_handlers (answer_handler n) ms st1 = Returned st2 \<and>
          refines_to lo hi vol n limit c fd p (st, cl) r (st2, cl) a'" if ms: "mset ms = mset ans" for ms
      proof -
        obtain st2 where st2: "run_handlers (answer_handler n) ms st1 = Returned st2" using ends[OF ms] by blast
        have "client_op n heap junk c fd x (st, cl) (st2, cl)"
          unfolding Op_Read by (rule client_op.fetched[OF net st1(1) refl st1(2) ms st2])
        from op_refines[OF this] st2 show ?thesis by blast
      qed
      with st1 show "\<exists>st1 ans. read_file net n fd k c st = Returned st1 \<and>
             cluster_run heap junk (drop (length (delivered (io_sent (br_io st)))) (delivered (io_sent (br_io st1)))) cl =
               Returned (map Some ans, cl) \<and>
             (\<forall>ms. mset ms = mset ans \<longrightarrow> (\<exists>st2. run_handlers (answer_handler n) ms st1 = Returned st2 \<and>
                br_replies st2 = br_replies st @ [r] \<and> session_inv lo hi vol n limit c fd p (st2, cl) a'))"
        unfolding fst_conv by blast
    qed
  next
    case (Op_Seek off whence)
    obtain st1 where st1: "file_seek fd off whence c st = Returned st1" using seek_moves[OF w refl, of off whence] by blast
    have "client_op n heap junk c fd x (st, cl) (st1, cl)" unfolding Op_Seek by (rule client_op.moved[OF st1])
    from op_refines[OF this] st1 show ?thesis
      unfolding op_completes_def Op_Seek s file_op.case fst_conv snd_conv by blast
  qed
qed

abbreviation empty_file :: afile where
  "empty_file \<equiv> \<lparr>af_bytes = [], af_size = 0, af_pos = 0\<rparr>"

text \<open>A file that has just been created is the empty array.\<close>

lemma created_session:
  assumes st: "core_reach st" "at_rest st" "maps_ok lo hi (br_io st)" "cluster_inv vol cl"
    and path: "pmeta_view (br_pm st) p = None" "length p \<le> MAX_FILENAME_LENGTH" "user_id c \<noteq> 0" "bit flags 1"
    and free: "last_id (br_pm st) \<noteq> - 1" "uint (vm_last_fd (br_vm st)) + 1 < 2 ^ 31" "br_locks st (last_id (br_pm st) + 1) = None"
    and room: "session_room lo hi n limit (last_id (br_pm st) + 1) (vm_stripe_size (br_vm st)) (vm_chunk_size (br_vm st))" "0 \<le> limit"
    and fd: "fd = uint (vm_last_fd (br_vm st)) + 1"
  shows "\<exists>st1. open_file junk t p flags c st = Returned st1 \<and> br_replies st1 = br_replies st @ [Open_Result c fd] \<and>
    session_inv lo hi vol n limit c fd p (st1, cl) empty_file"
proof -
  let ?f = "last_id (br_pm st) + 1" and ?fd = "vm_last_fd (br_vm st) + 1" and ?cs = "vm_chunk_size (br_vm st)"
  let ?i = "new_info ?f p (vm_stripe_size (br_vm st)) ?cs ?cs t"
  have u: "uint ?fd = fd" using u32_add_uint[of "vm_last_fd (br_vm st)" 1] free(2) fd by simp
  then have w: "word_of_int fd = ?fd" "sint ?fd = fd" using free(2) fd by (auto simp: u32_sint_uint)
  have pos: "0 < fd" using fd uint_ge_0[of "vm_last_fd (br_vm st)"] by linarith
  have new: "vm_last_fd (br_vm st) \<noteq> - 1"
  proof
    assume "vm_last_fd (br_vm st) = - 1"
    then have "uint ?fd = 0" by simp
    then show False using u pos by linarith
  qed
  obtain st1 where o: "open_file junk t p flags c st = Returned st1" "opened c ?fd p ?i 0 st st1"
    "has_exclusive_lock c ?f (br_locks st1) = Returned 1" "io_node (br_io st1) = io_node (br_io st)" "io_replica (br_io st1) = io_replica (br_io st)"
    using creates_file[OF st(2) path(1,3,2) free(1) new free(3), of flags t junk] path(4) by (auto simp: Let_def)
  have "core_reach st1" using core_reach.stepped[OF st(1), of good_net 0 junk t "Open_Event p flags c" st1] o(1) by simp
  then have "tables_ok st1" "placed_in st1" using core_reach_ok core_reach_placed by blast+
  then have "working lo hi vol n limit c fd p (st1, cl) [] ?i (new_instance c ?f 0)"
    using o w(1) pos st(3,4) room by (simp add: working_def opened_def maps_ok_def holds_file_def)
  then have "session_inv lo hi vol n limit c fd p (st1, cl) empty_file"
    using session_invI[of lo hi vol n limit c fd p "(st1, cl)" empty_file ?i "new_instance c ?f 0"] by simp
  with o(1,2) w(2) show ?thesis by (auto simp: opened_def)
qed

section \<open>Properties\<close>

text \<open>
  C1: the cluster implements an array of bytes with a cursor, within the limits of the code. The
  holder of the exclusive lock makes any sequence of writes, reads and seeks on an open file that
  the array describes (\<open>file_ops_run\<close>): no read goes beyond the last byte unless the cursor is at the
  end, no write starts behind the last byte, and the size stays within \<open>limit\<close>. The chunks of the
  first \<open>limit\<close> bytes lie in a chunk window (\<open>session_room\<close>): stripe 1, or stripes 1 and 2 of file 1,
  since the order on chunks keeps no more apart. Each call is served (\<open>client_ops\<close>): the nodes store
  what a write sends them, which is defined only for new chunks and for ranges inside chunks
  (C16); a read may find one node not answering, which is no replica node while a storage node is
  marked down; answers come in any order. Then the replies are those of the same calls on the array,
  one for each call and in the order of the calls, and the nodes hold the bytes of the array afterwards.
\<close>

theorem file_session_refines:
  assumes "session_inv lo hi vol n limit c fd p s a" "client_ops n heap junk c fd xs s s'"
    and "file_ops_run limit c fd xs a = Some (rs, a')"
  shows "br_replies (fst s') = br_replies (fst s) @ rs \<and> session_inv lo hi vol n limit c fd p s' a'"
  by (rule client_ops_refine[OF assms(2,1,3)])

text \<open>Up to 16 bytes of the first file, whose stripes of 512 bytes have chunks of 256 bytes.\<close>

abbreviation demo_inv :: "system \<Rightarrow> afile \<Rightarrow> bool" where
  "demo_inv \<equiv> session_inv (\<lambda>_. 1) (\<lambda>_. 2) 1024 20 16 demo_writer 1 ''/a''"

abbreviation demo_op :: "file_op \<Rightarrow> system \<Rightarrow> system \<Rightarrow> bool" where
  "demo_op \<equiv> client_op 20 (\<lambda>_. 0) 9 demo_writer 1"

lemma demo_room: "session_room (\<lambda>_. 1) (\<lambda>_. 2) 20 16 1 512 256"
proof -
  have "chunk_at 1 512 256 x = mk_chunk 1 1 1" if "0 \<le> x" "x < 16" for x
    using that by (simp add: chunk_at_def div_pos_pos_trivial)
  then show ?thesis by (simp add: session_room_def chunk_window_def)
qed

lemma demo_cluster: "cluster_inv 1024 (\<lambda>_. demo_store)"
  using init_espresso_inv[of 1024] by (simp add: cluster_inv_def)

lemma demo_session:
  obtains b st where "core_reach b" "at_rest b" "br_pm b = new_pmeta" "br_locks b = Map.empty" "br_replies b = []"
    "io_node (br_io b) = []" "io_replica (br_io b) = []" "vm_stripe_size (br_vm b) = 512" "vm_chunk_size (br_vm b) = 256"
    "vm_last_fd (br_vm b) = 0" "open_file demo_stat (0, 0) ''/a'' 2 demo_writer b = Returned st"
    "br_replies st = [Open_Result demo_writer 1]"
    "working (\<lambda>_. 1) (\<lambda>_. 2) 1024 20 16 demo_writer 1 ''/a'' (st, \<lambda>_. demo_store) [] demo_info (new_instance demo_writer 1 0)"
proof -
  obtain b st where b: "core_reach b" "at_rest b" "br_pm b = new_pmeta" "br_locks b = Map.empty" "br_replies b = []"
    "io_node (br_io b) = []" "io_replica (br_io b) = []" "vm_stripe_size (br_vm b) = 512" "vm_chunk_size (br_vm b) = 256"
    "vm_last_fd (br_vm b) = 0" "open_file demo_stat (0, 0) ''/a'' 2 demo_writer b = Returned st"
    and st: "core_reach st" "at_work demo_writer 1 ''/a'' demo_info (new_instance demo_writer 1 0) st"
    "has_exclusive_lock demo_writer 1 (br_locks st) = Returned 1"
    "br_replies st = [Open_Result demo_writer 1]" "io_node (br_io st) = []" "io_replica (br_io st) = []"
    by (rule demo_created)
  have "working (\<lambda>_. 1) (\<lambda>_. 2) 1024 20 16 demo_writer 1 ''/a'' (st, \<lambda>_. demo_store) [] demo_info (new_instance demo_writer 1 0)"
    using st demo_room demo_cluster core_reach_ok[OF st(1)] core_reach_placed[OF st(1)]
    by (simp add: working_def holds_file_def maps_ok_def oc_sorted_def)
  then show thesis by (rule that[OF b st(4)])
qed

lemma demo_requests:
  assumes w: "working (\<lambda>_. 1) (\<lambda>_. 2) 1024 20 16 demo_writer 1 ''/a'' (st, \<lambda>_. demo_store) [] demo_info (new_instance demo_writer 1 0)"
    and st1: "write_file good_net 20 1 (replicate 10 9) 10 demo_writer st = Returned st1"
    and W: "W = drop (length (io_sent (br_io st))) (map fst (io_sent (br_io st1)))"
  obtains rid np nr data where "W = [Write_Chunk rid (mk_chunk 1 1 1) np 0 data, Write_Chunk (rid + 1) (mk_chunk 1 1 1) nr 0 data]"
    "np \<noteq> nr" "length data = 10"
proof -
  let ?buf = "replicate 10 9 :: u8 list" and ?segs = "[(1, 0, 10)] :: (int \<times> int \<times> int) list" and ?inst = "new_instance demo_writer 1 0"
  note d = working_data[OF w, unfolded fst_conv snd_conv]
  have so: "oc_sorted (<) UNIV fst (br_write_lookups st)" "oc_sorted write_request_less UNIV fst (br_writes st)"
    using d(5) by (simp_all add: tables_ok_def)
  have win: "in_window (\<lambda>_. 1) (\<lambda>_. 2) (pm_file_id demo_info) ?segs" by (simp add: in_window_def)
  have segs: "?segs = file_parts (pm_stripe_size demo_info) (uint (fi_offset ?inst)) 10" using one_part(1) by simp
  have "parts_placed (pm_file_id demo_info) (pm_chunk_size demo_info) ?segs (br_io st1)"
    using write_file_sends[OF d(2,1,3) good_net_reachable d(4) win, where count = 10 and n = 20 and buf = ?buf,
        OF _ _ _ _ _ _ so _ _ _ refl refl segs] st1 by simp blast
  then have "placed 1 1 (br_io st1) [(1, 0, 10)]" using one_part(2) by (simp add: parts_placed_def)
  then obtain np nr where nodes: "node_find (mk_chunk 1 1 1) (io_node (br_io st1)) = Some np"
    "node_find (mk_chunk 1 1 1) (io_replica (br_io st1)) = Some nr" by auto
  have "placed_in st1" using write_file_keeps(2)[OF st1 d(5,6)] .
  then have apart: "np \<noteq> nr" using well_placed_find nodes by fastforce
  let ?F = "\<lambda>x. ?buf ! nat (x - uint (fi_offset ?inst))" and ?rid = "vm_request_id (br_vm st) + 1"
  define data where "data = snd (part_answer ?F 1 512 256 1 (1, 0, 10))"
  have tr: "transfer_ok 20 demo_info ?inst 10" by (simp add: transfer_ok_def)
  have "W = concat (map (part_writes ?rid (?rid + 1) (pm_file_id demo_info) (pm_stripe_size demo_info) (pm_chunk_size demo_info) ?F
      (\<lambda>ch. node_find ch (io_node (br_io st1))) (\<lambda>ch. node_find ch (io_replica (br_io st1)))) (file_chunks (pm_chunk_size demo_info) ?segs))"
    by (intro write_requests[OF d(2,1,3) good_net_reachable d(4) so tr _ _ segs win st1 W]) simp_all
  then have "W = [Write_Chunk ?rid (mk_chunk 1 1 1) np 0 data, Write_Chunk (?rid + 1) (mk_chunk 1 1 1) nr 0 data]"
    using one_part(2) nodes by (simp add: part_writes_def Let_def fst_part_answer data_def)
  then show thesis using apart by (rule that) (simp add: data_def part_answer_length)
qed

lemma demo_stores:
  assumes "W = [Write_Chunk rid (mk_chunk 1 1 1) np 0 data, Write_Chunk (rid + 1) (mk_chunk 1 1 1) nr 0 data]"
    and "np \<noteq> nr" "length data = 10"
  obtains cl1 where "cluster_run (\<lambda>_. 0) 9 W (\<lambda>_. demo_store) = Returned (map stored_answer W, cl1)"
proof -
  have step: "\<exists>e. node_step (\<lambda>_. 0) 9 (Write_Chunk i (mk_chunk 1 1 1) nd 0 data) cl =
      Returned (stored_answer (Write_Chunk i (mk_chunk 1 1 1) nd 0 data), cl(nd := e))" if "cl nd = demo_store" for i nd cl
    using that assms(3) init_espresso_inv[of 1024] by (intro step_succeeds[of 1024]) (simp_all add: init_room)
  obtain e1 where e1: "node_step (\<lambda>_. 0) 9 (Write_Chunk rid (mk_chunk 1 1 1) np 0 data) (\<lambda>_. demo_store) =
      Returned (stored_answer (Write_Chunk rid (mk_chunk 1 1 1) np 0 data), (\<lambda>_. demo_store)(np := e1))"
    using step[of "\<lambda>_. demo_store" np rid] by blast
  obtain e2 where "node_step (\<lambda>_. 0) 9 (Write_Chunk (rid + 1) (mk_chunk 1 1 1) nr 0 data) ((\<lambda>_. demo_store)(np := e1)) =
      Returned (stored_answer (Write_Chunk (rid + 1) (mk_chunk 1 1 1) nr 0 data), ((\<lambda>_. demo_store)(np := e1))(nr := e2))"
    using step[of "(\<lambda>_. demo_store)(np := e1)" nr "rid + 1"] assms(2) by auto
  with e1 have "cluster_run (\<lambda>_. 0) 9 W (\<lambda>_. demo_store) = Returned (map stored_answer W, ((\<lambda>_. demo_store)(np := e1))(nr := e2))"
    unfolding assms(1) by simp
  then show thesis by (rule that)
qed

lemma demo_write:
  assumes w: "working (\<lambda>_. 1) (\<lambda>_. 2) 1024 20 16 demo_writer 1 ''/a'' (st, \<lambda>_. demo_store) [] demo_info (new_instance demo_writer 1 0)"
  shows "\<exists>s1. demo_op (Op_Write (replicate 10 9)) (st, \<lambda>_. demo_store) s1"
proof -
  have bounds: "replicate 10 (9 :: u8) \<noteq> []" "uint (fi_offset (new_instance demo_writer 1 0)) \<le> int (length ([] :: u8 list))"
    "uint (pm_size demo_info) + int (length (replicate 10 (9 :: u8))) \<le> 16" by simp_all
  show ?thesis
  proof (rule write_served[OF w bounds good_net_reachable], goal_cases)
    case (1 st1 W)
    obtain rid np nr data where W: "W = [Write_Chunk rid (mk_chunk 1 1 1) np 0 data, Write_Chunk (rid + 1) (mk_chunk 1 1 1) nr 0 data]"
      "np \<noteq> nr" "length data = 10"
      by (rule demo_requests[OF w 1(1)[unfolded length_replicate] 1(2)])
    obtain cl1 where run: "cluster_run (\<lambda>_. 0) 9 W (\<lambda>_. demo_store) = Returned (map stored_answer W, cl1)" by (rule demo_stores[OF W])
    let ?ms = "map (\<lambda>r. the (stored_answer r)) W"
    have ms: "mset (map Some ?ms) = mset (map stored_answer W)" unfolding W(1) by simp
    obtain st2 where "run_handlers (answer_handler 20) ?ms st1 = Returned st2" using 1(4)[OF run ms] by blast
    from client_op.written[OF good_net_reachable 1(1,2) run ms this] show ?case by blast
  qed
qed

lemma demo_steps:
  obtains b st s1 s2 s3 where "core_reach b" "at_rest b" "br_pm b = new_pmeta" "br_locks b = Map.empty" "br_replies b = []"
    "io_node (br_io b) = []" "io_replica (br_io b) = []" "vm_stripe_size (br_vm b) = 512" "vm_chunk_size (br_vm b) = 256"
    "vm_last_fd (br_vm b) = 0" "open_file demo_stat (0, 0) ''/a'' 2 demo_writer b = Returned st"
    "br_replies st = [Open_Result demo_writer 1]" "demo_inv (st, \<lambda>_. demo_store) empty_file"
    "client_ops 20 (\<lambda>_. 0) 9 demo_writer 1 [Op_Write (replicate 10 9), Op_Seek 0 0, Op_Read 10] (st, \<lambda>_. demo_store) s3"
proof -
  obtain b st where b: "core_reach b" "at_rest b" "br_pm b = new_pmeta" "br_locks b = Map.empty" "br_replies b = []"
    "io_node (br_io b) = []" "io_replica (br_io b) = []" "vm_stripe_size (br_vm b) = 512" "vm_chunk_size (br_vm b) = 256"
    "vm_last_fd (br_vm b) = 0" "open_file demo_stat (0, 0) ''/a'' 2 demo_writer b = Returned st"
    "br_replies st = [Open_Result demo_writer 1]"
    and w: "working (\<lambda>_. 1) (\<lambda>_. 2) 1024 20 16 demo_writer 1 ''/a'' (st, \<lambda>_. demo_store) [] demo_info (new_instance demo_writer 1 0)"
    by (rule demo_session)
  have inv: "demo_inv (st, \<lambda>_. demo_store) empty_file"
    using session_invI[of "\<lambda>_. 1" "\<lambda>_. 2" 1024 20 16 demo_writer 1 "''/a''" "(st, \<lambda>_. demo_store)" empty_file demo_info] w by simp
  let ?bs = "replicate 10 9 :: u8 list"
  obtain s1 where s1: "demo_op (Op_Write ?bs) (st, \<lambda>_. demo_store) s1" using demo_write[OF w] by blast
  have i1: "demo_inv s1 \<lparr>af_bytes = ?bs, af_size = 10, af_pos = 10\<rparr>"
    using client_op_refines[OF inv s1] by (simp add: overwrite_def)
  obtain s2 where s2: "demo_op (Op_Seek 0 0) s1 s2" using client_op_answered[OF i1] by fastforce
  have i2: "demo_inv s2 \<lparr>af_bytes = ?bs, af_size = 10, af_pos = 0\<rparr>"
    using client_op_refines[OF i1 s2] by simp
  obtain s3 where s3: "demo_op (Op_Read 10) s2 s3" using client_op_answered[OF i2, of "Op_Read 10"] by fastforce
  show thesis
    by (rule that[OF b inv client_ops.next_op[OF s1 client_ops.next_op[OF s2 client_ops.next_op[OF s3 client_ops.no_op]]]])
qed

lemma file_session_refines_witness:
  "\<exists>s s' a'. client_ops 20 (\<lambda>_. 0) 9 demo_writer 1 [Op_Write (replicate 10 9), Op_Seek 0 0, Op_Read 10] s s' \<and>
     br_replies (fst s) = [Open_Result demo_writer 1] \<and>
     br_replies (fst s') = [Open_Result demo_writer 1, Write_Result demo_writer 1 10, Seek_Result demo_writer 0,
       Read_Result demo_writer 1 10 (replicate 10 9)] \<and> demo_inv s' a' \<and> af_bytes a' = replicate 10 9"
proof -
  let ?xs = "[Op_Write (replicate 10 9), Op_Seek 0 0, Op_Read 10]" and ?bs = "replicate 10 9 :: u8 list"
  obtain st s3 where s: "br_replies st = [Open_Result demo_writer 1]" "demo_inv (st, \<lambda>_. demo_store) empty_file"
    "client_ops 20 (\<lambda>_. 0) 9 demo_writer 1 ?xs (st, \<lambda>_. demo_store) s3"
    by (rule demo_steps)
  have "file_ops_run 16 demo_writer 1 ?xs empty_file = Some ([Write_Result demo_writer 1 10, Seek_Result demo_writer 0,
      Read_Result demo_writer 1 10 ?bs], \<lparr>af_bytes = ?bs, af_size = 10, af_pos = 10\<rparr>)"
    by (simp add: overwrite_def)
  from file_session_refines[OF s(2,3) this] show ?thesis using s(1,3)
    by (intro exI[of _ "(st, \<lambda>_. demo_store)"] exI[of _ s3] exI[of _ "\<lparr>af_bytes = ?bs, af_size = 10, af_pos = 10\<rparr>"]) simp
qed

text \<open>
  C2: the life of a new file, within the limits of C1. The core is in a reachable state with the
  metadata lock free and cursors and metadata well-formed (\<open>at_rest\<close>), its chunk maps have entries
  in a chunk window only (\<open>maps_ok\<close>), ids and descriptors have not run out, nobody holds a lock on the
  id that comes next, and the first \<open>limit\<close> bytes of the new file lie in the window (\<open>session_room\<close>).
  Then a client that opens an unknown path for writing gets a descriptor, and every sequence of its
  calls that the array describes and the cluster serves is answered like the same calls on an array
  that is empty at first.
\<close>

theorem new_file_session:
  assumes "core_reach st" "at_rest st" "maps_ok lo hi (br_io st)" "cluster_inv vol cl"
    and "pmeta_view (br_pm st) p = None" "length p \<le> MAX_FILENAME_LENGTH" "user_id c \<noteq> 0" "bit flags 1"
    and "last_id (br_pm st) \<noteq> - 1" "uint (vm_last_fd (br_vm st)) + 1 < 2 ^ 31" "br_locks st (last_id (br_pm st) + 1) = None"
    and "session_room lo hi n limit (last_id (br_pm st) + 1) (vm_stripe_size (br_vm st)) (vm_chunk_size (br_vm st))" "0 \<le> limit"
    and "fd = uint (vm_last_fd (br_vm st)) + 1"
  shows "\<exists>st1. open_file junk t p flags c st = Returned st1 \<and> br_replies st1 = br_replies st @ [Open_Result c fd] \<and>
    (\<forall>heap junk xs s' rs a. client_ops n heap junk c fd xs (st1, cl) s' \<longrightarrow> file_ops_run limit c fd xs empty_file = Some (rs, a) \<longrightarrow>
       br_replies (fst s') = br_replies st @ Open_Result c fd # rs)"
proof -
  obtain st1 where st1: "open_file junk t p flags c st = Returned st1" "br_replies st1 = br_replies st @ [Open_Result c fd]"
    "session_inv lo hi vol n limit c fd p (st1, cl) empty_file"
    using created_session[OF assms, of junk t] by blast
  have "br_replies (fst s') = br_replies st @ Open_Result c fd # rs"
    if "client_ops n heap junk c fd xs (st1, cl) s'" "file_ops_run limit c fd xs empty_file = Some (rs, a)" for heap junk xs s' rs a
    using client_ops_refine[OF that(1) st1(3) that(2)] st1(2) by simp
  with st1 show ?thesis by blast
qed

lemma new_file_session_witness:
  "\<exists>b st s'. core_reach b \<and> br_replies b = [] \<and> open_file demo_stat (0, 0) ''/a'' 2 demo_writer b = Returned st \<and>
     client_ops 20 (\<lambda>_. 0) 9 demo_writer 1 [Op_Write (replicate 10 9), Op_Seek 0 0, Op_Read 10] (st, \<lambda>_. demo_store) s' \<and>
     br_replies (fst s') = [Open_Result demo_writer 1, Write_Result demo_writer 1 10, Seek_Result demo_writer 0,
       Read_Result demo_writer 1 10 (replicate 10 9)]"
proof -
  let ?xs = "[Op_Write (replicate 10 9), Op_Seek 0 0, Op_Read 10]" and ?bs = "replicate 10 9 :: u8 list"
  obtain b st s3 where b: "core_reach b" "at_rest b" "br_pm b = new_pmeta" "br_locks b = Map.empty" "br_replies b = []"
    "io_node (br_io b) = []" "io_replica (br_io b) = []" "vm_stripe_size (br_vm b) = 512" "vm_chunk_size (br_vm b) = 256"
    "vm_last_fd (br_vm b) = 0" "open_file demo_stat (0, 0) ''/a'' 2 demo_writer b = Returned st"
    and ops: "client_ops 20 (\<lambda>_. 0) 9 demo_writer 1 ?xs (st, \<lambda>_. demo_store) s3"
    by (rule demo_steps)
  have run: "file_ops_run 16 demo_writer 1 ?xs empty_file = Some ([Write_Result demo_writer 1 10, Seek_Result demo_writer 0,
      Read_Result demo_writer 1 10 ?bs], \<lparr>af_bytes = ?bs, af_size = 10, af_pos = 10\<rparr>)"
    by (simp add: overwrite_def)
  have m: "maps_ok (\<lambda>_. 1) (\<lambda>_. 2) (br_io b)" using b(6,7) by (simp add: maps_ok_def oc_sorted_def)
  have fl: "bit (2 :: u32) 1" by (simp add: bit_numeral_rec)
  have pre: "pmeta_view (br_pm b) ''/a'' = None" "length ''/a'' \<le> MAX_FILENAME_LENGTH" "user_id demo_writer \<noteq> 0"
    "last_id (br_pm b) \<noteq> - 1" "uint (vm_last_fd (br_vm b)) + 1 < 2 ^ 31" "br_locks b (last_id (br_pm b) + 1) = None"
    "session_room (\<lambda>_. 1) (\<lambda>_. 2) 20 16 (last_id (br_pm b) + 1) (vm_stripe_size (br_vm b)) (vm_chunk_size (br_vm b))"
    "(0 :: int) \<le> 16" "1 = uint (vm_last_fd (br_vm b)) + 1"
    using b(3,4,8-10) demo_room by (simp_all add: MAX_FILENAME_LENGTH_def)
  obtain st1 where st1: "open_file demo_stat (0, 0) ''/a'' 2 demo_writer b = Returned st1"
    "\<forall>heap junk xs s' rs a. client_ops 20 heap junk demo_writer 1 xs (st1, \<lambda>_. demo_store) s' \<longrightarrow>
       file_ops_run 16 demo_writer 1 xs empty_file = Some (rs, a) \<longrightarrow> br_replies (fst s') = br_replies b @ Open_Result demo_writer 1 # rs"
    using new_file_session[OF b(1,2) m demo_cluster pre(1-3) fl pre(4-9), of demo_stat "(0, 0)"] by blast
  have "st1 = st" using st1(1) b(11) by simp
  then have "br_replies (fst s3) = [Open_Result demo_writer 1, Write_Result demo_writer 1 10, Seek_Result demo_writer 0,
       Read_Result demo_writer 1 10 ?bs]"
    using st1(2)[rule_format, OF _ run] ops b(5) by simp
  with b(1,5,11) ops show ?thesis by blast
qed

text \<open>
  C3: no call of a session is left without an answer. For a call that the array describes (see C1:
  no read across the last byte, within \<open>limit\<close> and the chunk window), on every network with the
  faults allowed and with the answers in every order: a seek returns with its reply; a read is sent,
  the nodes answer every request, and the answers end it with its reply; a write is sent, and if the
  nodes store what it sends to them, which they do not when there is no space or a chunk would have
  to grow (C16), their answers end it with its reply. The array and the nodes agree afterwards.
\<close>

theorem session_calls_answered:
  assumes "session_inv lo hi vol n limit c fd p s a" "file_op_step limit c fd x a = Some (r, a')"
  shows "op_completes n heap junk c fd x s (\<lambda>s'. br_replies (fst s') = br_replies (fst s) @ [r] \<and>
    session_inv lo hi vol n limit c fd p s' a')"
  by (rule call_completes[OF assms])

lemma session_calls_answered_witness:
  "\<exists>st st1 W. demo_inv (st, \<lambda>_. demo_store) empty_file \<and> write_file good_net 20 1 (replicate 10 9) 10 demo_writer st = Returned st1 \<and>
     W = drop (length (io_sent (br_io st))) (map fst (io_sent (br_io st1))) \<and>
     (\<exists>cl1 st2. cluster_run (\<lambda>_. 0) 9 W (\<lambda>_. demo_store) = Returned (map stored_answer W, cl1) \<and>
       run_handlers (answer_handler 20) (rev (map (the \<circ> stored_answer) W)) st1 = Returned st2 \<and>
       br_replies st2 = br_replies st @ [Write_Result demo_writer 1 10])"
proof -
  obtain b st where w: "working (\<lambda>_. 1) (\<lambda>_. 2) 1024 20 16 demo_writer 1 ''/a'' (st, \<lambda>_. demo_store) [] demo_info (new_instance demo_writer 1 0)"
    by (rule demo_session)
  have inv: "demo_inv (st, \<lambda>_. demo_store) empty_file"
    using session_invI[of "\<lambda>_. 1" "\<lambda>_. 2" 1024 20 16 demo_writer 1 "''/a''" "(st, \<lambda>_. demo_store)" empty_file demo_info] w by simp
  have step: "file_op_step 16 demo_writer 1 (Op_Write (replicate 10 9)) empty_file =
      Some (Write_Result demo_writer 1 10, \<lparr>af_bytes = replicate 10 9, af_size = 10, af_pos = 10\<rparr>)"
    by (simp add: overwrite_def)
  obtain st1 W where st1: "write_file good_net 20 1 (replicate 10 9) 10 demo_writer st = Returned st1"
    "W = drop (length (io_sent (br_io st))) (map fst (io_sent (br_io st1)))"
    and answered: "\<And>cl1 ms. cluster_run (\<lambda>_. 0) 9 W (\<lambda>_. demo_store) = Returned (map stored_answer W, cl1) \<Longrightarrow>
      mset (map Some ms) = mset (map stored_answer W) \<Longrightarrow> \<exists>st2. run_handlers (answer_handler 20) ms st1 = Returned st2 \<and>
        br_replies st2 = br_replies st @ [Write_Result demo_writer 1 10]"
    using session_calls_answered[OF inv step, of "\<lambda>_. 0" 9] good_net_reachable by (fastforce simp: op_completes_def)
  obtain rid np nr data where W: "W = [Write_Chunk rid (mk_chunk 1 1 1) np 0 data, Write_Chunk (rid + 1) (mk_chunk 1 1 1) nr 0 data]"
      "np \<noteq> nr" "length data = 10"
    by (rule demo_requests[OF w st1])
  obtain cl1 where run: "cluster_run (\<lambda>_. 0) 9 W (\<lambda>_. demo_store) = Returned (map stored_answer W, cl1)" by (rule demo_stores[OF W])
  have "mset (map Some (rev (map (the \<circ> stored_answer) W))) = mset (map stored_answer W)" unfolding W(1) by simp
  from answered[OF run this] show ?thesis using inv st1 run by blast
qed

end
