(* ===== verification/Packet_Print.thy ===== *)
theory Packet_Print
  imports Packets Storage_Stat
begin

text \<open>
  The \<open>print\<close> functions of the packet classes and the \<open>operator<<\<close> that call them: what is written to
  a stream for a packet, given its header and its members. A member of a width below that of \<open>int\<close>
  does not occur, so numbers are printed in decimal. The listing of a directory is left out: its
  print function also writes addresses.
\<close>

section \<open>The base classes\<close>

definition tab :: string where
  "tab = [CHR 0x09]"

text \<open>\<open>stream << text << std::endl\<close>, and a member on a line of its own.\<close>

definition line :: "string \<Rightarrow> string" where
  "line s = s @ newline"

definition member_line :: "string \<Rightarrow> string \<Rightarrow> string" where
  "member_line name v = line (tab @ name @ '': '' @ v)"

abbreviation nat_text :: "u32 \<Rightarrow> string" where
  "nat_text w \<equiv> decimal (unat w)"

definition Packet_print :: "packet \<Rightarrow> string" where
  "Packet_print p = line ''Packet'' @
     member_line ''packet_size'' (nat_text (pk_size p)) @
     member_line ''id'' (nat_text (pk_id p)) @
     member_line ''flag'' (nat_text (pk_flag p))"

definition FilePacket_print :: "packet \<Rightarrow> file_packet \<Rightarrow> string" where
  "FilePacket_print p m = line ''FilePacket'' @
     member_line ''fd'' (nat_text (fp_fd m)) @
     member_line ''file_id'' (nat_text (fp_file_id m)) @
     member_line ''stripe_id'' (nat_text (fp_stripe_id m)) @
     member_line ''chunk_num'' (nat_text (fp_chunk_num m)) @
     member_line ''offset'' (nat_text (fp_offset m)) @
     member_line ''count'' (decimal_int (fp_count m)) @
     Packet_print p"

text \<open>
  \<open>data\<close> is what \<open>data_buffer\<close> points to, \<open>None\<close> for \<open>NULL\<close>; \<open>count\<close> bytes of it are written as
  they are, without a look at how many there are.
\<close>

definition chars :: "u8 list \<Rightarrow> string" where
  "chars bs = map (\<lambda>b. char_of (unat b)) bs"

definition FileDataPacket_print :: "packet \<Rightarrow> file_packet \<Rightarrow> u8 list option \<Rightarrow> string outcome" where
  "FileDataPacket_print p m data =
     outcome_bind (case data of
         None \<Rightarrow> Returned ''<NULL>''
       | Some bs \<Rightarrow> guard_defined (0 \<le> fp_count m \<and> nat (fp_count m) \<le> length bs)
                     (Returned (chars (take (nat (fp_count m)) bs))))
       (\<lambda>t. Returned (line ''FileDataPacket'' @ line (''data_buffer: '' @ t) @ FilePacket_print p m))"

section \<open>The subclasses\<close>

definition EspressoInit_print :: "packet \<Rightarrow> u32 \<Rightarrow> string" where
  "EspressoInit_print p node_id = line ''EspressoInitializationPacket'' @ member_line ''node_id'' (nat_text node_id) @ Packet_print p"

definition DecafsClientInit_print :: "packet \<Rightarrow> u32 \<Rightarrow> string" where
  "DecafsClientInit_print p user = line ''DecafsClientInit'' @ member_line ''user_id'' (nat_text user) @ Packet_print p"

text \<open>The title is the one in the source.\<close>

definition ClosePacket_print :: "packet \<Rightarrow> u32 \<Rightarrow> string" where
  "ClosePacket_print p fd = line ''ClosePacketializationPacket'' @ member_line ''fd'' (nat_text fd) @ Packet_print p"

definition CloseResponsePacket_print :: "packet \<Rightarrow> int \<Rightarrow> string" where
  "CloseResponsePacket_print p result = line ''CloseResponsePacket'' @ member_line ''result'' (decimal_int result) @ Packet_print p"

definition LseekResponsePacket_print :: "packet \<Rightarrow> int \<Rightarrow> string" where
  "LseekResponsePacket_print p result = line ''LseekResponsePacket'' @ member_line ''result'' (decimal_int result) @ Packet_print p"

definition MkdirResponsePacket_print :: "packet \<Rightarrow> int \<Rightarrow> string" where
  "MkdirResponsePacket_print p result = line ''MkdirResponsePacket'' @ member_line ''result'' (decimal_int result) @ Packet_print p"

definition RemoveResponsePacket_print :: "packet \<Rightarrow> int \<Rightarrow> string" where
  "RemoveResponsePacket_print p result = line ''RemoveResponsePacket'' @ member_line ''result'' (decimal_int result) @ Packet_print p"

definition OpenPacketResponse_print :: "packet \<Rightarrow> u32 \<Rightarrow> string" where
  "OpenPacketResponse_print p response = line ''OpenPacketResponse'' @ member_line ''response'' (nat_text response) @ Packet_print p"

definition RemovePacket_print :: "packet \<Rightarrow> string \<Rightarrow> string" where
  "RemovePacket_print p filepath = line ''RemovePacket'' @ member_line ''filepath'' filepath @ Packet_print p"

definition OpendirPacket_print :: "packet \<Rightarrow> string \<Rightarrow> string" where
  "OpendirPacket_print p filepath = line ''OpendirPacket'' @ member_line ''filepath'' filepath @ Packet_print p"

definition FileStorageStatPacket_print :: "packet \<Rightarrow> string \<Rightarrow> string" where
  "FileStorageStatPacket_print p filename = line ''FileStorageStatPacket'' @ member_line ''filename'' filename @ Packet_print p"

definition FileStorageStatResponsePacket_print :: "packet \<Rightarrow> string \<Rightarrow> string" where
  "FileStorageStatResponsePacket_print p result = line ''FileStorageStatResponsePacket'' @ member_line ''result'' result @ Packet_print p"

definition MkdirPacket_print :: "packet \<Rightarrow> string \<Rightarrow> u32 \<Rightarrow> string" where
  "MkdirPacket_print p filepath mode = line ''MkdirPacket'' @ member_line ''mode'' (nat_text mode) @
     member_line ''filepath'' filepath @ Packet_print p"

definition LseekPacket_print :: "packet \<Rightarrow> int \<Rightarrow> int \<Rightarrow> int \<Rightarrow> string" where
  "LseekPacket_print p fd offset whence = line ''LseekPacket'' @ member_line ''fd'' (decimal_int fd) @
     member_line ''offset'' (decimal_int offset) @ member_line ''whence'' (decimal_int whence) @ line [] @
     Packet_print p"

text \<open>The length is computed from the size of the packet as \<open>int\<close>, and that many bytes are written from the path on.\<close>

definition OpenPacket_print :: "packet \<Rightarrow> int \<Rightarrow> string \<Rightarrow> string outcome" where
  "OpenPacket_print p open_flags filepath =
     (let len = sint (pk_size p - 12 - 5) in
      guard_defined (0 \<le> len \<and> 16 + nat len \<le> length (pk_buf p))
       (Returned (line ''OpenPacket'' @ member_line ''flags'' (decimal_int open_flags) @
          member_line ''actual length'' (decimal_int len) @
          member_line ''strlen length'' (decimal (length filepath)) @
          line (tab @ ''filepath: '' @ chars (take (nat len) (drop 16 (pk_buf p)))) @ Packet_print p)))"

definition ReadChunkRequest_print :: "packet \<Rightarrow> file_packet \<Rightarrow> string" where
  "ReadChunkRequest_print p m = line ''ReadChunkRequest'' @ FilePacket_print p m"

definition WriteChunkResponse_print :: "packet \<Rightarrow> file_packet \<Rightarrow> string" where
  "WriteChunkResponse_print p m = line ''WriteChunkResponse'' @ FilePacket_print p m"

definition DeleteChunkRequest_print :: "packet \<Rightarrow> file_packet \<Rightarrow> string" where
  "DeleteChunkRequest_print p m = line ''DeleteChunkRequest'' @ FilePacket_print p m"

definition DeleteChunkResponse_print :: "packet \<Rightarrow> file_packet \<Rightarrow> string" where
  "DeleteChunkResponse_print p m = line ''DeleteChunkResponse'' @ FilePacket_print p m"

definition ReadRequest_print :: "packet \<Rightarrow> file_packet \<Rightarrow> string" where
  "ReadRequest_print p m = line ''ReadRequest'' @ FilePacket_print p m"

definition WriteResponsePacket_print :: "packet \<Rightarrow> file_packet \<Rightarrow> string" where
  "WriteResponsePacket_print p m = line ''WriteResponsePacket'' @ FilePacket_print p m"

definition WriteChunkRequest_print :: "packet \<Rightarrow> file_packet \<Rightarrow> u8 list option \<Rightarrow> string outcome" where
  "WriteChunkRequest_print p m data =
     outcome_bind (FileDataPacket_print p m data) (\<lambda>t. Returned (line ''WriteChunkRequest'' @ t))"

definition ReadChunkResponse_print :: "packet \<Rightarrow> file_packet \<Rightarrow> u8 list option \<Rightarrow> string outcome" where
  "ReadChunkResponse_print p m data =
     outcome_bind (FileDataPacket_print p m data) (\<lambda>t. Returned (line ''ReadChunkResponse'' @ t))"

definition WritePacket_print :: "packet \<Rightarrow> file_packet \<Rightarrow> u8 list option \<Rightarrow> string outcome" where
  "WritePacket_print p m data =
     outcome_bind (FileDataPacket_print p m data) (\<lambda>t. Returned (line ''WritePacket'' @ t))"

definition ReadResponsePacket_print :: "packet \<Rightarrow> file_packet \<Rightarrow> u8 list option \<Rightarrow> string outcome" where
  "ReadResponsePacket_print p m data =
     outcome_bind (FileDataPacket_print p m data) (\<lambda>t. Returned (line ''ReadResponsePacket'' @ t))"

section \<open>What a printed packet tells\<close>

lemma line_inj:
  assumes "CHR 0x0A \<notin> set a" "CHR 0x0A \<notin> set b"
  shows "line a @ r = line b @ s \<longleftrightarrow> a = b \<and> r = s"
  using assms
proof (induction a arbitrary: b)
  case Nil
  then show ?case by (cases b) (auto simp: line_def newline_def)
next
  case (Cons x a)
  then show ?case by (cases b) (auto simp: line_def newline_def)
qed

lemma decimal_no_newline: "CHR 0x0A \<notin> set (decimal n)" "CHR ''-'' \<notin> set (decimal n)"
proof -
  have *: "of_char c \<in> {48..57 :: nat}" if "c \<in> set (decimal n)" for c
    using that
  proof (induction n rule: decimal.induct)
    case (1 n)
    then show ?case
      by (cases "n < 10") (auto simp: decimal.simps[of n] of_char_digit)
  qed
  show "CHR 0x0A \<notin> set (decimal n)" "CHR ''-'' \<notin> set (decimal n)"
    using *[of "CHR 0x0A"] *[of "CHR ''-''"] by auto
qed

lemma decimal_inj: "decimal m = decimal n \<longleftrightarrow> m = n"
  by (metis digits_value_decimal)

lemma decimal_int_inj: "decimal_int x = decimal_int y \<longleftrightarrow> x = y"
proof -
  have "''-'' @ decimal m \<noteq> decimal n" for m n
    using decimal_no_newline(2)[of n] by (metis append_Cons list.set_intros(1))
  then have "''-'' @ decimal m \<noteq> decimal n" "decimal n \<noteq> ''-'' @ decimal m" for m n by metis+
  then show ?thesis by (auto simp: decimal_int_def decimal_inj)
qed

lemma decimal_int_no_newline: "CHR 0x0A \<notin> set (decimal_int x)"
  using decimal_no_newline(1) by (simp add: decimal_int_def)

lemma member_line_inj:
  assumes "CHR 0x0A \<notin> set n" "CHR 0x0A \<notin> set v" "CHR 0x0A \<notin> set w"
  shows "member_line n v @ r = member_line n w @ s \<longleftrightarrow> v = w \<and> r = s"
  using assms unfolding member_line_def by (subst line_inj) (auto simp: tab_def)

lemma member_line_end:
  assumes "CHR 0x0A \<notin> set n" "CHR 0x0A \<notin> set v" "CHR 0x0A \<notin> set w"
  shows "member_line n v = member_line n w \<longleftrightarrow> v = w"
  using member_line_inj[OF assms, of "[]" "[]"] by simp

lemmas printed_inj = member_line_inj member_line_end decimal_no_newline(1) decimal_int_no_newline decimal_inj
  decimal_int_inj unsigned_word_eqI

lemma chars_string [simp]: "chars (map byte_of_char s) = s"
  by (simp add: chars_def comp_def)

text \<open>
  A printed file packet identifies the packet: two packets that print the same text have the same
  header and the same members, so nothing is lost in the log; and the request to open a file prints
  its flags and its whole path.
\<close>

theorem printed_packet_identifies:
  assumes "length path < 2 ^ 31 - 100" "OpenPacket heap flags path = Some req"
  shows "(FilePacket_print p m = FilePacket_print q n \<longleftrightarrow>
      (pk_size p, pk_id p, pk_flag p, m) = (pk_size q, pk_id q, pk_flag q, n)) \<and>
    OpenPacket_print req flags path = Returned (line ''OpenPacket'' @ member_line ''flags'' (decimal_int flags) @
      member_line ''actual length'' (decimal (length path)) @ member_line ''strlen length'' (decimal (length path)) @
      member_line ''filepath'' path @ Packet_print req)"
proof -
  have inj: "FilePacket_print p m = FilePacket_print q n \<longleftrightarrow>
      (pk_size p, pk_id p, pk_flag p, m) = (pk_size q, pk_id q, pk_flag q, n)"
    by (cases m; cases n) (auto simp: FilePacket_print_def Packet_print_def printed_inj)
  let ?body = "word_bytes (word_of_int flags) @ string_bytes path"
  have req: "req = packet_image 0 (flag_code OPEN) ?body" using assms OpenPacket_image[OF assms(1)] by simp
  have "uint (pk_size req - 12 - 5) = int (length path)"
    using assms(1) uint_of_nat_small[of "length path"] by (simp add: req)
  then have len: "sint (pk_size req - 12 - 5) = int (length path)"
    using assms(1) by (subst u32_sint_uint) simp_all
  have tk: "take (length path) (drop 16 (pk_buf req)) = map byte_of_char path"
    by (simp add: req packet_image_def string_bytes_def)
  have "OpenPacket_print req flags path = Returned (line ''OpenPacket'' @ member_line ''flags'' (decimal_int flags) @
      member_line ''actual length'' (decimal (length path)) @ member_line ''strlen length'' (decimal (length path)) @
      member_line ''filepath'' path @ Packet_print req)"
    unfolding OpenPacket_print_def Let_def len using tk
    by (simp add: req decimal_int_def member_line_def)
  with inj show ?thesis ..
qed

lemma printed_packet_identifies_witness:
  "\<exists>req. OpenPacket (\<lambda>_. 0) 2 ''/a'' = Some req \<and>
    OpenPacket_print req 2 ''/a'' = Returned (line ''OpenPacket'' @ member_line ''flags'' (decimal_int 2) @
      member_line ''actual length'' (decimal 2) @ member_line ''strlen length'' (decimal 2) @
      member_line ''filepath'' ''/a'' @ Packet_print req)"
proof -
  have len: "length ''/a'' < 2 ^ 31 - 100" by simp
  obtain req where req: "OpenPacket (\<lambda>_. 0) 2 ''/a'' = Some req" using OpenPacket_image[OF len] by blast
  with printed_packet_identifies[OF len req] show ?thesis by (auto simp: numeral_2_eq_2)
qed

end
