(* ===== verification/Directory_Listing.thy ===== *)
theory Directory_Listing
  imports Packet_Print
begin

text \<open>
  The listing of a directory: \<open>decafs_dir\<close> and \<open>decafs_dirent\<close> of \<open>file_types.h\<close>, the packet that
  carries a listing and its print function. Nothing in the barista sends such a packet yet. On the
  machines the program is built for a \<open>decafs_dir\<close> has 16 bytes, the last eight a pointer to its
  entries, and an entry 264: the file id, the type, the name in 256 characters and three bytes of
  padding, which are the parameter \<open>pad\<close>.
\<close>

record decafs_dirent =
  de_file_id :: u32
  de_type :: u8
  de_name :: "u8 list"

text \<open>The constructor copies a name with its NUL; one that does not fit is undefined, the rest of the array stays as it was.\<close>

definition new_dirent :: "(nat \<Rightarrow> u8) \<Rightarrow> u32 \<Rightarrow> u8 \<Rightarrow> string \<Rightarrow> decafs_dirent option" where
  "new_dirent heap file_id ty name =
     (if length name + 1 \<le> 256
      then Some \<lparr>de_file_id = file_id, de_type = ty, de_name = string_bytes name @ map heap [length name + 1..<256]\<rparr>
      else None)"

record decafs_dir =
  dd_current :: int
  dd_entries :: "decafs_dirent list"

definition dirent_bytes :: "u8 list \<Rightarrow> decafs_dirent \<Rightarrow> u8 list" where
  "dirent_bytes pad d = word_bytes (de_file_id d) @ [de_type d] @ de_name d @ pad"

text \<open>\<open>here\<close> are the bytes of the address that is stored as the pointer to the entries.\<close>

definition OpendirResponsePacket :: "(nat \<Rightarrow> u8) \<Rightarrow> u8 list \<Rightarrow> u8 list \<Rightarrow> decafs_dir \<Rightarrow> packet option" where
  "OpendirResponsePacket heap here pad dirents = do {
     p \<leftarrow> packet_new heap 0 (flag_code OPENDIR_RESPONSE) (16 + int (length (dd_entries dirents)) * 264);
     p \<leftarrow> put_at 0 (word_bytes (word_of_int (dd_current dirents))) p;
     p \<leftarrow> put_at 4 (word_bytes (of_nat (length (dd_entries dirents)))) p;
     p \<leftarrow> put_at 8 here p;
     put_at 16 (concat (map (dirent_bytes pad) (dd_entries dirents))) p
   }"

text \<open>
  A listing: \<open>current\<close>, \<open>total\<close> and a pointer, then entries of 264 bytes with the file id, the
  type and the name. The pointer is set to the entries behind it.
\<close>

fun dirents_at :: "u8 list \<Rightarrow> nat \<Rightarrow> nat \<Rightarrow> (u32 \<times> u8 \<times> string) list option" where
  "dirents_at buf off 0 = Some []"
| "dirents_at buf off (Suc n) = do {
     file_id \<leftarrow> word_at buf off;
     ty \<leftarrow> bytes_at buf (off + 4) 1;
     name \<leftarrow> string_at buf (off + 5);
     es \<leftarrow> dirents_at buf (off + 264) n;
     Some ((file_id, hd ty, name) # es)
   }"

definition OpendirResponsePacket_of :: "u8 list \<Rightarrow> (int \<times> int \<times> (u32 \<times> u8 \<times> string) list) option" where
  "OpendirResponsePacket_of buf = do {
     _ \<leftarrow> packet_of buf;
     current \<leftarrow> word_at buf 12;
     total \<leftarrow> word_at buf 16;
     _ \<leftarrow> bytes_at buf 20 8;
     es \<leftarrow> dirents_at buf 28 (nat (sint total));
     Some (sint current, sint total, es)
   }"

text \<open>\<open>a1\<close>, \<open>a2\<close> and \<open>a3\<close> are the addresses as they are printed; a type is printed as a character.\<close>

fun dirents_print :: "nat \<Rightarrow> (u32 \<times> u8 \<times> string) list \<Rightarrow> string" where
  "dirents_print i [] = []"
| "dirents_print i ((file_id, ty, name) # es) =
     line (tab @ tab @ ''dirent: '' @ decimal i) @
     line (tab @ tab @ ''file_id: '' @ nat_text file_id) @
     line (tab @ tab @ ''d_type: '' @ chars [ty]) @
     line (tab @ tab @ ''d_name: '' @ name) @
     dirents_print (Suc i) es"

definition OpendirResponsePacket_print ::
    "string \<Rightarrow> string \<Rightarrow> string \<Rightarrow> packet \<Rightarrow> int \<times> int \<times> (u32 \<times> u8 \<times> string) list \<Rightarrow> string" where
  "OpendirResponsePacket_print a1 a2 a3 p d =
     (case d of (current, n, es) \<Rightarrow>
        line ''ptrs'' @ line ('' packet: '' @ a1) @ line (''   dirp: '' @ a2) @ line (''entries: '' @ a3) @
        line ''OpendirResponsePacket'' @ member_line ''current'' (decimal_int current) @
        member_line ''total'' (decimal_int n) @ dirents_print 0 es @ Packet_print p)"

section \<open>A listing survives the packet\<close>

lemma string_at_front:
  assumes "c_string s"
  shows "string_at (string_bytes s @ r) 0 = Some s"
proof -
  have t: "takeWhile (\<lambda>b. b \<noteq> 0) (string_bytes s @ r) = takeWhile (\<lambda>b. b \<noteq> 0) (string_bytes s)"
    by (rule takeWhile_append1[of 0]) (simp_all add: string_bytes_def)
  have "0 \<in> set (string_bytes s)" by (simp add: string_bytes_def)
  with string_at_head[OF assms] show ?thesis by (auto simp: string_at_def t split: if_splits)
qed

definition listed :: "u32 \<times> u8 \<times> string \<Rightarrow> (nat \<Rightarrow> u8) \<Rightarrow> decafs_dirent \<Rightarrow> bool" where
  "listed x heap d \<longleftrightarrow> (case x of (file_id, ty, name) \<Rightarrow> c_string name \<and> new_dirent heap file_id ty name = Some d)"

lemma listed_bytes:
  assumes "listed (file_id, ty, name) heap d" "length pad = 3"
  obtains r where "dirent_bytes pad d = word_bytes file_id @ [ty] @ string_bytes name @ r" "length (dirent_bytes pad d) = 264"
    "c_string name"
  using assms that[of "map heap [length name + 1..<256] @ pad"]
  by (auto simp: listed_def new_dirent_def dirent_bytes_def split: if_splits)

lemma dirents_read:
  assumes "list_all2 (\<lambda>x d. listed x heap d) es ds" "length pad = 3"
  shows "dirents_at (pre @ concat (map (dirent_bytes pad) ds)) (length pre) (length es) = Some es"
  using assms(1)
proof (induction es ds arbitrary: pre)
  case (Cons e es d ds)
  obtain file_id ty name where e: "e = (file_id, ty, name)" by (cases e)
  obtain r where r: "dirent_bytes pad d = word_bytes file_id @ [ty] @ string_bytes name @ r" "length (dirent_bytes pad d) = 264"
    "c_string name"
    using listed_bytes[OF Cons.hyps(1)[unfolded e] assms(2)] by blast
  let ?rest = "concat (map (dirent_bytes pad) ds)"
  have "dirents_at ((pre @ dirent_bytes pad d) @ ?rest) (length (pre @ dirent_bytes pad d)) (length es) = Some es"
    by (rule Cons.IH)
  then have ih: "dirents_at (pre @ word_bytes file_id @ ty # string_bytes name @ r @ ?rest) (length pre + 264) (length es) = Some es"
    using r(1,2) by simp
  have "bytes_at (ty # string_bytes name @ r @ ?rest) 0 (Suc 0) = Some [ty]" by (simp add: bytes_at_def)
  moreover have "string_at (ty # string_bytes name @ r @ ?rest) (Suc 0) = Some name"
    using string_at_skip[of "[ty]" 1 "string_bytes name @ r @ ?rest"] string_at_front[OF r(3)] by simp
  ultimately show ?case using ih by (simp add: e r(1))
qed simp

lemma dirents_length:
  assumes "list_all2 (\<lambda>x d. listed x heap d) es ds" "length pad = 3"
  shows "length (concat (map (dirent_bytes pad) ds)) = 264 * length es"
  using assms(1)
proof (induction es ds)
  case (Cons e es d ds)
  have "length (dirent_bytes pad d) = 264"
    using Cons.hyps(1) assms(2) by (cases e) (metis listed_bytes)
  with Cons.IH show ?case by simp
qed simp

lemma opendir_response_read:
  assumes "list_all2 (\<lambda>x d. listed x heap' d) es (dd_entries dirents)" "length pad = 3" "length here = 8"
    and "264 * length es < 2 ^ 31 - 28" "fits_int (dd_current dirents)"
  shows "\<exists>p. OpendirResponsePacket heap here pad dirents = Some p \<and>
    OpendirResponsePacket_of (pk_buf p) = Some (dd_current dirents, int (length es), es)"
proof -
  let ?ds = "dd_entries dirents"
  let ?n = "of_nat (length es) :: u32"
  let ?data = "concat (map (dirent_bytes pad) ?ds)"
  let ?body = "word_bytes (word_of_int (dd_current dirents)) @ word_bytes ?n @ here @ ?data"
  have len: "length ?ds = length es" using assms(1) by (simp add: list_all2_lengthD)
  have data: "length ?data = 264 * length es"
    using dirents_length[OF assms(1,2)] .
  let ?p = "packet_image 0 (flag_code OPENDIR_RESPONSE) ?body"
  have "OpendirResponsePacket heap here pad dirents = Some ?p"
    using packet_new_part[of "16 + 264 * length es" heap 0 "flag_code OPENDIR_RESPONSE"] assms(3,4) data
    by (simp add: OpendirResponsePacket_def len mult.commute)
  moreover have "OpendirResponsePacket_of (pk_buf ?p) = Some (dd_current dirents, int (length es), es)"
  proof -
    let ?pre = "word_bytes (of_nat (12 + length ?body)) @ word_bytes 0 @ word_bytes (flag_code OPENDIR_RESPONSE) @
        word_bytes (word_of_int (dd_current dirents)) @ word_bytes ?n @ here"
    have "dirents_at (?pre @ ?data) (length ?pre) (length es) = Some es" by (rule dirents_read[OF assms(1,2)])
    then have es: "dirents_at (pk_buf ?p) 28 (length es) = Some es"
      using assms(3) by (simp add: packet_image_def)
    have "sint ?n = int (length es)"
      using assms(4) uint_of_nat_small[of "length es"] by (subst u32_sint_uint) simp_all
    moreover have "bytes_at (here @ ?data) 0 8 = Some here" using assms(3) by (simp add: bytes_at_def)
    moreover have "sint (word_of_int (dd_current dirents) :: u32) = dd_current dirents"
      using assms(5) by (simp add: fits_int_def)
    ultimately show ?thesis using es by (simp add: OpendirResponsePacket_of_def)
  qed
  ultimately show ?thesis by blast
qed

end
