(* ===== verification/Decafs_Client.thy ===== *)
theory Decafs_Client
  imports Barista_Server Espresso_Node Directory_Listing
begin

text \<open>
  The client library, \<open>decafs_client.cpp\<close>: every call sends a packet, blocks in \<open>select\<close> until
  the barista has sent something, takes one packet and returns what it finds in it. \<open>world\<close> is
  what arrives at the socket, given what the call sent; \<open>None\<close>: nothing ever comes. When
  nothing was left over either, the call does not return, which is the value \<open>Running\<close>.
\<close>

section \<open>A call\<close>

record decafs_client =
  dc_user :: u32
  dc_sent :: "u8 list"
  dc_rest :: "u8 list"

definition sendToServer :: "packet \<Rightarrow> decafs_client \<Rightarrow> decafs_client" where
  "sendToServer p c = c\<lparr>dc_sent := dc_sent c @ take (unat (pk_size p)) (pk_buf p)\<rparr>"

definition client_hello :: "(nat \<Rightarrow> u8) \<Rightarrow> decafs_client \<Rightarrow> decafs_client outcome" where
  "client_hello heap c =
     (case DecafsClientInit heap (sint (dc_user c)) of
        None \<Rightarrow> Unspecified | Some p \<Rightarrow> Returned (sendToServer p c))"

text \<open>Send, wait, take one packet, and read the answer from its buffer; the flag is looked at and ignored.\<close>

definition exchange ::
    "(nat \<Rightarrow> u8) \<Rightarrow> (u8 list \<Rightarrow> u8 list option) \<Rightarrow> packet option \<Rightarrow> (u8 list \<Rightarrow> 'r option) \<Rightarrow>
     decafs_client \<Rightarrow> ('r \<times> decafs_client) outcome" where
  "exchange heap world request response c =
     (case request of
        None \<Rightarrow> Unspecified
      | Some p \<Rightarrow>
          let c1 = sendToServer p c in
          let arrived = dc_rest c1 @ (case world (take (unat (pk_size p)) (pk_buf p)) of None \<Rightarrow> [] | Some bytes \<Rightarrow> bytes) in
          if arrived = [] then Running
          else outcome_bind (take_packet heap arrived) (\<lambda>(flag, buffer, rest).
                case response buffer of
                  None \<Rightarrow> Unspecified
                | Some r \<Rightarrow> Returned (r, c1\<lparr>dc_rest := rest\<rparr>)))"

section \<open>The calls\<close>

definition client_open ::
    "(nat \<Rightarrow> u8) \<Rightarrow> (u8 list \<Rightarrow> u8 list option) \<Rightarrow> string \<Rightarrow> int \<Rightarrow> decafs_client \<Rightarrow> (int \<times> decafs_client) outcome" where
  "client_open heap world pathname flags c =
     exchange heap world (OpenPacket heap flags pathname) (\<lambda>b. map_option sint (OpenPacketResponse_of b)) c"

definition client_lseek ::
    "(nat \<Rightarrow> u8) \<Rightarrow> (u8 list \<Rightarrow> u8 list option) \<Rightarrow> int \<Rightarrow> int \<Rightarrow> int \<Rightarrow> decafs_client \<Rightarrow> (int \<times> decafs_client) outcome" where
  "client_lseek heap world fd offset whence c =
     exchange heap world (LseekPacket heap fd offset whence) LseekResponsePacket_of c"

definition client_close ::
    "(nat \<Rightarrow> u8) \<Rightarrow> (u8 list \<Rightarrow> u8 list option) \<Rightarrow> int \<Rightarrow> decafs_client \<Rightarrow> (int \<times> decafs_client) outcome" where
  "client_close heap world fd c = exchange heap world (ClosePacket heap fd) CloseResponsePacket_of c"

definition client_remove ::
    "(nat \<Rightarrow> u8) \<Rightarrow> (u8 list \<Rightarrow> u8 list option) \<Rightarrow> string \<Rightarrow> decafs_client \<Rightarrow> (int \<times> decafs_client) outcome" where
  "client_remove heap world pathname c =
     exchange heap world (RemovePacket heap pathname) RemoveResponsePacket_of c"

definition client_mkdir ::
    "(nat \<Rightarrow> u8) \<Rightarrow> (u8 list \<Rightarrow> u8 list option) \<Rightarrow> string \<Rightarrow> u32 \<Rightarrow> decafs_client \<Rightarrow> (int \<times> decafs_client) outcome" where
  "client_mkdir heap world name mode c =
     exchange heap world (MkdirPacket heap name mode) MkdirResponsePacket_of c"

definition client_file_storage_stat ::
    "(nat \<Rightarrow> u8) \<Rightarrow> (u8 list \<Rightarrow> u8 list option) \<Rightarrow> string \<Rightarrow> decafs_client \<Rightarrow> (string \<times> decafs_client) outcome" where
  "client_file_storage_stat heap world name c =
     exchange heap world (FileStorageStatPacket heap name) FileStorageStatResponsePacket_of c"

definition client_write ::
    "(nat \<Rightarrow> u8) \<Rightarrow> (u8 list \<Rightarrow> u8 list option) \<Rightarrow> int \<Rightarrow> u8 list \<Rightarrow> int \<Rightarrow> decafs_client \<Rightarrow> (int \<times> decafs_client) outcome" where
  "client_write heap world fd buf len c =
     exchange heap world (WritePacket heap (word_of_int fd) (word_of_int len) buf)
       (\<lambda>b. map_option (\<lambda>(_, m). fp_count m) (FilePacket_of b)) c"

text \<open>The bytes of the answer are copied to the caller's \<open>capacity\<close> bytes without a look at their number.\<close>

definition client_read ::
    "(nat \<Rightarrow> u8) \<Rightarrow> (u8 list \<Rightarrow> u8 list option) \<Rightarrow> int \<Rightarrow> nat \<Rightarrow> int \<Rightarrow> decafs_client \<Rightarrow>
     ((int \<times> u8 list) \<times> decafs_client) outcome" where
  "client_read heap world fd capacity len c =
     outcome_bind (exchange heap world (ReadRequest heap (word_of_int fd) (word_of_int len)) FileDataPacket_of c)
       (\<lambda>((_, m, data), c'). guard_defined (length data \<le> capacity) (Returned ((fp_count m, data), c')))"

text \<open>The path is copied into an array of 256 characters first.\<close>

definition client_opendir ::
    "(nat \<Rightarrow> u8) \<Rightarrow> (u8 list \<Rightarrow> u8 list option) \<Rightarrow> string \<Rightarrow> decafs_client \<Rightarrow> ((int \<times> int \<times> (u32 \<times> u8 \<times> string) list) \<times> decafs_client) outcome" where
  "client_opendir heap world path c =
     guard_defined (length path + 1 \<le> 256)
      (exchange heap world (OpendirPacket heap path) OpendirResponsePacket_of c)"

text \<open>\<open>file_stat\<close> and \<open>file_fstat\<close> are not implemented; a chunk request is served as by an espresso node.\<close>

definition client_file_stat :: "string \<Rightarrow> int" where
  "client_file_stat path = -1"

definition client_file_fstat :: "int \<Rightarrow> int" where
  "client_file_fstat fd = -1"

definition client_handleMessageFromServer ::
    "(nat \<Rightarrow> u8) \<Rightarrow> u32 \<Rightarrow> espresso \<Rightarrow> u8 list \<Rightarrow> (u8 list \<times> espresso \<times> u8 list) outcome" where
  "client_handleMessageFromServer heap junk st avail = espresso_handle heap junk st avail"

section \<open>Remote calls\<close>

text \<open>The calls that the barista answers at once with a number.\<close>

datatype rpc =
    Rpc_Open string int
  | Rpc_Close u32
  | Rpc_Remove string
  | Rpc_Seek int int int

fun rpc_message :: "rpc \<Rightarrow> barista_message" where
  "rpc_message (Rpc_Open path flags) = Open_File path flags"
| "rpc_message (Rpc_Close fd) = Close_File fd"
| "rpc_message (Rpc_Remove path) = Remove_File path"
| "rpc_message (Rpc_Seek fd offset whence) = Seek_File fd offset whence"

fun rpc_reply :: "client \<Rightarrow> rpc \<Rightarrow> int \<Rightarrow> reply" where
  "rpc_reply c (Rpc_Open path flags) v = Open_Result c v"
| "rpc_reply c (Rpc_Close fd) v = Close_Result c v"
| "rpc_reply c (Rpc_Remove path) v = Remove_Result c v"
| "rpc_reply c (Rpc_Seek fd offset whence) v = Seek_Result c v"

fun rpc_call ::
    "(nat \<Rightarrow> u8) \<Rightarrow> (u8 list \<Rightarrow> u8 list option) \<Rightarrow> rpc \<Rightarrow> decafs_client \<Rightarrow> (int \<times> decafs_client) outcome" where
  "rpc_call heap world (Rpc_Open path flags) c = client_open heap world path flags c"
| "rpc_call heap world (Rpc_Close fd) c = client_close heap world (sint fd) c"
| "rpc_call heap world (Rpc_Remove path) c = client_remove heap world path c"
| "rpc_call heap world (Rpc_Seek fd offset whence) c = client_lseek heap world fd offset whence c"

text \<open>The barista as the world of the client on connection \<open>k\<close>: what it puts on that connection for what was sent.\<close>

definition answers :: "environment \<Rightarrow> conn \<Rightarrow> barista_server \<Rightarrow> u8 list \<Rightarrow> u8 list option" where
  "answers e k s sent =
     (case handleMessageFromClient e k sent s of
        Returned (s', _) \<Rightarrow>
          (let new = filter (\<lambda>(k', _). k' = k) (drop (length (bs_out s)) (bs_out s'))
           in if new = [] then None else Some (concat (map snd new)))
      | _ \<Rightarrow> None)"

lemma on_core_replies:
  assumes "on_core e f s = Returned s'" "br_replies (bs_core s') = br_replies (bs_core s) @ rs"
  shows "deliver e rs (bs_out s) = Returned (bs_out s')"
  using assms by (auto simp: on_core_def)

lemma rpc_serve:
  assumes "om_find (<) k (bs_clients s) = Some cl"
  obtains f where "serve e k (rpc_message x) s = on_core e f s"
  using assms by (cases x) (auto simp: for_client_def client_at_def)

lemma rpc_reply_packet:
  "reply_packet heap (rpc_reply cl x v) = Some (packet_image 0 (flag_code (case x of Rpc_Open _ _ \<Rightarrow> OPEN_RESPONSE
     | Rpc_Close _ \<Rightarrow> CLOSE_RESPONSE | Rpc_Remove _ \<Rightarrow> REMOVE_RESPONSE | Rpc_Seek _ _ _ \<Rightarrow> LSEEK_RESPONSE))
     (word_bytes (word_of_int v)))"
  by (cases x) (simp_all add: packet_class_defs word_packet_image)

lemma rpc_reply_client [simp]: "reply_client (rpc_reply cl x v) = cl"
  by (cases x) simp_all

lemma packet_image_bytes:
  assumes "length body < 2 ^ 31 - 12"
  shows "take (unat (pk_size (packet_image i flag body))) (pk_buf (packet_image i flag body)) =
    pk_buf (packet_image i flag body)"
proof -
  have "unat (pk_size (packet_image i flag body)) = length (pk_buf (packet_image i flag body))"
    using assms by (simp add: unat_of_nat del: of_nat_add)
  then show ?thesis by simp
qed

lemma rpc_call_returns:
  assumes "om_find (<) k (bs_clients s) = Some cl" "ctc cl = k" "k \<noteq> 0"
    and "valid_message (rpc_message x)" "fits_int v" "dc_rest c = []"
    and "serve e k (rpc_message x) s = Returned s'"
    and "br_replies (bs_core s') = br_replies (bs_core s) @ [rpc_reply cl x v]"
  shows "\<exists>c'. rpc_call heap (answers e k s) x c = Returned (v, c') \<and> dc_rest c' = [] \<and> dc_user c' = dc_user c"
proof -
  obtain p where p: "message_packet heap (rpc_message x) = Some p"
    "\<And>heap rest. receive_message heap (pk_buf p @ rest) = Returned (Some (rpc_message x), rest)"
    "unat (pk_size p) = length (pk_buf p)"
    by (rule message_received[OF assms(4)]) metis
  obtain f where "serve e k (rpc_message x) s = on_core e f s" by (rule rpc_serve[OF assms(1)]) blast
  then have d: "deliver e [rpc_reply cl x v] (bs_out s) = Returned (bs_out s')"
    using on_core_replies assms(7,8) by metis
  define flag where "flag = flag_code (case x of Rpc_Open _ _ \<Rightarrow> OPEN_RESPONSE
     | Rpc_Close _ \<Rightarrow> CLOSE_RESPONSE | Rpc_Remove _ \<Rightarrow> REMOVE_RESPONSE | Rpc_Seek _ _ _ \<Rightarrow> LSEEK_RESPONSE)"
  let ?r = "packet_image 0 flag (word_bytes (word_of_int v))"
  have out: "bs_out s' = bs_out s @ [(k, pk_buf ?r)]"
    using d assms(2,3) packet_image_bytes[of "word_bytes (word_of_int v)" 0 flag]
    by (simp add: rpc_reply_packet flag_def)
  have "handleMessageFromClient e k (pk_buf p @ []) s = Returned (s', [])"
    unfolding handleMessageFromClient_def p(2) using assms(7) by simp
  then have w: "answers e k s (pk_buf p) = Some (pk_buf ?r)"
    using out by (simp add: answers_def Let_def)
  have t: "take_packet heap (pk_buf ?r) = Returned (flag, pk_buf ?r, [])"
    using take_packet_image[of "word_bytes (word_of_int v)" heap 0 flag "[]"] by simp
  have ex: "exchange heap (answers e k s) (Some p) response c =
      (case response (pk_buf ?r) of None \<Rightarrow> Unspecified | Some y \<Rightarrow> Returned (y, sendToServer p c))"
    for response :: "u8 list \<Rightarrow> int option"
    using w t p(3) assms(6)
    by (cases "response (pk_buf ?r)"; cases c) (simp_all add: exchange_def sendToServer_def Let_def)
  have "rpc_call heap (answers e k s) x c = Returned (v, sendToServer p c)"
    using p(1) ex assms(5)
    by (cases x) (simp_all add: client_open_def client_close_def client_remove_def client_lseek_def packet_class_of_defs
        word_of_image)
  then show ?thesis using assms(6) by (simp add: sendToServer_def)
qed

text \<open>
  C26: a call of the client library returns the number with which the core answered the request
  that the call sent: through the packet, the dispatch of the server, the handler of the core,
  the reply packet and back.
\<close>

theorem remote_call_returns:
  assumes "om_find (<) k (bs_clients s) = Some cl" "ctc cl = k" "k \<noteq> 0"
    and "valid_message (rpc_message x)" "fits_int v" "dc_rest c = []"
    and "serve e k (rpc_message x) s = Returned s'"
    and "br_replies (bs_core s') = br_replies (bs_core s) @ [rpc_reply cl x v]"
  shows "\<exists>c'. rpc_call heap (answers e k s) x c = Returned (v, c') \<and> dc_rest c' = [] \<and> dc_user c' = dc_user c"
  by (rule rpc_call_returns[OF assms])

lemma remote_call_returns_witness:
  "\<exists>c'. rpc_call (\<lambda>_. 0) (answers demo_env 41 demo_client_server) (Rpc_Close 5)
     \<lparr>dc_user = 7, dc_sent = [], dc_rest = []\<rparr> = Returned (-1, c')"
proof -
  let ?s = demo_client_server and ?cl = "\<lparr>ip = \<lparr>addr = ''10.0.0.1''\<rparr>, user_id = 7, ctc = 41\<rparr> :: client"
  have close: "close_file 5 ?cl (bs_core ?s) = Returned (send_reply (Close_Result ?cl (-1)) (bs_core ?s))"
    by (simp add: demo_client_server_facts demo_server_facts close_file_def core_close_file_cursor_def close_file_cursor_def
        om_find_def oc_find_def oc_lower_bound_def vmeta_codes)
  obtain s' where s': "serve demo_env 41 (Close_File 5) ?s = Returned s'"
    "br_replies (bs_core s') = br_replies (bs_core ?s) @ [Close_Result ?cl (-1)]"
    using close demo_client_server_facts(1)
    by (auto simp: for_client_def client_at_def on_core_def packet_class_defs word_packet_image)
  show ?thesis
    using remote_call_returns[of 41 ?s ?cl "Rpc_Close 5" "-1" "\<lparr>dc_user = 7, dc_sent = [], dc_rest = []\<rparr>"
        demo_env s' "\<lambda>_. 0"] s' demo_client_server_facts(1)
    by (auto simp: fits_int_def)
qed

lemma unanswered_exchange:
  assumes "om_find (<) k (bs_clients s) = Some cl" "valid_message m" "m \<in> {Make_Dir path mode, Open_Dir path}" "dc_rest c = []"
  shows "exchange heap (answers e k s) (message_packet heap m) response c = Running"
proof -
  obtain p where p: "message_packet heap m = Some p" "handleMessageFromClient e k (pk_buf p @ []) s = Returned (s, [])"
    using directory_requests_unanswered[OF assms(1-3)] by blast
  obtain q where "\<And>heap. message_packet heap m = Some q" "unat (pk_size q) = length (pk_buf q)"
    by (rule message_received[OF assms(2)]) metis
  with p have "unat (pk_size p) = length (pk_buf p)" by simp
  with p assms(4) show ?thesis by (simp add: exchange_def Let_def answers_def sendToServer_def)
qed

text \<open>
  The two directory calls of the client library never return: the barista takes the request
  and sends no answer.
\<close>

theorem directory_calls_hang:
  assumes "om_find (<) k (bs_clients s) = Some cl" "valid_string path" "length path < 256" "dc_rest c = []"
  shows "client_mkdir heap (answers e k s) path mode c = Running \<and>
    client_opendir heap (answers e k s) path c = Running"
  using assms unanswered_exchange[OF assms(1), of "Make_Dir path mode" path mode c heap e MkdirResponsePacket_of]
    unanswered_exchange[OF assms(1), of "Open_Dir path" path mode c heap e OpendirResponsePacket_of]
  by (simp add: client_mkdir_def client_opendir_def)

lemma directory_calls_hang_witness:
  "client_mkdir (\<lambda>_. 0) (answers demo_env 41 demo_client_server) ''/d'' 0 \<lparr>dc_user = 7, dc_sent = [], dc_rest = []\<rparr> = Running"
  using directory_calls_hang[OF demo_client_server_facts(1), of "''/d''" "\<lparr>dc_user = 7, dc_sent = [], dc_rest = []\<rparr>"]
  by (simp add: valid_string_def c_string_def)

text \<open>
  A call takes whatever packet comes first as its answer: an answer that belongs to another
  call, recognisable by its flag, is returned as the result.
\<close>

theorem any_answer_accepted:
  assumes "length path < 2 ^ 31 - 100" "fits_int v" "dc_rest c = []"
  shows "\<exists>c' p. CloseResponsePacket heap' v = Some p \<and>
    client_open heap (\<lambda>_. Some (pk_buf p)) path flags c = Returned (v, c')"
proof -
  let ?r = "packet_image 0 (flag_code CLOSE_RESPONSE) (word_bytes (word_of_int v))"
  have "take_packet heap (pk_buf ?r) = Returned (flag_code CLOSE_RESPONSE, pk_buf ?r, [])"
    using take_packet_image[of "word_bytes (word_of_int v)" heap 0 "flag_code CLOSE_RESPONSE" "[]"] by simp
  with assms show ?thesis
    by (simp add: packet_class_defs word_packet_image client_open_def exchange_def OpenPacket_image sendToServer_def
        Let_def OpenPacketResponse_of_def)
qed

lemma any_answer_accepted_witness:
  "\<exists>c' p. CloseResponsePacket (\<lambda>_. 0) 3 = Some p \<and>
    client_open (\<lambda>_. 0) (\<lambda>_. Some (pk_buf p)) ''/a'' 2 \<lparr>dc_user = 7, dc_sent = [], dc_rest = []\<rparr> = Returned (3, c')"
  by (rule any_answer_accepted) (simp_all add: fits_int_def)

end
