(* ===== verification/Tcp.thy ===== *)
theory Tcp
  imports Barista_Server
begin

text \<open>
  \<open>net_tcp\<close>: the loop of \<open>tcp_server.cpp\<close> that accepts connections and passes on what they
  send, and the state of \<open>tcp_client.cpp\<close>. What the operating system answers (which sockets
  are readable, the results of \<open>accept\<close>, of the peeking \<open>recv\<close>, of \<open>connect\<close>) is an argument
  of each step. The virtual functions a server fills in are the parameters \<open>connected\<close>,
  \<open>disconnected\<close> and \<open>handle\<close> over a state \<open>'s\<close>.
\<close>

section \<open>TcpServer\<close>

definition FD_SETSIZE :: u32 where "FD_SETSIZE = 1024"

text \<open>A connection is the descriptor stored in it and its identity; the key is the descriptor as \<open>int\<close>.\<close>

record 's tcp_server =
  ts_port :: "16 word"
  ts_socket :: u32
  ts_highest :: u32
  ts_clients :: "(int \<times> u32 \<times> conn) list"
  ts_client_set :: "u32 set"
  ts_open :: bool
  ts_listening :: bool
  ts_state :: 's

text \<open>
  \<open>sock\<close> is the result of \<open>socket\<close>. It is stored in an unsigned number, so a failure is not
  noticed; failures of \<open>bind\<close> and \<open>listen\<close> are printed and ignored.
\<close>

definition setup_socket :: "int \<Rightarrow> 's tcp_server \<Rightarrow> 's tcp_server" where
  "setup_socket sock t = t\<lparr>ts_socket := word_of_int sock, ts_open := True\<rparr>"

text \<open>
  The client set and the listening flag have no initial value: they are what \<open>junk\<close> gives. Adding
  a descriptor beyond the end of an \<open>fd_set\<close> is undefined.
\<close>

definition new_tcp_server :: "16 word \<Rightarrow> int \<Rightarrow> u32 set \<times> bool \<Rightarrow> 's \<Rightarrow> 's tcp_server outcome" where
  "new_tcp_server port sock junk s =
     (let t = setup_socket sock \<lparr>ts_port = port, ts_socket = 0, ts_highest = 0, ts_clients = [],
            ts_client_set = fst junk, ts_open = False, ts_listening = snd junk, ts_state = s\<rparr>
      in guard_defined (ts_socket t < FD_SETSIZE) (Returned (t\<lparr>ts_highest := ts_socket t\<rparr>)))"

text \<open>What one round of the loop meets: the new connection, the readable sockets and what peeking at them gives.\<close>

record round =
  rd_pending :: bool
  rd_accept :: int
  rd_conn :: conn
  rd_ready :: "u32 \<Rightarrow> bool"
  rd_peek :: "u32 \<Rightarrow> int"

text \<open>The result of \<open>accept\<close> is stored in an unsigned number, so the test for an error never succeeds.\<close>

definition check_for_clients :: "(conn \<Rightarrow> 's \<Rightarrow> 's) \<Rightarrow> round \<Rightarrow> 's tcp_server \<Rightarrow> 's tcp_server outcome" where
  "check_for_clients connected r t =
     (if rd_pending r then
        let fd = (word_of_int (rd_accept r) :: u32) in
        if fd < 0 then Returned t
        else guard_defined (fd < FD_SETSIZE) (Returned (t\<lparr>
            ts_highest := (if fd > ts_highest t then fd else ts_highest t),
            ts_clients := om_update (<) (sint fd) (fd, rd_conn r) (ts_clients t),
            ts_client_set := insert fd (ts_client_set t),
            ts_state := connected (rd_conn r) (ts_state t)\<rparr>))
      else Returned t)"

text \<open>The end of a connection: its callback, its bit and its entry; its descriptor is not closed.\<close>

definition end_connection :: "(conn \<Rightarrow> 's \<Rightarrow> 's) \<Rightarrow> int \<Rightarrow> u32 \<Rightarrow> conn \<Rightarrow> 's tcp_server \<Rightarrow> 's tcp_server" where
  "end_connection disconnected key fd k t = t\<lparr>ts_state := disconnected k (ts_state t),
     ts_client_set := ts_client_set t - {fd}, ts_clients := om_erase (<) key (ts_clients t)\<rparr>"

text \<open>
  One element of the loop over \<open>m_clients\<close>; \<open>tmp_set\<close> is the copy of the client set made before
  the loop. The flag tells that the element itself was erased.
\<close>

definition check_message ::
    "(conn \<Rightarrow> 's \<Rightarrow> 's) \<Rightarrow> (conn \<Rightarrow> 's \<Rightarrow> 's outcome) \<Rightarrow> round \<Rightarrow> int \<times> u32 \<times> conn \<Rightarrow> 's tcp_server \<Rightarrow>
     (bool \<times> 's tcp_server) outcome" where
  "check_message disconnected handle r x t =
     (case x of (key, fd, k) \<Rightarrow>
        if rd_ready r fd then
          if rd_peek r fd > 0 then
            outcome_bind (handle k (ts_state t)) (\<lambda>s. Returned (False, t\<lparr>ts_state := s\<rparr>))
          else if rd_peek r fd = 0 then Returned (True, end_connection disconnected key fd k t)
          else Returned (False, t)
        else Returned (False, t))"

text \<open>After an erased element the iterator, which still stands on it, is incremented: undefined.\<close>

fun message_loop ::
    "(conn \<Rightarrow> 's \<Rightarrow> 's) \<Rightarrow> (conn \<Rightarrow> 's \<Rightarrow> 's outcome) \<Rightarrow> round \<Rightarrow> (int \<times> u32 \<times> conn) list \<Rightarrow> 's tcp_server \<Rightarrow>
     's tcp_server outcome" where
  "message_loop disconnected handle r [] t = Returned t"
| "message_loop disconnected handle r (x # xs) t =
     outcome_bind (check_message disconnected handle r x t) (\<lambda>(erased, t').
       guard_defined (\<not> erased) (message_loop disconnected handle r xs t'))"

definition check_for_messages ::
    "(conn \<Rightarrow> 's \<Rightarrow> 's) \<Rightarrow> (conn \<Rightarrow> 's \<Rightarrow> 's outcome) \<Rightarrow> round \<Rightarrow> 's tcp_server \<Rightarrow> 's tcp_server outcome" where
  "check_for_messages disconnected handle r t = message_loop disconnected handle r (ts_clients t) t"

text \<open>\<open>run\<close> for the rounds given.\<close>

fun rounds ::
    "(conn \<Rightarrow> 's \<Rightarrow> 's) \<Rightarrow> (conn \<Rightarrow> 's \<Rightarrow> 's) \<Rightarrow> (round \<Rightarrow> conn \<Rightarrow> 's \<Rightarrow> 's outcome) \<Rightarrow> round list \<Rightarrow> 's tcp_server \<Rightarrow>
     's tcp_server outcome" where
  "rounds connected disconnected handle [] t = Returned t"
| "rounds connected disconnected handle (r # rs) t =
     (if ts_listening t \<and> ts_open t then
        outcome_bind (check_for_clients connected r t) (\<lambda>t1.
        outcome_bind (check_for_messages disconnected (handle r) r t1) (\<lambda>t2.
          rounds connected disconnected handle rs t2))
      else Returned (t\<lparr>ts_listening := False\<rparr>))"

definition run_server ::
    "(conn \<Rightarrow> 's \<Rightarrow> 's) \<Rightarrow> (conn \<Rightarrow> 's \<Rightarrow> 's) \<Rightarrow> (round \<Rightarrow> conn \<Rightarrow> 's \<Rightarrow> 's outcome) \<Rightarrow> round list \<Rightarrow> 's tcp_server \<Rightarrow>
     's tcp_server outcome" where
  "run_server connected disconnected handle rs t =
     rounds connected disconnected handle rs (t\<lparr>ts_listening := True\<rparr>)"

definition isListening :: "'s tcp_server \<Rightarrow> bool" where
  "isListening t = ts_listening t"

definition stopListening :: "'s tcp_server \<Rightarrow> 's tcp_server" where
  "stopListening t = t\<lparr>ts_listening := False\<rparr>"

text \<open>\<open>close\<close> spins until the server no longer listens, in a thread of its own; then the sockets are closed.\<close>

definition close_server :: "'s tcp_server \<Rightarrow> 's tcp_server outcome" where
  "close_server t = (let t1 = t\<lparr>ts_open := False\<rparr> in if isListening t1 then Running else Returned t1)"

definition server_getPort :: "'s tcp_server \<Rightarrow> int" where
  "server_getPort t = uint (ts_port t)"

definition getNumberOfClients :: "'s tcp_server \<Rightarrow> int" where
  "getNumberOfClients t = int (length (ts_clients t))"

section \<open>TcpClient\<close>

record tcp_client =
  tc_name :: string
  tc_host :: string
  tc_port :: "16 word"
  tc_socket :: u32
  tc_open :: bool

definition new_tcp_client :: "string \<Rightarrow> 16 word \<Rightarrow> tcp_client" where
  "new_tcp_client host port = \<lparr>tc_name = [], tc_host = host, tc_port = port, tc_socket = 0, tc_open = False\<rparr>"

definition getHost :: "tcp_client \<Rightarrow> string" where
  "getHost t = tc_host t"

definition client_getPort :: "tcp_client \<Rightarrow> int" where
  "client_getPort t = uint (tc_port t)"

definition isConnected :: "tcp_client \<Rightarrow> bool" where
  "isConnected t = tc_open t"

definition setHost :: "string \<Rightarrow> tcp_client \<Rightarrow> tcp_client" where
  "setHost hostname t = t\<lparr>tc_host := hostname\<rparr>"

definition setPort :: "int \<Rightarrow> tcp_client \<Rightarrow> tcp_client" where
  "setPort port t = t\<lparr>tc_port := word_of_int port\<rparr>"

definition setName :: "string \<Rightarrow> tcp_client \<Rightarrow> tcp_client" where
  "setName name t = t\<lparr>tc_name := name\<rparr>"

text \<open>
  \<open>sock\<close> and \<open>result\<close> are the results of \<open>socket\<close> and \<open>connect\<close>, the latter given the socket and
  the port; \<open>resolved\<close> tells whether \<open>gethostbyname\<close> finds a host. A host it does not find is used
  all the same, through \<open>NULL\<close>, and a failed \<open>socket\<close> goes unnoticed: the number it is stored in is
  unsigned. \<open>established\<close> is the virtual function called on success.
\<close>

definition openConnection ::
    "int \<Rightarrow> (string \<Rightarrow> bool) \<Rightarrow> (u32 \<Rightarrow> 16 word \<Rightarrow> int) \<Rightarrow> (tcp_client \<Rightarrow> tcp_client) \<Rightarrow> tcp_client \<Rightarrow>
     (int \<times> tcp_client) outcome" where
  "openConnection sock resolved result established t =
     (let t1 = t\<lparr>tc_socket := word_of_int sock\<rparr> in
      if tc_socket t1 < 0 then Returned (0, t1)
      else guard_defined (resolved (tc_host t1))
        (if result (tc_socket t1) (tc_port t1) < 0 then Returned (0, t1)
         else Returned (1, established (t1\<lparr>tc_open := True\<rparr>))))"

text \<open>\<open>connectionClosed\<close> of both clients only prints.\<close>

definition closeConnection :: "tcp_client \<Rightarrow> tcp_client" where
  "closeConnection t = t\<lparr>tc_open := False\<rparr>"

text \<open>One iteration of \<open>run\<close> when the socket was found readable; \<open>len\<close> is the result of the peeking \<open>recv\<close>.\<close>

definition client_round ::
    "(tcp_client \<Rightarrow> tcp_client outcome) \<Rightarrow> bool \<times> int \<Rightarrow> tcp_client \<Rightarrow> tcp_client outcome" where
  "client_round handle r t =
     (case r of (ready, len) \<Rightarrow>
        if ready then
          if len < 0 then Returned t
          else if len = 0 then Returned (closeConnection t)
          else handle t
        else Returned t)"

fun run_client :: "(tcp_client \<Rightarrow> tcp_client outcome) \<Rightarrow> (bool \<times> int) list \<Rightarrow> tcp_client \<Rightarrow> tcp_client outcome" where
  "run_client handle [] t = Returned t"
| "run_client handle (r # rs) t =
     (if tc_open t then outcome_bind (client_round handle r t) (run_client handle rs) else Returned t)"

section \<open>The contract of the callbacks\<close>

locale server_callbacks =
  fixes connected :: "conn \<Rightarrow> 's \<Rightarrow> 's"
    and handle :: "round \<Rightarrow> conn \<Rightarrow> 's \<Rightarrow> 's outcome"
    and inv :: "'s \<Rightarrow> bool"
  assumes connected_inv: "inv s \<Longrightarrow> inv (connected k s)"
    and handle_inv: "inv s \<Longrightarrow> handle r k s = Returned s' \<Longrightarrow> inv s'"

text \<open>The descriptors of the connections in the table.\<close>

definition table_sockets :: "'s tcp_server \<Rightarrow> u32 set" where
  "table_sockets t = (\<lambda>(key, fd, k). fd) ` set (ts_clients t)"

text \<open>
  Every descriptor in the table is in range, stands under its own key and is at most the highest one,
  so that \<open>select\<close> looks at it; and the watched descriptors are those of the table and those of \<open>w\<close>.
\<close>

definition tables_agree :: "u32 set \<Rightarrow> 's tcp_server \<Rightarrow> bool" where
  "tables_agree w t \<longleftrightarrow> oc_sorted (<) UNIV fst (ts_clients t) \<and>
     (\<forall>(key, fd, k) \<in> set (ts_clients t). key = sint fd \<and> fd < FD_SETSIZE \<and> fd \<le> ts_highest t) \<and>
     ts_client_set t = table_sockets t \<union> w"

lemma tables_agree_cong [simp]:
  "tables_agree w (t\<lparr>ts_state := s\<rparr>) = tables_agree w t"
  "tables_agree w (t\<lparr>ts_listening := b\<rparr>) = tables_agree w t"
  by (simp_all add: tables_agree_def table_sockets_def)

lemma set_om_update:
  fixes m :: "(int \<times> 'v) list"
  assumes "oc_sorted (<) UNIV fst m"
  shows "set (om_update (<) k v m) = insert (k, v) {x \<in> set m. fst x \<noteq> k}"
proof -
  have so: "oc_sorted (<) UNIV fst (om_update (<) k v m)" by (rule int_order.sorted_om_update[OF assms]) simp
  have m: "map_of (om_update (<) k v m) = (map_of m)(k \<mapsto> v)" by (rule int_order.map_of_om_update[OF assms]) simp
  have mem: "(x \<in> set n) = (map_of n (fst x) = Some (snd x))" if "oc_sorted (<) UNIV fst n" for n :: "(int \<times> 'v) list" and x
    using int_order.sorted_distinct_keys[OF that] by (cases x) simp
  show ?thesis
  proof (rule set_eqI)
    fix x show "x \<in> set (om_update (<) k v m) \<longleftrightarrow> x \<in> insert (k, v) {x \<in> set m. fst x \<noteq> k}"
      unfolding mem[OF so] insert_iff mem_Collect_eq mem[OF assms] m by (cases x) auto
  qed
qed

text \<open>A new connection takes the place of an earlier one only under the same descriptor.\<close>

lemma table_sockets_update:
  assumes "oc_sorted (<) UNIV fst (ts_clients t)" "\<forall>(key, fd, k) \<in> set (ts_clients t). key = sint fd"
  shows "(\<lambda>(key, fd, k). fd) ` set (om_update (<) (sint fd) (fd, k) (ts_clients t)) = insert fd (table_sockets t)"
proof -
  have "fd' \<in> (\<lambda>(key, fd, k). fd) ` insert (sint fd, fd, k) {x \<in> set (ts_clients t). fst x \<noteq> sint fd}"
    if "(key, fd', k') \<in> set (ts_clients t)" for key fd' k'
  proof (cases "fd' = fd")
    case False
    with that assms(2) have "(key, fd', k') \<in> {x \<in> set (ts_clients t). fst x \<noteq> sint fd}" by (fastforce dest: signed_word_eqI)
    then show ?thesis by (auto intro: rev_image_eqI)
  qed (auto intro: rev_image_eqI)
  then have "insert fd (table_sockets t) \<subseteq>
      (\<lambda>(key, fd, k). fd) ` insert (sint fd, fd, k) {x \<in> set (ts_clients t). fst x \<noteq> sint fd}"
    by (auto simp: table_sockets_def)
  then show ?thesis unfolding set_om_update[OF assms(1)] table_sockets_def
    by (rule equalityI[rotated], unfold image_insert prod.case) (intro insert_mono image_mono, blast)
qed

context server_callbacks
begin

lemma check_for_clients_inv:
  assumes "inv (ts_state t)" "tables_agree w t"
  shows "ends (\<lambda>t'. inv (ts_state t') \<and> tables_agree w t') (check_for_clients connected r t)"
proof -
  let ?fd = "word_of_int (rd_accept r) :: u32"
  let ?m = "om_update (<) (sint ?fd) (?fd, rd_conn r) (ts_clients t)"
  have so: "oc_sorted (<) UNIV fst (ts_clients t)"
    and keys: "\<forall>(key, fd, k) \<in> set (ts_clients t). key = sint fd"
    using assms(2) by (auto simp: tables_agree_def)
  have som: "oc_sorted (<) UNIV fst ?m" by (rule int_order.sorted_om_update[OF so]) simp
  have in_range: "\<forall>(key, fd, k) \<in> set ?m. key = sint fd \<and> fd < FD_SETSIZE \<and>
      fd \<le> (if ?fd > ts_highest t then ?fd else ts_highest t)" if "?fd < FD_SETSIZE"
    using assms(2) that unfolding set_om_update[OF so] by (fastforce simp: tables_agree_def)
  show ?thesis
    using assms som in_range table_sockets_update[OF so keys, of ?fd "rd_conn r"]
    by (simp add: check_for_clients_def Let_def connected_inv tables_agree_def ends_guards table_sockets_def)
qed

lemma message_loop_inv:
  assumes "inv (ts_state t)" "tables_agree w t"
  shows "ends (\<lambda>t'. inv (ts_state t') \<and> tables_agree w t') (message_loop disconnected (handle r) r xs t)"
  using assms
proof (induction xs arbitrary: t)
  case (Cons x xs)
  have "ends (\<lambda>(erased, t'). erased \<or> (inv (ts_state t') \<and> tables_agree w t'))
      (check_message disconnected (handle r) r x t)"
    using Cons.prems by (cases x) (auto simp: check_message_def ends_def dest: handle_inv)
  then show ?case
    unfolding message_loop.simps by (rule ends_bind) (use Cons.IH in auto)
qed simp

lemma rounds_inv:
  assumes "inv (ts_state t)" "tables_agree w t"
  shows "ends (\<lambda>t'. inv (ts_state t') \<and> tables_agree w t') (rounds connected disconnected handle rs t)"
  using assms
proof (induction rs arbitrary: t)
  case (Cons r rs)
  show ?case
  proof (cases "ts_listening t \<and> ts_open t")
    case True
    have "ends (\<lambda>t'. inv (ts_state t') \<and> tables_agree w t') (outcome_bind (check_for_clients connected r t) (\<lambda>t1.
        outcome_bind (check_for_messages disconnected (handle r) r t1) (rounds connected disconnected handle rs)))"
      by (rule ends_bind[OF check_for_clients_inv[OF Cons.prems]], unfold check_for_messages_def,
          rule ends_bind[OF message_loop_inv]) (use Cons.IH in auto)
    with True show ?thesis by simp
  qed (use Cons.prems in auto)
qed simp

end

section \<open>The barista behind the loop\<close>

text \<open>\<open>sent r k\<close> are the bytes that connection \<open>k\<close> holds in round \<open>r\<close>.\<close>

definition barista_handle ::
    "environment \<Rightarrow> (round \<Rightarrow> conn \<Rightarrow> u8 list) \<Rightarrow> round \<Rightarrow> conn \<Rightarrow> barista_server \<Rightarrow> barista_server outcome" where
  "barista_handle e sent r k s =
     outcome_bind (handleMessageFromClient e k (sent r k) s) (\<lambda>(s', rest). Returned s')"

interpretation barista_loop: server_callbacks clientConnected "barista_handle e sent" server_reach for e sent
proof
  show "server_reach s \<Longrightarrow> server_reach (clientConnected k s)" for s k by (rule server_reach.connected)
  show "server_reach s'" if "server_reach s" "barista_handle e sent r k s = Returned s'" for s s' k r
    using that by (auto simp: barista_handle_def intro: server_reach.message)
qed

text \<open>
  C36: whatever connects and whatever is sent to it, in every run of the server's loop with defined
  behaviour, which is a run in which no connection ends, the loop only visits reachable states of the
  barista. The sockets it watches are those of the connections in its table, each of them within the
  reach of \<open>select\<close>, together with whatever the client set, which the constructor does not
  initialise, held at first; if that was nothing, exactly the sockets of the table.
\<close>

theorem server_loop_safe:
  assumes "server_reach s" "new_tcp_server port sock junk s = Returned t"
    and "run_server clientConnected clientDisconnected (barista_handle e sent) rs t = Returned t'"
  shows "server_reach (ts_state t') \<and>
    ts_client_set t' = table_sockets t' \<union> fst junk \<and> (\<forall>fd \<in> table_sockets t'. fd < FD_SETSIZE \<and> fd \<le> ts_highest t')"
proof -
  let ?t = "t\<lparr>ts_listening := True\<rparr>"
  have "server_reach (ts_state ?t)" "tables_agree (fst junk) ?t"
    using assms(1,2)
    by (auto simp: new_tcp_server_def tables_agree_def table_sockets_def oc_sorted_def setup_socket_def Let_def)
  from endsD[OF barista_loop.rounds_inv[OF this], of clientDisconnected e sent rs t'] assms(3)
  show ?thesis by (fastforce simp: run_server_def tables_agree_def table_sockets_def)
qed

lemma quiet_round: "message_loop disconnected handle (r\<lparr>rd_ready := \<lambda>_. False\<rparr>) xs t = Returned t"
  by (induction xs) (simp_all add: check_message_def split_beta)

lemma server_loop_safe_witness:
  "\<exists>t t'. new_tcp_server 3899 3 ({}, False) demo_server = Returned t \<and>
    run_server clientConnected clientDisconnected (barista_handle demo_env (\<lambda>_ _. []))
      [\<lparr>rd_pending = True, rd_accept = 5, rd_conn = 60, rd_ready = \<lambda>_. False, rd_peek = \<lambda>_. 0\<rparr>] t = Returned t' \<and>
    ts_client_set t' = {5} \<and> table_sockets t' = {5} \<and> server_reach (ts_state t')"
proof -
  let ?r = "\<lparr>rd_pending = True, rd_accept = 5, rd_conn = 60, rd_ready = \<lambda>_. False, rd_peek = \<lambda>_. 0\<rparr>"
  obtain t t' where t: "new_tcp_server 3899 3 ({}, False) demo_server = Returned t"
    "run_server clientConnected clientDisconnected (barista_handle demo_env (\<lambda>_ _. [])) [?r] t = Returned t'"
    "ts_client_set t' = {5}"
    by (simp add: run_server_def new_tcp_server_def setup_socket_def check_for_clients_def FD_SETSIZE_def
        check_for_messages_def quiet_round[of _ _ ?r, simplified])
  with server_loop_safe[OF demo_server_reach t(1,2)] show ?thesis by auto
qed

text \<open>
  What the operating system may do to the loop: the end of any connection leaves it without defined
  behaviour, since after the entry of the connection is erased the loop goes on from the erased entry;
  and so does a failure of \<open>accept\<close> or of \<open>socket\<close>, whose result -1 is stored in an unsigned number,
  passes the test for an error and is then added to a descriptor set.
\<close>

theorem network_failures_undefined:
  assumes "(key, fd, k) \<in> set (ts_clients t)" "rd_ready r fd" "rd_peek r fd = 0"
    and "rd_pending r'" "rd_accept r' = -1"
  shows "(\<nexists>t'. check_for_messages disconnected handle r t = Returned t') \<and>
    check_for_clients connected r' t = Unspecified \<and> new_tcp_server port (-1) junk s = Unspecified"
proof -
  have "(key, fd, k) \<in> set xs \<Longrightarrow> message_loop disconnected handle r xs u \<noteq> Returned t'" for xs u t'
    using assms(2,3) by (induction xs arbitrary: u) (auto simp: check_message_def)
  moreover have "\<not> (- 1 :: u32) < FD_SETSIZE" by (simp add: FD_SETSIZE_def)
  ultimately show ?thesis using assms(1,4,5)
    by (simp add: check_for_messages_def check_for_clients_def new_tcp_server_def setup_socket_def Let_def)
qed

lemma network_failures_undefined_witness:
  "\<nexists>t'. check_for_messages clientDisconnected (\<lambda>k. Returned)
      \<lparr>rd_pending = True, rd_accept = -1, rd_conn = 0, rd_ready = \<lambda>_. True, rd_peek = \<lambda>_. 0\<rparr>
      \<lparr>ts_port = 3899, ts_socket = 3, ts_highest = 5, ts_clients = [(5, 5, 40)], ts_client_set = {5}, ts_open = True,
        ts_listening = True, ts_state = demo_server\<rparr> = Returned t'"
  by (rule network_failures_undefined[of 5 5 40 _ _
        "\<lparr>rd_pending = True, rd_accept = -1, rd_conn = 0, rd_ready = \<lambda>_. True, rd_peek = \<lambda>_. 0\<rparr>"
        clientDisconnected "\<lambda>k. Returned" clientConnected 3899 "({}, True)" demo_server, THEN conjunct1]) simp_all

end
