(* ===== verification/Fuse.thy ===== *)
theory Fuse
  imports Decafs_Client Tcp
begin

text \<open>
  The FUSE file system, \<open>decafs_fuse.cc\<close>: the callbacks that the FUSE library calls for the
  requests of the kernel, on top of the client library. What FUSE passes in and out (paths, the
  \<open>fuse_file_info\<close> of an open file, buffers) are arguments and results. \<open>world\<close> is what arrives at the
  client's socket, as in \<open>Decafs_Client\<close>. \<open>del\<close> stands for \<open>DecafsClient::delete_file\<close>, which
  \<open>custom_unlink\<close> calls and the client library does not have.
\<close>

unbundle bit_operations_syntax

section \<open>Types and codes\<close>

text \<open>The error numbers of Linux.\<close>

definition EPERM :: int where "EPERM = 1"
definition EBADF :: int where "EBADF = 9"
definition EINVAL :: int where "EINVAL = 22"
definition ENAMETOOLONG :: int where "ENAMETOOLONG = 36"
definition ENOSYS :: int where "ENOSYS = 38"
definition ENOTSUP :: int where "ENOTSUP = 95"

lemmas errno_defs = EPERM_def EBADF_def EINVAL_def ENAMETOOLONG_def ENOSYS_def ENOTSUP_def

text \<open>The members of \<open>struct fuse_file_info\<close> and \<open>struct stat\<close> that the callbacks use.\<close>

record fuse_file_info =
  ff_flags :: int
  ff_fh :: "64 word"

record stat_data =
  sd_mode :: u32
  sd_nlink :: nat
  sd_uid :: u32
  sd_gid :: u32
  sd_size :: int
  sd_blksize :: int
  sd_blocks :: int
  sd_atim :: "int \<times> int"
  sd_mtim :: "int \<times> int"
  sd_ctim :: "int \<times> int"

definition S_IFREG :: u32 where "S_IFREG = 32768"

definition check_pathlen :: "string \<Rightarrow> int \<Rightarrow> int" where
  "check_pathlen path result = (if length path > 255 then - ENAMETOOLONG else result)"

text \<open>The file handle, a \<open>uint64_t\<close>, as the \<open>int\<close> that the client library takes.\<close>

definition handle_fd :: "fuse_file_info \<Rightarrow> int" where
  "handle_fd fi = sint (ucast (ff_fh fi) :: u32)"

section \<open>The callbacks that talk to the barista\<close>

definition custom_open ::
    "(nat \<Rightarrow> u8) \<Rightarrow> (u8 list \<Rightarrow> u8 list option) \<Rightarrow> string \<Rightarrow> fuse_file_info \<Rightarrow> decafs_client \<Rightarrow>
     ((int \<times> fuse_file_info) \<times> decafs_client) outcome" where
  "custom_open heap world path fi c =
     outcome_bind (client_open heap world path (ff_flags fi) c) (\<lambda>(fd, c').
       if fd < 0 then Returned ((- EPERM, fi), c')
       else Returned ((0, fi\<lparr>ff_fh := word_of_int fd\<rparr>), c'))"

definition custom_create ::
    "(nat \<Rightarrow> u8) \<Rightarrow> (u8 list \<Rightarrow> u8 list option) \<Rightarrow> string \<Rightarrow> u32 \<Rightarrow> fuse_file_info \<Rightarrow> decafs_client \<Rightarrow>
     ((int \<times> fuse_file_info) \<times> decafs_client) outcome" where
  "custom_create heap world path mode fi c = custom_open heap world path fi c"

text \<open>The buffer of a read has \<open>sz\<close> bytes; neither path nor offset is used.\<close>

definition custom_read ::
    "(nat \<Rightarrow> u8) \<Rightarrow> (u8 list \<Rightarrow> u8 list option) \<Rightarrow> string \<Rightarrow> nat \<Rightarrow> int \<Rightarrow> fuse_file_info \<Rightarrow> decafs_client \<Rightarrow>
     ((int \<times> u8 list) \<times> decafs_client) outcome" where
  "custom_read heap world path sz offset fi c =
     outcome_bind (client_read heap world (handle_fd fi) sz (int sz) c) (\<lambda>((len, data), c').
       if len < 0 then Returned ((- EBADF, data), c') else Returned ((len, data), c'))"

definition custom_write ::
    "(nat \<Rightarrow> u8) \<Rightarrow> (u8 list \<Rightarrow> u8 list option) \<Rightarrow> string \<Rightarrow> u8 list \<Rightarrow> nat \<Rightarrow> int \<Rightarrow> fuse_file_info \<Rightarrow> decafs_client \<Rightarrow>
     (int \<times> decafs_client) outcome" where
  "custom_write heap world path buf sz offset fi c =
     outcome_bind (client_write heap world (handle_fd fi) buf (int sz) c) (\<lambda>(len, c').
       if len < 0 then Returned (- EBADF, c') else Returned (len, c'))"

definition custom_unlink ::
    "(string \<Rightarrow> decafs_client \<Rightarrow> decafs_client outcome) \<Rightarrow> string \<Rightarrow> decafs_client \<Rightarrow> (int \<times> decafs_client) outcome" where
  "custom_unlink del path c =
     (if length path > 255 then Returned (- ENAMETOOLONG, c)
      else outcome_bind (del path c) (\<lambda>c'. Returned (0, c')))"

text \<open>Mounting: the result of \<open>openConnection\<close> is ignored.\<close>

definition custom_init ::
    "(nat \<Rightarrow> u8) \<Rightarrow> int \<Rightarrow> (string \<Rightarrow> bool) \<Rightarrow> (u32 \<Rightarrow> 16 word \<Rightarrow> int) \<Rightarrow> (tcp_client \<times> decafs_client) outcome" where
  "custom_init heap sock resolved result =
     (let c = \<lparr>dc_user = 2, dc_sent = [], dc_rest = []\<rparr> in
      outcome_bind (openConnection sock resolved result id (new_tcp_client ''192.168.1.100'' 3333)) (\<lambda>(ok, t).
        if ok = 0 then Returned (t, c)
        else outcome_bind (client_hello heap c) (\<lambda>c'. Returned (t, c'))))"

definition custom_destroy :: "decafs_client option \<Rightarrow> decafs_client option" where
  "custom_destroy private_data = None"

section \<open>The callbacks that do not\<close>

text \<open>Arguments that are not looked at, such as the buffers of attributes, are left out.\<close>

definition custom_getattr :: "string \<Rightarrow> stat_data \<Rightarrow> int \<times> stat_data" where
  "custom_getattr path sd =
     (if length path > 255 then (- ENAMETOOLONG, sd)
      else (0, \<lparr>sd_mode = S_IFREG OR 511, sd_nlink = 1, sd_uid = 0, sd_gid = 0, sd_size = 0, sd_blksize = 4096, sd_blocks = 0,
         sd_atim = (0, 0), sd_mtim = (0, 0), sd_ctim = (0, 0)\<rparr>))"

definition custom_readlink :: "string \<Rightarrow> nat \<Rightarrow> int" where "custom_readlink path bufsize = - EINVAL"
definition custom_mknod :: "string \<Rightarrow> u32 \<Rightarrow> int" where "custom_mknod path mode = - EPERM"
definition custom_mkdir :: "string \<Rightarrow> u32 \<Rightarrow> int" where "custom_mkdir path mode = check_pathlen path 0"
definition custom_rmdir :: "string \<Rightarrow> int" where "custom_rmdir path = check_pathlen path 0"
definition custom_symlink :: "string \<Rightarrow> string \<Rightarrow> int" where "custom_symlink path link_path = - EPERM"
definition custom_rename :: "string \<Rightarrow> string \<Rightarrow> int" where "custom_rename old_path new_path = - EPERM"
definition custom_link :: "string \<Rightarrow> string \<Rightarrow> int" where "custom_link path link_path = - EPERM"

definition custom_chmod :: "string \<Rightarrow> u32 \<Rightarrow> int" where
  "custom_chmod path mode = check_pathlen path (if mode \<noteq> 511 then - EINVAL else 0)"

text \<open>The two ids are unsigned; -1 is their largest value.\<close>

definition custom_chown :: "string \<Rightarrow> u32 \<Rightarrow> u32 \<Rightarrow> int" where
  "custom_chown path owner_id group_id =
     check_pathlen path
      (if owner_id \<noteq> 0 \<or> owner_id \<noteq> -1 \<or> group_id \<noteq> 0 \<or> group_id \<noteq> -1 then - EINVAL else 0)"

definition custom_truncate :: "string \<Rightarrow> int \<Rightarrow> int" where "custom_truncate path len = - EPERM"
definition custom_statfs :: "string \<Rightarrow> int" where "custom_statfs path = - ENOSYS"
definition custom_flush :: "string \<Rightarrow> fuse_file_info \<Rightarrow> int" where "custom_flush path fi = 0"
definition custom_release :: "string \<Rightarrow> fuse_file_info \<Rightarrow> int" where "custom_release path fi = 0"
definition custom_fsync :: "string \<Rightarrow> int \<Rightarrow> fuse_file_info \<Rightarrow> int" where "custom_fsync path datasync fi = 0"
definition custom_setxattr :: "string \<Rightarrow> string \<Rightarrow> int" where "custom_setxattr path name = - ENOTSUP"
definition custom_getxattr :: "string \<Rightarrow> string \<Rightarrow> int" where "custom_getxattr path name = - ENOTSUP"
definition custom_listxattr :: "string \<Rightarrow> int" where "custom_listxattr path = - ENOTSUP"
definition custom_removexattr :: "string \<Rightarrow> string \<Rightarrow> int" where "custom_removexattr path name = - ENOTSUP"
definition custom_opendir :: "string \<Rightarrow> fuse_file_info \<Rightarrow> int" where "custom_opendir path fi = 0"
definition custom_readdir :: "string \<Rightarrow> int \<Rightarrow> fuse_file_info \<Rightarrow> int" where "custom_readdir path offset fi = 0"
definition custom_releasedir :: "string \<Rightarrow> fuse_file_info \<Rightarrow> int" where "custom_releasedir path fi = 0"
definition custom_fsyncdir :: "string \<Rightarrow> int \<Rightarrow> fuse_file_info \<Rightarrow> int" where "custom_fsyncdir path datasync fi = 0"
definition custom_access :: "string \<Rightarrow> int \<Rightarrow> int" where "custom_access path amode = check_pathlen path 0"
definition custom_ftruncate :: "string \<Rightarrow> int \<Rightarrow> fuse_file_info \<Rightarrow> int" where "custom_ftruncate path len fi = - EPERM"
definition custom_fgetattr :: "string \<Rightarrow> fuse_file_info \<Rightarrow> int" where "custom_fgetattr path fi = - ENOTSUP"
definition custom_lock :: "string \<Rightarrow> fuse_file_info \<Rightarrow> int \<Rightarrow> int" where "custom_lock path fi cmd = - ENOSYS"
definition custom_utimens :: "string \<Rightarrow> int" where "custom_utimens path = - EINVAL"
definition custom_bmap :: "string \<Rightarrow> nat \<Rightarrow> int" where "custom_bmap path blocksize = - ENOSYS"
definition custom_flock :: "string \<Rightarrow> fuse_file_info \<Rightarrow> int \<Rightarrow> int" where "custom_flock path fi op = - ENOSYS"

section \<open>The table of callbacks\<close>

datatype fuse_call =
    F_Getattr string stat_data | F_Readlink string nat | F_Mknod string u32 | F_Mkdir string u32
  | F_Unlink string | F_Rmdir string | F_Symlink string string | F_Rename string string | F_Link string string
  | F_Chmod string u32 | F_Chown string u32 u32 | F_Truncate string int
  | F_Open string fuse_file_info | F_Read string nat int fuse_file_info
  | F_Write string "u8 list" nat int fuse_file_info | F_Statfs string | F_Flush string fuse_file_info
  | F_Release string fuse_file_info | F_Fsync string int fuse_file_info | F_Setxattr string string
  | F_Getxattr string string | F_Listxattr string | F_Removexattr string string | F_Opendir string fuse_file_info
  | F_Readdir string int fuse_file_info | F_Releasedir string fuse_file_info | F_Fsyncdir string int fuse_file_info
  | F_Access string int | F_Create string u32 fuse_file_info | F_Ftruncate string int fuse_file_info
  | F_Fgetattr string fuse_file_info | F_Lock string fuse_file_info int | F_Utimens string | F_Bmap string nat
  | F_Flock string fuse_file_info int

text \<open>What FUSE gets back: the result, and what was filled in.\<close>

datatype fuse_result = Code int | Attributes int stat_data | Opened int fuse_file_info | Data int "u8 list"

fun custom_operations ::
    "(nat \<Rightarrow> u8) \<Rightarrow> (string \<Rightarrow> decafs_client \<Rightarrow> decafs_client outcome) \<Rightarrow> (u8 list \<Rightarrow> u8 list option) \<Rightarrow> fuse_call \<Rightarrow>
     decafs_client \<Rightarrow> (fuse_result \<times> decafs_client) outcome" where
  "custom_operations heap del world (F_Getattr path sd) c = Returned (case_prod Attributes (custom_getattr path sd), c)"
| "custom_operations heap del world (F_Readlink path n) c = Returned (Code (custom_readlink path n), c)"
| "custom_operations heap del world (F_Mknod path mode) c = Returned (Code (custom_mknod path mode), c)"
| "custom_operations heap del world (F_Mkdir path mode) c = Returned (Code (custom_mkdir path mode), c)"
| "custom_operations heap del world (F_Unlink path) c = outcome_bind (custom_unlink del path c) (\<lambda>(r, c'). Returned (Code r, c'))"
| "custom_operations heap del world (F_Rmdir path) c = Returned (Code (custom_rmdir path), c)"
| "custom_operations heap del world (F_Symlink path link_path) c = Returned (Code (custom_symlink path link_path), c)"
| "custom_operations heap del world (F_Rename path new_path) c = Returned (Code (custom_rename path new_path), c)"
| "custom_operations heap del world (F_Link path link_path) c = Returned (Code (custom_link path link_path), c)"
| "custom_operations heap del world (F_Chmod path mode) c = Returned (Code (custom_chmod path mode), c)"
| "custom_operations heap del world (F_Chown path u g) c = Returned (Code (custom_chown path u g), c)"
| "custom_operations heap del world (F_Truncate path len) c = Returned (Code (custom_truncate path len), c)"
| "custom_operations heap del world (F_Open path fi) c =
     outcome_bind (custom_open heap world path fi c) (\<lambda>(r, c'). Returned (case_prod Opened r, c'))"
| "custom_operations heap del world (F_Read path sz off fi) c =
     outcome_bind (custom_read heap world path sz off fi c) (\<lambda>(r, c'). Returned (case_prod Data r, c'))"
| "custom_operations heap del world (F_Write path buf sz off fi) c =
     outcome_bind (custom_write heap world path buf sz off fi c) (\<lambda>(r, c'). Returned (Code r, c'))"
| "custom_operations heap del world (F_Statfs path) c = Returned (Code (custom_statfs path), c)"
| "custom_operations heap del world (F_Flush path fi) c = Returned (Code (custom_flush path fi), c)"
| "custom_operations heap del world (F_Release path fi) c = Returned (Code (custom_release path fi), c)"
| "custom_operations heap del world (F_Fsync path d fi) c = Returned (Code (custom_fsync path d fi), c)"
| "custom_operations heap del world (F_Setxattr path name) c = Returned (Code (custom_setxattr path name), c)"
| "custom_operations heap del world (F_Getxattr path name) c = Returned (Code (custom_getxattr path name), c)"
| "custom_operations heap del world (F_Listxattr path) c = Returned (Code (custom_listxattr path), c)"
| "custom_operations heap del world (F_Removexattr path name) c = Returned (Code (custom_removexattr path name), c)"
| "custom_operations heap del world (F_Opendir path fi) c = Returned (Code (custom_opendir path fi), c)"
| "custom_operations heap del world (F_Readdir path off fi) c = Returned (Code (custom_readdir path off fi), c)"
| "custom_operations heap del world (F_Releasedir path fi) c = Returned (Code (custom_releasedir path fi), c)"
| "custom_operations heap del world (F_Fsyncdir path d fi) c = Returned (Code (custom_fsyncdir path d fi), c)"
| "custom_operations heap del world (F_Access path amode) c = Returned (Code (custom_access path amode), c)"
| "custom_operations heap del world (F_Create path mode fi) c =
     outcome_bind (custom_create heap world path mode fi c) (\<lambda>(r, c'). Returned (case_prod Opened r, c'))"
| "custom_operations heap del world (F_Ftruncate path len fi) c = Returned (Code (custom_ftruncate path len fi), c)"
| "custom_operations heap del world (F_Fgetattr path fi) c = Returned (Code (custom_fgetattr path fi), c)"
| "custom_operations heap del world (F_Lock path fi cmd) c = Returned (Code (custom_lock path fi cmd), c)"
| "custom_operations heap del world (F_Utimens path) c = Returned (Code (custom_utimens path), c)"
| "custom_operations heap del world (F_Bmap path n) c = Returned (Code (custom_bmap path n), c)"
| "custom_operations heap del world (F_Flock path fi op) c = Returned (Code (custom_flock path fi op), c)"

text \<open>The calls of a mounted file system, each with what arrives during it.\<close>

fun fuse_run ::
    "(nat \<Rightarrow> u8) \<Rightarrow> (string \<Rightarrow> decafs_client \<Rightarrow> decafs_client outcome) \<Rightarrow> ((u8 list \<Rightarrow> u8 list option) \<times> fuse_call) list \<Rightarrow>
     decafs_client \<Rightarrow> (fuse_result list \<times> decafs_client) outcome" where
  "fuse_run heap del [] c = Returned ([], c)"
| "fuse_run heap del ((world, x) # xs) c =
     outcome_bind (custom_operations heap del world x c) (\<lambda>(r, c1).
     outcome_bind (fuse_run heap del xs c1) (\<lambda>(rs, c2). Returned (r # rs, c2)))"

section \<open>What a mounted file system sends\<close>

text \<open>The requests of a call: offset and path of a read or write play no part in them.\<close>

fun fuse_messages :: "fuse_call \<Rightarrow> barista_message list" where
  "fuse_messages (F_Open path fi) = [Open_File path (ff_flags fi)]"
| "fuse_messages (F_Create path mode fi) = [Open_File path (ff_flags fi)]"
| "fuse_messages (F_Read path sz off fi) = [Read_File (ucast (ff_fh fi)) (int sz)]"
| "fuse_messages (F_Write path buf sz off fi) = [Write_File (ucast (ff_fh fi)) (int sz) buf]"
| "fuse_messages _ = []"

lemma exchange_sends:
  assumes "exchange heap world (message_packet heap m) response c = Returned (r, c')" "valid_message m"
  shows "\<exists>ps. map (message_packet heap) [m] = map Some ps \<and> dc_sent c' = dc_sent c @ concat (map pk_buf ps)"
proof -
  obtain p where p: "\<And>heap. message_packet heap m = Some p" "unat (pk_size p) = length (pk_buf p)"
    by (rule message_received[OF assms(2)]) metis
  have "dc_sent c' = dc_sent c @ take (unat (pk_size p)) (pk_buf p)"
    using assms(1) p(1) by (auto simp: exchange_def sendToServer_def Let_def split: option.splits if_splits prod.splits)
  then show ?thesis using p by (intro exI[of _ "[p]"]) simp
qed

lemma handle_word: "(word_of_int (handle_fd fi) :: u32) = ucast (ff_fh fi)"
  by (simp add: handle_fd_def)

text \<open>A call other than an unlink sends the packets of its requests and nothing else.\<close>

lemma fuse_call_sends:
  assumes "custom_operations heap del world x c = Returned (r, c')" "\<And>path. x \<noteq> F_Unlink path" "list_all valid_message (fuse_messages x)"
  obtains ps where "map (message_packet heap) (fuse_messages x) = map Some ps" "dc_sent c' = dc_sent c @ concat (map pk_buf ps)"
proof -
  have "\<exists>ps. map (message_packet heap) (fuse_messages x) = map Some ps \<and> dc_sent c' = dc_sent c @ concat (map pk_buf ps)"
  proof (cases x)
    case (F_Open path fi)
    obtain y where "client_open heap world path (ff_flags fi) c = Returned (y, c')"
      using assms(1) by (auto simp: F_Open custom_open_def split: if_splits)
    then have "exchange heap world (message_packet heap (Open_File path (ff_flags fi))) (\<lambda>b. map_option sint (OpenPacketResponse_of b)) c =
        Returned (y, c')" by (simp add: client_open_def)
    from exchange_sends[OF this] show ?thesis using assms(3) by (simp only: F_Open fuse_messages.simps list.pred_inject)
  next
    case (F_Create path mode fi)
    obtain y where "client_open heap world path (ff_flags fi) c = Returned (y, c')"
      using assms(1) by (auto simp: F_Create custom_create_def custom_open_def split: if_splits)
    then have "exchange heap world (message_packet heap (Open_File path (ff_flags fi))) (\<lambda>b. map_option sint (OpenPacketResponse_of b)) c =
        Returned (y, c')" by (simp add: client_open_def)
    from exchange_sends[OF this] show ?thesis using assms(3) by (simp only: F_Create fuse_messages.simps list.pred_inject)
  next
    case (F_Read path sz off fi)
    obtain y where "exchange heap world (message_packet heap (Read_File (ucast (ff_fh fi)) (int sz))) FileDataPacket_of c = Returned (y, c')"
      using assms(1) by (auto simp: F_Read custom_read_def client_read_def handle_word split: if_splits)
    from exchange_sends[OF this] show ?thesis using assms(3) by (simp only: F_Read fuse_messages.simps list.pred_inject)
  next
    case (F_Write path buf sz off fi)
    obtain y where "client_write heap world (handle_fd fi) buf (int sz) c = Returned (y, c')"
      using assms(1) by (auto simp: F_Write custom_write_def split: if_splits)
    then have "exchange heap world (message_packet heap (Write_File (ucast (ff_fh fi)) (int sz) buf))
        (\<lambda>b. map_option (\<lambda>(_, m). fp_count m) (FilePacket_of b)) c = Returned (y, c')"
      by (simp add: client_write_def handle_word)
    from exchange_sends[OF this] show ?thesis using assms(3) by (simp only: F_Write fuse_messages.simps list.pred_inject)
  qed (use assms in \<open>simp_all add: case_prod_beta\<close>)
  then show thesis using that by blast
qed

lemma fuse_run_sends:
  assumes "fuse_run heap del xs c = Returned (rs, c')"
    and "\<forall>(world, x) \<in> set xs. (\<forall>path. x \<noteq> F_Unlink path) \<and> list_all valid_message (fuse_messages x)"
  shows "\<exists>ps. map (message_packet heap) (concat (map (fuse_messages \<circ> snd) xs)) = map Some ps \<and>
    dc_sent c' = dc_sent c @ concat (map pk_buf ps)"
  using assms
proof (induction xs arbitrary: c rs)
  case (Cons y xs)
  obtain world x where y: "y = (world, x)" by (cases y)
  obtain r c1 rs1 where run: "custom_operations heap del world x c = Returned (r, c1)" "fuse_run heap del xs c1 = Returned (rs1, c')"
    using Cons.prems(1) unfolding y by auto
  have x: "\<And>path. x \<noteq> F_Unlink path" "list_all valid_message (fuse_messages x)" using Cons.prems(2) y by auto
  obtain ps where ps: "map (message_packet heap) (fuse_messages x) = map Some ps" "dc_sent c1 = dc_sent c @ concat (map pk_buf ps)"
    by (rule fuse_call_sends[OF run(1) x])
  obtain qs where "map (message_packet heap) (concat (map (fuse_messages \<circ> snd) xs)) = map Some qs"
    "dc_sent c' = dc_sent c1 @ concat (map pk_buf qs)"
    using Cons.IH[OF run(2)] Cons.prems(2) by (meson list.set_intros(2))
  with ps y show ?case by (intro exI[of _ "ps @ qs"]) (simp add: o_def)
qed simp

lemma fuse_messages_kinds:
  "m \<in> set (fuse_messages x) \<Longrightarrow> (\<exists>path flags. m = Open_File path flags) \<or> (\<exists>fd n. m = Read_File fd n) \<or> (\<exists>fd n bs. m = Write_File fd n bs)"
  by (cases x) auto

text \<open>
  C27: what a mounted file system asks for. Whatever sequence of calls FUSE makes, apart from unlinks,
  the barista receives one open, read or write for each open or create, read and write, in their order,
  with the file handle of the call, and nothing for any other call: no call ever closes a file at the
  barista, not even \<open>release\<close>, and none moves a cursor, so the offsets that FUSE passes have no effect.
\<close>

theorem fuse_requests_arrive:
  assumes "fuse_run heap del xs c = Returned (rs, c')"
    and "\<forall>(world, x) \<in> set xs. (\<forall>path. x \<noteq> F_Unlink path) \<and> list_all valid_message (fuse_messages x)"
    and "ms = concat (map (fuse_messages \<circ> snd) xs)"
  shows "\<exists>bytes qs. dc_sent c' = dc_sent c @ bytes \<and> take_packets heap' (length ms) bytes = Returned (qs, []) \<and>
    map (\<lambda>(flag, b). parse_message flag b) qs = map (Some \<circ> Some) ms \<and>
    (\<forall>m \<in> set ms. (\<forall>fd. m \<noteq> Close_File fd) \<and> (\<forall>fd off whence. m \<noteq> Seek_File fd off whence))"
proof -
  obtain ps where ps: "map (message_packet heap) ms = map Some ps" "dc_sent c' = dc_sent c @ concat (map pk_buf ps)"
    using fuse_run_sends[OF assms(1,2)] unfolding assms(3) by blast
  have "list_all valid_message ms" using assms(2) unfolding assms(3) by (fastforce simp: list_all_iff)
  then obtain ps' qs where q: "map (message_packet heap) ms = map Some ps'" "map (\<lambda>(flag, b). parse_message flag b) qs = map (Some \<circ> Some) ms"
    "take_packets heap' (length ms) (concat (map pk_buf ps') @ []) = Returned (qs, [])"
    using messages_arrive[of ms heap heap' "[]"] by blast
  then have "map Some ps' = map Some ps" using ps(1) by simp
  then have "ps' = ps" by (simp add: inj_map_eq_map)
  moreover have "(\<forall>fd. m \<noteq> Close_File fd) \<and> (\<forall>fd off whence. m \<noteq> Seek_File fd off whence)" if "m \<in> set ms" for m
    using that fuse_messages_kinds unfolding assms(3) by fastforce
  ultimately show ?thesis using ps(2) q(2,3) by (intro exI[of _ "concat (map pk_buf ps)"] exI[of _ qs]) simp
qed

text \<open>A file is opened, for which the barista answers with descriptor 3, and released again.\<close>

abbreviation demo_file :: fuse_file_info where
  "demo_file \<equiv> \<lparr>ff_flags = 2, ff_fh = 0\<rparr>"

lemma fuse_requests_arrive_witness:
  "\<exists>world c' bytes qs. fuse_run (\<lambda>_. 0) (\<lambda>path c. Returned c)
       [(world, F_Open ''/a'' demo_file), (world, F_Release ''/a'' (demo_file\<lparr>ff_fh := 3\<rparr>))] \<lparr>dc_user = 2, dc_sent = [], dc_rest = []\<rparr> =
       Returned ([Opened 0 (demo_file\<lparr>ff_fh := 3\<rparr>), Code 0], c') \<and>
     dc_sent c' = bytes \<and> take_packets (\<lambda>_. 1) 1 bytes = Returned (qs, []) \<and>
     map (\<lambda>(flag, b). parse_message flag b) qs = [Some (Some (Open_File ''/a'' 2))]"
proof -
  let ?c = "\<lparr>dc_user = 2, dc_sent = [], dc_rest = []\<rparr>" and ?r = "packet_image 0 (flag_code OPEN_RESPONSE) (word_bytes (word_of_int 3))"
  let ?world = "\<lambda>_ :: u8 list. Some (pk_buf ?r)"
  let ?xs = "[(?world, F_Open ''/a'' demo_file), (?world, F_Release ''/a'' (demo_file\<lparr>ff_fh := 3\<rparr>))]"
  have "take_packet (\<lambda>_. 0) (pk_buf ?r) = Returned (flag_code OPEN_RESPONSE, pk_buf ?r, [])"
    using take_packet_image[of "word_bytes (word_of_int 3)" "\<lambda>_. 0" 0 "flag_code OPEN_RESPONSE" "[]"] by simp
  then obtain c' where "client_open (\<lambda>_. 0) ?world ''/a'' 2 ?c = Returned (3, c')"
    by (simp add: client_open_def exchange_def OpenPacket_image sendToServer_def Let_def OpenPacketResponse_of_def)
  then have run: "fuse_run (\<lambda>_. 0) (\<lambda>path c. Returned c) ?xs ?c = Returned ([Opened 0 (demo_file\<lparr>ff_fh := 3\<rparr>), Code 0], c')"
    by (simp add: custom_open_def custom_release_def)
  have v: "\<forall>(world, x) \<in> set ?xs. (\<forall>path. x \<noteq> F_Unlink path) \<and> list_all valid_message (fuse_messages x)"
    by (simp add: valid_string_def c_string_def fits_int_def)
  obtain bytes qs where "dc_sent c' = dc_sent ?c @ bytes"
    "take_packets (\<lambda>_. 1) (length (concat (map (fuse_messages \<circ> snd) ?xs))) bytes = Returned (qs, [])"
    "map (\<lambda>(flag, b). parse_message flag b) qs = map (Some \<circ> Some) (concat (map (fuse_messages \<circ> snd) ?xs))"
    using fuse_requests_arrive[OF run v refl, of "\<lambda>_. 1"] by blast
  then have "dc_sent c' = bytes" "take_packets (\<lambda>_. 1) 1 bytes = Returned (qs, [])"
    "map (\<lambda>(flag, b). parse_message flag b) qs = [Some (Some (Open_File ''/a'' 2))]" by (simp_all del: take_packets.simps)
  with run show ?thesis by (intro exI[of _ ?world] exI[of _ c'] exI[of _ bytes] exI[of _ qs]) (simp only: simp_thms)
qed

section \<open>The other results\<close>

text \<open>An open returns 0 with the descriptor that the core gave as the file handle, or \<open>EPERM\<close>.\<close>

theorem fuse_open_returns:
  assumes "om_find (<) k (bs_clients s) = Some cl" "ctc cl = k" "k \<noteq> 0"
    and "valid_string path" "fits_int (ff_flags fi)" "fits_int v" "dc_rest c = []"
    and "serve e k (Open_File path (ff_flags fi)) s = Returned s'"
    and "br_replies (bs_core s') = br_replies (bs_core s) @ [Open_Result cl v]"
  shows "\<exists>c'. custom_open heap (answers e k s) path fi c =
      Returned (if v < 0 then (- EPERM, fi) else (0, fi\<lparr>ff_fh := word_of_int v\<rparr>), c') \<and>
    (0 \<le> v \<longrightarrow> handle_fd (fi\<lparr>ff_fh := word_of_int v\<rparr>) = v)"
proof -
  obtain c' where "client_open heap (answers e k s) path (ff_flags fi) c = Returned (v, c')"
    using rpc_call_returns[of k s cl "Rpc_Open path (ff_flags fi)" v c e s' heap] assms by auto
  moreover have "handle_fd (fi\<lparr>ff_fh := word_of_int v\<rparr>) = v" if "0 \<le> v"
  proof -
    have "uint (word_of_int v :: 64 word) = v" using assms(6) that by (simp add: fits_int_def uint_word_of_int)
    then have "ucast (word_of_int v :: 64 word) = (word_of_int v :: u32)" by (simp add: ucast_eq)
    then show ?thesis using assms(6) that by (simp add: handle_fd_def fits_int_def u32_sint_of_int)
  qed
  ultimately show ?thesis by (auto simp: custom_open_def)
qed

lemma owner_never_accepted: "custom_chown path owner_id group_id \<noteq> 0"
  by (simp add: custom_chown_def check_pathlen_def errno_defs)

lemma every_path_empty:
  "length path \<le> 255 \<Longrightarrow> fst (custom_getattr path sd) = 0 \<and> sd_size (snd (custom_getattr path sd)) = 0"
  by (simp add: custom_getattr_def)

end
