(* ===== verification/Persistent_Stl.thy ===== *)
theory Persistent_Stl
  imports Decafs_Types
begin

text \<open>
  \<open>persistent_map.h\<close>: maps that live in a mapped file. The file is an array of slots
  of key and value; a \<open>std::map\<close> in memory leads from each key to the address of its slot, and
  a set of extents holds the slots that are free. An address is the pair of the address of the
  mapping and the number of the slot, so an address from before the mapping moved can be told
  from a valid one; using such an address is undefined.

  \<open>sz\<close> is the size of a slot, \<open>zero\<close> a slot of zero bytes, \<open>at\<close> the address that \<open>mmap\<close>
  returns when it succeeds, and \<open>lt\<close> the order of the keys. The file holds whole slots.
\<close>

section \<open>State\<close>

type_synonym address = "nat \<times> nat"

record ('k, 'v) pstl =
  ps_fd :: bool
  ps_entries :: "('k \<times> address) list"
  ps_unallocated :: "(int \<times> int) list"
  ps_map :: "nat option"
  ps_cap :: nat
  ps_slots :: "('k \<times> 'v) list"

text \<open>The order of \<open>std::pair<int, int>\<close>.\<close>

definition extent_less :: "int \<times> int \<Rightarrow> int \<times> int \<Rightarrow> bool" where
  "extent_less a b \<longleftrightarrow> fst a < fst b \<or> fst a = fst b \<and> snd a < snd b"

section \<open>Slots\<close>

text \<open>
  \<open>allocate\<close>: the first slot of the first free extent, or the first of ten new slots at the end
  of the file, which is mapped anew. Without an open file the new mapping fails and its address
  is used all the same.
\<close>

definition allocate ::
    "nat \<Rightarrow> 'k \<times> 'v \<Rightarrow> ('k, 'v) pstl \<Rightarrow> (address \<times> ('k, 'v) pstl) outcome" where
  "allocate at zero st =
     (case ps_unallocated st of
        (a, b) # rest \<Rightarrow>
          (case ps_map st of
             None \<Rightarrow> Unspecified
           | Some base \<Rightarrow> Returned ((base, nat a), st\<lparr>ps_unallocated :=
               (if a + 1 = b then rest else oc_insert extent_less id (a + 1, b) rest)\<rparr>))
      | [] \<Rightarrow>
          let start_of_new = ps_cap st; cap = ps_cap st + 10
          in guard_defined (ps_fd st) (Returned ((at, start_of_new), st\<lparr>ps_cap := cap, ps_map := Some at,
               ps_slots := ps_slots st @ replicate (cap - length (ps_slots st)) zero,
               ps_unallocated := oc_insert extent_less id (int start_of_new + 1, int start_of_new + 10) []\<rparr>)))"

text \<open>
  \<open>deallocate\<close>: the difference of two slot pointers already counts slots, and is divided by
  the size of a slot once more. The extent is merged with its neighbours.
\<close>

definition release_extent :: "int \<Rightarrow> (int \<times> int) list \<Rightarrow> (int \<times> int) list" where
  "release_extent start free =
     (if free = [] then [(start, start + 1)]
      else
        let bs = oc_before extent_less id (start, start + 1) free;
            as = oc_lower_bound extent_less id (start, start + 1) free;
            joins = bs \<noteq> [] \<and> snd (last bs) = start;
            first = (if joins then fst (last bs) else start);
            bs' = (if joins then butlast bs else bs)
        in case as of
             [] \<Rightarrow> oc_insert extent_less id (first, start + 1) bs'
           | a # as' \<Rightarrow>
               if fst a = start + 1 then oc_insert extent_less id (first, snd a) (bs' @ as')
               else oc_insert extent_less id (first, start + 1) (bs' @ as))"

definition deallocate :: "nat \<Rightarrow> 'k \<times> 'v \<Rightarrow> nat \<Rightarrow> ('k, 'v) pstl \<Rightarrow> ('k, 'v) pstl" where
  "deallocate sz zero i st =
     st\<lparr>ps_slots := (ps_slots st)[i := (fst zero, snd (ps_slots st ! i))],
        ps_unallocated := release_extent (int i div int sz) (ps_unallocated st)\<rparr>"

section \<open>Opening and closing\<close>

definition new_pstl :: "('k, 'v) pstl" where
  "new_pstl = \<lparr>ps_fd = False, ps_entries = [], ps_unallocated = [], ps_map = None, ps_cap = 0, ps_slots = []\<rparr>"

fun load_slots :: "'k cmp \<Rightarrow> nat \<Rightarrow> 'k \<times> 'v \<Rightarrow> nat \<Rightarrow> nat \<Rightarrow> nat \<Rightarrow> ('k, 'v) pstl \<Rightarrow> ('k, 'v) pstl" where
  "load_slots lt sz zero at i 0 st = st"
| "load_slots lt sz zero at i (Suc n) st =
     load_slots lt sz zero at (i + 1) n
       (let k = fst (ps_slots st ! i) in
        if k = fst zero then deallocate sz zero i st
        else if om_find lt k (ps_entries st) = None
             then st\<lparr>ps_entries := om_update lt k (at, i) (ps_entries st)\<rparr> else st)"

text \<open>An empty file cannot be mapped: \<open>open\<close> fails, with the file open and nothing mapped.\<close>

definition pstl_open :: "'k cmp \<Rightarrow> nat \<Rightarrow> 'k \<times> 'v \<Rightarrow> nat \<Rightarrow> ('k \<times> 'v) list \<Rightarrow> ('k, 'v) pstl \<Rightarrow> int \<times> ('k, 'v) pstl" where
  "pstl_open lt sz zero at file st =
     (let st1 = st\<lparr>ps_fd := True, ps_cap := length file, ps_slots := file\<rparr> in
      if file = [] then (-1, st1\<lparr>ps_map := None\<rparr>)
      else (0, load_slots lt sz zero at 0 (length file) (st1\<lparr>ps_map := Some at\<rparr>)))"

text \<open>\<open>close\<close> leaves the slots in the file; the mapping is gone.\<close>

definition pstl_close :: "('k, 'v) pstl \<Rightarrow> ('k \<times> 'v) list \<times> ('k, 'v) pstl" where
  "pstl_close st = (ps_slots st, st\<lparr>ps_fd := False, ps_map := None, ps_entries := [], ps_unallocated := []\<rparr>)"

section \<open>Elements\<close>

definition new_element ::
    "'k cmp \<Rightarrow> nat \<Rightarrow> 'k \<times> 'v \<Rightarrow> 'k \<times> 'v \<Rightarrow> ('k, 'v) pstl \<Rightarrow> (address \<times> ('k, 'v) pstl) outcome" where
  "new_element lt at zero x st =
     outcome_bind (allocate at zero st) (\<lambda>(p, st1).
       guard_defined (snd p < length (ps_slots st1))
        (Returned (p, st1\<lparr>ps_slots := (ps_slots st1)[snd p := x],
           ps_entries := om_update lt (fst x) p (ps_entries st1)\<rparr>)))"

definition pstl_insert ::
    "'k cmp \<Rightarrow> nat \<Rightarrow> 'k \<times> 'v \<Rightarrow> 'k \<times> 'v \<Rightarrow> ('k, 'v) pstl \<Rightarrow> (bool \<times> ('k, 'v) pstl) outcome" where
  "pstl_insert lt at zero x st =
     (if om_find lt (fst x) (ps_entries st) = None
      then outcome_bind (new_element lt at zero x st) (\<lambda>(_, st'). Returned (True, st'))
      else Returned (False, st))"

fun pstl_insert_all ::
    "'k cmp \<Rightarrow> nat \<Rightarrow> 'k \<times> 'v \<Rightarrow> ('k \<times> 'v) list \<Rightarrow> ('k, 'v) pstl \<Rightarrow> ('k, 'v) pstl outcome" where
  "pstl_insert_all lt at zero [] st = Returned st"
| "pstl_insert_all lt at zero (x # xs) st =
     outcome_bind (pstl_insert lt at zero x st) (\<lambda>(_, st'). pstl_insert_all lt at zero xs st')"

text \<open>\<open>m[k] = v\<close> through \<open>operator[]\<close>; \<open>fresh\<close> is a default-constructed value.\<close>

definition pstl_index ::
    "'k cmp \<Rightarrow> nat \<Rightarrow> 'k \<times> 'v \<Rightarrow> 'v \<Rightarrow> 'k \<Rightarrow> ('k, 'v) pstl \<Rightarrow> (address \<times> ('k, 'v) pstl) outcome" where
  "pstl_index lt at zero fresh k st =
     (case om_find lt k (ps_entries st) of
        Some p \<Rightarrow> Returned (p, st)
      | None \<Rightarrow> new_element lt at zero (k, fresh) st)"

definition valid_address :: "('k, 'v) pstl \<Rightarrow> address \<Rightarrow> bool" where
  "valid_address st p \<longleftrightarrow> ps_map st = Some (fst p) \<and> snd p < length (ps_slots st)"

definition store :: "address \<Rightarrow> 'v \<Rightarrow> ('k, 'v) pstl \<Rightarrow> ('k, 'v) pstl outcome" where
  "store p v st = guard_defined (valid_address st p)
     (Returned (st\<lparr>ps_slots := (ps_slots st)[snd p := (fst (ps_slots st ! snd p), v)]\<rparr>))"

definition load :: "address \<Rightarrow> ('k, 'v) pstl \<Rightarrow> ('k \<times> 'v) outcome" where
  "load p st = guard_defined (valid_address st p) (Returned (ps_slots st ! snd p))"

definition pstl_find :: "'k cmp \<Rightarrow> 'k \<Rightarrow> ('k, 'v) pstl \<Rightarrow> address option" where
  "pstl_find lt k st = om_find lt k (ps_entries st)"

text \<open>\<open>erase\<close> ends the pair's life and forgets its address; the slot keeps its bytes.\<close>

definition pstl_erase :: "'k cmp \<Rightarrow> 'k \<Rightarrow> ('k, 'v) pstl \<Rightarrow> nat \<times> ('k, 'v) pstl" where
  "pstl_erase lt k st =
     (case om_find lt k (ps_entries st) of
        None \<Rightarrow> (0, st)
      | Some p \<Rightarrow> (1, st\<lparr>ps_entries := om_erase lt k (ps_entries st)\<rparr>))"

definition pstl_size :: "('k, 'v) pstl \<Rightarrow> nat" where
  "pstl_size st = length (ps_entries st)"

definition pstl_empty :: "('k, 'v) pstl \<Rightarrow> bool" where
  "pstl_empty st \<longleftrightarrow> ps_entries st = []"

text \<open>\<open>clear\<close> truncates the file and maps nothing; the size and the free extents stay as they were.\<close>

definition pstl_clear :: "('k, 'v) pstl \<Rightarrow> ('k, 'v) pstl" where
  "pstl_clear st = st\<lparr>ps_entries := [], ps_slots := [], ps_map := None\<rparr>"

section \<open>One run is a finite map\<close>

text \<open>
  While the file stays mapped at one address, slots are handed out from the front, so every live
  slot lies before the first free one: the state below. The contents are what the entries lead to.
\<close>

definition pstl_contents :: "('k, 'v) pstl \<Rightarrow> 'k \<Rightarrow> 'v option" where
  "pstl_contents st k =
     (case map_of (ps_entries st) k of
        None \<Rightarrow> None
      | Some p \<Rightarrow> if valid_address st p then Some (snd (ps_slots st ! snd p)) else None)"

definition free_from :: "nat \<Rightarrow> ('k, 'v) pstl \<Rightarrow> bool" where
  "free_from a st \<longleftrightarrow> a \<le> ps_cap st \<and> length (ps_slots st) = ps_cap st \<and>
     ps_unallocated st = (if a = ps_cap st then [] else [(int a, int (ps_cap st))]) \<and>
     (\<forall>e \<in> set (ps_entries st). snd (snd e) < a)"

definition entries_ok :: "'k cmp \<Rightarrow> nat \<Rightarrow> ('k, 'v) pstl \<Rightarrow> bool" where
  "entries_ok lt at st \<longleftrightarrow> oc_sorted lt UNIV fst (ps_entries st) \<and>
     distinct (map snd (ps_entries st)) \<and>
     (\<forall>e \<in> set (ps_entries st). fst (snd e) = at \<and> fst (ps_slots st ! snd (snd e)) = fst e)"

definition pstl_ok :: "'k cmp \<Rightarrow> nat \<Rightarrow> ('k, 'v) pstl \<Rightarrow> bool" where
  "pstl_ok lt at st \<longleftrightarrow> ps_fd st \<and> (ps_map st = Some at \<or> ps_map st = None \<and> ps_cap st = 0) \<and>
     entries_ok lt at st \<and> (\<exists>a \<in> set [0..<ps_cap st + 1]. free_from a st)"

datatype ('k, 'v) pstl_op = Insert 'k 'v | Assign 'k 'v | Erase 'k

fun pstl_step :: "'k cmp \<Rightarrow> nat \<Rightarrow> 'k \<times> 'v \<Rightarrow> 'v \<Rightarrow> ('k, 'v) pstl_op \<Rightarrow> ('k, 'v) pstl \<Rightarrow> ('k, 'v) pstl outcome" where
  "pstl_step lt at zero fresh (Insert k v) st =
     outcome_bind (pstl_insert lt at zero (k, v) st) (\<lambda>(_, st'). Returned st')"
| "pstl_step lt at zero fresh (Assign k v) st =
     outcome_bind (pstl_index lt at zero fresh k st) (\<lambda>(p, st'). store p v st')"
| "pstl_step lt at zero fresh (Erase k) st = Returned (snd (pstl_erase lt k st))"

fun pstl_run :: "'k cmp \<Rightarrow> nat \<Rightarrow> 'k \<times> 'v \<Rightarrow> 'v \<Rightarrow> ('k, 'v) pstl_op list \<Rightarrow> ('k, 'v) pstl \<Rightarrow> ('k, 'v) pstl outcome" where
  "pstl_run lt at zero fresh [] st = Returned st"
| "pstl_run lt at zero fresh (x # xs) st =
     outcome_bind (pstl_step lt at zero fresh x st) (pstl_run lt at zero fresh xs)"

lemma pstl_okI:
  "ps_fd st \<Longrightarrow> ps_map st = Some at \<or> ps_map st = None \<and> ps_cap st = 0 \<Longrightarrow>
   entries_ok lt at st \<Longrightarrow> free_from a st \<Longrightarrow> pstl_ok lt at st"
  unfolding pstl_ok_def by (intro conjI bexI[of _ a]) (auto simp: free_from_def)

text \<open>The same operations on a map.\<close>

fun map_step :: "('k, 'v) pstl_op \<Rightarrow> ('k \<Rightarrow> 'v option) \<Rightarrow> 'k \<Rightarrow> 'v option" where
  "map_step (Insert k v) m = (if m k = None then m(k \<mapsto> v) else m)"
| "map_step (Assign k v) m = m(k \<mapsto> v)"
| "map_step (Erase k) m = m(k := None)"

lemma extents_singleton: "oc_insert extent_less id e [] = [e]"
  by (simp add: oc_insert_def oc_find_def oc_before_def oc_lower_bound_def)

lemma allocate_ok:
  assumes "ps_fd st" "ps_map st = Some at \<or> ps_map st = None \<and> ps_cap st = 0" "free_from a st"
  shows "\<exists>st'. allocate at zero st = Returned ((at, a), st') \<and> a < ps_cap st' \<and>
    ps_fd st' \<and> ps_map st' = Some at \<and> ps_entries st' = ps_entries st \<and>
    (\<exists>zs. ps_slots st' = ps_slots st @ zs) \<and> length (ps_slots st') = ps_cap st' \<and>
    ps_unallocated st' = (if a + 1 = ps_cap st' then [] else [(int a + 1, int (ps_cap st'))])"
proof (cases "a = ps_cap st")
  case True
  with assms show ?thesis by (auto simp: allocate_def free_from_def extents_singleton Let_def)
next
  case False
  with assms have "ps_map st = Some at" "a < ps_cap st" by (auto simp: free_from_def)
  with False assms show ?thesis
    by (auto simp: allocate_def free_from_def extents_singleton)
qed

lemma pstl_contents_None: "map_of (ps_entries st) k = None \<Longrightarrow> pstl_contents st k = None"
  by (simp add: pstl_contents_def)

context strict_total_order
begin

lemma om_find_update:
  "K = UNIV \<Longrightarrow> oc_sorted lt K fst m \<Longrightarrow>
   om_find lt k' (om_update lt k v m) = (if k' = k then Some v else om_find lt k' m)"
  by (simp add: kv.find_upd)

lemma entries_ok_add:
  assumes K: "K = UNIV" and e: "entries_ok lt at st" and none: "map_of (ps_entries st) k = None"
    and old: "\<And>e. e \<in> set (ps_entries st) \<Longrightarrow> snd (snd e) < a \<and> ps_slots st' ! snd (snd e) = ps_slots st ! snd (snd e)"
    and new: "ps_entries st' = om_update lt k (at, a) (ps_entries st)" "fst (ps_slots st' ! a) = k"
  shows "entries_ok lt at st'" "set (ps_entries st') = insert (k, (at, a)) (set (ps_entries st))"
    "map_of (ps_entries st') = (map_of (ps_entries st))(k \<mapsto> (at, a))"
proof -
  have so: "oc_sorted lt K fst (ps_entries st)" using e K by (simp add: entries_ok_def)
  show "map_of (ps_entries st') = (map_of (ps_entries st))(k \<mapsto> (at, a))"
    unfolding new(1) using map_of_om_update[OF so, of k] K by simp
  have "oc_find lt fst k (ps_entries st) = None"
    using om_find_map_of[OF so, of k] K none by (simp add: om_find_def)
  then show set': "set (ps_entries st') = insert (k, (at, a)) (set (ps_entries st))"
    unfolding new(1) using set_insert_new[of fst "(k, (at, a))" "ps_entries st"] by (simp add: om_update_def)
  have so': "oc_sorted lt K fst (ps_entries st')" unfolding new(1) using sorted_om_update[OF so, of k] K by simp
  have "(at, a) \<notin> snd ` set (ps_entries st)" using old by force
  moreover have "distinct (map snd (ps_entries st))" using e by (simp add: entries_ok_def)
  ultimately have "inj_on snd (insert (k, (at, a)) (set (ps_entries st)))" by (auto simp: distinct_map)
  then have "distinct (map snd (ps_entries st'))" using set' sorted_distinct[OF so'] by (simp only: distinct_map)
  then show "entries_ok lt at st'" using so' set' old new(2) e K by (auto simp: entries_ok_def)
qed

lemma contents_add:
  assumes "entries_ok lt at st" "\<And>e. e \<in> set (ps_entries st) \<Longrightarrow> snd (snd e) < a \<and> snd (snd e) < length (ps_slots st)"
    and "ps_map st = Some at \<or> ps_entries st = []" "map_of (ps_entries st) k = None"
    and "map_of (ps_entries st') = (map_of (ps_entries st))(k \<mapsto> (at, a))" "ps_map st' = Some at"
    and "ps_slots st' = (ps_slots st @ zs)[a := (k, v)]" "a < length (ps_slots st @ zs)"
  shows "pstl_contents st' = (pstl_contents st)(k \<mapsto> v)"
proof
  fix k'
  show "pstl_contents st' k' = ((pstl_contents st)(k \<mapsto> v)) k'"
  proof (cases "map_of (ps_entries st) k'")
    case None
    then show ?thesis using assms(5-8) by (auto simp: pstl_contents_def valid_address_def)
  next
    case (Some p)
    with assms(2)[OF map_of_SomeD[OF Some]] have p: "snd p < a" "snd p < length (ps_slots st)" by simp_all
    moreover have "fst p = at" using assms(1) Some by (auto simp: entries_ok_def dest!: map_of_SomeD)
    moreover have "k' \<noteq> k" "ps_map st = Some at" using Some assms(3,4) by auto
    ultimately show ?thesis using Some assms(5-8)
      by (simp add: pstl_contents_def valid_address_def nth_append)
  qed
qed

lemma new_element_ok:
  assumes "K = UNIV" "pstl_ok lt at st" "map_of (ps_entries st) k = None"
  shows "\<exists>p st'. new_element lt at zero (k, v) st = Returned (p, st') \<and> pstl_ok lt at st' \<and>
    map_of (ps_entries st') k = Some p \<and> pstl_contents st' = (pstl_contents st)(k \<mapsto> v)"
proof -
  from assms(2) obtain a where a: "ps_fd st" "ps_map st = Some at \<or> ps_map st = None \<and> ps_cap st = 0"
    "entries_ok lt at st" "free_from a st" by (auto simp: pstl_ok_def)
  then obtain st1 zs where st1: "allocate at zero st = Returned ((at, a), st1)" "a < ps_cap st1" "ps_fd st1"
    "ps_map st1 = Some at" "ps_entries st1 = ps_entries st" "ps_slots st1 = ps_slots st @ zs"
    "length (ps_slots st1) = ps_cap st1"
    "ps_unallocated st1 = (if a + 1 = ps_cap st1 then [] else [(int a + 1, int (ps_cap st1))])"
    using allocate_ok[OF a(1,2,4)] by blast
  let ?st' = "st1\<lparr>ps_slots := (ps_slots st1)[a := (k, v)], ps_entries := om_update lt k (at, a) (ps_entries st)\<rparr>"
  have old: "snd (snd e) < a \<and> snd (snd e) < length (ps_slots st)" if "e \<in> set (ps_entries st)" for e
    using a(4) that by (auto simp: free_from_def)
  have slot: "snd (snd e) < a \<and> ps_slots ?st' ! snd (snd e) = ps_slots st ! snd (snd e)" if "e \<in> set (ps_entries st)" for e
    using old[OF that] st1(6) by (simp add: nth_append)
  have len: "a < length (ps_slots st @ zs)" using st1(2,6,7) by simp
  have key: "fst (ps_slots ?st' ! a) = k" using len st1(6) by simp
  have m: "ps_map st = Some at \<or> ps_entries st = []" using a(2,4) by (cases "ps_entries st") (auto simp: free_from_def)
  note e = entries_ok_add[OF assms(1) a(3) assms(3) slot _ key, simplified]
  have "free_from (a + 1) ?st'"
    using e(2) old st1(2,7,8) by (fastforce simp: free_from_def)
  then have "pstl_ok lt at ?st'" using st1(3,4) e(1) by (intro pstl_okI) auto
  moreover have "pstl_contents ?st' = (pstl_contents st)(k \<mapsto> v)"
    using e(3) st1(4,6) by (intro contents_add[OF a(3) old m assms(3) _ _ _ len]) simp_all
  ultimately show ?thesis using st1 e(3) by (simp add: new_element_def)
qed

lemma erase_ok:
  assumes "K = UNIV" "pstl_ok lt at st"
  shows "pstl_ok lt at (snd (pstl_erase lt k st)) \<and>
    pstl_contents (snd (pstl_erase lt k st)) = (pstl_contents st)(k := None)"
proof (cases "om_find lt k (ps_entries st)")
  case None
  from assms have "map_of (ps_entries st) k = None"
    using None om_find_map_of[of "ps_entries st" k] by (auto simp: pstl_ok_def entries_ok_def)
  then have "pstl_contents st k = None" by (rule pstl_contents_None)
  then show ?thesis using None assms(2) by (auto simp: pstl_erase_def)
next
  case (Some p)
  from assms(2) obtain a where a: "ps_fd st" "ps_map st = Some at \<or> ps_map st = None \<and> ps_cap st = 0"
    "entries_ok lt at st" "free_from a st" by (auto simp: pstl_ok_def)
  let ?m = "om_erase lt k (ps_entries st)"
  have so: "oc_sorted lt K fst (ps_entries st)" using a(3) assms(1) by (simp add: entries_ok_def)
  obtain e where e: "oc_find lt fst k (ps_entries st) = Some e" using Some by (auto simp: om_find_def)
  have sub: "set ?m \<subseteq> set (ps_entries st)" using set_erase[OF so e] by (auto simp: om_erase_def)
  moreover have "distinct (map snd ?m)"
    using a(3) sub sorted_distinct[OF sorted_om_erase[OF so]]
    by (auto simp: entries_ok_def distinct_map intro: inj_on_subset)
  ultimately have "pstl_ok lt at (st\<lparr>ps_entries := ?m\<rparr>)"
    using a sorted_om_erase[OF so] assms(1) by (intro pstl_okI[of _ _ _ a]) (auto simp: entries_ok_def free_from_def)
  moreover have "pstl_contents (st\<lparr>ps_entries := ?m\<rparr>) = (pstl_contents st)(k := None)"
    using map_of_om_erase[OF so, of k] assms(1) by (simp add: fun_eq_iff pstl_contents_def valid_address_def split: option.split)
  ultimately show ?thesis using Some by (simp add: pstl_erase_def)
qed

lemma store_ok:
  assumes "K = UNIV" "pstl_ok lt at st" "map_of (ps_entries st) k = Some p"
  shows "\<exists>st'. store p v st = Returned st' \<and> pstl_ok lt at st' \<and>
    pstl_contents st' = (pstl_contents st)(k \<mapsto> v)"
proof -
  from assms(2) obtain a where a: "ps_fd st" "ps_map st = Some at \<or> ps_map st = None \<and> ps_cap st = 0"
    "entries_ok lt at st" "free_from a st" by (auto simp: pstl_ok_def)
  from assms(3) have p: "(k, p) \<in> set (ps_entries st)" by (rule map_of_SomeD)
  then have val: "valid_address st p" and lt: "snd p < length (ps_slots st)"
    using a by (force simp: valid_address_def entries_ok_def free_from_def)+
  let ?st' = "st\<lparr>ps_slots := (ps_slots st)[snd p := (fst (ps_slots st ! snd p), v)]\<rparr>"
  have other: "snd q \<noteq> snd p" if "(k', q) \<in> set (ps_entries st)" "k' \<noteq> k" for k' q
  proof
    assume "snd q = snd p"
    have at: "fst (snd e) = at" if "e \<in> set (ps_entries st)" for e
      using a(3) that by (simp add: entries_ok_def)
    have "fst q = fst p" using at[OF that(1)] at[OF p] by simp
    with \<open>snd q = snd p\<close> have "q = p" by (simp add: prod_eq_iff)
    moreover have "inj_on snd (set (ps_entries st))" using a(3) by (simp add: entries_ok_def distinct_map)
    ultimately show False using inj_onD[of snd, OF _ _ that(1) p] that(2) by auto
  qed
  have "entries_ok lt at ?st'"
    using a(3) lt by (auto simp: entries_ok_def nth_list_update)
  moreover have "free_from a ?st'" using a(4) by (simp add: free_from_def)
  ultimately have "pstl_ok lt at ?st'" using a(1,2) by (intro pstl_okI[of _ _ _ a]) auto
  moreover have "pstl_contents ?st' k' = ((pstl_contents st)(k \<mapsto> v)) k'" for k'
  proof (cases "map_of (ps_entries st) k'")
    case (Some q)
    then show ?thesis using assms(3) val lt other[OF map_of_SomeD[OF Some]]
      by (auto simp: pstl_contents_def valid_address_def)
  qed (use assms(3) in \<open>auto simp: pstl_contents_def\<close>)
  then have "pstl_contents ?st' = (pstl_contents st)(k \<mapsto> v)" by blast
  ultimately show ?thesis using val by (simp add: store_def)
qed

lemma pstl_step_ok:
  assumes "K = UNIV" "pstl_ok lt at st"
  shows "\<exists>st'. pstl_step lt at zero fresh x st = Returned st' \<and> pstl_ok lt at st' \<and>
    pstl_contents st' = map_step x (pstl_contents st)"
proof -
  have find: "om_find lt k (ps_entries st) = map_of (ps_entries st) k" for k
    using om_find_map_of[of "ps_entries st" k] assms by (auto simp: pstl_ok_def entries_ok_def)
  show ?thesis
  proof (cases x)
    case (Insert k v)
    show ?thesis
    proof (cases "map_of (ps_entries st) k")
      case None
      then show ?thesis using Insert find new_element_ok[OF assms None, of zero v] pstl_contents_None[of st k]
        by (fastforce simp: pstl_insert_def)
    next
      case (Some p)
      then have "pstl_contents st k \<noteq> None"
        using store_ok[OF assms Some] by (auto simp: store_def pstl_contents_def)
      then show ?thesis using Insert Some find assms(2) by (auto simp: pstl_insert_def)
    qed
  next
    case (Assign k v)
    show ?thesis
    proof (cases "map_of (ps_entries st) k")
      case None
      obtain p st1 where "new_element lt at zero (k, fresh) st = Returned (p, st1)" "pstl_ok lt at st1"
        "map_of (ps_entries st1) k = Some p" "pstl_contents st1 = (pstl_contents st)(k \<mapsto> fresh)"
        using new_element_ok[OF assms None] by blast
      then show ?thesis using Assign None find store_ok[OF assms(1), of at st1 k p v]
        by (auto simp: pstl_index_def)
    next
      case (Some p)
      then show ?thesis using Assign find store_ok[OF assms Some, of v] by (simp add: pstl_index_def)
    qed
  next
    case (Erase k)
    then show ?thesis using erase_ok[OF assms, of k] by simp
  qed
qed

lemma pstl_run_ok:
  assumes "K = UNIV" "pstl_ok lt at st"
  shows "\<exists>st'. pstl_run lt at zero fresh xs st = Returned st' \<and> pstl_ok lt at st' \<and>
    pstl_contents st' = fold map_step xs (pstl_contents st)"
  using assms(2)
proof (induction xs arbitrary: st)
  case (Cons x xs)
  then show ?case using pstl_step_ok[OF assms(1) Cons.prems, of zero fresh x] by force
qed simp

lemma load_slots_ok:
  assumes "K = UNIV" "oc_sorted lt K fst (ps_entries st)" "i + n \<le> length (ps_slots st)"
  shows "ps_slots (load_slots lt sz zero at i n st) = ps_slots st \<and>
    ps_map (load_slots lt sz zero at i n st) = ps_map st \<and>
    map_of (ps_entries (load_slots lt sz zero at i n st)) =
      map_of (map (\<lambda>j. (fst (ps_slots st ! j), (at, j))) [j \<leftarrow> [i..<i + n]. fst (ps_slots st ! j) \<noteq> fst zero])
        ++ map_of (ps_entries st)"
  using assms(2,3)
proof (induction n arbitrary: i st)
  case (Suc n)
  let ?k = "fst (ps_slots st ! i)"
  have same: "(ps_slots st)[i := (?k, snd (ps_slots st ! i))] = ps_slots st" by simp
  have i: "[i..<i + Suc n] = i # [i + 1..<(i + 1) + n]" by (simp add: upt_rec)
  have find: "om_find lt ?k (ps_entries st) = map_of (ps_entries st) ?k"
    using om_find_map_of[OF Suc.prems(1), of ?k] assms(1) by simp
  consider "?k = fst zero" | "?k \<noteq> fst zero" "map_of (ps_entries st) ?k \<noteq> None"
    | "?k \<noteq> fst zero" "map_of (ps_entries st) ?k = None" by blast
  then show ?case
  proof cases
    case 1
    have "(ps_slots st)[i := (fst zero, snd (ps_slots st ! i))] = ps_slots st" using same 1 by simp
    then show ?thesis using 1 Suc.IH[of "deallocate sz zero i st" "i + 1"] Suc.prems
      unfolding i by (simp add: deallocate_def)
  next
    case 2
    then show ?thesis using find Suc.IH[of st "i + 1"] Suc.prems unfolding i
      by (auto simp: map_add_def fun_eq_iff split: option.split)
  next
    case 3
    let ?st = "st\<lparr>ps_entries := om_update lt ?k (at, i) (ps_entries st)\<rparr>"
    have "map_of (ps_entries ?st) = (map_of (ps_entries st))(?k \<mapsto> (at, i))"
      using map_of_om_update[OF Suc.prems(1)] assms(1) by simp
    then show ?thesis using 3 find Suc.IH[of ?st "i + 1"] Suc.prems sorted_om_update[OF Suc.prems(1)] assms(1)
      unfolding i by (auto simp: map_add_def fun_eq_iff split: option.split)
  qed
qed simp

end

section \<open>Properties\<close>

lemma map_of_slots:
  "map_of (map (\<lambda>j. (fst (xs ! j), snd (xs ! j))) js) k =
   map_option (\<lambda>p. snd (xs ! snd p)) (map_of (map (\<lambda>j. (fst (xs ! j), (at, j))) js) k)"
  by (induction js) auto

lemma filter_by_index: "map (\<lambda>j. xs ! j) [j \<leftarrow> [0..<length xs]. P (xs ! j)] = filter P xs"
proof -
  have "filter P xs = filter P (map ((!) xs) [0..<length xs])" by (simp only: map_nth)
  then show ?thesis by (simp add: filter_map o_def)
qed

lemma opened_contents:
  assumes "strict_total_order lt UNIV" "slots \<noteq> []" "ps_entries st = []"
  shows "pstl_contents (snd (pstl_open lt sz zero at slots st)) = map_of [s \<leftarrow> slots. fst s \<noteq> fst zero]"
proof
  fix k
  let ?st = "st\<lparr>ps_fd := True, ps_cap := length slots, ps_slots := slots, ps_map := Some at\<rparr>"
  let ?js = "[j \<leftarrow> [0..<length slots]. fst (slots ! j) \<noteq> fst zero]"
  let ?m = "map_of (map (\<lambda>j. (fst (slots ! j), (at, j))) ?js)"
  have l: "ps_slots (load_slots lt sz zero at 0 (length slots) ?st) = slots"
    "ps_map (load_slots lt sz zero at 0 (length slots) ?st) = Some at"
    "map_of (ps_entries (load_slots lt sz zero at 0 (length slots) ?st)) = ?m"
    using strict_total_order.load_slots_ok[OF assms(1) refl, of ?st 0 "length slots" sz zero at] assms(3)
    by (simp_all add: oc_sorted_def)
  have "?m k = Some p \<Longrightarrow> fst p = at \<and> snd p < length slots" for p
    by (auto dest!: map_of_SomeD)
  then have "pstl_contents (snd (pstl_open lt sz zero at slots st)) k = map_option (\<lambda>p. snd (slots ! snd p)) (?m k)"
    using l assms(2) by (auto simp: pstl_open_def pstl_contents_def valid_address_def split: option.split)
  also have "\<dots> = map_of (map (\<lambda>j. slots ! j) ?js) k" by (simp flip: map_of_slots)
  also have "\<dots> = map_of [s \<leftarrow> slots. fst s \<noteq> fst zero] k"
    by (simp only: filter_by_index[of slots "\<lambda>s. fst s \<noteq> fst zero"])
  finally show "pstl_contents (snd (pstl_open lt sz zero at slots st)) k = map_of [s \<leftarrow> slots. fst s \<noteq> fst zero] k" .
qed

text \<open>
  C23: within one run, as long as the mapping stays at one address, a persistent map is a finite
  map: any sequence of insertions, assignments and erasures is defined, and afterwards \<open>find\<close>
  leads every key to the value that the same operations give in a map, and \<open>size\<close> counts its keys.
\<close>

theorem persistent_map_refines:
  assumes "strict_total_order lt UNIV" "pstl_ok lt at st"
  shows "\<exists>st'. pstl_run lt at zero fresh xs st = Returned st' \<and>
    pstl_contents st' = fold map_step xs (pstl_contents st) \<and>
    pstl_size st' = card (dom (fold map_step xs (pstl_contents st))) \<and>
    (\<forall>k. (case pstl_find lt k st' of None \<Rightarrow> Returned None
           | Some p \<Rightarrow> outcome_bind (load p st') (\<lambda>s. Returned (Some (snd s)))) =
         Returned (fold map_step xs (pstl_contents st) k))"
proof -
  obtain st' where st': "pstl_run lt at zero fresh xs st = Returned st'" "pstl_ok lt at st'"
    "pstl_contents st' = fold map_step xs (pstl_contents st)"
    using strict_total_order.pstl_run_ok[OF assms(1) refl assms(2)] by blast
  have so: "oc_sorted lt UNIV fst (ps_entries st')" using st'(2) by (simp add: pstl_ok_def entries_ok_def)
  have find: "pstl_find lt k st' = map_of (ps_entries st') k" for k
    using strict_total_order.om_find_map_of[OF assms(1) so, of k] by (simp add: pstl_find_def)
  have val: "valid_address st' p" if "map_of (ps_entries st') k = Some p" for k p
    using strict_total_order.store_ok[OF assms(1) refl st'(2) that] by (auto simp: store_def)
  have look: "(case pstl_find lt k st' of None \<Rightarrow> Returned None
           | Some p \<Rightarrow> outcome_bind (load p st') (\<lambda>s. Returned (Some (snd s)))) = Returned (pstl_contents st' k)" for k
    using val[of k] find[of k] by (auto simp: load_def pstl_contents_def split: option.split)
  have "dom (pstl_contents st') = fst ` set (ps_entries st')"
    using val by (auto simp: pstl_contents_def map_of_eq_None_iff dom_def split: option.splits)
  then have "pstl_size st' = card (dom (pstl_contents st'))"
    using strict_total_order.sorted_distinct_keys[OF assms(1) so]
    by (simp add: pstl_size_def) (metis distinct_card length_map list.set_map)
  with look st' show ?thesis by auto
qed

lemma persistent_map_refines_witness:
  "\<exists>st'. pstl_run string_less 5 ([], 0) 0 [Insert ''a'' 1, Assign ''b'' 2, Insert ''a'' 3, Erase ''b''] (new_pstl\<lparr>ps_fd := True\<rparr>) = Returned st' \<and>
    pstl_contents st' = [''a'' \<mapsto> (1::nat)]"
proof -
  have "pstl_ok string_less 5 (new_pstl\<lparr>ps_fd := True\<rparr> :: (string, nat) pstl)"
    by (rule pstl_okI[of _ _ _ 0]) (simp_all add: new_pstl_def entries_ok_def free_from_def oc_sorted_def)
  moreover have "pstl_contents (new_pstl\<lparr>ps_fd := True\<rparr> :: (string, nat) pstl) = Map.empty"
    by (simp add: new_pstl_def pstl_contents_def fun_eq_iff)
  ultimately show ?thesis
    using persistent_map_refines[where lt = string_less and at = 5 and st = "new_pstl\<lparr>ps_fd := True\<rparr>"
      and zero = "([], 0)" and fresh = 0 and xs = "[Insert ''a'' (1::nat), Assign ''b'' 2, Insert ''a'' 3, Erase ''b'']"]
      string_order.strict_total_order_axioms by (auto simp: fun_upd_twist)
qed

definition demo_pstl :: "(string, nat) pstl" where
  "demo_pstl = \<lparr>ps_fd = True, ps_entries = [(''a'', (5, 0))], ps_unallocated = [(1, 10)], ps_map = Some 5,
     ps_cap = 10, ps_slots = (''a'', 1) # replicate 9 ([], 0)\<rparr>"

definition full_pstl :: "(u32, nat) pstl" where
  "full_pstl = \<lparr>ps_fd = True, ps_entries = [(1, (5, 0))], ps_unallocated = [], ps_map = Some 5,
     ps_cap = 1, ps_slots = [(1, 3)]\<rparr>"

lemma load_free_slots:
  assumes "ps_unallocated st = [] \<or> ps_unallocated st = [(0, 1)]" "0 < n" "i + n \<le> sz" "i + n \<le> length (ps_slots st)"
    and "\<forall>j < length (ps_slots st). i \<le> j \<longrightarrow> ps_slots st ! j = zero"
  shows "load_slots lt sz zero at i n st = st\<lparr>ps_unallocated := [(0, 1)]\<rparr>"
  using assms
proof (induction n arbitrary: i st)
  case (Suc n)
  have same: "(ps_slots st)[i := zero] = ps_slots st" using Suc.prems(4,5) by (metis Suc_leD add_Suc_right le_add1 le_simps(3) less_le_trans list_update_id not_less_eq_eq order_refl)
  have "release_extent 0 (ps_unallocated st) = [(0, 1)]"
    using Suc.prems(1) by (auto simp: release_extent_def oc_before_def oc_lower_bound_def extent_less_def oc_insert_def oc_find_def)
  then have d: "deallocate sz zero i st = st\<lparr>ps_unallocated := [(0, 1)]\<rparr>"
    using Suc.prems(3-5) same by (simp add: deallocate_def div_eq_0_iff)
  show ?case
  proof (cases n)
    case 0
    then show ?thesis using d Suc.prems(4,5) by simp
  next
    case (Suc m)
    then show ?thesis using d Suc.IH[of "st\<lparr>ps_unallocated := [(0, 1)]\<rparr>" "i + 1"] Suc.prems by simp
  qed
qed simp

lemma open_one_entry:
  assumes "k \<noteq> fst zero" "0 < n" "n < sz"
  shows "snd (pstl_open lt sz zero at ((k, v) # replicate n zero) new_pstl) =
    new_pstl\<lparr>ps_fd := True, ps_cap := n + 1, ps_slots := (k, v) # replicate n zero, ps_map := Some at,
      ps_entries := [(k, (at, 0))], ps_unallocated := [(0, 1)]\<rparr>"
proof -
  let ?st = "new_pstl\<lparr>ps_fd := True, ps_cap := n + 1, ps_slots := (k, v) # replicate n zero, ps_map := Some at,
      ps_entries := [(k, (at, 0))]\<rparr>"
  have "\<forall>j < length (ps_slots ?st). 1 \<le> j \<longrightarrow> ps_slots ?st ! j = zero" by (auto simp: nth_Cons')
  then have "load_slots lt sz zero at 1 n ?st = ?st\<lparr>ps_unallocated := [(0, 1)]\<rparr>"
    using assms(2,3) by (intro load_free_slots) (simp_all add: new_pstl_def)
  moreover have "om_update lt k (at, 0::nat) [] = [(k, (at, 0))]" "om_find lt k ([] :: ('a \<times> address) list) = None"
    by (simp_all add: om_update_def om_find_def oc_find_def oc_lower_bound_def oc_insert_def oc_before_def)
  ultimately show ?thesis using assms(1) by (simp add: pstl_open_def new_pstl_def Let_def)
qed

text \<open>
  C38: \<open>erase\<close> does not survive a restart. Whatever is erased from an open map, after \<open>close\<close>
  and \<open>open\<close> the key is in the map again, because its slot was never cleared or freed.
\<close>

theorem erased_entries_return:
  assumes "strict_total_order lt UNIV" "pstl_ok lt at st" "pstl_contents st k \<noteq> None" "k \<noteq> fst zero"
    and "pstl_erase lt k st = (removed, st1)" and "pstl_close st1 = (slots, st2)"
  shows "pstl_contents st1 k = None \<and> pstl_contents (snd (pstl_open lt sz zero at' slots st2)) k \<noteq> None"
proof
  show "pstl_contents st1 k = None"
    using strict_total_order.erase_ok[OF assms(1) refl assms(2), of k] assms(5) by simp
  obtain p where p: "map_of (ps_entries st) k = Some p" "valid_address st p"
    using assms(3) by (auto simp: pstl_contents_def split: option.splits if_splits)
  have st1: "ps_slots st1 = ps_slots st" using assms(5) by (auto simp: pstl_erase_def split: option.splits)
  have "fst (ps_slots st ! snd p) = k"
    using assms(2) map_of_SomeD[OF p(1)] by (auto simp: pstl_ok_def entries_ok_def)
  with p(2) have mem: "ps_slots st ! snd p \<in> set (ps_slots st)" "fst (ps_slots st ! snd p) = k"
    by (simp_all add: valid_address_def)
  have "k \<in> fst ` set [s \<leftarrow> ps_slots st. fst s \<noteq> fst zero]"
    using mem assms(4) by force
  moreover have "slots = ps_slots st" "ps_entries st2 = []" "slots \<noteq> []"
    using assms(6) st1 mem(1) by (auto simp: pstl_close_def)
  ultimately show "pstl_contents (snd (pstl_open lt sz zero at' slots st2)) k \<noteq> None"
    using opened_contents[OF assms(1), of slots st2 sz zero at'] by (simp add: map_of_eq_None_iff)
qed

lemma erased_entries_return_witness:
  "\<exists>st1 st2 slots. pstl_erase string_less ''a'' (demo_pstl :: (string, nat) pstl) = (1, st1) \<and>
     pstl_close st1 = (slots, st2) \<and> pstl_contents st1 ''a'' = None \<and>
     pstl_contents (snd (pstl_open string_less 36 ([], 0) 9 slots st2)) ''a'' \<noteq> None"
proof -
  let ?st1 = "demo_pstl\<lparr>ps_entries := []\<rparr> :: (string, nat) pstl"
  have find: "om_find string_less ''a'' [(''a'', (5::nat, 0::nat))] = Some (5, 0)"
    using string_order.om_find_map_of[of "[(''a'', (5::nat, 0::nat))]" "''a''"] by (simp add: oc_sorted_def)
  have erase: "pstl_erase string_less ''a'' (demo_pstl :: (string, nat) pstl) = (1, ?st1)"
    using find string_order.total_irrefl[of "''a''"]
    by (simp add: pstl_erase_def demo_pstl_def om_erase_def oc_erase_def oc_before_def oc_lower_bound_def oc_find_def)
  have ok: "pstl_ok string_less 5 (demo_pstl :: (string, nat) pstl)"
    by (rule pstl_okI[of _ _ _ 1]) (simp_all add: demo_pstl_def entries_ok_def free_from_def oc_sorted_def)
  have c: "pstl_contents (demo_pstl :: (string, nat) pstl) ''a'' \<noteq> None"
    by (simp add: demo_pstl_def pstl_contents_def valid_address_def)
  show ?thesis
    using erased_entries_return[OF string_order.strict_total_order_axioms ok c _ erase
        pstl_close_def[of ?st1], of "([], 0)" 36 9] erase
    by (auto simp: pstl_close_def)
qed

text \<open>
  Reopening a file can make a live slot free. When the file holds one entry and then free
  slots, fewer than a slot has bytes, the free slots are all recorded as slot 0; the next
  insertion overwrites the live entry, and both keys lead to the new value.
\<close>

theorem reopen_overwrites:
  assumes "strict_total_order lt UNIV" "k \<noteq> fst zero" "k' \<noteq> k" "0 < n" "n < sz"
  shows "\<exists>st'. pstl_insert lt at zero (k', w)
             (snd (pstl_open lt sz zero at ((k, v) # replicate n zero) new_pstl)) = Returned (True, st') \<and>
           ps_slots st' ! 0 = (k', w) \<and> pstl_contents st' k = Some w \<and> pstl_contents st' k' = Some w"
proof -
  let ?slots = "(k, v) # replicate n zero"
  let ?st = "new_pstl\<lparr>ps_fd := True, ps_cap := length ?slots, ps_slots := ?slots, ps_map := Some at,
    ps_entries := [(k, (at, 0))], ps_unallocated := [(0, 1)]\<rparr>"
  have opened: "snd (pstl_open lt sz zero at ?slots new_pstl) = ?st"
    using assms(2,4,5) by (simp add: open_one_entry)
  have sorted: "oc_sorted lt UNIV fst [(k, (at, 0::nat))]" by (simp add: oc_sorted_def)
  have find: "om_find lt k' [(k, (at, 0::nat))] = None"
    using strict_total_order.om_find_map_of[OF assms(1) sorted, of k'] assms(3) by simp
  have upd: "map_of (om_update lt k' (at, 0::nat) [(k, (at, 0))]) = [k \<mapsto> (at, 0), k' \<mapsto> (at, 0)]"
    using strict_total_order.map_of_om_update[OF assms(1) sorted, of k' "(at, 0)"] by simp
  let ?st' = "?st\<lparr>ps_unallocated := [], ps_slots := (k', w) # replicate n zero,
    ps_entries := om_update lt k' (at, 0) [(k, (at, 0))]\<rparr>"
  have "pstl_insert lt at zero (k', w) ?st = Returned (True, ?st')"
    using find by (simp add: pstl_insert_def new_element_def allocate_def)
  moreover have "pstl_contents ?st' k = Some w" "pstl_contents ?st' k' = Some w"
    using upd assms(3) by (simp_all add: pstl_contents_def valid_address_def)
  ultimately show ?thesis unfolding opened by simp
qed

lemma reopen_overwrites_witness:
  "\<exists>st'. pstl_insert string_less 5 ([], 0) (''b'', 2)
       (snd (pstl_open string_less 36 ([], 0) 5 ((''a'', 1) # replicate 9 ([], 0)) new_pstl)) = Returned (True, st') \<and>
     ps_slots st' ! 0 = (''b'', 2::nat) \<and> pstl_contents st' ''a'' = Some 2 \<and> pstl_contents st' ''b'' = Some 2"
  using string_order.strict_total_order_axioms
  by (rule reopen_overwrites[where zero = "([], 0)"]) simp_all

text \<open>
  Growing the map can move the mapping, and every address the entries hold is then stale:
  once an insertion extends the file at a new address, a look-up of an earlier key is undefined.
\<close>

theorem growth_invalidates_entries:
  assumes "strict_total_order lt UNIV" "pstl_ok lt at st" "ps_unallocated st = []" "at' \<noteq> at"
    and "pstl_find lt k st = Some p" "pstl_find lt k' st = None"
  shows "\<exists>st'. pstl_insert lt at' zero (k', w) st = Returned (True, st') \<and>
    pstl_find lt k st' = Some p \<and> load p st' = Unspecified"
proof -
  have so: "oc_sorted lt UNIV fst (ps_entries st)" and fd: "ps_fd st" and len: "length (ps_slots st) = ps_cap st"
    using assms(2) by (auto simp: pstl_ok_def entries_ok_def free_from_def)
  let ?st' = "st\<lparr>ps_cap := ps_cap st + 10, ps_map := Some at',
    ps_unallocated := [(int (ps_cap st) + 1, int (ps_cap st) + 10)],
    ps_slots := (ps_slots st @ replicate 10 zero)[ps_cap st := (k', w)],
    ps_entries := om_update lt k' (at', ps_cap st) (ps_entries st)\<rparr>"
  have "pstl_insert lt at' zero (k', w) st = Returned (True, ?st')"
    using assms(3,6) fd len
    by (simp add: pstl_insert_def new_element_def allocate_def pstl_find_def extents_singleton Let_def)
  moreover have "pstl_find lt k ?st' = Some p"
    using strict_total_order.om_find_update[OF assms(1) refl so] assms(5,6)
    by (auto simp: pstl_find_def)
  moreover have "fst p = at"
    using assms(2,5) strict_total_order.om_find_map_of[OF assms(1) so]
    by (auto simp: pstl_find_def pstl_ok_def entries_ok_def dest!: map_of_SomeD)
  ultimately show ?thesis using assms(4) by (auto simp: load_def valid_address_def)
qed

lemma growth_invalidates_entries_witness:
  "\<exists>st'. pstl_insert (<) 7 (0, 0) (2 :: u32, 5) (full_pstl :: (u32, nat) pstl) = Returned (True, st') \<and>
     pstl_find (<) 1 st' = Some (5, 0) \<and> load (5, 0) st' = Unspecified"
proof (rule growth_invalidates_entries[OF u32_order.strict_total_order_axioms])
  show "pstl_ok (<) 5 full_pstl"
    by (rule pstl_okI[of _ _ _ 1]) (simp_all add: full_pstl_def entries_ok_def free_from_def oc_sorted_def)
qed (simp_all add: full_pstl_def pstl_find_def om_find_def oc_find_def oc_lower_bound_def)

end
