(* ===== verification/Persistent_Iterators.thy ===== *)
theory Persistent_Iterators
  imports Persistent_Stl
begin

text \<open>
  The iterators of \<open>PersistentMap\<close>: positions in the map of addresses. An iterator is the key of
  the entry it points at, or \<open>None\<close> for the end; an iterator whose entry has been erased is no
  longer valid, and stepping, comparing or following it is undefined, as in \<open>std::map\<close>. The
  reverse iterators run the other way, with \<open>None\<close> for \<open>rend\<close>.

  \<open>PersistentMap\<close>'s insertion with a hint and its erasure of a range are left out: they do not
  compile when they are instantiated (line 292 names a map with another value type, line 323
  needs a conversion from \<open>const_iterator\<close> to \<open>iterator\<close> that does not exist). \<open>PersistentSet\<close>,
  where both compile, has them in \<open>Persistent_Set\<close>.
\<close>

section \<open>Operations\<close>

type_synonym 'k iter = "'k option"

definition iter_at :: "('k \<times> address) list \<Rightarrow> 'k iter" where
  "iter_at es = (case es of [] \<Rightarrow> None | e # _ \<Rightarrow> Some (fst e))"

definition pstl_begin :: "('k, 'v) pstl \<Rightarrow> 'k iter" where
  "pstl_begin st = iter_at (ps_entries st)"

definition pstl_end :: "('k, 'v) pstl \<Rightarrow> 'k iter" where
  "pstl_end st = None"

definition pstl_lower_bound :: "'k cmp \<Rightarrow> 'k \<Rightarrow> ('k, 'v) pstl \<Rightarrow> 'k iter" where
  "pstl_lower_bound lt k st = iter_at (oc_lower_bound lt fst k (ps_entries st))"

definition pstl_count :: "'k cmp \<Rightarrow> 'k \<Rightarrow> ('k, 'v) pstl \<Rightarrow> nat" where
  "pstl_count lt k st = (if om_find lt k (ps_entries st) = None then 0 else 1)"

fun iter_valid :: "'k cmp \<Rightarrow> 'k iter \<Rightarrow> ('k, 'v) pstl \<Rightarrow> bool" where
  "iter_valid lt None st = True"
| "iter_valid lt (Some k) st = (om_find lt k (ps_entries st) \<noteq> None)"

definition iter_differs :: "'k cmp \<Rightarrow> 'k iter \<Rightarrow> 'k iter \<Rightarrow> ('k, 'v) pstl \<Rightarrow> bool outcome" where
  "iter_differs lt a b st = guard_defined (iter_valid lt a st \<and> iter_valid lt b st) (Returned (a \<noteq> b))"

fun iter_next :: "'k cmp \<Rightarrow> 'k iter \<Rightarrow> ('k, 'v) pstl \<Rightarrow> 'k iter outcome" where
  "iter_next lt None st = Unspecified"
| "iter_next lt (Some k) st =
     guard_defined (iter_valid lt (Some k) st) (Returned (iter_at (tl (oc_lower_bound lt fst k (ps_entries st)))))"

text \<open>\<open>it++\<close> moves the iterator and returns the old position.\<close>

definition iter_post_next :: "'k cmp \<Rightarrow> 'k iter \<Rightarrow> ('k, 'v) pstl \<Rightarrow> ('k iter \<times> 'k iter) outcome" where
  "iter_post_next lt it st = outcome_bind (iter_next lt it st) (\<lambda>it'. Returned (it, it'))"

text \<open>The entries before an iterator, the nearest first.\<close>

definition entries_before :: "'k cmp \<Rightarrow> 'k iter \<Rightarrow> ('k, 'v) pstl \<Rightarrow> ('k \<times> address) list" where
  "entries_before lt it st =
     rev (case it of None \<Rightarrow> ps_entries st | Some k \<Rightarrow> oc_before lt fst k (ps_entries st))"

definition iter_prev :: "'k cmp \<Rightarrow> 'k iter \<Rightarrow> ('k, 'v) pstl \<Rightarrow> 'k iter outcome" where
  "iter_prev lt it st = guard_defined (iter_valid lt it st \<and> entries_before lt it st \<noteq> [])
     (Returned (iter_at (entries_before lt it st)))"

fun iter_deref :: "'k cmp \<Rightarrow> 'k iter \<Rightarrow> ('k, 'v) pstl \<Rightarrow> ('k \<times> 'v) outcome" where
  "iter_deref lt None st = Unspecified"
| "iter_deref lt (Some k) st =
     (case om_find lt k (ps_entries st) of None \<Rightarrow> Unspecified | Some p \<Rightarrow> load p st)"

definition pstl_rbegin :: "('k, 'v) pstl \<Rightarrow> 'k iter" where
  "pstl_rbegin st = iter_at (rev (ps_entries st))"

fun riter_next :: "'k cmp \<Rightarrow> 'k iter \<Rightarrow> ('k, 'v) pstl \<Rightarrow> 'k iter outcome" where
  "riter_next lt None st = Unspecified"
| "riter_next lt (Some k) st =
     guard_defined (iter_valid lt (Some k) st) (Returned (iter_at (entries_before lt (Some k) st)))"

text \<open>\<open>erase(pos)\<close> returns the position behind the erased entry.\<close>

definition pstl_erase_at :: "'k cmp \<Rightarrow> 'k iter \<Rightarrow> ('k, 'v) pstl \<Rightarrow> ('k iter \<times> ('k, 'v) pstl) outcome" where
  "pstl_erase_at lt it st =
     (case it of None \<Rightarrow> Unspecified
      | Some k \<Rightarrow> outcome_bind (iter_next lt it st)
          (\<lambda>it'. Returned (it', st\<lparr>ps_entries := om_erase lt k (ps_entries st)\<rparr>)))"

text \<open>
  The loop \<open>for (it = m.begin(); it != m.end(); it++)\<close> that looks at every pair, and its
  counterpart from \<open>rbegin\<close>.
\<close>

fun traverse :: "'k cmp \<Rightarrow> nat \<Rightarrow> 'k iter \<Rightarrow> ('k, 'v) pstl \<Rightarrow> ('k \<times> 'v) list outcome" where
  "traverse lt 0 it st = Running"
| "traverse lt (Suc n) it st =
     outcome_bind (iter_differs lt it (pstl_end st) st) (\<lambda>more.
       if \<not> more then Returned []
       else outcome_bind (iter_deref lt it st) (\<lambda>x.
         outcome_bind (iter_post_next lt it st) (\<lambda>(_, it').
           outcome_bind (traverse lt n it' st) (\<lambda>xs. Returned (x # xs)))))"

fun rtraverse :: "'k cmp \<Rightarrow> nat \<Rightarrow> 'k iter \<Rightarrow> ('k, 'v) pstl \<Rightarrow> ('k \<times> 'v) list outcome" where
  "rtraverse lt 0 it st = Running"
| "rtraverse lt (Suc n) it st =
     (if it = None then Returned []
      else outcome_bind (iter_deref lt it st) (\<lambda>x.
        outcome_bind (riter_next lt it st) (\<lambda>it'.
          outcome_bind (rtraverse lt n it' st) (\<lambda>xs. Returned (x # xs)))))"

section \<open>Iteration\<close>

text \<open>The pairs of a map in the order of its entries.\<close>

definition pairs :: "('k, 'v) pstl \<Rightarrow> ('k \<times> 'v) list" where
  "pairs st = map (\<lambda>(k, p). ps_slots st ! snd p) (ps_entries st)"

lemma iter_at_simps [simp]: "iter_at [] = None" "iter_at (e # es) = Some (fst e)"
  by (simp_all add: iter_at_def)

context strict_total_order
begin

lemma split_entries:
  assumes "K = UNIV" "oc_sorted lt K fst (xs @ e # ys)"
  shows "oc_before lt fst (fst e) (xs @ e # ys) = xs" "oc_lower_bound lt fst (fst e) (xs @ e # ys) = e # ys"
    "om_find lt (fst e) (xs @ e # ys) = Some (snd e)"
proof -
  have less: "lt (fst x) (fst e)" if "x \<in> set xs" for x
    using assms(2) that by (simp add: oc_sorted_def sorted_wrt_append)
  have irr: "\<not> lt (fst e) (fst e)" using total_irrefl assms(1) by simp
  show "oc_before lt fst (fst e) (xs @ e # ys) = xs"
    unfolding oc_before_def using less irr by (subst takeWhile_append2) auto
  show lb: "oc_lower_bound lt fst (fst e) (xs @ e # ys) = e # ys"
    unfolding oc_lower_bound_def using less irr by (subst dropWhile_append2) auto
  show "om_find lt (fst e) (xs @ e # ys) = Some (snd e)"
    using irr by (simp add: om_find_def oc_find_def lb)
qed

lemma entry_loaded:
  assumes "pstl_ok lt at st" "(k, p) \<in> set (ps_entries st)"
  shows "load p st = Returned (ps_slots st ! snd p)" "fst (ps_slots st ! snd p) = k"
proof -
  from assms(1) obtain a where "ps_map st = Some at \<or> ps_map st = None \<and> ps_cap st = 0"
    "entries_ok lt at st" "free_from a st" by (auto simp: pstl_ok_def)
  with assms(2) show "load p st = Returned (ps_slots st ! snd p)" "fst (ps_slots st ! snd p) = k"
    by (force simp: load_def valid_address_def entries_ok_def free_from_def)+
qed

lemma traverse_from:
  assumes "K = UNIV" "pstl_ok lt at st"
  shows "ps_entries st = xs @ ys \<Longrightarrow> length ys < n \<Longrightarrow>
    traverse lt n (iter_at ys) st = Returned (map (\<lambda>(k, p). ps_slots st ! snd p) ys)"
proof (induction n arbitrary: xs ys)
  case (Suc n)
  show ?case
  proof (cases ys)
    case (Cons e es)
    have so: "oc_sorted lt K fst (xs @ e # es)"
      using assms Suc.prems(1) Cons by (simp add: pstl_ok_def entries_ok_def)
    have "load (snd e) st = Returned (ps_slots st ! snd (snd e))"
      using entry_loaded(1)[OF assms(2), of "fst e" "snd e"] Suc.prems(1) Cons by simp
    then show ?thesis using Suc.IH[of "xs @ [e]" es] Suc.prems Cons split_entries[OF assms(1) so]
      by (simp add: iter_differs_def pstl_end_def iter_post_next_def case_prod_beta)
  qed (simp add: iter_differs_def pstl_end_def)
qed simp

lemma rtraverse_from:
  assumes "K = UNIV" "pstl_ok lt at st"
  shows "ps_entries st = ys @ xs \<Longrightarrow> length ys < n \<Longrightarrow>
    rtraverse lt n (iter_at (rev ys)) st = Returned (rev (map (\<lambda>(k, p). ps_slots st ! snd p) ys))"
proof (induction n arbitrary: xs ys)
  case (Suc n)
  show ?case
  proof (cases ys rule: rev_cases)
    case (snoc es e)
    have so: "oc_sorted lt K fst (es @ e # xs)"
      using assms Suc.prems(1) snoc by (simp add: pstl_ok_def entries_ok_def)
    have "load (snd e) st = Returned (ps_slots st ! snd (snd e))"
      using entry_loaded(1)[OF assms(2), of "fst e" "snd e"] Suc.prems(1) snoc by simp
    then show ?thesis using Suc.IH[of es "e # xs"] Suc.prems snoc split_entries[OF assms(1) so]
      by (simp add: entries_before_def case_prod_beta)
  qed simp
qed simp

lemma pairs_contents:
  assumes "K = UNIV" "pstl_ok lt at st"
  shows "pstl_contents st = map_of (pairs st)" "sorted_wrt (\<lambda>x y. lt (fst x) (fst y)) (pairs st)"
    "map fst (pairs st) = map fst (ps_entries st)"
proof -
  have k: "fst (ps_slots st ! snd p) = k" "valid_address st p" if "(k, p) \<in> set (ps_entries st)" for k p
    using entry_loaded[OF assms(2) that] by (auto simp: load_def)
  show m: "map fst (pairs st) = map fst (ps_entries st)" using k(1) by (auto simp: pairs_def)
  have "sorted_wrt lt (map fst (ps_entries st))"
    using assms by (simp add: pstl_ok_def entries_ok_def oc_sorted_def sorted_wrt_map)
  then show "sorted_wrt (\<lambda>x y. lt (fst x) (fst y)) (pairs st)" unfolding m[symmetric] by (simp add: sorted_wrt_map)
  have "map_of (map (\<lambda>(k, p). ps_slots st ! snd p) es) k = map_option (\<lambda>p. snd (ps_slots st ! snd p)) (map_of es k)"
    if "set es \<subseteq> set (ps_entries st)" for es k
    using that
  proof (induction es)
    case (Cons e es)
    obtain k' p where e: "e = (k', p)" by (cases e)
    with Cons.prems have "fst (ps_slots st ! snd p) = k'" using k(1) by auto
    then have "ps_slots st ! snd p = (k', snd (ps_slots st ! snd p))" by (simp add: prod_eq_iff)
    with Cons e show ?case by (metis (no_types, lifting) insert_subset list.simps(15,9) map_of.simps(2) fst_conv snd_conv option.map(2) fun_upd_apply case_prod_conv)
  qed simp
  from this[OF order_refl] show "pstl_contents st = map_of (pairs st)"
    unfolding pairs_def pstl_contents_def fun_eq_iff using k(2)
    by (auto split: option.split dest!: map_of_SomeD)
qed

end

section \<open>Properties\<close>

text \<open>
  C25: iterating over a persistent map is iterating over its contents. A loop from \<open>begin\<close> to
  \<open>end\<close> is defined and ends, and it visits each key of the map once, in ascending order and with its
  value; a loop from \<open>rbegin\<close> to \<open>rend\<close> visits the same pairs in the opposite order.
\<close>

theorem iteration_visits_contents:
  assumes "strict_total_order lt UNIV" "pstl_ok lt at st" "pstl_size st < n"
  shows "\<exists>xs. traverse lt n (pstl_begin st) st = Returned xs \<and> rtraverse lt n (pstl_rbegin st) st = Returned (rev xs) \<and>
    sorted_wrt (\<lambda>x y. lt (fst x) (fst y)) xs \<and> map_of xs = pstl_contents st \<and> length xs = pstl_size st"
  using strict_total_order.traverse_from[OF assms(1) refl assms(2), of "[]" "ps_entries st" n]
    strict_total_order.rtraverse_from[OF assms(1) refl assms(2), of "ps_entries st" "[]" n]
    strict_total_order.pairs_contents[OF assms(1) refl assms(2)] assms(3)
  by (intro exI[of _ "pairs st"]) (simp add: pairs_def pstl_begin_def pstl_rbegin_def pstl_size_def)

lemma iteration_visits_contents_witness:
  "\<exists>xs. traverse string_less 9 (pstl_begin demo_pstl) demo_pstl = Returned xs \<and> map_of xs = [''a'' \<mapsto> (1::nat)]"
proof -
  have ok: "pstl_ok string_less 5 (demo_pstl :: (string, nat) pstl)"
    by (rule pstl_okI[of _ _ _ 1]) (simp_all add: demo_pstl_def entries_ok_def free_from_def oc_sorted_def)
  have "pstl_contents (demo_pstl :: (string, nat) pstl) = [''a'' \<mapsto> 1]" "pstl_size (demo_pstl :: (string, nat) pstl) < 9"
    by (simp_all add: demo_pstl_def pstl_contents_def valid_address_def pstl_size_def fun_eq_iff)
  with iteration_visits_contents[OF string_order.strict_total_order_axioms ok] show ?thesis by metis
qed

end
