(* ===== verification/Persistent_Set.thy ===== *)
theory Persistent_Set
  imports Persistent_Iterators
begin

text \<open>
  \<open>persistent_set.h\<close>: a set in a mapped file. A slot holds an entry alone, so the state is that of
  a persistent map without values, and the code is that of \<open>PersistentMap\<close> written out again for
  such slots; \<open>zero\<close> is an entry of zero bytes.
\<close>

section \<open>Operations\<close>

type_synonym 'k pset = "('k, unit) pstl"

definition pset_allocate :: "nat \<Rightarrow> 'k \<Rightarrow> 'k pset \<Rightarrow> (address \<times> 'k pset) outcome" where
  "pset_allocate at zero st = allocate at (zero, ()) st"

definition pset_deallocate :: "nat \<Rightarrow> 'k \<Rightarrow> nat \<Rightarrow> 'k pset \<Rightarrow> 'k pset" where
  "pset_deallocate sz zero i st =
     st\<lparr>ps_slots := (ps_slots st)[i := (zero, ())],
        ps_unallocated := release_extent (int i div int sz) (ps_unallocated st)\<rparr>"

definition new_pset :: "'k pset" where
  "new_pset = new_pstl"

fun pset_load_slots :: "'k cmp \<Rightarrow> nat \<Rightarrow> 'k \<Rightarrow> nat \<Rightarrow> nat \<Rightarrow> nat \<Rightarrow> 'k pset \<Rightarrow> 'k pset" where
  "pset_load_slots lt sz zero at i 0 st = st"
| "pset_load_slots lt sz zero at i (Suc n) st =
     pset_load_slots lt sz zero at (i + 1) n
       (let k = fst (ps_slots st ! i) in
        if k = zero then pset_deallocate sz zero i st
        else if om_find lt k (ps_entries st) = None
             then st\<lparr>ps_entries := om_update lt k (at, i) (ps_entries st)\<rparr> else st)"

definition pset_open :: "'k cmp \<Rightarrow> nat \<Rightarrow> 'k \<Rightarrow> nat \<Rightarrow> ('k \<times> unit) list \<Rightarrow> 'k pset \<Rightarrow> int \<times> 'k pset" where
  "pset_open lt sz zero at file st =
     (let st1 = st\<lparr>ps_fd := True, ps_cap := length file, ps_slots := file\<rparr> in
      if file = [] then (-1, st1\<lparr>ps_map := None\<rparr>)
      else (0, pset_load_slots lt sz zero at 0 (length file) (st1\<lparr>ps_map := Some at\<rparr>)))"

definition pset_close :: "'k pset \<Rightarrow> ('k \<times> unit) list \<times> 'k pset" where
  "pset_close st = (ps_slots st, st\<lparr>ps_fd := False, ps_map := None, ps_entries := [], ps_unallocated := []\<rparr>)"

definition pset_empty :: "'k pset \<Rightarrow> bool" where
  "pset_empty st \<longleftrightarrow> ps_entries st = []"

definition pset_size :: "'k pset \<Rightarrow> nat" where
  "pset_size st = length (ps_entries st)"

definition pset_clear :: "'k pset \<Rightarrow> 'k pset" where
  "pset_clear st = st\<lparr>ps_entries := [], ps_slots := [], ps_map := None\<rparr>"

text \<open>A new entry gets a slot, is written there and recorded with its address.\<close>

definition pset_new :: "'k cmp \<Rightarrow> nat \<Rightarrow> 'k \<Rightarrow> 'k \<Rightarrow> 'k pset \<Rightarrow> 'k pset outcome" where
  "pset_new lt at zero x st =
     outcome_bind (pset_allocate at zero st) (\<lambda>(p, st1).
       guard_defined (snd p < length (ps_slots st1))
        (Returned (st1\<lparr>ps_slots := (ps_slots st1)[snd p := (x, ())],
           ps_entries := om_update lt x p (ps_entries st1)\<rparr>)))"

definition pset_insert :: "'k cmp \<Rightarrow> nat \<Rightarrow> 'k \<Rightarrow> 'k \<Rightarrow> 'k pset \<Rightarrow> (('k iter \<times> bool) \<times> 'k pset) outcome" where
  "pset_insert lt at zero x st =
     (if om_find lt x (ps_entries st) = None
      then outcome_bind (pset_new lt at zero x st) (\<lambda>st'. Returned ((Some x, True), st'))
      else Returned ((Some x, False), st))"

text \<open>With a hint, where the hint only tells \<open>std::map\<close> where to look first.\<close>

definition pset_insert_hint :: "'k cmp \<Rightarrow> nat \<Rightarrow> 'k \<Rightarrow> 'k iter \<Rightarrow> 'k \<Rightarrow> 'k pset \<Rightarrow> ('k iter \<times> 'k pset) outcome" where
  "pset_insert_hint lt at zero hint x st =
     (if om_find lt x (ps_entries st) \<noteq> None then Returned (Some x, st)
      else guard_defined (iter_valid lt hint st)
        (outcome_bind (pset_new lt at zero x st) (\<lambda>st'. Returned (Some x, st'))))"

fun pset_insert_all :: "'k cmp \<Rightarrow> nat \<Rightarrow> 'k \<Rightarrow> 'k list \<Rightarrow> 'k pset \<Rightarrow> 'k pset outcome" where
  "pset_insert_all lt at zero [] st = Returned st"
| "pset_insert_all lt at zero (x # xs) st =
     outcome_bind (pset_insert lt at zero x st) (\<lambda>(_, st'). pset_insert_all lt at zero xs st')"

definition pset_erase_at :: "'k cmp \<Rightarrow> 'k iter \<Rightarrow> 'k pset \<Rightarrow> ('k iter \<times> 'k pset) outcome" where
  "pset_erase_at lt it st =
     (case it of None \<Rightarrow> Unspecified
      | Some k \<Rightarrow> outcome_bind (iter_next lt it st)
          (\<lambda>it'. Returned (it', st\<lparr>ps_entries := om_erase lt k (ps_entries st)\<rparr>)))"

text \<open>The loop erases the entry behind \<open>first\<close> and goes on from the erased position.\<close>

fun pset_erase_range :: "'k cmp \<Rightarrow> nat \<Rightarrow> 'k iter \<Rightarrow> 'k iter \<Rightarrow> 'k iter \<Rightarrow> 'k pset \<Rightarrow> ('k iter \<times> 'k pset) outcome" where
  "pset_erase_range lt 0 ret first end st = Running"
| "pset_erase_range lt (Suc n) ret first end st =
     outcome_bind (iter_differs lt first end st) (\<lambda>more.
       if \<not> more then Returned (ret, st)
       else outcome_bind (iter_next lt first st) (\<lambda>first'.
         outcome_bind (pset_erase_at lt first' st) (\<lambda>(ret', st').
           pset_erase_range lt n ret' first' end st')))"

definition pset_find :: "'k cmp \<Rightarrow> 'k \<Rightarrow> 'k pset \<Rightarrow> 'k iter" where
  "pset_find lt x st = (if om_find lt x (ps_entries st) = None then None else Some x)"

definition pset_erase :: "'k cmp \<Rightarrow> 'k \<Rightarrow> 'k pset \<Rightarrow> (nat \<times> 'k pset) outcome" where
  "pset_erase lt x st =
     (let search = pset_find lt x st in
      if search = None then Returned (0, st)
      else outcome_bind (pset_erase_at lt search st) (\<lambda>(_, st'). Returned (1, st')))"

definition pset_count :: "'k cmp \<Rightarrow> 'k \<Rightarrow> 'k pset \<Rightarrow> nat" where
  "pset_count lt x st = (if om_find lt x (ps_entries st) = None then 0 else 1)"

definition pset_lower_bound :: "'k cmp \<Rightarrow> 'k \<Rightarrow> 'k pset \<Rightarrow> 'k iter" where
  "pset_lower_bound lt x st = iter_at (oc_lower_bound lt fst x (ps_entries st))"

section \<open>The set is the map without values\<close>

text \<open>Each operation is that of \<open>PersistentMap\<close> on slots that hold a key and nothing else.\<close>

lemma pset_deallocate_eq: "pset_deallocate sz zero i st = deallocate sz (zero, ()) i st"
  by (simp add: pset_deallocate_def deallocate_def)

lemma pset_load_slots_eq: "pset_load_slots lt sz zero at i n st = load_slots lt sz (zero, ()) at i n st"
  by (induction n arbitrary: i st) (simp_all add: pset_deallocate_eq Let_def)

lemma pset_open_eq: "pset_open lt sz zero at file st = pstl_open lt sz (zero, ()) at file st"
  by (simp add: pset_open_def pstl_open_def pset_load_slots_eq Let_def)

lemma pset_new_eq:
  "pset_new lt at zero x st = outcome_bind (new_element lt at (zero, ()) (x, ()) st) (\<lambda>(_, st'). Returned st')"
proof (cases "allocate at (zero, ()) st")
  case (Returned r)
  then show ?thesis by (cases r) (simp add: pset_new_def pset_allocate_def new_element_def guard_defined_def)
qed (simp_all add: pset_new_def pset_allocate_def new_element_def)

lemma pset_insert_eq:
  "pset_insert lt at zero x st =
     outcome_bind (pstl_insert lt at (zero, ()) (x, ()) st) (\<lambda>(b, st'). Returned ((Some x, b), st'))"
proof (cases "new_element lt at (zero, ()) (x, ()) st")
  case (Returned r)
  then show ?thesis by (cases r) (simp add: pset_insert_def pstl_insert_def pset_new_eq)
qed (simp_all add: pset_insert_def pstl_insert_def pset_new_eq)

lemma pset_insert_hint_eq:
  assumes "iter_valid lt hint st"
  shows "pset_insert_hint lt at zero hint x st =
    outcome_bind (pset_insert lt at zero x st) (\<lambda>((it, _), st'). Returned (it, st'))"
  using assms by (cases "pset_new lt at zero x st"; cases "om_find lt x (ps_entries st)")
    (simp_all add: pset_insert_hint_def pset_insert_def)

lemma pset_erase_eq: "pset_erase lt x st = Returned (pstl_erase lt x st)"
  by (cases "om_find lt x (ps_entries st)")
    (simp_all add: pset_erase_def pset_find_def pset_erase_at_def pstl_erase_def)

section \<open>A specification\<close>

datatype 'k pset_op = Add 'k | Remove 'k

text \<open>Each operation answers with a number: whether it added, or how many entries it removed.\<close>

fun pset_step :: "'k cmp \<Rightarrow> nat \<Rightarrow> 'k \<Rightarrow> 'k pset_op \<Rightarrow> 'k pset \<Rightarrow> (nat \<times> 'k pset) outcome" where
  "pset_step lt at zero (Add x) st =
     outcome_bind (pset_insert lt at zero x st) (\<lambda>((_, b), st'). Returned (of_bool b, st'))"
| "pset_step lt at zero (Remove x) st = pset_erase lt x st"

fun pset_run :: "'k cmp \<Rightarrow> nat \<Rightarrow> 'k \<Rightarrow> 'k pset_op list \<Rightarrow> 'k pset \<Rightarrow> (nat list \<times> 'k pset) outcome" where
  "pset_run lt at zero [] st = Returned ([], st)"
| "pset_run lt at zero (x # xs) st =
     outcome_bind (pset_step lt at zero x st) (\<lambda>(r, st').
       outcome_bind (pset_run lt at zero xs st') (\<lambda>(rs, st''). Returned (r # rs, st'')))"

fun set_step :: "'k pset_op \<Rightarrow> 'k set \<Rightarrow> nat \<times> 'k set" where
  "set_step (Add x) S = (of_bool (x \<notin> S), insert x S)"
| "set_step (Remove x) S = (of_bool (x \<in> S), S - {x})"

fun set_run :: "'k pset_op list \<Rightarrow> 'k set \<Rightarrow> nat list \<times> 'k set" where
  "set_run [] S = ([], S)"
| "set_run (x # xs) S = (let (r, S') = set_step x S; (rs, S'') = set_run xs S' in (r # rs, S''))"

definition pset_members :: "'k pset \<Rightarrow> 'k set" where
  "pset_members st = dom (pstl_contents st)"

context strict_total_order
begin

lemma contents_entries:
  assumes "K = UNIV" "pstl_ok lt at st"
  shows "dom (pstl_contents st) = fst ` set (ps_entries st)"
    "om_find lt k (ps_entries st) = None \<longleftrightarrow> pstl_contents st k = None"
proof -
  have so: "oc_sorted lt UNIV fst (ps_entries st)" using assms(2) by (simp add: pstl_ok_def entries_ok_def)
  have m: "map_of (pairs st) = pstl_contents st" "map fst (pairs st) = map fst (ps_entries st)"
    using pairs_contents[OF assms] by simp_all
  have "dom (pstl_contents st) = fst ` set (pairs st)" unfolding m(1)[symmetric] by (rule dom_map_of_conv_image_fst)
  then show d: "dom (pstl_contents st) = fst ` set (ps_entries st)" using m(2) by (metis list.set_map)
  have "om_find lt k (ps_entries st) = map_of (ps_entries st) k" using om_find_map_of[of _ k] so assms(1) by simp
  then show "om_find lt k (ps_entries st) = None \<longleftrightarrow> pstl_contents st k = None"
    using d by (metis domIff map_of_eq_None_iff)
qed

lemma pset_step_ok:
  assumes "K = UNIV" "pstl_ok lt at st"
  shows "\<exists>st'. pset_step lt at zero x st = Returned (fst (set_step x (pset_members st)), st') \<and>
    pstl_ok lt at st' \<and> pset_members st' = snd (set_step x (pset_members st))"
proof (cases x)
  case (Add k)
  obtain st' where s: "pstl_step lt at (zero, ()) () (Insert k ()) st = Returned st'" "pstl_ok lt at st'"
    "pstl_contents st' = map_step (Insert k ()) (pstl_contents st)"
    using pstl_step_ok[OF assms, of "(zero, ())" "()" "Insert k ()"] by blast
  then obtain b where "pstl_insert lt at (zero, ()) (k, ()) st = Returned (b, st')" by auto
  moreover from this have "b \<longleftrightarrow> pstl_contents st k = None"
    using contents_entries(2)[OF assms, of k] by (auto simp: pstl_insert_def split: if_splits)
  ultimately show ?thesis using Add s(2,3)
    by (auto simp: pset_insert_eq pset_members_def domIff)
next
  case (Remove k)
  have "fst (pstl_erase lt k st) = of_bool (k \<in> pset_members st)"
    using contents_entries(2)[OF assms, of k]
    by (auto simp: pstl_erase_def pset_members_def split: option.split)
  then have "pset_erase lt k st = Returned (of_bool (k \<in> pset_members st), snd (pstl_erase lt k st))"
    by (simp add: pset_erase_eq prod_eq_iff)
  then show ?thesis using Remove erase_ok[OF assms, of k] by (auto simp: pset_members_def)
qed

lemma pset_run_ok:
  assumes "K = UNIV" "pstl_ok lt at st"
  shows "\<exists>st'. pset_run lt at zero xs st = Returned (fst (set_run xs (pset_members st)), st') \<and>
    pstl_ok lt at st' \<and> pset_members st' = snd (set_run xs (pset_members st))"
  using assms(2)
proof (induction xs arbitrary: st)
  case (Cons x xs)
  obtain st1 where s: "pset_step lt at zero x st = Returned (fst (set_step x (pset_members st)), st1)"
    "pstl_ok lt at st1" "pset_members st1 = snd (set_step x (pset_members st))"
    using pset_step_ok[OF assms(1) Cons.prems] by blast
  from Cons.IH[OF s(2)] obtain st' where
    "pset_run lt at zero xs st1 = Returned (fst (set_run xs (pset_members st1)), st')"
    "pstl_ok lt at st'" "pset_members st' = snd (set_run xs (pset_members st1))" by blast
  with s show ?case by (simp add: case_prod_beta)
qed simp

lemma erase_range_stops:
  assumes "K = UNIV" "pstl_ok lt at st" "iter_valid lt first st" "iter_valid lt end st" "first \<noteq> end"
  shows "pset_erase_range lt (Suc (Suc n)) ret first end st = Unspecified"
proof (cases "iter_next lt first st")
  case (Returned it)
  have so: "oc_sorted lt K fst (ps_entries st)" using assms(1,2) by (simp add: pstl_ok_def entries_ok_def)
  show ?thesis
  proof (cases it)
    case (Some k)
    show ?thesis
    proof (cases "pset_erase_at lt it st")
      case r: (Returned r)
      have "om_find lt k (om_erase lt k (ps_entries st)) = None"
        using map_of_om_erase[OF so, of k] om_find_map_of[OF sorted_om_erase[OF so], of k] assms(1) by simp
      then show ?thesis using r Returned Some assms(3-5)
        by (auto simp: iter_differs_def pset_erase_at_def)
    qed (use Returned assms(3-5) in \<open>auto simp: iter_differs_def pset_erase_at_def Some guard_defined_def split: if_splits\<close>)
  qed (use Returned assms(3-5) in \<open>simp add: iter_differs_def pset_erase_at_def\<close>)
qed (use assms(3-5) in \<open>cases first; auto simp: iter_differs_def guard_defined_def split: if_splits\<close>)+

end

section \<open>Properties\<close>

text \<open>
  C24: a persistent set is a set. Within one run at one mapping address any sequence of insertions
  and erasures is defined, each answers as the operation on a set does, whether the entry is new or how
  many entries it removed, and at the end the set holds exactly the entries it should, \<open>size\<close> of them,
  and iteration lists them in order.
\<close>

theorem persistent_set_refines:
  assumes "strict_total_order lt UNIV" "pstl_ok lt at st"
  shows "\<exists>st'. pset_run lt at zero xs st = Returned (fst (set_run xs (pset_members st)), st') \<and>
    pset_members st' = snd (set_run xs (pset_members st)) \<and> pset_size st' = card (pset_members st') \<and>
    (\<forall>k. pset_count lt k st' = of_bool (k \<in> pset_members st')) \<and>
    sorted_wrt lt (map fst (pairs st')) \<and> set (map fst (pairs st')) = pset_members st'"
proof -
  obtain st' where s: "pset_run lt at zero xs st = Returned (fst (set_run xs (pset_members st)), st')"
    "pstl_ok lt at st'" "pset_members st' = snd (set_run xs (pset_members st))"
    using strict_total_order.pset_run_ok[OF assms(1) refl assms(2)] by blast
  note c = strict_total_order.contents_entries[OF assms(1) refl s(2)]
  note p = strict_total_order.pairs_contents[OF assms(1) refl s(2)]
  have "distinct (map fst (ps_entries st'))"
    using strict_total_order.sorted_distinct_keys[OF assms(1), of "ps_entries st'"] s(2) by (simp add: pstl_ok_def entries_ok_def)
  then have "pset_size st' = card (pset_members st')"
    using c(1) by (simp add: pset_size_def pset_members_def) (metis distinct_card length_map list.set_map)
  moreover have "pset_count lt k st' = of_bool (k \<in> pset_members st')" for k
    using c(2)[of k] by (simp add: pset_count_def pset_members_def domIff)
  moreover have "sorted_wrt lt (map fst (pairs st'))" using p(2) by (simp add: sorted_wrt_map)
  moreover have "set (map fst (pairs st')) = pset_members st'" unfolding p(3) using c(1) by (simp add: pset_members_def)
  ultimately show ?thesis using s(1,3) by blast
qed

abbreviation open_pset :: "u32 pset" where
  "open_pset \<equiv> new_pset\<lparr>ps_fd := True\<rparr>"

lemma persistent_set_refines_witness:
  "\<exists>st'. pset_run (<) 5 0 [Add (3 :: u32), Add 7, Add 3, Remove 7, Remove 8] open_pset = Returned ([1, 1, 0, 1, 0], st') \<and>
     pset_members st' = {3}"
proof -
  have ok: "pstl_ok (<) 5 open_pset"
    by (rule pstl_okI[of _ _ _ 0]) (simp_all add: new_pset_def new_pstl_def entries_ok_def free_from_def oc_sorted_def)
  have "pset_members open_pset = {}" by (auto simp: new_pset_def new_pstl_def pset_members_def pstl_contents_def)
  moreover have "set_run [Add (3 :: u32), Add 7, Add 3, Remove 7, Remove 8] {} = ([1, 1, 0, 1, 0], {3})"
    by (auto simp: Let_def)
  ultimately show ?thesis
    using persistent_set_refines[OF u32_order.strict_total_order_axioms ok, of 0 "[Add 3, Add 7, Add 3, Remove 7, Remove 8]"]
    by (metis fst_conv snd_conv)
qed

text \<open>
  Erasing a range is never defined unless the range is empty: the loop erases the entry behind
  the first one, or at the end, and then compares the position it has just erased.
\<close>

theorem erase_range_undefined:
  assumes "strict_total_order lt UNIV" "pstl_ok lt at st" "iter_valid lt first st" "iter_valid lt end st"
  shows "pset_erase_range lt (Suc (Suc n)) ret first end st = (if first = end then Returned (ret, st) else Unspecified)"
proof (cases "first = end")
  case True
  then show ?thesis using assms(3) by (simp add: iter_differs_def)
next
  case False
  then show ?thesis using strict_total_order.erase_range_stops[OF assms(1) refl assms(2-4)] by simp
qed

definition one_pset :: "u32 pset" where
  "one_pset = \<lparr>ps_fd = True, ps_entries = [(1, (5, 0))], ps_unallocated = [], ps_map = Some 5, ps_cap = 1, ps_slots = [(1, ())]\<rparr>"

lemma erase_range_undefined_witness:
  "pset_erase_range (<) 9 None (Some 1) None one_pset = Unspecified \<and>
   pset_erase_range (<) 9 None None None one_pset = Returned (None, one_pset)"
proof -
  have "pstl_ok (<) 5 one_pset"
    by (rule pstl_okI[of _ _ _ 1]) (simp_all add: one_pset_def entries_ok_def free_from_def oc_sorted_def)
  moreover have "iter_valid (<) (Some 1) one_pset"
    by (simp add: one_pset_def om_find_def oc_find_def oc_lower_bound_def)
  ultimately show ?thesis
    using erase_range_undefined[OF u32_order.strict_total_order_axioms, of 5 one_pset _ None 7 None]
    by (auto simp flip: numeral_eq_Suc simp: eval_nat_numeral)
qed

end
