(* ===== verification/Node_Restart.thy ===== *)
theory Node_Restart
  imports Persistent_Set Espresso_Storage
begin

text \<open>
  A storage node across a restart. \<open>Espresso_Storage\<close> keeps the chunk table and the free list as
  ordered lists; in the code they are a \<open>PersistentMap\<close> and a \<open>PersistentSet\<close> in mapped files
  (\<open>espresso_state.h\<close>). Here the store has these containers, a node is started from its files, and
  \<open>abstract_store\<close> leads back to the lists.
\<close>

section \<open>The store in its files\<close>

record node_store =
  ns_metadata :: "(data_descriptor, data_address) pstl"
  ns_free_extents :: "data_address pset"
  ns_bytes :: "int \<Rightarrow> u8"
  ns_len :: int

record node_files =
  nf_metadata :: "(data_descriptor \<times> data_address) list"
  nf_free_extents :: "(data_address \<times> unit) list"
  nf_bytes :: "int \<Rightarrow> u8"
  nf_len :: int

definition zero_address :: data_address where
  "zero_address = mk_address 0 0"

definition zero_entry :: "data_descriptor \<times> data_address" where
  "zero_entry = (\<lparr>dd_file_id = 0, dd_stripe_id = 0, dd_chunk_num = 0\<rparr>, zero_address)"

text \<open>The lists of \<open>Espresso_Storage\<close>: what iterating over the containers shows.\<close>

definition abstract_store :: "node_store \<Rightarrow> espresso" where
  "abstract_store ns = \<lparr>es_bytes = ns_bytes ns, es_len = ns_len ns,
     es_metadata = pairs (ns_metadata ns), es_free = map fst (pairs (ns_free_extents ns))\<rparr>"

text \<open>
  \<open>espresso_global_data_init\<close> with the files: the results of \<open>open\<close> are not looked at, and an
  empty free list becomes the whole data file. Descriptors and addresses have 20 and 8 bytes.
\<close>

definition node_start :: "nat \<Rightarrow> node_files \<Rightarrow> int \<Rightarrow> node_store outcome" where
  "node_start at files max_size =
     (let m = snd (pstl_open data_descriptor_less 20 zero_entry at (nf_metadata files) new_pstl);
          f = snd (pset_open data_address_less 8 zero_address at (nf_free_extents files) new_pset);
          ns = \<lparr>ns_metadata = m, ns_free_extents = f, ns_bytes = nf_bytes files, ns_len = nf_len files\<rparr>
      in if pset_empty f
         then outcome_bind (pset_insert data_address_less at zero_address (mk_address 0 max_size) f)
           (\<lambda>(_, f'). Returned (ns\<lparr>ns_free_extents := f'\<rparr>))
         else Returned ns)"

text \<open>The files a node leaves behind, whether or not it closes them: the mappings are shared.\<close>

definition files_of :: "node_store \<Rightarrow> node_files" where
  "files_of ns = \<lparr>nf_metadata = ps_slots (ns_metadata ns), nf_free_extents = ps_slots (ns_free_extents ns),
     nf_bytes = ns_bytes ns, nf_len = ns_len ns\<rparr>"

definition no_files :: node_files where
  "no_files = \<lparr>nf_metadata = [], nf_free_extents = [], nf_bytes = (\<lambda>_. 0), nf_len = 0\<rparr>"

text \<open>\<open>allocate_chunk\<close> on the containers: the rest is inserted, then the extent is erased.\<close>

definition node_allocate :: "nat \<Rightarrow> node_store \<Rightarrow> int \<Rightarrow> (data_address \<times> node_store) option outcome" where
  "node_allocate at ns sz =
     (case List.find (\<lambda>it. sz \<le> da_size it) (map fst (pairs (ns_free_extents ns))) of
        None \<Rightarrow> Returned None
      | Some it \<Rightarrow>
          outcome_bind
            (if sz < da_size it
             then outcome_bind (pset_insert data_address_less at zero_address
                 (mk_address (da_offset it + sz) (da_size it - sz)) (ns_free_extents ns)) (\<lambda>(_, f). Returned f)
             else Returned (ns_free_extents ns))
            (\<lambda>f. outcome_bind (pset_erase_at data_address_less (Some it) f) (\<lambda>(_, f').
              Returned (Some (mk_address (da_offset it) sz, ns\<lparr>ns_free_extents := f'\<rparr>)))))"

text \<open>\<open>write_chunk\<close> for a chunk the node does not have yet, at the start of the chunk.\<close>

definition node_write_new :: "nat \<Rightarrow> node_store \<Rightarrow> data_descriptor \<Rightarrow> (nat \<Rightarrow> u8) \<Rightarrow> int \<Rightarrow> (int \<times> node_store) outcome" where
  "node_write_new at ns d buf n =
     outcome_bind (node_allocate at ns n) (\<lambda>r.
       case r of
         None \<Rightarrow> Returned (-1, ns)
       | Some (a, ns1) \<Rightarrow>
           outcome_bind (pstl_insert data_descriptor_less at zero_entry (d, a) (ns_metadata ns1)) (\<lambda>(_, m).
             let e = sys_write (abstract_store ns1) (da_offset a) buf n
             in Returned (n, ns1\<lparr>ns_metadata := m, ns_bytes := es_bytes e, ns_len := es_len e\<rparr>)))"

section \<open>Slots that are read back\<close>

lemma load_zero_slots:
  assumes "\<forall>j. i \<le> j \<longrightarrow> j < i + n \<longrightarrow> fst (ps_slots st ! j) = fst zero" "i + n \<le> length (ps_slots st)"
  shows "ps_entries (load_slots lt sz zero at i n st) = ps_entries st"
    "ps_slots (load_slots lt sz zero at i n st) = ps_slots st"
  using assms
proof (induction n arbitrary: i st)
  case (Suc n)
  { case 1
    have "(ps_slots st)[i := (fst zero, snd (ps_slots st ! i))] = ps_slots st"
      using 1(1) by (metis add_Suc_right le_add1 le_imp_less_Suc list_update_id order_refl prod.collapse)
    then show ?case using 1 Suc.IH(1)[of "i + 1" "deallocate sz zero i st"] by (simp add: deallocate_def) }
  { case 2
    have "(ps_slots st)[i := (fst zero, snd (ps_slots st ! i))] = ps_slots st"
      using 2(1) by (metis add_Suc_right le_add1 le_imp_less_Suc list_update_id order_refl prod.collapse)
    then show ?case using 2 Suc.IH(2)[of "i + 1" "deallocate sz zero i st"] by (simp add: deallocate_def) }
qed simp_all

lemma load_slots_add: "load_slots lt sz zero at i (m + n) st = load_slots lt sz zero at (i + m) n (load_slots lt sz zero at i m st)"
  by (induction m arbitrary: i st) simp_all

lemma opened_one:
  assumes "k \<noteq> fst zero"
  shows "pairs (snd (pstl_open lt sz zero at ((k, v) # replicate m zero) new_pstl)) = [(k, v)]"
proof -
  let ?file = "(k, v) # replicate m zero"
  let ?st = "new_pstl\<lparr>ps_fd := True, ps_cap := length ?file, ps_slots := ?file, ps_map := Some at\<rparr>"
  let ?st1 = "?st\<lparr>ps_entries := [(k, (at, 0))]\<rparr>"
  have one: "load_slots lt sz zero at 0 1 ?st = ?st1"
    using assms by (simp add: new_pstl_def om_update_def om_find_def oc_find_def oc_lower_bound_def oc_insert_def oc_before_def)
  have z: "\<forall>j. 1 \<le> j \<longrightarrow> j < 1 + m \<longrightarrow> fst (ps_slots ?st1 ! j) = fst zero" by (auto simp: nth_Cons')
  have "load_slots lt sz zero at 0 (1 + m) ?st = load_slots lt sz zero at 1 m ?st1"
    unfolding load_slots_add one by simp
  moreover have "ps_entries (load_slots lt sz zero at 1 m ?st1) = [(k, (at, 0))]"
    "ps_slots (load_slots lt sz zero at 1 m ?st1) = ?file"
    using load_zero_slots[OF z, of lt sz at] by simp_all
  moreover have "snd (pstl_open lt sz zero at ?file new_pstl) = load_slots lt sz zero at 0 (1 + m) ?st"
    by (simp add: pstl_open_def Let_def del: load_slots.simps)
  ultimately show ?thesis by (simp add: pairs_def del: load_slots.simps)
qed

lemma opened_two:
  assumes "k \<noteq> fst zero" "k' \<noteq> fst zero" "lt k k'" "\<not> lt k' k"
  shows "pairs (snd (pstl_open lt sz zero at ((k, v) # (k', v') # replicate m zero) new_pstl)) = [(k, v), (k', v')]"
proof -
  let ?file = "(k, v) # (k', v') # replicate m zero"
  let ?st = "new_pstl\<lparr>ps_fd := True, ps_cap := length ?file, ps_slots := ?file, ps_map := Some at\<rparr>"
  let ?st2 = "?st\<lparr>ps_entries := [(k, (at, 0)), (k', (at, 1))]\<rparr>"
  have two: "load_slots lt sz zero at 0 2 ?st = ?st2"
    using assms by (simp add: numeral_2_eq_2 new_pstl_def om_update_def om_find_def oc_find_def oc_lower_bound_def
      oc_insert_def oc_before_def)
  have z: "\<forall>j. 2 \<le> j \<longrightarrow> j < 2 + m \<longrightarrow> fst (ps_slots ?st2 ! j) = fst zero" by (auto simp: nth_Cons')
  have "load_slots lt sz zero at 0 (2 + m) ?st = load_slots lt sz zero at 2 m ?st2"
    unfolding load_slots_add two by (simp add: numeral_2_eq_2)
  moreover have "ps_entries (load_slots lt sz zero at 2 m ?st2) = [(k, (at, 0)), (k', (at, 1))]"
    "ps_slots (load_slots lt sz zero at 2 m ?st2) = ?file"
    using load_zero_slots[OF z, of lt sz at] by simp_all
  moreover have "snd (pstl_open lt sz zero at ?file new_pstl) = load_slots lt sz zero at 0 (2 + m) ?st"
    by (simp add: pstl_open_def Let_def del: load_slots.simps)
  ultimately show ?thesis by (simp add: pairs_def del: load_slots.simps)
qed

section \<open>The first run\<close>

abbreviation whole_extent :: "int \<Rightarrow> data_address" where
  "whole_extent max_size \<equiv> mk_address 0 max_size"

text \<open>A node that has been started with no files.\<close>

definition fresh_store :: "nat \<Rightarrow> int \<Rightarrow> node_store" where
  "fresh_store at max_size = \<lparr>ns_metadata = new_pstl\<lparr>ps_fd := True\<rparr>,
     ns_free_extents = \<lparr>ps_fd = True, ps_entries = [(whole_extent max_size, (at, 0))], ps_unallocated = [(1, 10)],
       ps_map = Some at, ps_cap = 10, ps_slots = (whole_extent max_size, ()) # replicate 9 (zero_address, ())\<rparr>,
     ns_bytes = (\<lambda>_. 0), ns_len = 0\<rparr>"

lemma node_start_fresh: "node_start at no_files max_size = Returned (fresh_store at max_size)"
  by (simp add: node_start_def no_files_def fresh_store_def pset_open_def pstl_open_def new_pset_def new_pstl_def
      pset_empty_def pset_insert_def pset_new_def pset_allocate_def allocate_def extents_singleton Let_def
      om_update_def om_find_def oc_find_def oc_lower_bound_def oc_insert_def oc_before_def numeral_eq_Suc)

lemma fresh_abstract:
  "abstract_store (fresh_store at max_size) = espresso_global_data_init empty_espresso max_size"
  by (simp add: abstract_store_def fresh_store_def pairs_def new_pstl_def espresso_global_data_init_def empty_espresso_def
      oc_insert_def oc_find_def oc_lower_bound_def oc_before_def)

text \<open>The store after the first chunk has been written.\<close>

definition one_chunk_store :: "nat \<Rightarrow> int \<Rightarrow> data_descriptor \<Rightarrow> (nat \<Rightarrow> u8) \<Rightarrow> int \<Rightarrow> node_store" where
  "one_chunk_store at max_size d buf n =
     \<lparr>ns_metadata = \<lparr>ps_fd = True, ps_entries = [(d, (at, 0))], ps_unallocated = [(1, 10)], ps_map = Some at, ps_cap = 10,
        ps_slots = (d, mk_address 0 n) # replicate 9 zero_entry\<rparr>,
      ns_free_extents = \<lparr>ps_fd = True, ps_entries = [(mk_address n (max_size - n), (at, 1))], ps_unallocated = [(2, 10)],
        ps_map = Some at, ps_cap = 10,
        ps_slots = (whole_extent max_size, ()) # (mk_address n (max_size - n), ()) # replicate 8 (zero_address, ())\<rparr>,
      ns_bytes = (\<lambda>p. if 0 \<le> p \<and> p < n then buf (nat p) else 0), ns_len = n\<rparr>"

lemmas container_defs = om_update_def om_find_def oc_find_def oc_lower_bound_def oc_insert_def oc_before_def
  om_erase_def oc_erase_def data_address_less_def

lemma allocate_first:
  assumes "0 < n" "n < max_size"
  shows "node_allocate at (fresh_store at max_size) n =
    Returned (Some (mk_address 0 n, (fresh_store at max_size)\<lparr>ns_free_extents := ns_free_extents (one_chunk_store at max_size d buf n)\<rparr>))"
proof -
  let ?f = "ns_free_extents (fresh_store at max_size)" and ?x = "mk_address n (max_size - n)"
  let ?f1 = "?f\<lparr>ps_entries := [(whole_extent max_size, (at, 0)), (?x, (at, 1))], ps_unallocated := [(2, 10)],
    ps_slots := (whole_extent max_size, ()) # (?x, ()) # replicate 8 (zero_address, ())\<rparr>"
  have "pset_insert data_address_less at zero_address ?x ?f = Returned ((Some ?x, True), ?f1)"
    using assms by (simp add: pset_insert_def pset_new_def pset_allocate_def allocate_def extents_singleton fresh_store_def
      container_defs numeral_eq_Suc)
  moreover have "pset_erase_at data_address_less (Some (whole_extent max_size)) ?f1 =
      Returned (Some ?x, ns_free_extents (one_chunk_store at max_size d buf n))"
    using assms by (simp add: pset_erase_at_def one_chunk_store_def fresh_store_def container_defs)
  moreover have "map fst (pairs ?f) = [whole_extent max_size]" by (simp add: pairs_def fresh_store_def)
  ultimately show ?thesis using assms by (simp add: node_allocate_def)
qed

lemma first_chunk_written:
  assumes "0 < n" "n < max_size"
  shows "node_write_new at (fresh_store at max_size) d buf n = Returned (n, one_chunk_store at max_size d buf n)"
proof -
  have "pstl_insert data_descriptor_less at zero_entry (d, mk_address 0 n) (ns_metadata (fresh_store at max_size)) =
      Returned (True, ns_metadata (one_chunk_store at max_size d buf n))"
    by (simp add: pstl_insert_def new_element_def allocate_def extents_singleton fresh_store_def one_chunk_store_def
      new_pstl_def Let_def container_defs numeral_eq_Suc)
  then show ?thesis
    using allocate_first[OF assms, of at d buf] assms
    by (simp add: node_write_new_def sys_write_def abstract_store_def one_chunk_store_def fresh_store_def fun_eq_iff Let_def)
qed

text \<open>The run refines the store of \<open>Espresso_Storage\<close>.\<close>

lemma one_chunk_abstract:
  "abstract_store (one_chunk_store at max_size d buf n) = \<lparr>es_bytes = (\<lambda>p. if 0 \<le> p \<and> p < n then buf (nat p) else 0),
     es_len = n, es_metadata = [(d, mk_address 0 n)], es_free = [mk_address n (max_size - n)]\<rparr>"
  by (simp add: abstract_store_def one_chunk_store_def pairs_def)

lemma first_run_refines:
  assumes "0 < n" "n < max_size"
  shows "write_chunk heap (abstract_store (fresh_store at max_size)) d 0 buf n =
    Returned (n, abstract_store (one_chunk_store at max_size d buf n))"
proof -
  have "\<not> data_descriptor_less d d" by (simp add: data_descriptor_less_def)
  then show ?thesis
    unfolding fresh_abstract one_chunk_abstract using assms
    by (simp add: espresso_global_data_init_def empty_espresso_def write_chunk_def es_lookup_def
      allocate_chunk_def write_data_def sys_write_def container_defs Let_def fun_eq_iff)
qed

section \<open>The second run\<close>

lemma restarted_store:
  assumes "0 < n" "n < max_size" "d \<noteq> fst zero_entry"
  shows "\<exists>ns. node_start at' (files_of (one_chunk_store at max_size d buf n)) max_size = Returned ns \<and>
    abstract_store ns = (abstract_store (one_chunk_store at max_size d buf n))\<lparr>es_free :=
      [whole_extent max_size, mk_address n (max_size - n)]\<rparr>"
proof -
  let ?x = "mk_address n (max_size - n)" and ?files = "files_of (one_chunk_store at max_size d buf n)"
  let ?m = "snd (pstl_open data_descriptor_less 20 zero_entry at' (nf_metadata ?files) new_pstl)"
  let ?f = "snd (pset_open data_address_less 8 zero_address at' (nf_free_extents ?files) new_pset)"
  have m: "pairs ?m = [(d, mk_address 0 n)]"
    using assms(3) by (simp add: files_of_def one_chunk_store_def opened_one)
  have f: "pairs ?f = [(whole_extent max_size, ()), (?x, ())]"
    unfolding pset_open_eq new_pset_def using assms(1,2)
    by (simp add: files_of_def one_chunk_store_def opened_two zero_address_def data_address_less_def)
  then have "\<not> pset_empty ?f" by (auto simp: pairs_def pset_empty_def)
  then show ?thesis using m f
    by (simp add: node_start_def Let_def abstract_store_def) (simp add: files_of_def one_chunk_store_def pairs_def)
qed

section \<open>Property\<close>

text \<open>
  C21: a restart of a node loses what it stores. In a node started with no files the containers
  behave as the lists of \<open>Espresso_Storage\<close> when the first chunk is written. When the node is started
  again, the extent that was erased from the free list is free again, although the chunk lies in it,
  and the next new chunk is put there and overwrites the first.
\<close>

theorem restart_frees_used_space:
  assumes "0 < n" "n < max_size" "d \<noteq> fst zero_entry" "0 < k" "k \<le> max_size" "d' \<noteq> d"
  shows "\<exists>ns0 ns1 ns2 e. node_start at no_files max_size = Returned ns0 \<and> node_write_new at ns0 d buf n = Returned (n, ns1) \<and>
    write_chunk heap (abstract_store ns0) d 0 buf n = Returned (n, abstract_store ns1) \<and>
    chunk_view (abstract_store ns1) d 0 = Some (buf 0) \<and>
    node_start at' (files_of ns1) max_size = Returned ns2 \<and>
    whole_extent max_size \<in> set (es_free (abstract_store ns2)) \<and> chunk_view (abstract_store ns2) d 0 = Some (buf 0) \<and>
    write_chunk heap (abstract_store ns2) d' 0 buf' k = Returned (k, e) \<and> chunk_view e d 0 = Some (buf' 0)"
proof -
  let ?ns1 = "one_chunk_store at max_size d buf n"
  obtain ns2 where ns2: "node_start at' (files_of ?ns1) max_size = Returned ns2"
    "abstract_store ns2 = (abstract_store ?ns1)\<lparr>es_free := [whole_extent max_size, mk_address n (max_size - n)]\<rparr>"
    using restarted_store[OF assms(1-3)] by blast
  have dd: "data_descriptor_less d d' \<or> data_descriptor_less d' d" using descriptor_order.total_cases[of d d'] assms(6) by auto
  have ir: "\<not> data_descriptor_less x x" for x by (simp add: data_descriptor_less_def)
  let ?tab = "oc_insert data_descriptor_less fst (d', mk_address 0 k) [(d, mk_address 0 n)]"
  have find: "om_find data_descriptor_less d' [(d, mk_address 0 n)] = None"
    "om_find data_descriptor_less d' ?tab = Some (mk_address 0 k)" "om_find data_descriptor_less d ?tab = Some (mk_address 0 n)"
    "om_find data_descriptor_less d [(d, mk_address 0 n)] = Some (mk_address 0 n)"
    using dd ir descriptor_order.lt_asym[of d d'] descriptor_order.lt_asym[of d' d]
    by (auto simp: om_find_def oc_find_def oc_lower_bound_def oc_insert_def oc_before_def)
  obtain fr where al: "allocate_chunk [whole_extent max_size, mk_address n (max_size - n)] k = Some (mk_address 0 k, fr)"
    using assms(5) by (simp add: allocate_chunk_def Let_def)
  let ?e = "\<lparr>es_bytes = (\<lambda>p. if 0 \<le> p \<and> p < k then buf' (nat p) else if 0 \<le> p \<and> p < n then buf (nat p) else 0),
    es_len = max n k, es_metadata = ?tab, es_free = fr\<rparr>"
  have w: "write_chunk heap (abstract_store ns2) d' 0 buf' k = Returned (k, ?e)"
    using assms(4) find al by (simp add: ns2(2) one_chunk_abstract write_chunk_def es_lookup_def write_data_def sys_write_def fun_eq_iff)
  have "chunk_view (abstract_store ?ns1) d 0 = Some (buf 0)" "chunk_view (abstract_store ns2) d 0 = Some (buf 0)"
    "chunk_view ?e d 0 = Some (buf' 0)" "whole_extent max_size \<in> set (es_free (abstract_store ns2))"
    using assms(1,4) find by (simp_all add: ns2(2) one_chunk_abstract chunk_view_def es_lookup_def)
  then show ?thesis
    by (intro exI[of _ "fresh_store at max_size"] exI[of _ ?ns1] exI[of _ ns2] exI[of _ ?e] conjI
        node_start_fresh first_chunk_written[OF assms(1,2)] first_run_refines[OF assms(1,2)] ns2(1) w)
qed

lemma restart_frees_used_space_witness:
  "\<exists>ns0 ns1 ns2 e. node_start 5 no_files 1000 = Returned ns0 \<and>
    node_write_new 5 ns0 \<lparr>dd_file_id = 1, dd_stripe_id = 1, dd_chunk_num = 1\<rparr> (\<lambda>_. 7) 10 = Returned (10, ns1) \<and>
    node_start 6 (files_of ns1) 1000 = Returned ns2 \<and>
    write_chunk (\<lambda>_. 0) (abstract_store ns2) \<lparr>dd_file_id = 2, dd_stripe_id = 1, dd_chunk_num = 1\<rparr> 0 (\<lambda>_. 8) 10 = Returned (10, e) \<and>
    chunk_view e \<lparr>dd_file_id = 1, dd_stripe_id = 1, dd_chunk_num = 1\<rparr> 0 = Some 8"
  using restart_frees_used_space[of 10 1000 "\<lparr>dd_file_id = 1, dd_stripe_id = 1, dd_chunk_num = 1\<rparr>" 10
    "\<lparr>dd_file_id = 2, dd_stripe_id = 1, dd_chunk_num = 1\<rparr>" 5 "\<lambda>_. 7" "\<lambda>_. 0" 6 "\<lambda>_. 8"]
  by (simp add: zero_entry_def) metis

end
