(* ===== verification/Startup.thy ===== *)
theory Startup
  imports Barista_Server Node_Restart Storage_Stat
begin

text \<open>
  The two servers from their command lines: \<open>src/src/app/decafs_barista\<close>, \<open>src/src/app/espresso_core\<close>,
  \<open>barista_core_init\<close> with the files it opens, and \<open>atoi\<close> of the C library. An argument list is
  \<open>argv\<close> with the name of the program first.
\<close>

section \<open>Numbers on the command line\<close>

definition is_space :: "char \<Rightarrow> bool" where
  "is_space c \<longleftrightarrow> of_char c = (32 :: nat) \<or> 9 \<le> (of_char c :: nat) \<and> of_char c \<le> (13 :: nat)"

definition is_digit :: "char \<Rightarrow> bool" where
  "is_digit c \<longleftrightarrow> 48 \<le> (of_char c :: nat) \<and> of_char c \<le> (57 :: nat)"

text \<open>\<open>atoi\<close>: spaces, a sign, digits, and whatever follows them; a number that is no \<open>int\<close> is undefined.\<close>

definition atoi :: "string \<Rightarrow> int outcome" where
  "atoi s =
     (let t = dropWhile is_space s;
          u = (if t \<noteq> [] \<and> (hd t = CHR ''-'' \<or> hd t = CHR ''+'') then tl t else t);
          v = int (digits_value (takeWhile is_digit u));
          r = (if t \<noteq> [] \<and> hd t = CHR ''-'' then - v else v)
      in guard_defined (- (2 ^ 31) \<le> r \<and> r < 2 ^ 31) (Returned r))"

section \<open>The barista\<close>

text \<open>
  The data files of the barista. \<open>None\<close> is a path slot of zero bytes: a \<open>std::string\<close> that has
  been stored holds the address of its characters in the process that stored it, so a slot with a
  path cannot be read by another process.
\<close>

record barista_files =
  bf_node :: "(file_chunk \<times> int) list"
  bf_replica :: "(file_chunk \<times> int) list"
  bf_paths :: "(string \<times> u32) option list"
  bf_metadata :: "(u32 \<times> persistent_metadata_info) list"

definition no_barista_files :: barista_files where
  "no_barista_files = \<lparr>bf_node = [], bf_replica = [], bf_paths = [], bf_metadata = []\<rparr>"

definition zero_info :: persistent_metadata_info where
  "zero_info = new_info 0 [] 0 0 0 (0, 0)"

definition IO_Manager_init :: "nat \<Rightarrow> barista_files \<Rightarrow> io_state \<Rightarrow> io_state" where
  "IO_Manager_init at files io =
     io\<lparr>io_node := pairs (snd (pstl_open file_chunk_less 16 (mk_chunk 0 0 0, 0) at (bf_node files) new_pstl)),
        io_replica := pairs (snd (pstl_open file_chunk_less 16 (mk_chunk 0 0 0, 0) at (bf_replica files) new_pstl))\<rparr>"

text \<open>\<open>sz\<close> is the size of a record with its key, which depends on the platform's \<open>std::string\<close>.\<close>

definition Persistent_Metadata_init :: "nat \<Rightarrow> nat \<Rightarrow> barista_files \<Rightarrow> pmeta \<Rightarrow> pmeta outcome" where
  "Persistent_Metadata_init sz at files pm =
     guard_defined (\<forall>s \<in> set (bf_paths files). s = None)
      (Returned (pm\<lparr>pt_paths := [],
         pt_files := pairs (snd (pstl_open (<) sz (0, zero_info) at (bf_metadata files) new_pstl))\<rparr>))"

datatype 'a startup = Exited int | Serving 'a

text \<open>
  \<open>barista_core_init\<close> and \<open>main\<close>. \<open>get_size_error_message\<close> returns the characters of a string that
  is gone when \<open>exit_failure\<close> prints them, so a refused size is undefined. The port is cut to 16 bits.
\<close>

definition get_size_error_message :: "string \<Rightarrow> string \<Rightarrow> string outcome" where
  "get_size_error_message type value = Unspecified"

definition exit_failure :: "string outcome \<Rightarrow> 'a startup outcome" where
  "exit_failure message = outcome_bind message (\<lambda>_. Returned (Exited 1))"

definition barista_core_init_args :: "nat \<Rightarrow> nat \<Rightarrow> barista_files \<Rightarrow> string list \<Rightarrow> barista startup outcome" where
  "barista_core_init_args sz at files argv =
     (if length argv < 6 then exit_failure (Returned ''Usage'')
      else
        let io = IO_Manager_init at files (br_io new_barista)
        in outcome_bind (Persistent_Metadata_init sz at files (br_pm new_barista)) (\<lambda>pm.
           outcome_bind (atoi (argv ! 1)) (\<lambda>stripe.
             let (r1, v1) = set_stripe_size (io_vmeta io) (word_of_int stripe) in
             if r1 < 0 then exit_failure (get_size_error_message ''stripe'' (argv ! 1))
             else outcome_bind (atoi (argv ! 2)) (\<lambda>chunk.
               let (r2, v2) = set_chunk_size v1 (word_of_int chunk) in
               if r2 < 0 then exit_failure (get_size_error_message ''chunk'' (argv ! 2))
               else outcome_bind (atoi (argv ! 4)) (\<lambda>num.
                 Returned (Serving (new_barista\<lparr>br_pm := pm,
                   br_io := io\<lparr>io_vmeta := snd (set_num_espressos v2 (word_of_int num))\<rparr>\<rparr>)))))))"

definition barista_main :: "nat \<Rightarrow> nat \<Rightarrow> barista_files \<Rightarrow> string list \<Rightarrow> (16 word \<times> barista_server) startup outcome" where
  "barista_main sz at files argv =
     outcome_bind (barista_core_init_args sz at files argv) (\<lambda>r.
       case r of
         Exited e \<Rightarrow> Returned (Exited e)
       | Serving b \<Rightarrow>
           if length argv \<ge> 6
           then outcome_bind (atoi (argv ! 5)) (\<lambda>port. Returned (Serving (word_of_int port, new_server b)))
           else Returned (Exited (-1)))"

section \<open>The espresso node\<close>

record espresso_client =
  ec_host :: string
  ec_port :: "16 word"
  ec_node_id :: u32
  ec_store :: node_store

definition NODE_STORAGE_SIZE :: int where "NODE_STORAGE_SIZE = 1000000000"

definition handle_cmd_args :: "string list \<Rightarrow> int option" where
  "handle_cmd_args argv = (if length argv = 6 then None else Some (-1))"

definition espresso_main :: "nat \<Rightarrow> (string \<Rightarrow> node_files) \<Rightarrow> string list \<Rightarrow> espresso_client startup outcome" where
  "espresso_main at disk argv =
     (case handle_cmd_args argv of
        Some e \<Rightarrow> Returned (Exited e)
      | None \<Rightarrow>
          outcome_bind (node_start at (disk (argv ! 2)) NODE_STORAGE_SIZE) (\<lambda>ns.
          outcome_bind (atoi (argv ! 5)) (\<lambda>port.
          outcome_bind (atoi (argv ! 1)) (\<lambda>node_id.
            Returned (Serving \<lparr>ec_host = argv ! 4, ec_port = word_of_int port,
              ec_node_id = word_of_int node_id, ec_store = ns\<rparr>)))))"

section \<open>Printed numbers are read back\<close>

lemma digit_facts: "d < 10 \<Longrightarrow> is_digit (digit d) \<and> \<not> is_space (digit d) \<and> digit d \<noteq> CHR ''-'' \<and> digit d \<noteq> CHR ''+''"
proof -
  assume d: "d < 10"
  then have o: "of_char (digit d) = (48 + d :: nat)" by (rule of_char_digit)
  have "of_char CHR ''-'' = (45 :: nat)" "of_char CHR ''+'' = (43 :: nat)" by simp_all
  with o have "digit d \<noteq> CHR ''-''" "digit d \<noteq> CHR ''+''" by auto
  with o d show ?thesis by (simp add: is_digit_def is_space_def)
qed

lemma decimal_chars: "decimal n \<noteq> [] \<and> (\<forall>c \<in> set (decimal n). is_digit c \<and> \<not> is_space c \<and> c \<noteq> CHR ''-'' \<and> c \<noteq> CHR ''+'')"
proof (induction n rule: decimal.induct)
  case (1 n)
  show ?case
  proof (cases "n < 10")
    case True
    then show ?thesis using digit_facts[of n] by (subst (1 2) decimal.simps) simp
  next
    case False
    then show ?thesis using 1 digit_facts[of "n mod 10"] by (subst (1 2) decimal.simps) auto
  qed
qed

lemma atoi_decimal: "n < 2 ^ 31 \<Longrightarrow> atoi (decimal n) = Returned (int n)"
proof -
  assume n: "n < 2 ^ 31"
  obtain c cs where c: "decimal n = c # cs" using decimal_chars[of n] by (cases "decimal n") auto
  have d: "\<forall>x \<in> set (c # cs). is_digit x \<and> \<not> is_space x \<and> x \<noteq> CHR ''-'' \<and> x \<noteq> CHR ''+''"
    using decimal_chars[of n] unfolding c by blast
  have tw: "takeWhile is_digit cs = cs" using d by (simp add: takeWhile_eq_all_conv)
  have "digits_value (c # cs) = n" using digits_value_decimal[of n] unfolding c .
  then show ?thesis unfolding c using d n by (simp add: atoi_def Let_def tw)
qed

section \<open>Property\<close>

lemma no_files_opened:
  "IO_Manager_init at no_barista_files (br_io new_barista) = br_io new_barista"
  "Persistent_Metadata_init sz at no_barista_files (br_pm new_barista) = Returned (br_pm new_barista)"
  by (simp_all add: IO_Manager_init_def Persistent_Metadata_init_def no_barista_files_def pstl_open_def new_pstl_def pairs_def
      new_barista_def empty_io_def new_pmeta_def)

definition sizes_ok :: "nat \<Rightarrow> nat \<Rightarrow> bool" where
  "sizes_ok s c \<longleftrightarrow> 256 \<le> s \<and> s \<le> 65536 \<and> 128 \<le> c \<and> c \<le> 65536"

lemma limits_of_nat:
  assumes "x < 2 ^ 31"
  shows "MIN_STRIPE \<le> of_nat x \<and> of_nat x \<le> MAX_STRIPE \<longleftrightarrow> 256 \<le> x \<and> x \<le> 65536"
    "MIN_CHUNK \<le> of_nat x \<and> of_nat x \<le> MAX_CHUNK \<longleftrightarrow> 128 \<le> x \<and> x \<le> 65536"
proof -
  have "unat (of_nat x :: u32) = x" using assms by (simp add: unsigned_of_nat take_bit_nat_eq_self)
  then show "MIN_STRIPE \<le> of_nat x \<and> of_nat x \<le> MAX_STRIPE \<longleftrightarrow> 256 \<le> x \<and> x \<le> 65536"
    "MIN_CHUNK \<le> of_nat x \<and> of_nat x \<le> MAX_CHUNK \<longleftrightarrow> 128 \<le> x \<and> x \<le> 65536"
    by (simp_all add: limits_defs word_le_nat_alt)
qed

text \<open>The state of the core after a start with the sizes \<open>s\<close> and \<open>c\<close>.\<close>

definition started_core :: "nat \<Rightarrow> nat \<Rightarrow> barista" where
  "started_core s c = set_vm (new_vmeta\<lparr>vm_stripe_size := of_nat s, vm_chunk_size := of_nat c\<rparr>) new_barista"

lemma started_core_init:
  assumes "s < 2 ^ 31" "c < 2 ^ 31" "sizes_ok s c"
  shows "barista_core_init 6 (int s) (int c) n new_barista = Some (started_core s c)"
  using limits_of_nat[OF assms(1)] limits_of_nat[OF assms(2)] assms(3)
  by (simp add: barista_core_init_def set_stripe_size_def set_chunk_size_def set_num_espressos_def sizes_ok_def
      started_core_def new_barista_def empty_io_def new_vmeta_def)

lemma core_init_args:
  assumes "s < 2 ^ 31" "c < 2 ^ 31" "n < 2 ^ 31"
  shows "barista_core_init_args sz at no_barista_files ([prog, decimal s, decimal c, dir, decimal n, port] @ args) =
    (if sizes_ok s c then Returned (Serving (started_core s c)) else Unspecified)"
proof -
  have vm: "vm_stripe_size (br_vm new_barista) = 0" "vm_chunk_size (br_vm new_barista) = 0"
    by (simp_all add: new_barista_def empty_io_def new_vmeta_def)
  have st: "set_stripe_size (br_vm new_barista) (of_nat s) =
      (if 256 \<le> s \<and> s \<le> 65536 then (1, (br_vm new_barista)\<lparr>vm_stripe_size := of_nat s\<rparr>) else (SIZE_INVALID, br_vm new_barista))"
    using limits_of_nat(1)[OF assms(1)] vm by (simp add: set_stripe_size_def)
  have ch: "set_chunk_size ((br_vm new_barista)\<lparr>vm_stripe_size := of_nat s\<rparr>) (of_nat c) =
      (if 128 \<le> c \<and> c \<le> 65536
       then (1, (br_vm new_barista)\<lparr>vm_stripe_size := of_nat s, vm_chunk_size := of_nat c\<rparr>)
       else (SIZE_INVALID, (br_vm new_barista)\<lparr>vm_stripe_size := of_nat s\<rparr>))"
    using limits_of_nat(2)[OF assms(2)] vm by (simp add: set_chunk_size_def)
  show ?thesis
    using st ch atoi_decimal[OF assms(1)] atoi_decimal[OF assms(2)] atoi_decimal[OF assms(3)]
    by (simp add: barista_core_init_args_def no_files_opened SIZE_INVALID_def exit_failure_def get_size_error_message_def
        sizes_ok_def Let_def set_num_espressos_def)
      (simp add: started_core_def new_barista_def empty_io_def new_vmeta_def)
qed

text \<open>
  C34: the barista starts from its command line. Without data files and with the numbers as decimal
  digits, \<open>main\<close> runs the server with the port, stripe size and chunk size that were given, in a state
  from which the reachable states of the server start, exactly when both sizes are within their
  limits; a size outside them makes the program print a string that no longer exists. With fewer than
  five arguments it exits with a failure.
\<close>

theorem barista_starts:
  assumes "s < 2 ^ 31" "c < 2 ^ 31" "n < 2 ^ 31" "p < 2 ^ 31" "length few < 6"
  shows "(if sizes_ok s c
      then \<exists>b. barista_main sz at no_barista_files ([prog, decimal s, decimal c, dir, decimal n, decimal p] @ args) =
          Returned (Serving (of_nat p, new_server b)) \<and> core_reach b \<and> server_reach (new_server b) \<and>
        vm_stripe_size (br_vm b) = of_nat s \<and> vm_chunk_size (br_vm b) = of_nat c
      else barista_main sz at no_barista_files ([prog, decimal s, decimal c, dir, decimal n, decimal p] @ args) = Unspecified) \<and>
    barista_main sz at no_barista_files few = Returned (Exited 1)"
proof -
  have few: "barista_main sz at no_barista_files few = Returned (Exited 1)"
    using assms(5) by (simp add: barista_main_def barista_core_init_args_def exit_failure_def)
  note init = core_init_args[OF assms(1-3), of sz at prog dir "decimal p" args]
  show ?thesis
  proof (cases "sizes_ok s c")
    case True
    have reach: "core_reach (started_core s c)" using core_reach.started[OF started_core_init[OF assms(1,2) True]] .
    have "up_set (br_io (started_core s c)) = {}" by (simp add: started_core_def up_set_def new_vmeta_def)
    with reach have "server_reach (new_server (started_core s c))" by (rule server_reach.started)
    with True few reach init atoi_decimal[OF assms(4)] show ?thesis
      by (auto simp: barista_main_def started_core_def)
  next
    case False
    with few init show ?thesis by (simp add: barista_main_def)
  qed
qed

lemma barista_starts_witness:
  "\<exists>b. barista_main 64 5 no_barista_files [''barista'', decimal 512, decimal 256, ''/data/'', decimal 4, decimal 3899] =
      Returned (Serving (3899, new_server b)) \<and> vm_stripe_size (br_vm b) = 512 \<and> vm_chunk_size (br_vm b) = 256"
  using barista_starts[of 512 256 4 3899 "[]" 64 5 "''barista''" "''/data/''" "[]"] by (auto simp: sizes_ok_def)

end
