(* ===== verification/Barista_Calls.thy ===== *)
theory Barista_Calls
  imports Barista_Server
begin

text \<open>
  The functions \<open>barista_core.cpp\<close> offers to the other modules: the calls through to the volatile
  metadata and the I/O manager, and the registered handlers of \<open>monitored_strategy\<close>. A handler is a
  function on a state \<open>'s\<close> of the strategy; the handlers in the source only print, so their state is
  the lines printed. The calls of the handlers that the volatile metadata makes are its \<open>vm_events\<close>.
\<close>

section \<open>Volatile metadata\<close>

definition core_get_chunk_size :: "barista \<Rightarrow> u32" where
  "core_get_chunk_size st = vm_chunk_size (br_vm st)"

definition core_set_chunk_size :: "u32 \<Rightarrow> barista \<Rightarrow> int \<times> barista" where
  "core_set_chunk_size sz st = (case set_chunk_size (br_vm st) sz of (r, v) \<Rightarrow> (r, set_vm v st))"

definition core_get_stripe_size :: "barista \<Rightarrow> u32" where
  "core_get_stripe_size st = vm_stripe_size (br_vm st)"

definition core_set_stripe_size :: "u32 \<Rightarrow> barista \<Rightarrow> int \<times> barista" where
  "core_set_stripe_size sz st = (case set_stripe_size (br_vm st) sz of (r, v) \<Rightarrow> (r, set_vm v st))"

definition core_get_num_espressos :: "barista \<Rightarrow> u32" where
  "core_get_num_espressos st = vm_num_espressos (br_vm st)"

definition core_set_num_espressos :: "u32 \<Rightarrow> barista \<Rightarrow> int \<times> barista" where
  "core_set_num_espressos n st = (case set_num_espressos (br_vm st) n of (r, v) \<Rightarrow> (r, set_vm v st))"

definition core_set_node_down :: "u32 \<Rightarrow> barista \<Rightarrow> u32 \<times> barista" where
  "core_set_node_down n st = (case set_node_down (br_vm st) n of (r, v) \<Rightarrow> (r, set_vm v st))"

definition core_set_node_up :: "u32 \<Rightarrow> barista \<Rightarrow> u32 \<times> barista" where
  "core_set_node_up n st = (case set_node_up (br_vm st) n of (r, v) \<Rightarrow> (r, set_vm v st))"

definition core_is_node_up :: "u32 \<Rightarrow> barista \<Rightarrow> bool" where
  "core_is_node_up n st = is_node_up (br_vm st) n"

definition core_get_active_node_count :: "barista \<Rightarrow> int" where
  "core_get_active_node_count st = get_active_node_count (br_vm st)"

definition core_get_active_nodes :: "barista \<Rightarrow> (u32 list \<times> barista) outcome" where
  "core_get_active_nodes st =
     outcome_bind (get_active_nodes (br_vm st)) (\<lambda>(nodes, v). Returned (nodes, set_vm v st))"

definition core_get_file_cursor :: "u32 \<Rightarrow> barista \<Rightarrow> int" where
  "core_get_file_cursor fd st = get_file_cursor (br_vm st) fd"

definition core_get_file_info :: "u32 \<Rightarrow> barista \<Rightarrow> file_instance" where
  "core_get_file_info fd st = get_file_info (br_vm st) fd"

section \<open>The I/O manager\<close>

definition core_process_read_stripe ::
    "network \<Rightarrow> nat \<Rightarrow> u32 \<Rightarrow> u32 \<Rightarrow> u32 \<Rightarrow> u32 \<Rightarrow> u32 \<Rightarrow> int \<Rightarrow> nat \<Rightarrow> barista \<Rightarrow> (u32 \<times> barista) outcome" where
  "core_process_read_stripe net n rid f s ss cs off len st =
     outcome_bind (process_read_stripe net n rid f s ss cs off len (br_io st))
       (\<lambda>(k, io). Returned (k, st\<lparr>br_io := io\<rparr>))"

definition core_process_write_stripe ::
    "network \<Rightarrow> nat \<Rightarrow> u32 \<Rightarrow> u32 \<Rightarrow> u32 \<Rightarrow> u32 \<Rightarrow> u32 \<Rightarrow> u32 \<Rightarrow> u8 list \<Rightarrow> int \<Rightarrow> nat \<Rightarrow> barista \<Rightarrow> (u32 \<times> barista) outcome" where
  "core_process_write_stripe net n rid rrid f s ss cs buf off len st =
     outcome_bind (process_write_stripe net n rid rrid f s ss cs buf off len (br_io st))
       (\<lambda>(k, io). Returned (k, st\<lparr>br_io := io\<rparr>))"

definition core_process_delete_file :: "network \<Rightarrow> u32 \<Rightarrow> u32 \<Rightarrow> barista \<Rightarrow> (u32 \<times> barista) outcome" where
  "core_process_delete_file net rid f st =
     outcome_bind (process_delete_file net rid f (br_io st)) (\<lambda>(k, io). Returned (k, st\<lparr>br_io := io\<rparr>))"

definition core_set_node_id :: "u32 \<Rightarrow> u32 \<Rightarrow> u32 \<Rightarrow> u32 \<Rightarrow> barista \<Rightarrow> int \<times> barista" where
  "core_set_node_id f s c n st = (case set_node_id f s c n (br_io st) of (r, io) \<Rightarrow> (r, st\<lparr>br_io := io\<rparr>))"

definition core_get_node_id :: "u32 \<Rightarrow> u32 \<Rightarrow> u32 \<Rightarrow> barista \<Rightarrow> int" where
  "core_get_node_id f s c st = get_node_id (br_io st) f s c"

definition core_set_replica_node_id :: "u32 \<Rightarrow> u32 \<Rightarrow> u32 \<Rightarrow> u32 \<Rightarrow> barista \<Rightarrow> int \<times> barista" where
  "core_set_replica_node_id f s c n st =
     (case set_replica_node_id f s c n (br_io st) of (r, io) \<Rightarrow> (r, st\<lparr>br_io := io\<rparr>))"

definition core_get_replica_node_id :: "u32 \<Rightarrow> u32 \<Rightarrow> u32 \<Rightarrow> barista \<Rightarrow> int" where
  "core_get_replica_node_id f s c st = get_replica_node_id (br_io st) f s c"

section \<open>Node handlers\<close>

record 's node_handlers =
  nh_monitor :: "('s \<Rightarrow> 's) option"
  nh_failure :: "(u32 \<Rightarrow> 's \<Rightarrow> 's) option"
  nh_up :: "(u32 \<Rightarrow> 's \<Rightarrow> 's) option"

definition no_handlers :: "'s node_handlers" where
  "no_handlers = \<lparr>nh_monitor = None, nh_failure = None, nh_up = None\<rparr>"

text \<open>The time-out is ignored, and nothing calls the monitor.\<close>

definition register_monitor_module :: "('s \<Rightarrow> 's) \<Rightarrow> timeval \<Rightarrow> 's node_handlers \<Rightarrow> 's node_handlers" where
  "register_monitor_module monitor_module timeout h = h\<lparr>nh_monitor := Some monitor_module\<rparr>"

definition register_node_failure_handler :: "(u32 \<Rightarrow> 's \<Rightarrow> 's) \<Rightarrow> 's node_handlers \<Rightarrow> 's node_handlers" where
  "register_node_failure_handler failure_handler h = h\<lparr>nh_failure := Some failure_handler\<rparr>"

definition register_node_up_handler :: "(u32 \<Rightarrow> 's \<Rightarrow> 's) \<Rightarrow> 's node_handlers \<Rightarrow> 's node_handlers" where
  "register_node_up_handler up_handler h = h\<lparr>nh_up := Some up_handler\<rparr>"

definition run_node_failure_handler :: "'s node_handlers \<Rightarrow> u32 \<Rightarrow> 's \<Rightarrow> 's" where
  "run_node_failure_handler h n s = (case nh_failure h of None \<Rightarrow> s | Some f \<Rightarrow> f n s)"

definition run_node_up_handler :: "'s node_handlers \<Rightarrow> u32 \<Rightarrow> 's \<Rightarrow> 's" where
  "run_node_up_handler h n s = (case nh_up h of None \<Rightarrow> s | Some f \<Rightarrow> f n s)"

text \<open>The handlers of the strategy in the source; a line printed is appended to the state.\<close>

definition node_failure_handler_func :: "u32 \<Rightarrow> string list \<Rightarrow> string list" where
  "node_failure_handler_func n printed = printed @ [''Handling node failure...'']"

definition node_up_handler_func :: "u32 \<Rightarrow> string list \<Rightarrow> string list" where
  "node_up_handler_func n printed = printed @ [''Handling node coming online...'']"

definition strategy_startup :: "string list node_handlers \<Rightarrow> string list node_handlers" where
  "strategy_startup h =
     register_node_up_handler node_up_handler_func (register_node_failure_handler node_failure_handler_func h)"

text \<open>The handler calls of the volatile metadata, in order.\<close>

fun run_events :: "'s node_handlers \<Rightarrow> node_event list \<Rightarrow> 's \<Rightarrow> 's" where
  "run_events h [] s = s"
| "run_events h (Node_Failure n # es) s = run_events h es (run_node_failure_handler h n s)"
| "run_events h (Node_Up n # es) s = run_events h es (run_node_up_handler h n s)"

lemma run_no_handlers: "run_events no_handlers es s = s"
proof (induction es arbitrary: s)
  case (Cons e es)
  then show ?case
    by (cases e) (simp_all add: run_node_failure_handler_def run_node_up_handler_def no_handlers_def)
qed simp

section \<open>What a strategy can rely on\<close>

text \<open>
  The contract of a strategy that keeps an account of the nodes: a view of its state as a set of
  nodes, which its handlers keep up to date when they are told of a real change.
\<close>

locale node_tracking =
  fixes handlers :: "'s node_handlers" and view :: "'s \<Rightarrow> u32 set \<Rightarrow> bool"
  assumes view_up: "view s up \<Longrightarrow> n \<notin> up \<Longrightarrow> view (run_node_up_handler handlers n s) (insert n up)"
    and view_failure: "view s up \<Longrightarrow> n \<in> up \<Longrightarrow> view (run_node_failure_handler handlers n s) (up - {n})"
begin

lemma run_events_view:
  "view s up \<Longrightarrow> reports_changes es up \<Longrightarrow> view (run_events handlers es s) (replay es up)"
  by (induction es up arbitrary: s rule: reports_changes.induct) (auto simp: view_up view_failure)

lemma tracked:
  assumes "nodes_inv v" "view s {}"
  shows "view (run_events handlers (vm_events v) s) (set (vm_up_nodes v))"
  using run_events_view[OF assms(2), of "vm_events v"] assms(1) by (simp add: nodes_inv_def)

end

text \<open>The strategy of the source: the lines printed tell how many nodes are up.\<close>

definition lines_balance :: "string list \<Rightarrow> u32 set \<Rightarrow> bool" where
  "lines_balance printed up \<longleftrightarrow> finite up \<and>
     count_list printed ''Handling node coming online...'' = count_list printed ''Handling node failure...'' + card up"

interpretation printing: node_tracking "strategy_startup no_handlers" lines_balance
proof
  show "lines_balance (run_node_up_handler (strategy_startup no_handlers) n s) (insert n up)"
    if "lines_balance s up" "n \<notin> up" for s up n
    using that by (simp add: lines_balance_def run_node_up_handler_def strategy_startup_def register_node_up_handler_def
        node_up_handler_func_def)
  show "lines_balance (run_node_failure_handler (strategy_startup no_handlers) n s) (up - {n})"
    if "lines_balance s up" "n \<in> up" for s up n
  proof -
    have "0 < card up" using that by (auto simp: lines_balance_def card_gt_0_iff)
    with that show ?thesis
      by (simp add: lines_balance_def run_node_failure_handler_def strategy_startup_def register_node_up_handler_def
          register_node_failure_handler_def node_failure_handler_func_def)
  qed
qed

text \<open>A strategy of a user: its handlers keep a list of the nodes.\<close>

definition listing_handlers :: "u32 list node_handlers" where
  "listing_handlers =
     register_node_up_handler (#) (register_node_failure_handler removeAll no_handlers)"

interpretation listing: node_tracking listing_handlers "\<lambda>ns up. set ns = up"
  by unfold_locales
    (auto simp: run_node_up_handler_def run_node_failure_handler_def listing_handlers_def register_node_up_handler_def
      register_node_failure_handler_def)

text \<open>
  C29: in every reachable state of the server, the node handlers have been told of exactly the
  changes that make up the set of nodes in use: a strategy whose handlers keep a list of nodes, with
  the one adding and the other removing a node, holds the nodes that are up, all of them connected;
  and the lines printed by the strategy of the repository, counted, give the number of active nodes.
\<close>

theorem handlers_follow_nodes:
  assumes "server_reach s"
  shows "(\<forall>n. n \<in> set (run_events listing_handlers (vm_events (server_vm s)) []) \<longleftrightarrow> core_is_node_up n (bs_core s)) \<and>
    (\<forall>n. core_is_node_up n (bs_core s) \<longrightarrow> om_find (<) (sint n) (bs_espressos s) \<noteq> None) \<and>
    (let printed = run_events (strategy_startup no_handlers) (vm_events (server_vm s)) [] in
      core_get_active_node_count (bs_core s) =
        int (count_list printed ''Handling node coming online...'') - int (count_list printed ''Handling node failure...''))"
proof -
  have inv: "nodes_inv (server_vm s)" "\<forall>w \<in> up_set (br_io (bs_core s)). om_find (<) (sint w) (bs_espressos s) \<noteq> None"
    using server_reach_inv[OF assms] by (simp_all add: server_inv_def)
  have "set (run_events listing_handlers (vm_events (server_vm s)) []) = set (vm_up_nodes (server_vm s))"
    using listing.tracked[OF inv(1)] by simp
  moreover have "lines_balance (run_events (strategy_startup no_handlers) (vm_events (server_vm s)) []) (set (vm_up_nodes (server_vm s)))"
    by (rule printing.tracked[OF inv(1)]) (simp add: lines_balance_def)
  moreover have "card (set (vm_up_nodes (server_vm s))) = length (vm_up_nodes (server_vm s))"
    using inv(1) by (simp add: nodes_inv_def distinct_card)
  ultimately show ?thesis using inv(2)
    by (simp add: lines_balance_def Let_def core_is_node_up_def is_node_up_def up_nodes_contains_def
        core_get_active_node_count_def get_active_node_count_def up_set_def)
qed

lemma handlers_follow_nodes_witness:
  "(let printed = run_events (strategy_startup no_handlers) (vm_events (server_vm demo_server)) [] in
      core_get_active_node_count (bs_core demo_server) =
        int (count_list printed ''Handling node coming online...'') - int (count_list printed ''Handling node failure...''))"
  using handlers_follow_nodes[OF demo_server_reach] by blast

section \<open>Calls between requests\<close>

text \<open>Every call that changes the state, as another module may make it between two requests.\<close>

datatype core_call =
    Call_Chunk_Size u32 | Call_Stripe_Size u32 | Call_Num_Espressos u32
  | Call_Node_Down u32 | Call_Node_Up u32 | Call_Active_Nodes
  | Call_Read_Stripe u32 u32 u32 u32 u32 int nat
  | Call_Write_Stripe u32 u32 u32 u32 u32 u32 "u8 list" int nat
  | Call_Delete u32 u32
  | Call_Node_Id u32 u32 u32 u32 | Call_Replica_Node_Id u32 u32 u32 u32

fun core_call_step :: "network \<Rightarrow> nat \<Rightarrow> core_call \<Rightarrow> barista \<Rightarrow> barista outcome" where
  "core_call_step net n (Call_Chunk_Size sz) st = Returned (snd (core_set_chunk_size sz st))"
| "core_call_step net n (Call_Stripe_Size sz) st = Returned (snd (core_set_stripe_size sz st))"
| "core_call_step net n (Call_Num_Espressos k) st = Returned (snd (core_set_num_espressos k st))"
| "core_call_step net n (Call_Node_Down w) st = Returned (snd (core_set_node_down w st))"
| "core_call_step net n (Call_Node_Up w) st = Returned (snd (core_set_node_up w st))"
| "core_call_step net n Call_Active_Nodes st = outcome_bind (core_get_active_nodes st) (\<lambda>(_, st'). Returned st')"
| "core_call_step net n (Call_Read_Stripe rid f s ss cs off len) st =
     outcome_bind (core_process_read_stripe net n rid f s ss cs off len st) (\<lambda>(_, st'). Returned st')"
| "core_call_step net n (Call_Write_Stripe rid rrid f s ss cs buf off len) st =
     outcome_bind (core_process_write_stripe net n rid rrid f s ss cs buf off len st) (\<lambda>(_, st'). Returned st')"
| "core_call_step net n (Call_Delete rid f) st =
     outcome_bind (core_process_delete_file net rid f st) (\<lambda>(_, st'). Returned st')"
| "core_call_step net n (Call_Node_Id f s c w) st = Returned (snd (core_set_node_id f s c w st))"
| "core_call_step net n (Call_Replica_Node_Id f s c w) st = Returned (snd (core_set_replica_node_id f s c w st))"

definition core_ok :: "barista \<Rightarrow> bool" where
  "core_ok st \<longleftrightarrow> meta_free st \<and> tables_ok st \<and> nodes_inv (br_vm st)"

lemma core_reach_core_ok: "core_reach st \<Longrightarrow> core_ok st"
  using core_reach_ok core_reach_nodes by (simp add: core_ok_def)

lemma core_ok_vm: "core_ok st \<Longrightarrow> nodes_inv v \<Longrightarrow> core_ok (set_vm v st)"
  by (simp add: core_ok_def meta_free_def)

lemma core_ok_io: "core_ok st \<Longrightarrow> nodes_leave (br_vm st) (io_vmeta io) \<Longrightarrow> core_ok (st\<lparr>br_io := io\<rparr>)"
  by (auto simp: core_ok_def meta_free_def nodes_leave_def)

text \<open>
  Whatever another module calls between two requests, the core stays consistent, and the call
  changes neither the locks nor the metadata nor the requests in progress nor the replies.
\<close>

theorem calls_keep_core:
  assumes "core_ok st" "core_call_step net n x st = Returned st'"
  shows "core_ok st' \<and> st' = st\<lparr>br_io := br_io st'\<rparr>"
proof -
  have vm: "ends (\<lambda>st'. core_ok st' \<and> st' = st\<lparr>br_io := br_io st'\<rparr>) (Returned (set_vm v st))" if "nodes_inv v" for v
    using core_ok_vm[OF assms(1) that] by simp
  have io: "ends (\<lambda>st'. core_ok st' \<and> st' = st\<lparr>br_io := br_io st'\<rparr>) (Returned (st\<lparr>br_io := io\<rparr>))"
    if "not_up (br_io st) io" for io
    using core_ok_io[OF assms(1) that] by simp
  have same: "nodes_inv v" if "vm_up_nodes v = vm_up_nodes (br_vm st)" "vm_events v = vm_events (br_vm st)" for v
    using assms(1) nodes_inv_cong[OF that] by (simp add: core_ok_def)
  have "ends (\<lambda>st'. core_ok st' \<and> st' = st\<lparr>br_io := br_io st'\<rparr>) (core_call_step net n x st)"
  proof (cases x)
    case Call_Active_Nodes
    have "nodes_inv ((br_vm st)\<lparr>vm_up_nodes := sort (vm_up_nodes (br_vm st))\<rparr>)"
      using assms(1) by (simp add: core_ok_def nodes_inv_def)
    from vm[OF this] Call_Active_Nodes show ?thesis
      by (simp add: core_get_active_nodes_def get_active_nodes_def Let_def guard_defined_def)
  next
    case (Call_Node_Down w)
    have "nodes_inv (snd (set_node_down (br_vm st) w))"
      using assms(1) set_node_nodes_inv(1) by (simp add: core_ok_def)
    from vm[OF this] Call_Node_Down show ?thesis by (simp add: core_set_node_down_def split_beta)
  next
    case (Call_Node_Up w)
    have "nodes_inv (snd (set_node_up (br_vm st) w))"
      using assms(1) set_node_nodes_inv(2) by (simp add: core_ok_def)
    from vm[OF this] Call_Node_Up show ?thesis by (simp add: core_set_node_up_def split_beta)
  next
    case (Call_Read_Stripe rid f s ss cs off len)
    then show ?thesis
      by (auto simp: core_process_read_stripe_def outcome_bind_assoc split_beta intro!: io
          ends_bind[OF process_stripe_not_up(1)])
  next
    case (Call_Write_Stripe rid rrid f s ss cs buf off len)
    then show ?thesis
      by (auto simp: core_process_write_stripe_def outcome_bind_assoc split_beta intro!: io
          ends_bind[OF process_stripe_not_up(2)])
  next
    case (Call_Delete rid f)
    then show ?thesis
      by (auto simp: core_process_delete_file_def outcome_bind_assoc split_beta intro!: io
          ends_bind[OF process_delete_not_up])
  qed (auto simp: core_set_chunk_size_def set_chunk_size_def core_set_stripe_size_def set_stripe_size_def
      core_set_num_espressos_def set_num_espressos_def core_set_node_id_def set_node_id_def
      core_set_replica_node_id_def set_replica_node_id_def Let_def split_beta assms(1)
      intro!: core_ok_vm[OF assms(1)] core_ok_io[OF assms(1)] same nodes_leave_same)
  from endsD[OF this assms(2)] show ?thesis .
qed

lemma calls_keep_core_witness:
  "\<exists>st'. core_call_step good_net 20 (Call_Node_Down 1) (bs_core demo_server) = Returned st' \<and> core_ok st'"
proof -
  have ok: "core_ok (bs_core demo_server)"
    using server_reach_inv[OF demo_server_reach] by (simp add: server_inv_def core_ok_def)
  have "core_call_step good_net 20 (Call_Node_Down 1) (bs_core demo_server) =
      Returned (snd (core_set_node_down 1 (bs_core demo_server)))" by simp
  with calls_keep_core[OF ok this] show ?thesis by blast
qed

end
