(* ===== verification/Barista_Exclusion.thy ===== *)
theory Barista_Exclusion
  imports Barista_Open Barista_Invariant
begin

text \<open>
  The exclusive lock of a file over whole runs of the core: whatever events follow, with whatever
  network, the writer keeps its file until an open, close or delete of its own. The proof carries one
  predicate through every handler with the calculus of \<open>Barista_Invariant\<close>.
\<close>

section \<open>Calls that leave the locks alone\<close>

text \<open>\<open>c\<close> holds \<open>f\<close>, and no deletion in progress will release it.\<close>

definition held :: "u32 \<Rightarrow> client \<Rightarrow> barista \<Rightarrow> bool" where
  "held f c st \<longleftrightarrow> holds_exclusive f c (br_locks st) \<and> oc_sorted (<) UNIV fst (br_deletes st) \<and>
     (\<forall>r q. om_find (<) r (br_deletes st) = Some q \<longrightarrow> rq_file_id q \<noteq> f)"

lemma held_same: "held f c st \<Longrightarrow> br_locks st' = br_locks st \<Longrightarrow> br_deletes st' = br_deletes st \<Longrightarrow> held f c st'"
  by (simp add: held_def)

lemma held_cong [simp]:
  "held f c (send_reply r st) = held f c st" "held f c (st\<lparr>br_io := io\<rparr>) = held f c st"
  "held f c (st\<lparr>br_reads := rd\<rparr>) = held f c st" "held f c (st\<lparr>br_writes := w\<rparr>) = held f c st"
  "held f c (st\<lparr>br_write_lookups := wl\<rparr>) = held f c st"
  by (simp_all add: held_def)

text \<open>A lock call of a rival, or on another file.\<close>

lemma holds_other_file:
  assumes "holds_exclusive f c fl" "g \<noteq> f" "file_lock_call g x fl = Returned (r, fl')"
  shows "holds_exclusive f c fl'"
proof -
  have "fl' f = fl f"
    using assms(2,3) by (cases x)
      (auto simp: get_exclusive_lock_def get_shared_lock_def release_lock_def guard_assert_def Let_def split: if_splits)
  with assms(1) show ?thesis by (simp add: holds_exclusive_iff)
qed

lemma holds_rival:
  assumes "holds_exclusive f c fl" "other_owner c (caller x)" "file_lock_call g x fl = Returned (r, fl')"
  shows "holds_exclusive f c fl'"
proof (cases "g = f \<and> user_id (caller x) \<noteq> 0")
  case True
  then show ?thesis using file_lock.rival_call[OF assms(1,2)] assms(1,3) by simp
next
  case False
  have "user_id (caller x) \<noteq> 0"
    using assms(3) by (cases x) (auto simp: get_exclusive_lock_def get_shared_lock_def release_lock_def guard_assert_def split: if_splits)
  with False holds_other_file[OF assms(1) _ assms(3)] show ?thesis by blast
qed

lemma held_meta: "held f c st \<Longrightarrow> ends (\<lambda>(r, st'). held f c st') (with_metadata_lock d h e st)"
proof -
  assume h: "held f c st"
  have "br_locks st' = br_locks st \<and> br_deletes st' = br_deletes st"
    if "with_metadata_lock d h e st = Returned (r, st')" for r st'
    using that by (auto simp: with_metadata_lock_def split: if_splits prod.splits)
  with held_same[OF h] show ?thesis by (auto simp: ends_def)
qed

lemma held_calls:
  assumes "held f c st"
  shows "ends (\<lambda>(r, st'). held f c st') (core_decafs_file_sstat p d st)"
    and "ends (\<lambda>(r, st'). held f c st') (core_decafs_file_stat g d st)"
    and "ends (\<lambda>(r, st'). held f c st') (core_add_file p ss cs rs t d st)"
    and "ends (\<lambda>(r, st'). held f c st') (core_delete_file_contents g d st)"
    and "ends (\<lambda>(r, st'). held f c st') (core_update_file_size g n d st)"
  unfolding core_decafs_file_sstat_def core_decafs_file_stat_def core_add_file_def
    core_delete_file_contents_def core_update_file_size_def
  by (rule held_meta[OF assms])+

lemma held_vm:
  "held f c st \<Longrightarrow> core_new_request_id st = (r, st') \<Longrightarrow> held f c st'"
  "held f c st \<Longrightarrow> core_new_file_cursor g d st = (k, st') \<Longrightarrow> held f c st'"
  "held f c st \<Longrightarrow> core_close_file_cursor fd d st = (k, st') \<Longrightarrow> held f c st'"
  by (auto simp: core_new_request_id_def core_new_file_cursor_def core_close_file_cursor_def split: prod.splits)

lemma held_set_cursor: "held f c st \<Longrightarrow> ends (\<lambda>(r, st'). held f c st') (core_set_file_cursor fd off d st)"
  unfolding core_set_file_cursor_def
  apply (intro ends_cases)
    apply simp
   apply (rule ends_bind[OF held_calls(2)[where f = f and c = c]], assumption, clarify)
   apply (rule ends_bind[OF ends_any], clarsimp)
  apply simp
  done

section \<open>Reading, writing, seeking\<close>

lemma held_checks:
  "held f c st \<Longrightarrow> ends (held f c) (check_read_complete r st)"
  "held f c st \<Longrightarrow> ends (held f c) (check_write_complete r st)"
  by (auto simp: check_read_complete_def check_write_complete_def Let_def split: option.split)

lemma held_read_loop:
  "held f c st \<Longrightarrow> ends (\<lambda>(k, st'). held f c st') (read_loop net m n rid g fd stat len d s off br num st)"
proof (induction n arbitrary: s off br num st)
  case (Suc n)
  show ?case
    unfolding read_loop.simps
    apply (intro ends_cases, rule ends_bind[OF ends_any], clarify, intro ends_cases)
     apply (rule ends_bind[OF held_set_cursor[where f = f and c = c]])
      apply (simp add: Suc.prems)
     apply (clarify, rule Suc.IH, assumption)
    apply (simp add: Suc.prems)
    done
qed simp

lemma held_write_loop:
  "held f c st \<Longrightarrow> ends (\<lambda>(k, st'). held f c st') (write_loop net m n rid rrid g fd stat buf len d s off bw num st)"
proof (induction n arbitrary: s off bw num st)
  case (Suc n)
  show ?case
    unfolding write_loop.simps
    apply (intro ends_cases, rule ends_bind[OF ends_any], clarify)
     apply (rule ends_bind[OF held_calls(5)[where f = f and c = c]])
      apply (simp add: Suc.prems)
     apply (clarify, rule ends_bind[OF held_set_cursor[where f = f and c = c]], assumption)
     apply (clarify, rule Suc.IH, assumption)
    apply (simp add: Suc.prems)
    done
qed simp

lemma held_read_file:
  assumes "held f c st"
  shows "ends (held f c) (read_file net n fd len d st)"
proof (cases "core_new_request_id st")
  case (Pair r st1)
  then have e: "held f c st1" using held_vm(1)[OF assms] by blast
  show ?thesis
    unfolding read_file_def Pair prod.case read_refusal_def
    apply (intro ends_cases, rule ends_bind[OF ends_any], rule ends_bind[OF ends_any], intro ends_cases)
     apply (simp add: e)
    apply (rule ends_bind[OF held_calls(2)[OF e]], clarify, intro ends_cases)
       apply (simp_all add: e)
    apply (rule ends_bind[OF ends_any], clarify)
    apply (rule ends_bind[OF held_read_loop[where f = f and c = c]], simp)
    apply (clarify, intro ends_cases, simp)
    apply (rule held_checks, simp)
    done
qed

lemma held_write_file:
  assumes "held f c st"
  shows "ends (held f c) (write_file net n fd buf len d st)"
proof (cases "core_new_request_id st")
  case (Pair r st1)
  then have e1: "held f c st1" using held_vm(1)[OF assms] by blast
  obtain rr st2 where q: "core_new_request_id st1 = (rr, st2)" by fastforce
  then have e: "held f c st2" using held_vm(1)[OF e1] by blast
  show ?thesis
    unfolding write_file_def Pair prod.case q write_refusal_def
    apply (intro ends_cases, rule ends_bind[OF ends_any], intro ends_cases)
     apply (simp add: e)
    apply (rule ends_bind[OF held_calls(2)[OF e]], clarify, intro ends_cases)
       apply (simp_all add: e)
    apply (rule ends_bind[OF ends_any], clarify)
    apply (rule ends_bind[OF held_write_loop[where f = f and c = c]], simp)
    apply (clarify, intro ends_cases)
    apply (rule held_checks, simp)
    done
qed

lemma held_seek:
  assumes "held f c st"
  shows "ends (held f c) (file_seek fd off wh d st)"
proof -
  have opt: "ends (\<lambda>(_, st'). held f c st') (if b then core_set_file_cursor w x d st1 else Returned (0, st1))"
    if "held f c st1" for b w x st1
    using that held_set_cursor[OF that] by simp
  show ?thesis
    unfolding file_seek_def
    apply (intro ends_cases)
     apply (rule ends_bind[OF held_set_cursor[OF assms]], simp add: split_beta)
    apply (rule ends_bind[OF opt[OF assms]], clarify, intro ends_cases)
    apply (rule ends_bind[OF opt], assumption, simp add: split_beta)
    done
qed

lemma held_report: "held f c st \<Longrightarrow> ends (held f c) (file_storage_stat p d st)"
  unfolding file_storage_stat_def by (auto intro!: ends_bind[OF held_calls(1)])

section \<open>Opening, closing, deleting\<close>

lemma held_locks:
  "held f c st \<Longrightarrow> holds_exclusive f c locks \<Longrightarrow> held f c (st\<lparr>br_locks := locks\<rparr>)"
  by (simp add: held_def)

lemma held_lock_call:
  assumes "held f c st" "g \<noteq> f \<or> other_owner c (caller x)"
  shows "ends (\<lambda>(r, locks). holds_exclusive f c locks) (file_lock_call g x (br_locks st))"
proof -
  have h: "holds_exclusive f c (br_locks st)" using assms(1) by (simp add: held_def)
  have "holds_exclusive f c locks" if "file_lock_call g x (br_locks st) = Returned (r, locks)" for r locks
    using holds_other_file[OF h _ that] holds_rival[OF h _ that] assms(2) by blast
  then show ?thesis by (auto simp: ends_def)
qed

lemma held_open_lock:
  assumes "held f c st" "other_owner c d"
  shows "ends (\<lambda>(r, locks). holds_exclusive f c locks) (open_lock flags d g (br_locks st))"
  using held_lock_call[OF assms(1), of g "Acquire d"] held_lock_call[OF assms(1), of g "Acquire_Shared d"] assms(2) by simp

lemma held_open:
  assumes "held f c st" "other_owner c d"
  shows "ends (held f c) (open_file junk time p flags d st)"
proof -
  have target: "ends (\<lambda>(file, st2). held f c st2)
     (if r = FILE_NOT_FOUND then
          if bit flags 1 then
            outcome_bind (core_add_file p ss cs rs time d st1) (\<lambda>(f, st2). Returned (Some (word_of_int f, junk), st2))
          else Returned (None, send_reply (Open_Result d FILE_NOT_FOUND_FOR_READING) st1)
        else
          let s = (case info of Some i \<Rightarrow> i | None \<Rightarrow> junk) in Returned (Some (fs_file_id s, s), st1))"
    if "held f c st1" for r ss cs rs st1 and info :: "file_stat option"
    using that by (auto simp: Let_def intro!: ends_bind[OF held_calls(3)])
  have cursor: "ends (held f c) (case core_new_file_cursor g d st3 of (cursor, st4) \<Rightarrow>
      outcome_bind (if b then core_set_file_cursor (word_of_int cursor) off d st4 else Returned (0, st4))
        (\<lambda>(_, st5). Returned (send_reply (Open_Result d cursor) st5)))" if "held f c st3" for g b off st3
  proof (cases "core_new_file_cursor g d st3")
    case (Pair cursor st4)
    then have "held f c st4" using held_vm(2)[OF that] by blast
    then have *: "ends (\<lambda>(_, st5). held f c st5)
        (if b then core_set_file_cursor (word_of_int cursor) off d st4 else Returned (0, st4))"
      using held_set_cursor by simp
    show ?thesis unfolding Pair prod.case by (rule ends_bind[OF *]) auto
  qed
  show ?thesis
    unfolding open_file_def
    apply (rule ends_bind[OF held_calls(1)[OF assms(1)]], clarify)
    apply (rule ends_bind[OF target], assumption, clarify, intro ends_cases)
     apply simp
    apply (rule ends_case_prod, rule ends_bind[OF held_open_lock[OF _ assms(2)]], assumption, clarify, intro ends_cases)
     apply (simp add: held_locks)
    apply (rule cursor, simp add: held_locks)
    done
qed

lemma held_close:
  assumes "held f c st" "other_owner c d"
  shows "ends (held f c) (close_file fd d st)"
proof (cases "core_close_file_cursor (word_of_int fd) d st")
  case (Pair g st1)
  then have h: "held f c st1" using held_vm(3)[OF assms(1)] by blast
  have "ends (\<lambda>(r, locks). holds_exclusive f c locks) (release_lock d (word_of_int g) (br_locks st1))"
    using held_lock_call[OF h, of "word_of_int g" "Release d"] assms(2) by simp
  then have *: "ends (held f c) (if g > 0 then outcome_bind (release_lock d (word_of_int g) (br_locks st1))
      (\<lambda>(_, locks). Returned (st1\<lparr>br_locks := locks\<rparr>)) else Returned st1)"
    using h by (auto intro!: held_locks elim!: ends_bind)
  show ?thesis unfolding close_file_def Pair prod.case by (rule ends_bind[OF *]) simp
qed

lemma held_retry: "held f c st \<Longrightarrow> ends (held f c) (retry_delete_contents n g d st)"
proof (induction n arbitrary: st)
  case (Suc n)
  then show ?case by (auto intro!: ends_bind[OF held_calls(4)])
qed simp

lemma held_erase: "held f c st \<Longrightarrow> br_deletes st = t \<Longrightarrow> held f c (st\<lparr>br_deletes := om_erase (<) r t\<rparr>)"
  by (auto simp: held_def u32_order.sorted_om_erase split: if_splits)

lemma held_update:
  "held f c st \<Longrightarrow> br_deletes st = t \<Longrightarrow> rq_file_id q \<noteq> f \<Longrightarrow> held f c (st\<lparr>br_deletes := om_update (<) r q t\<rparr>)"
  by (auto simp: held_def u32_order.sorted_om_update split: if_splits)

lemma held_delete_check:
  assumes "held f c st"
  shows "ends (held f c) (check_delete_complete n r st)"
proof (cases "om_find (<) r (br_deletes st)")
  case (Some rq)
  then have g: "rq_file_id rq \<noteq> f" using assms by (auto simp: held_def)
  have rel: "ends (held f c) (outcome_bind (release_lock (rq_client rq) (rq_file_id rq) (br_locks st2))
      (\<lambda>(_, locks). Returned (st2\<lparr>br_locks := locks, br_deletes := om_erase (<) r (br_deletes st2)\<rparr>)))"
    if h: "held f c st2" for st2
  proof -
    have "ends (\<lambda>(r, locks). holds_exclusive f c locks) (release_lock (rq_client rq) (rq_file_id rq) (br_locks st2))"
      using held_lock_call[OF h, of "rq_file_id rq" "Release (rq_client rq)"] g by simp
    then show ?thesis
      by (rule ends_bind) (auto dest: held_locks[OF h] intro!: held_erase)
  qed
  show ?thesis
    unfolding check_delete_complete_def Some option.case Let_def
    by (intro ends_cases) (auto simp: assms intro!: ends_bind[OF held_retry] rel)
qed (simp add: check_delete_complete_def)

lemma held_delete:
  assumes "held f c st" "other_owner c d"
  shows "ends (held f c) (delete_file net n p d st)"
proof (cases "core_new_request_id st")
  case (Pair r st1)
  then have h: "held f c st1" using held_vm(1)[OF assms(1)] by blast
  have lock: "ends (\<lambda>(l, locks). holds_exclusive f c locks \<and> (0 \<le> l \<longrightarrow> g \<noteq> f)) (get_exclusive_lock d g (br_locks st2))"
    if h2: "held f c st2" for g st2
  proof -
    have "l = LOCK_ERROR" if "get_exclusive_lock d f (br_locks st2) = Returned (l, locks)" for l locks
    proof -
      have "user_id d \<noteq> 0" using that by (auto simp: get_exclusive_lock_def guard_assert_def split: if_splits)
      then show ?thesis using file_lock.rival_call[of f c "br_locks st2" "Acquire d"] h2 assms(2) that
        by (simp add: held_def)
    qed
    then show ?thesis
      using held_lock_call[OF h2, of g "Acquire d"] assms(2) by (auto simp: ends_def lock_codes)
  qed
  show ?thesis
    unfolding delete_file_def Pair prod.case
    apply (rule ends_bind[OF held_calls(1)[OF h]], clarify, intro ends_cases)
     apply simp
    apply (rule ends_bind[OF lock], assumption, clarify, intro ends_cases)
     apply (simp add: held_locks)
    apply (rule ends_bind[OF ends_any], clarify, rule held_delete_check)
    apply (auto simp: new_request_info_def not_less held_def u32_order.sorted_om_update split: if_splits)
    done
qed

lemma held_answers:
  assumes "held f c st"
  shows "ends (held f c) (read_response_handler rid ch k data st)"
    and "ends (held f c) (write_response_handler rid k st)"
    and "ends (held f c) (delete_response_handler n rid st)"
proof -
  show "ends (held f c) (read_response_handler rid ch k data st)" "ends (held f c) (write_response_handler rid k st)"
    using assms by (auto simp: read_response_handler_def write_response_handler_def Let_def
        split: option.split intro!: held_checks)
  show "ends (held f c) (delete_response_handler n rid st)"
    using assms by (auto simp: delete_response_handler_def split: option.split intro!: held_delete_check held_update)
      (auto simp: held_def)
qed

section \<open>Runs of the core\<close>

text \<open>The events that could hand the lock of \<open>c\<close> on come from clients of other users or hosts.\<close>

fun rival_event :: "client \<Rightarrow> core_event \<Rightarrow> bool" where
  "rival_event c (Open_Event p flags d) = other_owner c d"
| "rival_event c (Close_Event fd d) = other_owner c d"
| "rival_event c (Delete_Event p d) = other_owner c d"
| "rival_event c _ = True"

lemma held_step:
  "held f c st \<Longrightarrow> rival_event c x \<Longrightarrow> ends (held f c) (core_step net n junk time x st)"
  by (cases x)
    (simp_all add: held_open held_close held_read_file held_write_file held_delete held_seek held_report held_answers)

lemma held_run:
  assumes "\<forall>(net, n, junk, time, x) \<in> set es. rival_event c x"
  shows "held f c st \<Longrightarrow> ends (held f c) (run_handlers (\<lambda>(net, n, junk, time, x). core_step net n junk time x) es st)"
  using assms
proof (induction es arbitrary: st)
  case (Cons e es)
  obtain net n junk time x where e: "e = (net, n, junk, time, x)" by (cases e)
  have "ends (held f c) (core_step net n junk time x st)"
    using Cons.prems by (auto simp: e intro!: held_step)
  then show ?case using Cons.IH Cons.prems(2) by (auto simp: e intro: ends_bind)
qed simp

text \<open>
  C10: a writer keeps its file. While a client has the exclusive lock of a file that is not being deleted,
  the lock stays with it over every run of the core, each step with a network of its own: all clients
  read, write, seek and ask for reports, clients of other users or hosts open, close and delete any path,
  the answers of the nodes come in any order, also those of deletions of other files. Only an open, a
  close or a delete by a process of the same user on the same host can end it.
\<close>

theorem writer_keeps_file:
  assumes "has_exclusive_lock c f (br_locks st) = Returned 1"
    and "oc_sorted (<) UNIV fst (br_deletes st)" "\<forall>r q. om_find (<) r (br_deletes st) = Some q \<longrightarrow> rq_file_id q \<noteq> f"
    and "\<forall>(net, n, junk, time, x) \<in> set es. rival_event c x"
    and "run_handlers (\<lambda>(net, n, junk, time, x). core_step net n junk time x) es st = Returned st'"
  shows "has_exclusive_lock c f (br_locks st') = Returned 1"
proof -
  have "held f c st" using assms(1-3) by (simp add: held_def holds_exclusive_def)
  from endsD[OF held_run[OF assms(4) this] assms(5)] show ?thesis
    by (simp add: held_def holds_exclusive_def)
qed

lemma writer_keeps_file_witness:
  "\<exists>st'. run_handlers (\<lambda>(net, n, junk, time, x). core_step net n junk time x)
      [(good_net, 20, demo_stat, (0, 0), Close_Event 1 (demo_client 8 6)),
       (good_net, 20, demo_stat, (1, 0), Open_Event ''/a'' 2 (demo_client 8 6))] demo_open = Returned st' \<and>
    has_exclusive_lock demo_writer 1 (br_locks st') = Returned 1"
    (is "\<exists>st'. run_handlers ?h ?es _ = _ \<and> _")
proof -
  have "cursor_find 1 (br_vm demo_open) = Some demo_inst" "fi_client_id demo_inst = demo_writer"
    using demo_open_at_work by (simp_all add: at_work_def)
  then have "core_close_file_cursor 1 (demo_client 8 6) demo_open = (WRONG_CLIENT, demo_open)"
    by (simp add: core_close_file_cursor_def close_file_cursor_def client_eq_def ip_eq_def)
  then have "close_file 1 (demo_client 8 6) demo_open =
      Returned (send_reply (Close_Result (demo_client 8 6) WRONG_CLIENT) demo_open)"
    by (simp add: close_file_def WRONG_CLIENT_def)
  moreover have "holds_exclusive 1 demo_writer (br_locks demo_open)" "at_rest demo_open"
    "pmeta_view (br_pm demo_open) ''/a'' = Some demo_info"
    using demo_open_facts(1) demo_open_at_work by (simp_all add: holds_exclusive_def at_work_def at_rest_def)
  then have "\<exists>st'. open_file demo_stat (1, 0) ''/a'' 2 (demo_client 8 6)
      (send_reply (Close_Result (demo_client 8 6) WRONG_CLIENT) demo_open) = Returned st'"
    using attempts_refused[of "send_reply (Close_Result (demo_client 8 6) WRONG_CLIENT) demo_open" "''/a''" demo_info
      demo_writer "[(demo_client 8 6, 2)]" demo_stat "(1, 0)"]
    by (auto simp: at_rest_def other_owner_def attempt_def)
  ultimately obtain st' where run: "run_handlers ?h ?es demo_open = Returned st'" by auto
  have d: "br_deletes demo_open = []" by (simp add: demo_open_def new_barista_def)
  have "has_exclusive_lock demo_writer 1 (br_locks st') = Returned 1"
    by (rule writer_keeps_file[OF demo_open_facts(1) _ _ _ run])
      (simp_all add: d oc_sorted_def other_owner_def u32_order.om_find_map_of)
  with run show ?thesis by blast
qed

end
