(* ===== verification/Spec2Isabelle.thy ===== *)
theory Spec2Isabelle
  imports File_Session Fuse Startup Barista_Calls Barista_Exclusion
begin

text \<open>
  DecaFS is a distributed file system. Clients (the library \<open>src/src/lib/network_core/decafs_client.cpp\<close>)
  talk to one \<open>barista\<close>, which keeps the metadata and cuts files into stripes and chunks; the chunks
  and their replicas lie on \<open>espresso\<close> nodes. A request travels client library, packet, barista
  server, barista core, I/O manager, packet, espresso node, chunk store, and the answer travels back.

  \<^bold>\<open>Conventions\<close> (\<open>Prelude\<close>). \<open>uint32_t\<close> is \<open>32 word\<close>, \<open>int\<close> is \<open>int\<close>, \<open>size_t\<close> is \<open>nat\<close>; a failed
  \<open>assert\<close> is \<open>Aborted\<close>, behaviour that C++ or POSIX leaves open is \<open>Unspecified\<close>, and a loop that has
  not ended within its number of iterations is \<open>Running\<close>. Theorems about loops state that the loop
  returns for every number of iterations above a bound that they name; the retries of a write or read
  to a node that stops answering are shown to be \<open>Running\<close> for every number.

  \<^bold>\<open>Foundations.\<close> \<open>Ordered_Containers\<close> holds \<open>std::map\<close> and \<open>std::set\<close> as sorted lists with the
  comparator as an argument; the locale \<open>strict_weak_order\<close> is what the standard asks of a
  comparator, \<open>strict_total_order\<close> adds that equivalent keys are equal and gives the contract
  \<open>key_value_store\<close>. \<open>Decafs_Types\<close> has the records of \<open>src/src/lib/decafs_types\<close> with their comparison
  operators as written, and interprets the locales on them; \<open>file_chunk_less\<close> compares
  a file id with a stripe number, as \<open>file_chunk::operator<\<close> does, and is a total order only on a chunk
  window (\<open>chunk_window\<close>): for each file one stripe number up to the file's id and one above it. Two
  stripes up to the id are shown to share one entry of the chunk maps, and two above it are each less
  than the other, which \<open>std::map\<close> leaves undefined. So a transfer, deletion or report is shown correct
  for ranges and chunk maps in a window (\<open>in_window\<close>, \<open>maps_ok\<close>): inside one stripe, or over the border
  between the stripe whose number is the file's id and the next one; from the start of a file this is
  stripe 1, and stripes 1 and 2 of the file with id 1.
  \<open>Segments\<close> is the arithmetic of cutting a range at multiples of a size.

  \<^bold>\<open>The espresso node.\<close> \<open>Extents\<close> is the free list of \<open>espresso_storage.cc\<close> (\<open>allocate_chunk\<close>,
  \<open>deallocate_chunk\<close>, \<open>reallocate_chunk\<close>) with the locale \<open>extent_allocator\<close>; \<open>Espresso_Storage\<close> adds the
  chunk table, the data file (\<open>espresso_data.cc\<close>) and the chunk operations. Two paths of these have no
  defined outcome (\<open>Unspecified\<close>): \<open>deallocate_chunk\<close> steps back an iterator it has erased when free space
  follows the extent, and \<open>write_chunk\<close> reads beyond the old contents when a chunk has been made larger.
  Shown: exactly which writes and deletions are defined, and what they do; the chunks and the free
  extents partition the volume in every state reached by defined operations; a defined write of a chunk
  is a write to a partial map of bytes, and no write makes a chunk larger; reading gives what was
  written; a chunk that was written into a larger free extent can neither be deleted nor made larger
  with a defined outcome. \<open>Espresso_Node\<close> is \<open>espresso_client.cpp\<close> and \<open>espresso_packet_processor.cpp\<close>: the handling
  of the requests, with the round trip of data through packets and store. \<open>Node_Restart\<close> is the start of
  a node from its persistent table and its persistent set of free extents (\<open>espresso_state.cc\<close>) and shows
  that extents in use are free again after it.

  \<^bold>\<open>Metadata and locks.\<close> \<open>Locking\<close> is \<open>locking_strategy.cc\<close>, with the locale \<open>exclusive_lock\<close>
  interpreted for file locks and for the metadata lock. \<open>Persistent_Metadata\<close> and \<open>Volatile_Metadata\<close>
  are the classes of these names: functional behaviour of every operation, errors included,
  invariants, fresh ids, cursors within the file.

  \<^bold>\<open>Stripes.\<close> \<open>IO_Manager\<close> is \<open>io_manager.cpp\<close> with the strategies for distribution, replication and
  access. The network is an argument of the loops, a function from the log of requests and a request
  to an outcome, so each theorem names what it needs of the nodes. Shown: a stripe write sends every
  byte once to the node and once to the replica of its chunk, a stripe read survives the failure of
  one node, a deletion asks each node once. \<open>Storage_Stat\<close> is the storage report.

  \<^bold>\<open>Barista core.\<close> \<open>Barista_State\<close> holds the state of \<open>barista_core.cpp\<close> and the wrappers that take the
  metadata lock, \<open>Barista_Core\<close> the handlers. \<open>Barista_Requests\<close> shows that answers in any order
  complete a request exactly once; \<open>Barista_Open\<close> that a file has one
  writer, that opening creates files and that seeks stay inside them; \<open>Barista_Delete\<close>, \<open>Barista_Transfer\<close> and \<open>Barista_Read\<close> compose
  handlers, I/O manager and answers into the correctness of delete, write and read.
  \<open>Barista_Invariant\<close> takes every handler as an event of a state machine and shows what holds in all
  of its reachable states. \<open>Barista_Exclusion\<close> carries the exclusive lock of a writer over every run
  of these events, and \<open>Barista_Placement\<close> shows that in all of their states the two copies of a chunk
  are on different nodes. \<open>Barista_Calls\<close> has the functions that the core offers to the other modules
  and the node handlers of \<open>monitored_strategy.cpp\<close>, with the locale \<open>node_tracking\<close> for strategies
  that keep an account of the nodes, interpreted on the handlers of the repository and on handlers
  that keep a list. The first stripe and chunk of a request, found by counting up, are shown to be
  those of a division.

  \<^bold>\<open>Network.\<close> \<open>Wire\<close> is the header and the fields of a packet as bytes, \<open>Packets\<close> every packet class,
  \<open>Packet_Print\<close> what their \<open>print\<close> functions write, \<open>Directory_Listing\<close> the packet of a listing;
  \<open>Messages\<close> the dispatch on the flag, with the locale \<open>packet_stream\<close> for a sequence of packets on a
  connection, interpreted for both directions. \<open>Barista_Server\<close> is \<open>barista_server.cpp\<close>: the tables of
  connections and the composition of dispatch, core and replies, as a state machine whose reachable
  states keep the tables and the nodes that are up in agreement. \<open>Decafs_Client\<close> is the client
  library, composed with the server, and \<open>Fuse\<close> the callbacks of \<open>decafs_fuse.cc\<close> over it, with what a
  mounted file system asks of the barista; \<open>delete_file\<close>, which the client library lacks, is an argument. \<open>Tcp\<close> is the accept and receive loop, with the locale
  \<open>server_callbacks\<close> interpreted on the barista server; descriptors are unsigned as in the code, so
  the errors of \<open>socket\<close> and \<open>accept\<close> are not noticed, and the end of a connection, after which an erased
  iterator is incremented, has no defined outcome. \<open>Startup\<close> is the way both servers start from
  their command lines (\<open>decafs_barista.cpp\<close>, \<open>espresso_core.cc\<close>) and their data files, down to \<open>atoi\<close>.

  \<^bold>\<open>The whole.\<close> \<open>Cluster\<close> puts the core and the nodes together: the requests of a write are served by the
  stores of the nodes through the packets, and a later read of the same range, with one node not
  answering and the answers in any order, gives the client the bytes that were written. A deletion,
  served the same way, takes the chunks that the maps list for the file from their nodes and nothing
  else. Both speak of runs in which the stores have a defined outcome. \<open>File_Bytes\<close> gives
  every byte of a file its place on the nodes, and \<open>File_Session\<close> carries this over any sequence of calls
  of a client: the cluster refines an array of bytes with a cursor (\<open>afile\<close>, \<open>file_op_step\<close>), from the
  creation of a file on. The array describes writes that start at or before its end and reads that end
  at or before it (or start at the end of the file); the nodes must store what writes send them, so
  chunks are written once at their full extent or within it; what the code counts as the size of a file also counts bytes that were overwritten,
  so the array has a size of its own. A session covers up to \<open>limit\<close> bytes, whose chunks the chunk maps
  keep apart (\<open>session_room\<close>): those of stripe 1, or of stripes 1 and 2 for the file with id 1. Every call
  within these limits is shown to get its answer, on every network with the faults allowed and for every
  order of the answers, unless the nodes cannot store what a write sends.

  \<^bold>\<open>Persistent containers.\<close> \<open>Persistent_Stl\<close> is \<open>persistent_map.h\<close>, \<open>Persistent_Iterators\<close> its
  iterators and \<open>Persistent_Set\<close> \<open>persistent_set.h\<close>. The other
  theories use ordered maps where the code uses these containers, which a
  refinement justifies for one run in which the mapping stays at its address. Across a restart it does
  not hold: erased entries come back, a reopened map overwrites entries, and growth leaves entries at
  the old address.

  \<^bold>\<open>Bounds.\<close> Lengths of packets are below the sizes at which a signed 32-bit size would overflow; file
  ranges of the transfer theorems stay below \<open>2^31\<close>. The iteration arguments of stripe loops count
  loop iterations: one for each chunk or stripe and one more for each retry.

  \<^bold>\<open>Not modelled.\<close> System calls other than through the arguments named above; functions with empty
  bodies (\<open>move_chunk\<close>, \<open>decafs_stat\<close>, the stat functions of the I/O manager, \<open>monitor_func\<close>); the hinted
  insertion and the range erasure of persistent maps and \<open>delete_file_packet.cpp\<close>, which do not compile
  when they are used; the interactive and scripted test programs under \<open>src/src/app\<close>; \<open>network_core_old\<close>, which is generated
  and not linked.
\<close>

end
